(* ===== verification/Prelude.thy ===== *)
theory Prelude
  imports Main "HOL-Library.Word" "HOL-Library.Char_ord" "HOL-Library.List_Lexorder"
    "HOL-Library.Multiset"
begin

text \<open>
  Shared vocabulary of the development: Rust's \<open>Result\<close> as a sum type with its combinators,
  \<open>u64\<close> and \<open>i64\<close> values as 64-bit words, \<open>std::cmp::Ordering\<close> with the comparators built
  from it, the stable sort of \<open>slice::sort_by\<close>, and the generic lemmas on them that every
  component uses.  A Rust string is the list of its UTF-8 bytes (a HOL character is one byte), so
  \<open>length\<close> is \<open>str::len\<close>, and byte-wise comparison is the library's lexicographic order.
\<close>

section \<open>Hint collections\<close>

named_theorems yields_intros \<open>introduction rules for guarantees of fallible computations\<close>
named_theorems result_simps \<open>inversion rules for the combinators on results\<close>
named_theorems cmp_intros \<open>closure rules for comparators\<close>

section \<open>Machine integers\<close>

type_synonym u64 = "64 word"

abbreviation i64_max :: u64 where
  "i64_max \<equiv> 0x7FFFFFFFFFFFFFFF"

text \<open>\<open>u64::checked_add(1)\<close>.\<close>

definition checked_inc :: "u64 \<Rightarrow> u64 option" where
  "checked_inc w = (if w = - 1 then None else Some (w + 1))"

lemma checked_inc_Some_iff:
  "checked_inc w = Some v \<longleftrightarrow> v = w + 1 \<and> unat v = unat w + 1"
proof (cases "w = - 1")
  case True
  then show ?thesis by (auto simp: checked_inc_def)
next
  case False
  then have "unat (w + 1) = unat w + 1"
    by (metis Suc_eq_plus1 add.commute add.right_inverse add_left_cancel unatSuc)
  with False show ?thesis by (auto simp: checked_inc_def)
qed

section \<open>Results\<close>

text \<open>\<open>Result<'a, 'e>\<close> is \<open>'e + 'a\<close>: \<open>Inl\<close> is \<open>Err\<close>, \<open>Inr\<close> is \<open>Ok\<close>.\<close>

fun and_then :: "'e + 'a \<Rightarrow> ('a \<Rightarrow> 'e + 'b) \<Rightarrow> 'e + 'b" where
  "and_then (Inl e) f = Inl e"
| "and_then (Inr x) f = f x"

fun map_err :: "('e \<Rightarrow> 'f) \<Rightarrow> 'e + 'a \<Rightarrow> 'f + 'a" where
  "map_err g (Inl e) = Inl (g e)"
| "map_err g (Inr x) = Inr x"

fun ok_or :: "'a option \<Rightarrow> 'e \<Rightarrow> 'e + 'a" where
  "ok_or None e = Inl e"
| "ok_or (Some x) e = Inr x"

text \<open>\<open>if c { return Err(e) }\<close>.\<close>

definition ensure :: "bool \<Rightarrow> 'e \<Rightarrow> 'e + unit" where
  "ensure c e = (if c then Inr () else Inl e)"

text \<open>\<open>iter.map(f).collect::<Result<Vec<_>, _>>()\<close>: stops at the first error.\<close>

fun collect :: "('a \<Rightarrow> 'e + 'b) \<Rightarrow> 'a list \<Rightarrow> 'e + 'b list" where
  "collect f [] = Inr []"
| "collect f (x # xs) = and_then (f x) (\<lambda>y. and_then (collect f xs) (\<lambda>ys. Inr (y # ys)))"

text \<open>A loop that returns at the first error.\<close>

fun try_each :: "('a \<Rightarrow> 'e + unit) \<Rightarrow> 'a list \<Rightarrow> 'e + unit" where
  "try_each f [] = Inr ()"
| "try_each f (x # xs) = and_then (f x) (\<lambda>_. try_each f xs)"

text \<open>A loop that updates a state and returns at the first error.\<close>

fun try_fold :: "('a \<Rightarrow> 's \<Rightarrow> 'e + 's) \<Rightarrow> 'a list \<Rightarrow> 's \<Rightarrow> 'e + 's" where
  "try_fold f [] s = Inr s"
| "try_fold f (x # xs) s = and_then (f x s) (try_fold f xs)"

definition is_ok :: "'e + 'a \<Rightarrow> bool" where
  "is_ok r = (case r of Inl _ \<Rightarrow> False | Inr _ \<Rightarrow> True)"

lemma and_then_Inr_iff [result_simps]:
  "and_then m f = Inr y \<longleftrightarrow> (\<exists>x. m = Inr x \<and> f x = Inr y)"
  by (cases m) auto

lemma and_then_Inl_iff [result_simps]:
  "and_then m f = Inl e \<longleftrightarrow> m = Inl e \<or> (\<exists>x. m = Inr x \<and> f x = Inl e)"
  by (cases m) auto

lemma and_then_cong [fundef_cong]:
  "m = n \<Longrightarrow> (\<And>x. n = Inr x \<Longrightarrow> f x = g x) \<Longrightarrow> and_then m f = and_then n g"
  by (cases n) auto

lemma map_err_iffs [result_simps]:
  "map_err g m = Inr y \<longleftrightarrow> m = Inr y"
  "map_err g m = Inl e \<longleftrightarrow> (\<exists>d. m = Inl d \<and> e = g d)"
  by (cases m; auto)+

lemma ok_or_iffs [result_simps]:
  "ok_or x e = Inr y \<longleftrightarrow> x = Some y"
  "ok_or x e = Inl d \<longleftrightarrow> x = None \<and> d = e"
  by (cases x; auto)+

lemma ensure_iffs [result_simps]:
  "ensure c e = Inr u \<longleftrightarrow> c"
  "ensure c e = Inl d \<longleftrightarrow> \<not> c \<and> d = e"
  by (auto simp: ensure_def)

lemma is_ok_iff: "is_ok r \<longleftrightarrow> (\<exists>x. r = Inr x)"
  by (cases r) (auto simp: is_ok_def)

lemma try_each_Inr_iff [result_simps]: "try_each f xs = Inr u \<longleftrightarrow> (\<forall>x \<in> set xs. f x = Inr ())"
  by (induction xs) (auto simp: result_simps)

lemma try_fold_invariant:
  assumes "try_fold f xs s = Inr t" and "P s"
    and "\<And>x s t. x \<in> set xs \<Longrightarrow> P s \<Longrightarrow> f x s = Inr t \<Longrightarrow> P t"
  shows "P t"
  using assms by (induction xs arbitrary: s) (auto simp: result_simps)

lemma collect_Inr_iff [result_simps]:
  "collect f xs = Inr ys \<longleftrightarrow> list_all2 (\<lambda>x y. f x = Inr y) xs ys"
proof (induction xs arbitrary: ys)
  case Nil
  show ?case by auto
next
  case (Cons x xs)
  show ?case by (cases ys) (auto simp: result_simps Cons.IH)
qed

lemma collected_ex:
  "list_all2 (\<lambda>x y. f x = Inr y) xs ys \<Longrightarrow>
    (\<exists>y \<in> set ys. P y) \<longleftrightarrow> (\<exists>x \<in> set xs. \<exists>y. f x = Inr y \<and> P y)"
  by (induction rule: list_all2_induct) auto

lemma collect_map: "collect f (map g xs) = collect (\<lambda>x. f (g x)) xs"
  by (induction xs) auto

lemma collect_total: "\<forall>x \<in> set xs. \<exists>y. f x = Inr y \<Longrightarrow> \<exists>ys. collect f xs = Inr ys"
  by (induction xs) auto

lemma collect_Inr_length: "collect f xs = Inr ys \<Longrightarrow> length ys = length xs"
  by (auto simp: result_simps dest: list_all2_lengthD)

text \<open>
  What a fallible computation guarantees when it succeeds, with one introduction rule per
  construct, so that a guarantee is proved along the structure of the code.
\<close>

definition yields :: "('a \<Rightarrow> bool) \<Rightarrow> 'e + 'a \<Rightarrow> bool" where
  "yields P r \<longleftrightarrow> (\<forall>x. r = Inr x \<longrightarrow> P x)"

lemma yieldsD: "yields P r \<Longrightarrow> r = Inr x \<Longrightarrow> P x"
  by (simp add: yields_def)

lemma yields_assumed: "(\<And>x. r = Inr x \<Longrightarrow> P x) \<Longrightarrow> yields P r"
  by (simp add: yields_def)

lemma yields_results [yields_intros]: "P x \<Longrightarrow> yields P (Inr x)" "yields P (Inl e)"
  by (simp_all add: yields_def)

lemma yields_and_then [yields_intros]:
  "(\<And>x. m = Inr x \<Longrightarrow> yields P (f x)) \<Longrightarrow> yields P (and_then m f)"
  by (auto simp: yields_def result_simps)

lemma yields_if [yields_intros]:
  "(c \<Longrightarrow> yields P r) \<Longrightarrow> (\<not> c \<Longrightarrow> yields P s) \<Longrightarrow> yields P (if c then r else s)"
  by simp

lemma yields_option [yields_intros]:
  "(x = None \<Longrightarrow> yields P r) \<Longrightarrow> (\<And>y. x = Some y \<Longrightarrow> yields P (s y)) \<Longrightarrow>
    yields P (case x of None \<Rightarrow> r | Some y \<Rightarrow> s y)"
  by (cases x) simp_all

lemma yields_prod [yields_intros]:
  "(\<And>a b. p = (a, b) \<Longrightarrow> yields P (f a b)) \<Longrightarrow> yields P (case p of (a, b) \<Rightarrow> f a b)"
  by (cases p) simp

lemma yields_let [yields_intros]: "(\<And>y. y = x \<Longrightarrow> yields P (f y)) \<Longrightarrow> yields P (let y = x in f y)"
  by simp

section \<open>Orderings and comparators\<close>

datatype ordering = Less | Equal | Greater

fun reverse_ordering :: "ordering \<Rightarrow> ordering" where
  "reverse_ordering Less = Greater"
| "reverse_ordering Equal = Equal"
| "reverse_ordering Greater = Less"

lemma reverse_ordering_inject [simp]: "reverse_ordering a = reverse_ordering b \<longleftrightarrow> a = b"
  by (cases a; cases b) simp_all

text \<open>\<open>Ordering::then_with\<close>.\<close>

definition then_with :: "ordering \<Rightarrow> ordering \<Rightarrow> ordering" where
  "then_with a b = (if a = Equal then b else a)"

text \<open>\<open>Ord::cmp\<close> of a type with a linear order.\<close>

definition cmp_of :: "'a::linorder \<Rightarrow> 'a \<Rightarrow> ordering" where
  "cmp_of x y = (if x < y then Less else if x = y then Equal else Greater)"

lemma cmp_of_iffs [simp]:
  "cmp_of x y = Less \<longleftrightarrow> x < y"
  "cmp_of x y = Equal \<longleftrightarrow> x = y"
  "cmp_of x y = Greater \<longleftrightarrow> y < x"
  by (auto simp: cmp_of_def)

lemma then_with_simps:
  "then_with Less b = Less" "then_with Equal b = b" "then_with Greater b = Greater"
  by (simp_all add: then_with_def)

lemma then_with_iffs:
  "then_with a b = Equal \<longleftrightarrow> a = Equal \<and> b = Equal"
  "then_with a b = Less \<longleftrightarrow> a = Less \<or> (a = Equal \<and> b = Less)"
  "then_with a b = Greater \<longleftrightarrow> a = Greater \<or> (a = Equal \<and> b = Greater)"
  by (auto simp: then_with_def)

text \<open>
  \<open>slice::sort_by\<close> is a stable sort by a comparator; insertion from the right keeps the order of
  elements that compare equal.
\<close>

fun insert_by :: "('a \<Rightarrow> 'a \<Rightarrow> ordering) \<Rightarrow> 'a \<Rightarrow> 'a list \<Rightarrow> 'a list" where
  "insert_by cmp x [] = [x]"
| "insert_by cmp x (y # ys) = (if cmp x y = Greater then y # insert_by cmp x ys else x # y # ys)"

definition sort_by :: "('a \<Rightarrow> 'a \<Rightarrow> ordering) \<Rightarrow> 'a list \<Rightarrow> 'a list" where
  "sort_by cmp xs = foldr (insert_by cmp) xs []"

lemma mset_insert_by [simp]: "mset (insert_by cmp x xs) = add_mset x (mset xs)"
  by (induction xs) auto

lemma set_insert_by [simp]: "set (insert_by cmp x xs) = insert x (set xs)"
  by (simp flip: set_mset_mset)

lemma sort_by_simps [simp]:
  "sort_by cmp [] = []"
  "sort_by cmp (x # xs) = insert_by cmp x (sort_by cmp xs)"
  by (simp_all add: sort_by_def)

lemma mset_sort_by [simp]: "mset (sort_by cmp xs) = mset xs"
  by (induction xs) auto

lemma set_sort_by [simp]: "set (sort_by cmp xs) = set xs"
  by (simp flip: set_mset_mset)

lemma length_sort_by [simp]: "length (sort_by cmp xs) = length xs"
  by (metis mset_sort_by size_mset)

lemma sort_by_Nil_iff [simp]: "sort_by cmp xs = [] \<longleftrightarrow> xs = []"
  by (metis length_0_conv length_sort_by)

text \<open>
  The contract a comparator has to meet: reversing the arguments reverses the answer, and
  "not greater" is transitive.  Nothing says that equal elements are the same: version precedence
  ignores build metadata.
\<close>

locale cmp_preorder =
  fixes cmp :: "'a \<Rightarrow> 'a \<Rightarrow> ordering"
  assumes cmp_swap: "cmp y x = reverse_ordering (cmp x y)"
    and cmp_le_trans: "cmp x y \<noteq> Greater \<Longrightarrow> cmp y z \<noteq> Greater \<Longrightarrow> cmp x z \<noteq> Greater"
begin

lemma cmp_refl [simp]: "cmp x x = Equal"
  using cmp_swap [of x x] by (cases "cmp x x") auto

lemma cmp_greater_iff: "cmp x y = Greater \<longleftrightarrow> cmp y x = Less"
  using cmp_swap [of y x] by (cases "cmp x y") simp_all

lemma cmp_equal_sym: "cmp x y = Equal \<longleftrightarrow> cmp y x = Equal"
  using cmp_swap [of y x] by (cases "cmp x y") simp_all

lemma cmp_total: "cmp x y = Greater \<Longrightarrow> cmp y x \<noteq> Greater"
  using cmp_swap [of y x] by (cases "cmp x y") simp_all

lemma cmp_equal_trans:
  assumes "cmp x y = Equal" and "cmp y z = Equal"
  shows "cmp x z = Equal"
proof -
  have "cmp x z \<noteq> Greater"
    using assms by (intro cmp_le_trans [of x y z]) auto
  moreover have "cmp z x \<noteq> Greater"
    using assms cmp_equal_sym [of z y] cmp_equal_sym [of y x]
    by (intro cmp_le_trans [of z y x]) simp_all
  ultimately show ?thesis
    using cmp_greater_iff [of z x] by (cases "cmp x z") auto
qed

lemma cmp_less_le_trans:
  assumes "cmp x y = Less" and "cmp y z \<noteq> Greater"
  shows "cmp x z = Less"
proof (rule ccontr)
  assume "cmp x z \<noteq> Less"
  then have "cmp z x \<noteq> Greater"
    using cmp_greater_iff [of z x] by simp
  with assms(2) have "cmp y x \<noteq> Greater"
    by (rule cmp_le_trans)
  with assms(1) show False
    using cmp_greater_iff [of y x] by simp
qed

lemma cmp_le_less_trans:
  assumes "cmp x y \<noteq> Greater" and "cmp y z = Less"
  shows "cmp x z = Less"
proof (rule ccontr)
  assume "cmp x z \<noteq> Less"
  then have "cmp z x \<noteq> Greater"
    using cmp_greater_iff [of z x] by simp
  then have "cmp z y \<noteq> Greater"
    using assms(1) by (rule cmp_le_trans)
  with assms(2) show False
    using cmp_greater_iff [of z y] by simp
qed

lemma cmp_equal_left:
  assumes "cmp x y = Equal"
  shows "cmp x z = cmp y z"
proof (cases "cmp y z")
  case Less
  then show ?thesis
    using assms cmp_le_less_trans [of x y z] by simp
next
  case Equal
  then show ?thesis
    using assms cmp_equal_trans [of x y z] by simp
next
  case Greater
  then have "cmp z y = Less"
    using cmp_greater_iff by simp
  moreover have "cmp y x \<noteq> Greater"
    using assms cmp_equal_sym [of y x] by simp
  ultimately have "cmp z x = Less"
    by (rule cmp_less_le_trans)
  then show ?thesis
    using Greater cmp_greater_iff [of x z] by simp
qed

lemma cmp_equal_right: "cmp x y = Equal \<Longrightarrow> cmp z x = cmp z y"
  using cmp_equal_left [of x y z] cmp_swap [of x z] cmp_swap [of y z] by simp

lemma insert_by_sorted:
  "sorted_wrt (\<lambda>a b. cmp a b \<noteq> Greater) xs \<Longrightarrow>
    sorted_wrt (\<lambda>a b. cmp a b \<noteq> Greater) (insert_by cmp x xs)"
proof (induction xs)
  case (Cons y ys)
  show ?case
  proof (cases "cmp x y = Greater")
    case True
    then show ?thesis
      using Cons cmp_total by simp
  next
    case False
    then have "\<forall>z \<in> set ys. cmp x z \<noteq> Greater"
      using Cons.prems cmp_le_trans [of x y] by simp
    then show ?thesis
      using Cons.prems False by simp
  qed
qed simp

lemma sort_by_sorted: "sorted_wrt (\<lambda>a b. cmp a b \<noteq> Greater) (sort_by cmp xs)"
  by (induction xs) (auto intro: insert_by_sorted)

lemma sorted_perm_unique:
  assumes "sorted_wrt (\<lambda>a b. cmp a b \<noteq> Greater) xs"
    and "sorted_wrt (\<lambda>a b. cmp a b \<noteq> Greater) ys"
    and "mset xs = mset ys"
    and "\<And>a b. a \<in> set xs \<Longrightarrow> b \<in> set xs \<Longrightarrow> cmp a b = Equal \<Longrightarrow> a = b"
  shows "xs = ys"
  using assms
proof (induction xs arbitrary: ys)
  case Nil
  then show ?case by simp
next
  case (Cons x xs)
  from Cons.prems(3) obtain y zs where ys: "ys = y # zs"
    by (cases ys) auto
  have set_eq: "set (x # xs) = set (y # zs)"
    using Cons.prems(3) ys by (metis set_mset_mset)
  have "cmp x y \<noteq> Greater" if "y \<noteq> x"
    using Cons.prems(1) set_eq that by auto
  then have "cmp x y \<noteq> Greater"
    by (cases "y = x") simp_all
  moreover have "cmp y x \<noteq> Greater" if "y \<noteq> x"
    using Cons.prems(2) ys set_eq that by auto
  then have "cmp y x \<noteq> Greater"
    by (cases "y = x") simp_all
  ultimately have "cmp x y = Equal"
    using cmp_greater_iff [of y x] by (cases "cmp x y") auto
  moreover have "y \<in> set (x # xs)"
    using set_eq by simp
  ultimately have xy: "x = y"
    using Cons.prems(4) by auto
  have "xs = zs"
    using Cons.prems ys xy by (intro Cons.IH) auto
  with ys xy show ?case by simp
qed

text \<open>Sorting forgets the input order as soon as equal elements are identical.\<close>

lemma sort_by_perm:
  assumes "mset xs = mset ys"
    and "\<And>a b. a \<in> set xs \<Longrightarrow> b \<in> set xs \<Longrightarrow> cmp a b = Equal \<Longrightarrow> a = b"
  shows "sort_by cmp xs = sort_by cmp ys"
  using assms by (intro sorted_perm_unique sort_by_sorted) auto

end

lemma cmp_of_preorder [cmp_intros]: "cmp_preorder (cmp_of :: 'a::linorder \<Rightarrow> _)"
proof
  fix x y z :: 'a
  show "cmp_of y x = reverse_ordering (cmp_of x y)"
    by (auto simp: cmp_of_def)
  show "cmp_of x y \<noteq> Greater \<Longrightarrow> cmp_of y z \<noteq> Greater \<Longrightarrow> cmp_of x z \<noteq> Greater"
    by auto
qed

interpretation native_cmp: cmp_preorder "cmp_of :: 'a::linorder \<Rightarrow> 'a \<Rightarrow> ordering"
  by (rule cmp_of_preorder)

lemma cmp_preorder_on [cmp_intros]: "cmp_preorder c \<Longrightarrow> cmp_preorder (\<lambda>x y. c (f x) (f y))"
  unfolding cmp_preorder_def by blast

lemma cmp_preorder_flip [cmp_intros]:
  assumes "cmp_preorder c"
  shows "cmp_preorder (\<lambda>x y. c y x)"
proof -
  note swap = cmp_preorder.cmp_swap [OF assms] and trans = cmp_preorder.cmp_le_trans [OF assms]
  show ?thesis
    by unfold_locales (use swap trans in blast)+
qed

lemma cmp_preorder_then [cmp_intros]:
  assumes "cmp_preorder c" and "cmp_preorder d"
  shows "cmp_preorder (\<lambda>x y. then_with (c x y) (d x y))"
proof
  note c = cmp_preorder.cmp_swap [OF assms(1)] and d = cmp_preorder.cmp_swap [OF assms(2)]
  fix x y z
  show "then_with (c y x) (d y x) = reverse_ordering (then_with (c x y) (d x y))"
    using c [of y x] d [of y x] by (cases "c x y"; cases "d x y") (auto simp: then_with_def)
  assume xy: "then_with (c x y) (d x y) \<noteq> Greater" and yz: "then_with (c y z) (d y z) \<noteq> Greater"
  have cxy: "c x y \<noteq> Greater" and cyz: "c y z \<noteq> Greater"
    using xy yz by (auto simp: then_with_iffs)
  show "then_with (c x z) (d x z) \<noteq> Greater"
  proof (cases "c x y = Equal \<and> c y z = Equal")
    case True
    then have "c x z = Equal"
      using cmp_preorder.cmp_equal_trans [OF assms(1)] by blast
    moreover have "d x z \<noteq> Greater"
      using True xy yz cmp_preorder.cmp_le_trans [OF assms(2)] by (auto simp: then_with_iffs)
    ultimately show ?thesis by (simp add: then_with_def)
  next
    case False
    then have "c x z = Less"
      using cxy cyz cmp_preorder.cmp_less_le_trans [OF assms(1)]
        cmp_preorder.cmp_le_less_trans [OF assms(1)]
      by (metis ordering.exhaust)
    then show ?thesis by (simp add: then_with_def)
  qed
qed

section \<open>Lists\<close>

lemma list_all2_in_right: "list_all2 P xs ys \<Longrightarrow> y \<in> set ys \<Longrightarrow> \<exists>x \<in> set xs. P x y"
  by (induction rule: list_all2_induct) auto

lemma find_Some_set: "find P xs = Some x \<Longrightarrow> x \<in> set xs \<and> P x"
  by (auto simp: find_Some_iff)

lemma find_cong_set: "(\<And>x. x \<in> set xs \<Longrightarrow> P x = Q x) \<Longrightarrow> find P xs = find Q xs"
  by (induction xs) auto

lemma last_map_nonempty: "xs \<noteq> [] \<Longrightarrow> last (map f xs) = f (last xs)"
  by (simp add: last_map)

end
