(* ===== verification/RustStrings.thy ===== *)
theory RustStrings
  imports Prelude
begin

text \<open>
  The parts of \<open>str\<close> the components use, on the UTF-8 bytes of a string: character classes,
  \<open>split\<close>, \<open>split_once\<close>, \<open>trim\<close>, \<open>split_ascii_whitespace\<close>, \<open>strip_prefix\<close>, \<open>join\<close> and
  \<open>u64::from_str\<close>.  \<open>char::is_control\<close> and \<open>char::is_whitespace\<close> are Unicode properties, so they
  are read off the UTF-8 encodings of the characters that have them.
\<close>

abbreviation byte :: "char \<Rightarrow> nat" where
  "byte \<equiv> of_char"

definition is_ascii_digit :: "char \<Rightarrow> bool" where
  "is_ascii_digit c \<longleftrightarrow> 48 \<le> byte c \<and> byte c \<le> (57 :: nat)"

definition is_ascii_alphabetic :: "char \<Rightarrow> bool" where
  "is_ascii_alphabetic c \<longleftrightarrow>
     (65 \<le> byte c \<and> byte c \<le> (90 :: nat)) \<or> (97 \<le> byte c \<and> byte c \<le> (122 :: nat))"

definition is_ascii_alphanumeric :: "char \<Rightarrow> bool" where
  "is_ascii_alphanumeric c \<longleftrightarrow> is_ascii_digit c \<or> is_ascii_alphabetic c"

definition is_ascii :: "string \<Rightarrow> bool" where
  "is_ascii s \<longleftrightarrow> list_all (\<lambda>c. byte c < (128 :: nat)) s"

text \<open>\<open>s.chars().any(char::is_control)\<close>: U+0000..U+001F, U+007F and U+0080..U+009F (\<open>C2 80\<close>..\<open>C2 9F\<close>).\<close>

fun any_control :: "string \<Rightarrow> bool" where
  "any_control [] = False"
| "any_control [c] = (byte c < (32 :: nat) \<or> byte c = (127 :: nat))"
| "any_control (c # d # s) =
     (byte c < (32 :: nat) \<or> byte c = (127 :: nat)
      \<or> (byte c = (0xC2 :: nat) \<and> 0x80 \<le> byte d \<and> byte d \<le> (0x9F :: nat))
      \<or> any_control (d # s))"

text \<open>The number of bytes of the white-space character a string starts with, 0 if there is none.\<close>

fun ws_prefix :: "nat list \<Rightarrow> nat" where
  "ws_prefix [] = 0"
| "ws_prefix [a] = (if (9 \<le> a \<and> a \<le> 13) \<or> a = 32 then 1 else 0)"
| "ws_prefix [a, b] =
     (if (9 \<le> a \<and> a \<le> 13) \<or> a = 32 then 1
      else if a = 0xC2 \<and> (b = 0x85 \<or> b = 0xA0) then 2 else 0)"
| "ws_prefix (a # b # c # s) =
     (if (9 \<le> a \<and> a \<le> 13) \<or> a = 32 then 1
      else if a = 0xC2 \<and> (b = 0x85 \<or> b = 0xA0) then 2
      else if a = 0xE1 \<and> b = 0x9A \<and> c = 0x80 then 3
      else if a = 0xE2 \<and> b = 0x80
        \<and> ((0x80 \<le> c \<and> c \<le> 0x8A) \<or> c = 0xA8 \<or> c = 0xA9 \<or> c = 0xAF) then 3
      else if a = 0xE2 \<and> b = 0x81 \<and> c = 0x9F then 3
      else if a = 0xE3 \<and> b = 0x80 \<and> c = 0x80 then 3 else 0)"

lemma ws_prefix_length: "ws_prefix s \<le> length s"
  by (cases s rule: ws_prefix.cases) auto

function trim_start :: "string \<Rightarrow> string" where
  "trim_start s = (let n = ws_prefix (map of_char s) in if n = 0 then s else trim_start (drop n s))"
  by pat_completeness auto
termination
  using ws_prefix_length by (relation "measure length") (auto dest: leD, metis diff_less
      gr0I le_zero_eq length_map)

declare trim_start.simps [simp del]

text \<open>The same from the end: the last one, two or three bytes are a white-space character.\<close>

definition ws_suffix :: "nat list \<Rightarrow> nat" where
  "ws_suffix s =
     (let n = length s in
      if 1 \<le> n \<and> ws_prefix (drop (n - 1) s) = 1 then 1
      else if 2 \<le> n \<and> ws_prefix (drop (n - 2) s) = 2 then 2
      else if 3 \<le> n \<and> ws_prefix (drop (n - 3) s) = 3 then 3 else 0)"

lemma ws_suffix_length: "ws_suffix s \<le> length s"
  by (auto simp: ws_suffix_def Let_def)

function trim_end :: "string \<Rightarrow> string" where
  "trim_end s = (let n = ws_suffix (map of_char s) in
     if n = 0 then s else trim_end (take (length s - n) s))"
  by pat_completeness auto
termination
  by (relation "measure length") (auto simp: Let_def, metis diff_less gr0I le_zero_eq length_map
      length_greater_0_conv list.size(3) ws_suffix_length)

declare trim_end.simps [simp del]

definition trim :: "string \<Rightarrow> string" where
  "trim s = trim_end (trim_start s)"

text \<open>\<open>str::split(char)\<close>: always at least one piece.\<close>

fun split_on :: "char \<Rightarrow> string \<Rightarrow> string list" where
  "split_on c [] = [[]]"
| "split_on c (d # s) =
     (if d = c then [] # split_on c s
      else case split_on c s of [] \<Rightarrow> [[d]] | p # ps \<Rightarrow> (d # p) # ps)"

text \<open>\<open>str::split("||")\<close>.\<close>

fun split_bars :: "string \<Rightarrow> string list" where
  "split_bars [] = [[]]"
| "split_bars [d] = [[d]]"
| "split_bars (d # e # s) =
     (if d = CHR ''|'' \<and> e = CHR ''|'' then [] # split_bars s
      else case split_bars (e # s) of [] \<Rightarrow> [[d]] | p # ps \<Rightarrow> (d # p) # ps)"

text \<open>\<open>str::split_once(char)\<close>.\<close>

fun split_once :: "char \<Rightarrow> string \<Rightarrow> (string \<times> string) option" where
  "split_once c [] = None"
| "split_once c (d # s) =
     (if d = c then Some ([], s) else map_option (\<lambda>(p, q). (d # p, q)) (split_once c s))"

definition is_ascii_whitespace :: "char \<Rightarrow> bool" where
  "is_ascii_whitespace c \<longleftrightarrow> byte c \<in> {9 :: nat, 10, 12, 13, 32}"

text \<open>\<open>str::split_ascii_whitespace\<close>: the non-empty pieces between ASCII white space.\<close>

fun split_ws_acc :: "string \<Rightarrow> string \<Rightarrow> string list" where
  "split_ws_acc acc [] = (if acc = [] then [] else [acc])"
| "split_ws_acc acc (c # s) =
     (if is_ascii_whitespace c
      then (if acc = [] then split_ws_acc [] s else acc # split_ws_acc [] s)
      else split_ws_acc (acc @ [c]) s)"

definition split_ascii_whitespace :: "string \<Rightarrow> string list" where
  "split_ascii_whitespace s = split_ws_acc [] s"

fun strip_prefix :: "string \<Rightarrow> string \<Rightarrow> string option" where
  "strip_prefix [] s = Some s"
| "strip_prefix (p # ps) [] = None"
| "strip_prefix (p # ps) (c # s) = (if p = c then strip_prefix ps s else None)"

text \<open>\<open>slice::join\<close>.\<close>

fun join :: "string \<Rightarrow> string list \<Rightarrow> string" where
  "join sep [] = []"
| "join sep [s] = s"
| "join sep (s # t # ts) = s @ sep @ join sep (t # ts)"

definition dec_value :: "string \<Rightarrow> nat" where
  "dec_value s = foldl (\<lambda>n c. 10 * n + (byte c - 48)) 0 s"

text \<open>\<open>u64::from_str\<close>: an optional plus sign, at least one digit, no overflow.\<close>

definition parse_u64 :: "string \<Rightarrow> u64 option" where
  "parse_u64 s =
     (let ds = (case s of [] \<Rightarrow> [] | c # cs \<Rightarrow> if c = CHR ''+'' then cs else s) in
      if ds = [] \<or> \<not> list_all is_ascii_digit ds then None
      else if dec_value ds < 2 ^ 64 then Some (word_of_nat (dec_value ds)) else None)"

text \<open>The decimal digits of a number, as \<open>Display\<close> prints it.\<close>

fun show_nat :: "nat \<Rightarrow> string" where
  "show_nat n =
     (if n < 10 then [char_of (48 + n)] else show_nat (n div 10) @ [char_of (48 + n mod 10)])"

declare show_nat.simps [simp del]

section \<open>Properties\<close>

lemma dec_value_snoc: "dec_value (s @ [c]) = 10 * dec_value s + (byte c - 48)"
  by (simp add: dec_value_def)

lemma dec_value_bound: "list_all is_ascii_digit s \<Longrightarrow> dec_value s < 10 ^ length s"
proof (induction s rule: rev_induct)
  case Nil
  show ?case by (simp add: dec_value_def)
next
  case (snoc c s)
  then have "dec_value s + 1 \<le> 10 ^ length s" and "byte c - 48 \<le> (9 :: nat)"
    by (auto simp: is_ascii_digit_def)
  then show ?case by (simp add: dec_value_snoc)
qed

text \<open>Nineteen digits always fit, so evaluation need not compute the bound.\<close>

lemma parse_u64_code [code]:
  "parse_u64 s =
     (let ds = (case s of [] \<Rightarrow> [] | c # cs \<Rightarrow> if c = CHR ''+'' then cs else s) in
      if ds = [] \<or> \<not> list_all is_ascii_digit ds then None
      else if length ds \<le> 19 \<or> dec_value ds < 2 ^ 64 then Some (word_of_nat (dec_value ds))
      else None)"
proof -
  have "dec_value ds < 2 ^ 64" if "list_all is_ascii_digit ds" "length ds \<le> 19" for ds
  proof -
    have "dec_value ds < 10 ^ length ds"
      using that(1) by (rule dec_value_bound)
    also have "\<dots> \<le> 10 ^ 19"
      using that(2) by (intro power_increasing) simp_all
    finally show ?thesis by simp
  qed
  then show ?thesis
    unfolding parse_u64_def Let_def by (intro if_cong refl) auto
qed

lemma is_ascii_digit_char_of: "d < 10 \<Longrightarrow> is_ascii_digit (char_of (48 + d :: nat))"
  by (simp add: is_ascii_digit_def)

lemma show_nat_digits: "show_nat n \<noteq> [] \<and> list_all is_ascii_digit (show_nat n)"
  by (induction n rule: show_nat.induct)
    (subst (1 2) show_nat.simps, auto simp: is_ascii_digit_char_of)

lemma dec_value_show_nat [simp]: "dec_value (show_nat n) = n"
proof (induction n rule: show_nat.induct)
  case (1 n)
  then show ?case
    by (subst show_nat.simps) (auto simp: dec_value_def)
qed

lemma show_nat_inject [simp]: "show_nat m = show_nat n \<longleftrightarrow> m = n"
  by (metis dec_value_show_nat)

lemma split_on_nonempty [simp]: "split_on c s \<noteq> []"
  by (cases s) (auto split: list.splits)

lemma split_on_hd: "split_on c s = p # ps \<Longrightarrow> p \<noteq> [] \<Longrightarrow> s \<noteq> [] \<and> hd s = hd p"
  by (cases s) (auto split: list.splits if_splits)

lemma split_on_chars: "d \<in> set s \<Longrightarrow> d = c \<or> (\<exists>p \<in> set (split_on c s). d \<in> set p)"
  by (induction c s rule: split_on.induct) (auto split: list.splits if_splits)

lemma split_bars_nonempty [simp]: "split_bars s \<noteq> []"
  by (cases s rule: split_bars.cases) (auto split: list.splits)

lemma strip_prefix_Some_iff: "strip_prefix p s = Some t \<longleftrightarrow> s = p @ t"
  by (induction p s rule: strip_prefix.induct) auto

lemma split_once_Some: "split_once c s = Some (p, q) \<Longrightarrow> s = p @ c # q \<and> c \<notin> set p"
  by (induction c s arbitrary: p rule: split_once.induct) (auto split: if_splits)

lemma split_once_append: "c \<notin> set p \<Longrightarrow> split_once c (p @ c # q) = Some (p, q)"
  by (induction p) auto

lemma split_ws_acc_nonempty: "t \<in> set (split_ws_acc acc s) \<Longrightarrow> t \<noteq> []"
  by (induction acc s rule: split_ws_acc.induct) (auto split: if_splits)

lemma split_ascii_whitespace_nonempty: "t \<in> set (split_ascii_whitespace s) \<Longrightarrow> t \<noteq> []"
  unfolding split_ascii_whitespace_def by (rule split_ws_acc_nonempty)

lemma split_ws_acc_chars:
  "t \<in> set (split_ws_acc acc s) \<Longrightarrow> c \<in> set t \<Longrightarrow> c \<in> set acc \<or> (c \<in> set s \<and> \<not> is_ascii_whitespace c)"
  by (induction acc s rule: split_ws_acc.induct) (auto split: if_splits)

lemma split_ascii_whitespace_chars:
  "t \<in> set (split_ascii_whitespace s) \<Longrightarrow> c \<in> set t \<Longrightarrow> c \<in> set s \<and> \<not> is_ascii_whitespace c"
  unfolding split_ascii_whitespace_def using split_ws_acc_chars by fastforce

lemma parse_u64_Some:
  "parse_u64 s = Some w \<Longrightarrow> list_all is_ascii_digit s \<Longrightarrow> unat w = dec_value s"
proof -
  assume a: "parse_u64 s = Some w" and d: "list_all is_ascii_digit s"
  have "case s of [] \<Rightarrow> True | c # cs \<Rightarrow> c \<noteq> CHR ''+''"
    using d by (auto simp: is_ascii_digit_def split: list.splits)
  then have "(case s of [] \<Rightarrow> [] | c # cs \<Rightarrow> if c = CHR ''+'' then cs else s) = s"
    by (cases s) auto
  then show ?thesis
    using a by (auto simp: parse_u64_def Let_def unat_of_nat take_bit_nat_eq_self split: if_splits)
qed

lemma dec_value_pos:
  "list_all is_ascii_digit s \<Longrightarrow> s \<noteq> [] \<Longrightarrow> hd s \<noteq> CHR ''0'' \<Longrightarrow> 0 < dec_value s"
proof (induction s rule: rev_induct)
  case (snoc c s)
  show ?case
  proof (cases "s = []")
    case True
    have "byte c = (48 :: nat) \<longleftrightarrow> c = CHR ''0''"
      using of_char_eq_iff [of c "CHR ''0''", where ?'a = nat] by simp
    then show ?thesis
      using snoc.prems True by (auto simp: dec_value_def is_ascii_digit_def)
  next
    case False
    then show ?thesis
      using snoc by (simp add: dec_value_snoc)
  qed
qed simp

text \<open>Without leading zeros the digits are the ones \<open>Display\<close> prints.\<close>

lemma show_nat_dec_value:
  "list_all is_ascii_digit s \<Longrightarrow> s \<noteq> [] \<Longrightarrow> length s = 1 \<or> hd s \<noteq> CHR ''0'' \<Longrightarrow>
    show_nat (dec_value s) = s"
proof (induction s rule: rev_induct)
  case (snoc c s)
  define d :: nat where "d = byte c - 48"
  have c: "byte c = 48 + d" "d < 10"
    using snoc.prems(1) by (auto simp: is_ascii_digit_def d_def)
  then have digit: "char_of (48 + d) = c"
    by (metis char_of_char)
  have total: "dec_value (s @ [c]) = 10 * dec_value s + d"
    by (simp add: dec_value_snoc c)
  show ?case
  proof (cases "s = []")
    case True
    then have "dec_value (s @ [c]) = d"
      using total by (simp add: dec_value_def)
    then show ?thesis
      using c digit True by (simp add: show_nat.simps)
  next
    case False
    then have "0 < dec_value s"
      using snoc.prems by (intro dec_value_pos) auto
    moreover have "show_nat (dec_value s) = s"
      using snoc False by auto
    moreover have "show_nat (10 * dec_value s + d) = show_nat (dec_value s) @ [char_of (48 + d)]"
      if "0 < dec_value s"
      using that c by (subst show_nat.simps) simp
    ultimately show ?thesis
      using digit total by simp
  qed
qed simp

end
