(* ===== verification/Domain.thy ===== *)
theory Domain
  imports RustStrings
begin

text \<open>
  \<open>crates/alcomd-domain/src/lib.rs\<close>: identifiers, the lifecycle of a long-running operation with
  its transition table and restart treatment, revisions, principals, idempotency keys, permissions
  and resource keys.  The \<open>uuid\<close> crate is not part of the repository: a UUID is its documented
  128-bit value and the crate's functions are the fields of \<open>uuid_ops\<close>, an argument of every
  definition that calls them.
\<close>

section \<open>Identifiers\<close>

type_synonym uuid = "128 word"

record uuid_ops =
  uuid_parse_str :: "string \<Rightarrow> uuid option"
  uuid_to_string :: "uuid \<Rightarrow> string"
  uuid_as_bytes :: "uuid \<Rightarrow> string"

text \<open>The documented behaviour of the crate the model relies on.\<close>

definition uuid_laws :: "uuid_ops \<Rightarrow> bool" where
  "uuid_laws U \<longleftrightarrow>
     (\<forall>u. uuid_parse_str U (uuid_to_string U u) = Some u) \<and>
     (\<forall>u. length (uuid_to_string U u) = 36) \<and>
     (\<forall>u. length (uuid_as_bytes U u) = 16) \<and>
     (\<forall>u v. uuid_as_bytes U u = uuid_as_bytes U v \<longrightarrow> u = v)"

lemma uuid_roundtrip: "uuid_laws U \<Longrightarrow> uuid_parse_str U (uuid_to_string U u) = Some u"
  by (simp add: uuid_laws_def)

lemma uuid_string_length: "uuid_laws U \<Longrightarrow> length (uuid_to_string U u) = 36"
  by (simp add: uuid_laws_def)

lemma uuid_to_string_inject:
  "uuid_laws U \<Longrightarrow> uuid_to_string U u = uuid_to_string U v \<longleftrightarrow> u = v"
  using uuid_roundtrip by (metis option.inject)

lemma uuid_bytes_length: "uuid_laws U \<Longrightarrow> length (uuid_as_bytes U u) = 16"
  by (simp add: uuid_laws_def)

lemma uuid_bytes_inject:
  "uuid_laws U \<Longrightarrow> uuid_as_bytes U u = uuid_as_bytes U v \<longleftrightarrow> u = v"
  by (auto simp: uuid_laws_def)

datatype domain_value_error =
    InvalidProjectId | InvalidRepositoryId | InvalidUnityInstallationId | InvalidUnityLaunchId
  | InvalidOperationId | InvalidPlanId | InvalidBackupId | InvalidUserPackageId
  | InvalidPrincipalId | InvalidIdempotencyKey

datatype project_id = ProjectId uuid
datatype repository_id = RepositoryId uuid
datatype unity_installation_id = UnityInstallationId uuid
datatype unity_launch_id = UnityLaunchId uuid
datatype backup_id = BackupId uuid
datatype user_package_id = UserPackageId uuid
datatype plan_id = PlanId uuid
datatype operation_id = OperationId uuid

definition project_id_parse :: "uuid_ops \<Rightarrow> string \<Rightarrow> domain_value_error + project_id" where
  "project_id_parse U value =
     ok_or (map_option ProjectId (uuid_parse_str U value)) InvalidProjectId"

definition repository_id_parse :: "uuid_ops \<Rightarrow> string \<Rightarrow> domain_value_error + repository_id" where
  "repository_id_parse U value =
     ok_or (map_option RepositoryId (uuid_parse_str U value)) InvalidRepositoryId"

definition unity_installation_id_parse ::
  "uuid_ops \<Rightarrow> string \<Rightarrow> domain_value_error + unity_installation_id" where
  "unity_installation_id_parse U value =
     ok_or (map_option UnityInstallationId (uuid_parse_str U value)) InvalidUnityInstallationId"

definition unity_launch_id_parse :: "uuid_ops \<Rightarrow> string \<Rightarrow> domain_value_error + unity_launch_id" where
  "unity_launch_id_parse U value =
     ok_or (map_option UnityLaunchId (uuid_parse_str U value)) InvalidUnityLaunchId"

definition plan_id_parse :: "uuid_ops \<Rightarrow> string \<Rightarrow> domain_value_error + plan_id" where
  "plan_id_parse U value = ok_or (map_option PlanId (uuid_parse_str U value)) InvalidPlanId"

definition operation_id_parse :: "uuid_ops \<Rightarrow> string \<Rightarrow> domain_value_error + operation_id" where
  "operation_id_parse U value =
     ok_or (map_option OperationId (uuid_parse_str U value)) InvalidOperationId"

text \<open>Backups and user packages accept the canonical spelling only.\<close>

definition canonical_uuid :: "uuid_ops \<Rightarrow> string \<Rightarrow> uuid option" where
  "canonical_uuid U value =
     (case uuid_parse_str U value of
        None \<Rightarrow> None
      | Some parsed \<Rightarrow> if uuid_to_string U parsed = value then Some parsed else None)"

definition backup_id_parse :: "uuid_ops \<Rightarrow> string \<Rightarrow> domain_value_error + backup_id" where
  "backup_id_parse U value = ok_or (map_option BackupId (canonical_uuid U value)) InvalidBackupId"

definition user_package_id_parse :: "uuid_ops \<Rightarrow> string \<Rightarrow> domain_value_error + user_package_id" where
  "user_package_id_parse U value =
     ok_or (map_option UserPackageId (canonical_uuid U value)) InvalidUserPackageId"

fun operation_id_to_string :: "uuid_ops \<Rightarrow> operation_id \<Rightarrow> string" where
  "operation_id_to_string U (OperationId u) = uuid_to_string U u"

fun project_id_to_string :: "uuid_ops \<Rightarrow> project_id \<Rightarrow> string" where
  "project_id_to_string U (ProjectId u) = uuid_to_string U u"

fun user_package_id_to_string :: "uuid_ops \<Rightarrow> user_package_id \<Rightarrow> string" where
  "user_package_id_to_string U (UserPackageId u) = uuid_to_string U u"

fun backup_id_to_string :: "uuid_ops \<Rightarrow> backup_id \<Rightarrow> string" where
  "backup_id_to_string U (BackupId u) = uuid_to_string U u"

lemma operation_id_roundtrip [simp]:
  "uuid_laws U \<Longrightarrow> operation_id_parse U (operation_id_to_string U i) = Inr i"
  by (cases i) (simp add: operation_id_parse_def uuid_roundtrip)

lemma operation_id_to_string_inject [simp]:
  "uuid_laws U \<Longrightarrow> operation_id_to_string U i = operation_id_to_string U j \<longleftrightarrow> i = j"
  by (cases i; cases j) (simp add: uuid_to_string_inject)

lemma operation_id_to_string_length [simp]:
  "uuid_laws U \<Longrightarrow> length (operation_id_to_string U i) = 36"
  by (cases i) (simp add: uuid_string_length)

lemma user_package_id_to_string_inject [simp]:
  "uuid_laws U \<Longrightarrow> user_package_id_to_string U i = user_package_id_to_string U j \<longleftrightarrow> i = j"
  by (cases i; cases j) (simp add: uuid_to_string_inject)

section \<open>The lifecycle of an operation\<close>

datatype operation_state =
    Queued | Planning | WaitingForInput | Running | Cancelling
  | Succeeded | Failed | Cancelled | Interrupted | Recovering

definition is_terminal :: "operation_state \<Rightarrow> bool" where
  "is_terminal s = (case s of Succeeded \<Rightarrow> True | Failed \<Rightarrow> True | Cancelled \<Rightarrow> True | _ \<Rightarrow> False)"

definition can_transition_to :: "operation_state \<Rightarrow> operation_state \<Rightarrow> bool" where
  "can_transition_to s n =
     (case s of
        Queued \<Rightarrow> n \<in> {Running, Cancelled}
      | Running \<Rightarrow> n \<in> {Cancelling, Succeeded, Failed, Interrupted}
      | Cancelling \<Rightarrow> n \<in> {Succeeded, Failed, Cancelled, Interrupted}
      | Interrupted \<Rightarrow> n \<in> {Recovering}
      | Recovering \<Rightarrow> n \<in> {Running, Cancelling, Failed, Cancelled, Interrupted}
      | _ \<Rightarrow> False)"

datatype recovery_action =
    RescheduleQueued | InterruptThenRecover | ResumeRecovery | LeaveTerminal
  | ReservedStateNotCreatedByM2

definition recovery_action_of :: "operation_state \<Rightarrow> recovery_action" where
  "recovery_action_of s =
     (case s of
        Queued \<Rightarrow> RescheduleQueued
      | Running \<Rightarrow> InterruptThenRecover
      | Cancelling \<Rightarrow> InterruptThenRecover
      | Recovering \<Rightarrow> InterruptThenRecover
      | Succeeded \<Rightarrow> LeaveTerminal
      | Failed \<Rightarrow> LeaveTerminal
      | Cancelled \<Rightarrow> LeaveTerminal
      | Interrupted \<Rightarrow> ResumeRecovery
      | Planning \<Rightarrow> ReservedStateNotCreatedByM2
      | WaitingForInput \<Rightarrow> ReservedStateNotCreatedByM2)"

text \<open>The states an operation can be in when it starts queued and follows the table.\<close>

inductive op_reachable :: "operation_state \<Rightarrow> bool" where
  op_start: "op_reachable Queued"
| op_move: "op_reachable s \<Longrightarrow> can_transition_to s t \<Longrightarrow> op_reachable t"

lemma is_terminal_iff [simp]: "is_terminal s \<longleftrightarrow> s \<in> {Succeeded, Failed, Cancelled}"
  by (cases s) (auto simp: is_terminal_def)

lemma terminal_no_transition: "is_terminal s \<Longrightarrow> \<not> can_transition_to s t"
  by (auto simp: can_transition_to_def)

lemma op_reachable_not_reserved: "op_reachable s \<Longrightarrow> s \<noteq> Planning \<and> s \<noteq> WaitingForInput"
proof (induction rule: op_reachable.induct)
  case (op_move s t)
  then show ?case
    by (auto simp: can_transition_to_def split: operation_state.splits)
qed simp

section \<open>Revisions\<close>

text \<open>An \<open>i64\<close> inside; the constructor only lets positive values through.\<close>

datatype revision = Revision u64

abbreviation revision_initial :: revision where
  "revision_initial \<equiv> Revision 1"

definition revision_new :: "u64 \<Rightarrow> revision option" where
  "revision_new value = (if value = 0 \<or> value > i64_max then None else Some (Revision value))"

fun revision_get :: "revision \<Rightarrow> u64" where
  "revision_get (Revision w) = w"

fun revision_checked_next :: "revision \<Rightarrow> revision option" where
  "revision_checked_next (Revision w) = (if w = i64_max then None else Some (Revision (w + 1)))"

definition revision_ok :: "revision \<Rightarrow> bool" where
  "revision_ok r \<longleftrightarrow> 0 < revision_get r \<and> revision_get r \<le> i64_max"

lemma revision_new_Some_iff: "revision_new v = Some r \<longleftrightarrow> r = Revision v \<and> revision_ok r"
  by (auto simp: revision_new_def revision_ok_def word_gt_0 not_less split: if_splits)

lemma revision_new_get: "revision_ok r \<Longrightarrow> revision_new (revision_get r) = Some r"
  by (cases r) (auto simp: revision_new_Some_iff)

lemma unat_inc: "unat w < 0xFFFFFFFFFFFFFFFF \<Longrightarrow> unat (w + 1 :: u64) = unat w + 1"
  by (simp add: unat_word_ariths)

lemma revision_next_iff:
  assumes "revision_ok r"
  shows "revision_checked_next r = Some s \<longleftrightarrow>
    revision_ok s \<and> unat (revision_get s) = unat (revision_get r) + 1"
proof (cases r)
  case (Revision w)
  have w: "unat w \<le> 0x7FFFFFFFFFFFFFFF" and "unat (w + 1) = unat w + 1"
    using assms Revision unat_inc [of w] by (simp_all add: revision_ok_def word_le_nat_alt)
  moreover have "w = i64_max \<longleftrightarrow> unat w = 0x7FFFFFFFFFFFFFFF"
    by (simp add: word_unat_eq_iff)
  ultimately show ?thesis
    using Revision by (cases s)
      (auto simp: revision_ok_def word_le_nat_alt word_less_nat_alt word_unat_eq_iff)
qed

lemma revision_next_exists:
  "revision_ok r \<Longrightarrow> unat (revision_get r) < 0x7FFFFFFFFFFFFFFF \<Longrightarrow> \<exists>s. revision_checked_next r = Some s"
  by (cases r) auto

section \<open>Principals, idempotency keys and permissions\<close>

datatype principal_id = PrincipalId string

definition local_owner_name :: string where
  "local_owner_name = ''builtin:local-owner''"

definition principal_local_owner :: principal_id where
  "principal_local_owner = PrincipalId local_owner_name"

definition principal_parse :: "string \<Rightarrow> domain_value_error + principal_id" where
  "principal_parse value =
     (if value = [] \<or> length value > 128 \<or> \<not> is_ascii value then Inl InvalidPrincipalId
      else Inr (PrincipalId value))"

fun principal_as_str :: "principal_id \<Rightarrow> string" where
  "principal_as_str (PrincipalId s) = s"

datatype idempotency_key = IdempotencyKey string

definition key_max_bytes :: nat where
  "key_max_bytes = 128"

definition idempotency_key_parse :: "string \<Rightarrow> domain_value_error + idempotency_key" where
  "idempotency_key_parse value =
     (if value = [] \<or> length value > key_max_bytes \<or> \<not> is_ascii value
      then Inl InvalidIdempotencyKey else Inr (IdempotencyKey value))"

fun idempotency_key_as_str :: "idempotency_key \<Rightarrow> string" where
  "idempotency_key_as_str (IdempotencyKey s) = s"

datatype permission =
    StateCheck | OperationsRead | OperationsCancel | EventsRead | SettingsRead | SettingsManage
  | ProjectsRead | ProjectsManage | RepositoriesRead | RepositoriesManage | PackagesRead
  | PackagesManage | UnityRead | UnityManage | UnityLaunch | UnityHubOpen | ProjectsCreate
  | ProjectsDelete | ProjectsUnityMigrate | BackupsRead | BackupsManage | ExtensionsRead
  | ExtensionsManage | ExtensionsPermissionsManage | ExtensionsUiUse | BackgroundRun

fun permission_as_str :: "permission \<Rightarrow> string" where
  "permission_as_str StateCheck = ''state.check''"
| "permission_as_str OperationsRead = ''operations.read''"
| "permission_as_str OperationsCancel = ''operations.cancel''"
| "permission_as_str EventsRead = ''events.read''"
| "permission_as_str SettingsRead = ''settings.read''"
| "permission_as_str SettingsManage = ''settings.manage''"
| "permission_as_str ProjectsRead = ''projects.read''"
| "permission_as_str ProjectsManage = ''projects.manage''"
| "permission_as_str RepositoriesRead = ''repositories.read''"
| "permission_as_str RepositoriesManage = ''repositories.manage''"
| "permission_as_str PackagesRead = ''packages.read''"
| "permission_as_str PackagesManage = ''packages.manage''"
| "permission_as_str UnityRead = ''unity.read''"
| "permission_as_str UnityManage = ''unity.manage''"
| "permission_as_str UnityLaunch = ''unity.launch''"
| "permission_as_str UnityHubOpen = ''unity.hub.open''"
| "permission_as_str ProjectsCreate = ''projects.create''"
| "permission_as_str ProjectsDelete = ''projects.delete''"
| "permission_as_str ProjectsUnityMigrate = ''projects.unity-migrate''"
| "permission_as_str BackupsRead = ''backups.read''"
| "permission_as_str BackupsManage = ''backups.manage''"
| "permission_as_str ExtensionsRead = ''extensions.read''"
| "permission_as_str ExtensionsManage = ''extensions.manage''"
| "permission_as_str ExtensionsPermissionsManage = ''extensions.permissions.manage''"
| "permission_as_str ExtensionsUiUse = ''extensions.ui.use''"
| "permission_as_str BackgroundRun = ''background.run''"

section \<open>Resource keys\<close>

text \<open>A \<open>[u8; 32]\<close> is a string of 32 bytes; \<open>key_wf\<close> says so.\<close>

datatype resource_key =
    StateStoreKey
  | OperationKey operation_id
  | ProjectKey project_id
  | RepositoryKey repository_id
  | PackageCacheKey string
  | ProjectCreateKey (parent_identity_sha256: string) (target_leaf: string)
  | ExtensionKey string

fun canonical_bytes :: "uuid_ops \<Rightarrow> resource_key \<Rightarrow> string" where
  "canonical_bytes U StateStoreKey = ''state-store''"
| "canonical_bytes U (OperationKey (OperationId u)) = ''operation:'' @ uuid_as_bytes U u"
| "canonical_bytes U (ProjectKey (ProjectId u)) = ''project:'' @ uuid_as_bytes U u"
| "canonical_bytes U (RepositoryKey (RepositoryId u)) = ''repository:'' @ uuid_as_bytes U u"
| "canonical_bytes U (PackageCacheKey digest) = ''package-cache:'' @ digest"
| "canonical_bytes U (ProjectCreateKey parent leaf) =
     ''project-create:'' @ parent @ '':'' @ leaf"
| "canonical_bytes U (ExtensionKey extension) = ''extension:'' @ extension"

fun key_wf :: "resource_key \<Rightarrow> bool" where
  "key_wf (PackageCacheKey digest) \<longleftrightarrow> length digest = 32"
| "key_wf (ProjectCreateKey parent leaf) \<longleftrightarrow> length parent = 32"
| "key_wf k \<longleftrightarrow> True"

lemma canonical_bytes_same:
  assumes "uuid_laws U" and "key_wf k" and "key_wf l"
    and "canonical_bytes U k = canonical_bytes U l"
  shows "k = l"
  using assms uuid_bytes_inject [OF assms(1)]
  by (cases "(U, k)" rule: canonical_bytes.cases; cases "(U, l)" rule: canonical_bytes.cases) auto

section \<open>Properties\<close>

text \<open>
  C21: An operation that has reached a terminal state never leaves it, and from every state an
  operation can actually be in, some terminal state is still reachable through the transition
  table; the two reserved states are never entered.
\<close>

theorem operation_lifecycle_sound:
  assumes "op_reachable s"
  shows "s \<noteq> Planning \<and> s \<noteq> WaitingForInput \<and>
    (is_terminal s \<longleftrightarrow> (\<nexists>t. can_transition_to s t)) \<and>
    (\<exists>t. can_transition_to\<^sup>*\<^sup>* s t \<and> is_terminal t)"
proof -
  have direct: "\<exists>t. can_transition_to s t \<and> is_terminal t"
    if "s \<in> {Queued, Running, Cancelling, Recovering}"
  proof (cases "s = Queued")
    case True
    then show ?thesis
      by (intro exI [of _ Cancelled]) (simp add: can_transition_to_def)
  next
    case False
    with that show ?thesis
      by (intro exI [of _ Failed]) (auto simp: can_transition_to_def)
  qed
  have "\<exists>t. can_transition_to\<^sup>*\<^sup>* s t \<and> is_terminal t"
  proof (cases s)
    case Interrupted
    have "can_transition_to s Recovering" "can_transition_to Recovering Failed"
      using Interrupted by (simp_all add: can_transition_to_def)
    then show ?thesis
      by (intro exI [of _ Failed]) (auto intro: converse_rtranclp_into_rtranclp)
  qed (use direct op_reachable_not_reserved [OF assms] in \<open>auto intro!: r_into_rtranclp\<close>)
  moreover have "is_terminal s \<longleftrightarrow> (\<nexists>t. can_transition_to s t)"
    using op_reachable_not_reserved [OF assms]
    by (cases s) (auto simp: can_transition_to_def)
  ultimately show ?thesis
    using op_reachable_not_reserved [OF assms] by blast
qed

theorem operation_lifecycle_sound_witness:
  "op_reachable Interrupted \<and> (\<exists>t. can_transition_to\<^sup>*\<^sup>* Interrupted t \<and> is_terminal t)"
proof -
  have "op_reachable Interrupted"
    by (rule op_move [OF op_move [OF op_start, of Running]]) (simp_all add: can_transition_to_def)
  then show ?thesis
    using operation_lifecycle_sound by blast
qed

text \<open>
  The restart treatment agrees with the transition table: the states to be interrupted may be
  interrupted, an interrupted operation may start recovering and a recovering one may run again;
  terminal states are left alone, and a reachable state never gets the reserved treatment.
\<close>

theorem recovery_action_agrees_with_table:
  "(recovery_action_of s = InterruptThenRecover \<longleftrightarrow>
      can_transition_to s Interrupted \<and> can_transition_to Interrupted Recovering) \<and>
   (recovery_action_of s = ResumeRecovery \<longleftrightarrow> can_transition_to s Recovering) \<and>
   (recovery_action_of s = RescheduleQueued \<longleftrightarrow> s = Queued) \<and>
   (recovery_action_of s = LeaveTerminal \<longleftrightarrow> is_terminal s) \<and>
   (recovery_action_of s = ReservedStateNotCreatedByM2 \<longleftrightarrow> \<not> (op_reachable s))"
proof -
  have q: "op_reachable Queued" by (rule op_start)
  have r: "op_reachable Running" and cd: "op_reachable Cancelled"
    by (auto intro: op_move [OF q] simp: can_transition_to_def)
  have ci: "op_reachable Cancelling" and su: "op_reachable Succeeded" and f: "op_reachable Failed"
    and i: "op_reachable Interrupted"
    by (auto intro: op_move [OF r] simp: can_transition_to_def)
  have rc: "op_reachable Recovering"
    by (auto intro: op_move [OF i] simp: can_transition_to_def)
  show ?thesis
    using q r cd ci su f i rc op_reachable_not_reserved
    by (cases s) (auto simp: recovery_action_of_def can_transition_to_def)
qed

text \<open>
  C23: A revision is always in \<open>1..i64::MAX\<close>: the constructor accepts exactly that range and gives
  the value back, and the successor is the next number or, at the bound, nothing; it never wraps.
\<close>

theorem revision_bounded:
  "(\<exists>r. revision_new v = Some r) = (0 < unat v \<and> unat v < 2 ^ 63) \<and>
   (revision_new v = Some r \<longrightarrow> revision_get r = v \<and>
     (case revision_checked_next r of
        None \<Rightarrow> unat v = 2 ^ 63 - 1
      | Some s \<Rightarrow> unat (revision_get s) = unat v + 1 \<and> revision_new (revision_get s) = Some s))"
proof -
  have *: "r = Revision v \<and> revision_ok r" if "revision_new v = Some r"
    using that unfolding revision_new_Some_iff .
  have "(\<exists>r. revision_new v = Some r) = (0 < unat v \<and> unat v < 2 ^ 63)"
    by (auto simp: revision_new_Some_iff revision_ok_def word_less_nat_alt word_le_nat_alt)
  moreover have "unat v = 2 ^ 63 - 1"
    if "revision_new v = Some r" "revision_checked_next r = None"
    using that * by (auto split: if_splits)
  moreover have "unat (revision_get s) = unat v + 1 \<and> revision_new (revision_get s) = Some s"
    if "revision_new v = Some r" "revision_checked_next r = Some s" for s
    using that * revision_next_iff [of r s] revision_new_get [of s] by auto
  moreover have "revision_new v = Some r \<Longrightarrow> revision_get r = v"
    using * by auto
  ultimately show ?thesis
    by (cases "revision_checked_next r") simp_all
qed

theorem revision_bounded_witness:
  "revision_new i64_max = Some (Revision i64_max) \<and> revision_checked_next (Revision i64_max) = None \<and>
   unat i64_max = (2 :: nat) ^ 63 - 1"
proof -
  have "revision_new i64_max = Some (Revision i64_max)"
    by (simp add: revision_new_def)
  then show ?thesis
    using revision_bounded [of i64_max "Revision i64_max"] by simp
qed

text \<open>No two permissions share a public name.\<close>

lemma permission_names_distinct: "permission_as_str p = permission_as_str q \<longleftrightarrow> p = q"
  by (cases p; cases q; simp)

text \<open>
  C22: The byte string a resource key is ordered by identifies the key, so sorting by it gives one
  lock order for all tasks and removing adjacent duplicates afterwards removes every duplicate.
\<close>

theorem canonical_bytes_inject:
  assumes "uuid_laws U" and "key_wf k" and "key_wf l"
  shows "canonical_bytes U k = canonical_bytes U l \<longleftrightarrow> k = l"
  using canonical_bytes_same [OF assms] by blast

text \<open>
  A concrete UUID library for the witnesses: the canonical spelling of 32 hexadecimal digits in
  groups of 8, 4, 4, 4 and 12.
\<close>

fun digits :: "nat \<Rightarrow> nat \<Rightarrow> nat \<Rightarrow> nat list" where
  "digits b 0 n = []"
| "digits b (Suc k) n = digits b k (n div b) @ [n mod b]"

definition undigits :: "nat \<Rightarrow> nat list \<Rightarrow> nat" where
  "undigits b = foldl (\<lambda>a d. a * b + d) 0"

lemma digits_length [simp]: "length (digits b k n) = k"
  by (induction k arbitrary: n) auto

lemma digits_bound: "0 < b \<Longrightarrow> d \<in> set (digits b k n) \<Longrightarrow> d < b"
  by (induction k arbitrary: n) auto

lemma undigits_digits: "n < b ^ k \<Longrightarrow> undigits b (digits b k n) = n"
  by (induction k arbitrary: n) (auto simp: undigits_def less_mult_imp_div_less mult.commute)

definition hex_chars :: string where
  "hex_chars = ''0123456789abcdef''"

definition hex_value :: "char \<Rightarrow> nat" where
  "hex_value c = length (takeWhile (\<lambda>d. d \<noteq> c) hex_chars)"

lemma hex_value_nth: "d < 16 \<Longrightarrow> hex_value (hex_chars ! d) = d"
  by (simp add: hex_value_def hex_chars_def less_Suc_eq numeral_eq_Suc) (elim disjE; simp)

definition hyphenate :: "string \<Rightarrow> string" where
  "hyphenate h = take 8 h @ ''-'' @ take 4 (drop 8 h) @ ''-'' @ take 4 (drop 12 h) @ ''-'' @
     take 4 (drop 16 h) @ ''-'' @ drop 20 h"

definition unhyphenate :: "string \<Rightarrow> string" where
  "unhyphenate s = take 8 s @ take 4 (drop 9 s) @ take 4 (drop 14 s) @ take 4 (drop 19 s) @ drop 24 s"

lemma unhyphenate_hyphenate: "length h = 32 \<Longrightarrow> unhyphenate (hyphenate h) = h"
  by (auto simp: hyphenate_def unhyphenate_def intro!: nth_equalityI simp: nth_append nth_Cons')

definition demo_uuid_string :: "uuid \<Rightarrow> string" where
  "demo_uuid_string u = hyphenate (map (\<lambda>d. hex_chars ! d) (digits 16 32 (unat u)))"

definition demo_uuid_parse :: "string \<Rightarrow> uuid option" where
  "demo_uuid_parse s =
     (let u = of_nat (undigits 16 (map hex_value (unhyphenate s)))
      in if demo_uuid_string u = s then Some u else None)"

definition demo_uuid_bytes :: "uuid \<Rightarrow> string" where
  "demo_uuid_bytes u = map char_of (digits 256 16 (unat u))"

definition demo_uuid :: uuid_ops where
  "demo_uuid = \<lparr>uuid_parse_str = demo_uuid_parse, uuid_to_string = demo_uuid_string,
     uuid_as_bytes = demo_uuid_bytes\<rparr>"

lemma demo_uuid_laws: "uuid_laws demo_uuid"
proof -
  have lt: "unat u < 16 ^ 32" "unat u < 256 ^ 16" for u :: uuid
    by (rule order_less_le_trans [OF unsigned_less]; simp)+
  have hex: "map hex_value (map (\<lambda>d. hex_chars ! d) (digits 16 k n)) = digits 16 k n" for k n
    by (simp add: map_idI hex_value_nth digits_bound)
  have "demo_uuid_parse (demo_uuid_string u) = Some u" for u
    using undigits_digits [OF lt(1) [of u]] hex [of 32 "unat u"]
    by (simp add: demo_uuid_parse_def demo_uuid_string_def unhyphenate_hyphenate)
  moreover have "undigits 256 (map of_char (demo_uuid_bytes u)) = unat u" for u
  proof -
    have "map of_char (demo_uuid_bytes u) = digits 256 16 (unat u)"
      by (simp add: demo_uuid_bytes_def map_idI digits_bound)
    then show ?thesis
      using undigits_digits [OF lt(2) [of u]] by simp
  qed
  then have "demo_uuid_bytes u = demo_uuid_bytes v \<Longrightarrow> u = v" for u v
    by (metis word_unat_eq_iff)
  ultimately show ?thesis
    by (simp add: uuid_laws_def demo_uuid_def demo_uuid_bytes_def demo_uuid_string_def hyphenate_def)
qed

theorem canonical_bytes_inject_witness:
  "canonical_bytes demo_uuid (ProjectCreateKey (replicate 32 (CHR ''a'')) ''x'') \<noteq>
   canonical_bytes demo_uuid (ProjectCreateKey (replicate 32 (CHR ''a'')) ''y'')"
  using canonical_bytes_inject [OF demo_uuid_laws, of
      "ProjectCreateKey (replicate 32 (CHR ''a'')) ''x''"
      "ProjectCreateKey (replicate 32 (CHR ''a'')) ''y''"] by simp

end
