(* ===== verification/Access.thy ===== *)
theory Access
  imports Domain
begin

text \<open>
  Access control of \<open>crates/alcomd-application/src/lib.rs\<close>: the context a transport hands to every
  use case, the scopes it may be narrowed to, and the error categories of the application layer.
  Of a \<open>StoreError\<close> only its category is kept; the technical context is diagnostics.
\<close>

datatype store_error =
    Unavailable | OperationNotFound | RevisionConflict | IdempotencyConflict
  | OperationNotCancellable | CorruptState

datatype application_error = PermissionDenied | InvalidInput | StoreErr store_error

datatype access_scopes = NoScopes | AllScopes | ExactScopes "string set"

record access_context =
  principal :: principal_id
  actor :: string
  permissions :: "permission set"
  project_read_scopes :: access_scopes
  extension_ui_scopes :: access_scopes

definition access_new :: "principal_id \<Rightarrow> permission list \<Rightarrow> access_context" where
  "access_new p ps = \<lparr>principal = p, actor = ''Core'', permissions = set ps,
     project_read_scopes = NoScopes, extension_ui_scopes = NoScopes\<rparr>"

definition local_owner :: access_context where
  "local_owner =
     (access_new principal_local_owner
        [StateCheck, OperationsRead, OperationsCancel, EventsRead, SettingsRead, SettingsManage,
         ProjectsRead, ProjectsManage, RepositoriesRead, RepositoriesManage, PackagesRead,
         PackagesManage, UnityRead, UnityManage, UnityLaunch, UnityHubOpen, ProjectsCreate,
         ProjectsDelete, ProjectsUnityMigrate, BackupsRead, BackupsManage, ExtensionsRead,
         ExtensionsManage, ExtensionsPermissionsManage, ExtensionsUiUse])
     \<lparr>project_read_scopes := AllScopes, extension_ui_scopes := AllScopes\<rparr>"

definition with_actor :: "access_context \<Rightarrow> string \<Rightarrow> access_context" where
  "with_actor ctx a = ctx\<lparr>actor := a\<rparr>"

definition require :: "access_context \<Rightarrow> permission \<Rightarrow> application_error + unit" where
  "require ctx p = (if p \<in> permissions ctx then Inr () else Inl PermissionDenied)"

definition with_project_read_scopes :: "access_context \<Rightarrow> string list \<Rightarrow> access_context" where
  "with_project_read_scopes ctx ids = ctx\<lparr>project_read_scopes := ExactScopes (set ids)\<rparr>"

definition with_extension_ui_scopes :: "access_context \<Rightarrow> string list \<Rightarrow> access_context" where
  "with_extension_ui_scopes ctx ids = ctx\<lparr>extension_ui_scopes := ExactScopes (set ids)\<rparr>"

fun require_scope :: "access_scopes \<Rightarrow> string \<Rightarrow> application_error + unit" where
  "require_scope AllScopes rid = Inr ()"
| "require_scope (ExactScopes values) rid =
     (if rid \<in> values then Inr () else Inl PermissionDenied)"
| "require_scope NoScopes rid = Inl PermissionDenied"

definition require_project_read_scope ::
  "access_context \<Rightarrow> string \<Rightarrow> application_error + unit" where
  "require_project_read_scope ctx project =
     and_then (require ctx ProjectsRead) (\<lambda>_. require_scope (project_read_scopes ctx) project)"

definition require_extension_ui_scope ::
  "access_context \<Rightarrow> string \<Rightarrow> application_error + unit" where
  "require_extension_ui_scope ctx extension =
     and_then (require ctx ExtensionsUiUse) (\<lambda>_. require_scope (extension_ui_scopes ctx) extension)"

lemma require_iffs [result_simps]:
  "require ctx p = Inr u \<longleftrightarrow> p \<in> permissions ctx"
  "require ctx p = Inl e \<longleftrightarrow> p \<notin> permissions ctx \<and> e = PermissionDenied"
  by (auto simp: require_def)

section \<open>Properties\<close>

text \<open>
  The built-in local owner may do everything a client can ask for and read every project and
  extension, but may not run in the background.
\<close>

theorem local_owner_authority:
  "(require local_owner p = Inr () \<longleftrightarrow> p \<noteq> BackgroundRun) \<and>
   require_project_read_scope local_owner project = Inr () \<and>
   require_extension_ui_scope local_owner extension = Inr ()"
  by (cases p)
    (simp_all add: local_owner_def access_new_def require_def require_project_read_scope_def
      require_extension_ui_scope_def)

text \<open>
  Narrowing the project scopes replaces the previous scope: afterwards exactly the listed
  projects are readable, and only by a caller that holds the permission; no permission decision
  and no extension decision changes.
\<close>

theorem narrowing_is_exact:
  "(require_project_read_scope (with_project_read_scopes ctx ids) project = Inr () \<longleftrightarrow>
      ProjectsRead \<in> permissions ctx \<and> project \<in> set ids) \<and>
   require (with_project_read_scopes ctx ids) p = require ctx p \<and>
   require_extension_ui_scope (with_project_read_scopes ctx ids) extension =
     require_extension_ui_scope ctx extension"
  by (auto simp: require_project_read_scope_def require_extension_ui_scope_def require_def
      with_project_read_scopes_def)

end
