(* ===== verification/BTree.thy ===== *)
theory BTree
  imports Prelude
begin

text \<open>
  \<open>std::collections::BTreeMap\<close> as an association list with strictly ascending keys, so that
  iteration is in key order as in Rust.  The interface the components rely on is the locale
  \<open>ordered_map\<close>, interpreted here on the list operations.
\<close>

type_synonym ('k, 'v) btree = "('k \<times> 'v) list"

abbreviation bt_get :: "('k, 'v) btree \<Rightarrow> 'k \<Rightarrow> 'v option" where
  "bt_get \<equiv> map_of"

fun bt_insert :: "'k::linorder \<Rightarrow> 'v \<Rightarrow> ('k, 'v) btree \<Rightarrow> ('k, 'v) btree" where
  "bt_insert k v [] = [(k, v)]"
| "bt_insert k v ((l, w) # m) =
     (if k < l then (k, v) # (l, w) # m
      else if k = l then (k, v) # m
      else (l, w) # bt_insert k v m)"

definition bt_remove :: "'k \<Rightarrow> ('k, 'v) btree \<Rightarrow> ('k, 'v) btree" where
  "bt_remove k m = filter (\<lambda>p. fst p \<noteq> k) m"

abbreviation bt_keys :: "('k, 'v) btree \<Rightarrow> 'k list" where
  "bt_keys m \<equiv> map fst m"

abbreviation bt_values :: "('k, 'v) btree \<Rightarrow> 'v list" where
  "bt_values m \<equiv> map snd m"

definition bt_ok :: "('k::linorder, 'v) btree \<Rightarrow> bool" where
  "bt_ok m \<longleftrightarrow> sorted_wrt (<) (map fst m)"

text \<open>\<open>iter.collect::<BTreeMap<_, _>>()\<close>: later pairs replace earlier ones.\<close>

definition bt_of_list :: "('k::linorder \<times> 'v) list \<Rightarrow> ('k, 'v) btree" where
  "bt_of_list kvs = foldl (\<lambda>m kv. bt_insert (fst kv) (snd kv) m) [] kvs"

text \<open>\<open>map.entry(k).or_default().push(v)\<close>.\<close>

definition bt_push :: "'k::linorder \<Rightarrow> 'v \<Rightarrow> ('k, 'v list) btree \<Rightarrow> ('k, 'v list) btree" where
  "bt_push k v m = bt_insert k ((case bt_get m k of None \<Rightarrow> [] | Some vs \<Rightarrow> vs) @ [v]) m"

text \<open>\<open>BTreeSet\<close>: collecting into a set sorts and removes duplicates.\<close>

definition btset_of_list :: "'k::linorder list \<Rightarrow> 'k list" where
  "btset_of_list ks = map fst (bt_of_list (map (\<lambda>k. (k, ())) ks))"

section \<open>The interface of an ordered map\<close>

locale ordered_map =
  fixes get :: "'m \<Rightarrow> 'k::linorder \<Rightarrow> 'v option"
    and insert_at :: "'k \<Rightarrow> 'v \<Rightarrow> 'm \<Rightarrow> 'm"
    and remove_at :: "'k \<Rightarrow> 'm \<Rightarrow> 'm"
    and keys :: "'m \<Rightarrow> 'k list"
    and ok :: "'m \<Rightarrow> bool"
  assumes get_insert: "ok m \<Longrightarrow> get (insert_at k v m) = (get m)(k \<mapsto> v)"
    and get_remove: "ok m \<Longrightarrow> get (remove_at k m) = (get m)(k := None)"
    and ok_insert: "ok m \<Longrightarrow> ok (insert_at k v m)"
    and ok_remove: "ok m \<Longrightarrow> ok (remove_at k m)"
    and keys_dom: "ok m \<Longrightarrow> set (keys m) = dom (get m)"
    and keys_sorted: "ok m \<Longrightarrow> sorted_wrt (<) (keys m)"
begin

lemma dom_insert: "ok m \<Longrightarrow> dom (get (insert_at k v m)) = insert k (dom (get m))"
  by (simp add: get_insert)

lemma dom_remove: "ok m \<Longrightarrow> dom (get (remove_at k m)) = dom (get m) - {k}"
  by (auto simp: get_remove split: if_splits)

lemma keys_distinct: "ok m \<Longrightarrow> distinct (keys m)"
  using keys_sorted strict_sorted_iff by blast

lemma fold_insert_ok:
  "ok m \<Longrightarrow> ok (foldl (\<lambda>m kv. insert_at (fst kv) (snd kv) m) m kvs)"
  by (induction kvs arbitrary: m) (auto simp: ok_insert)

lemma fold_insert_get:
  "ok m \<Longrightarrow> get (foldl (\<lambda>m kv. insert_at (fst kv) (snd kv) m) m kvs) = get m ++ map_of (rev kvs)"
proof (induction kvs arbitrary: m)
  case (Cons kv kvs)
  then show ?case
    by (cases kv) (simp add: ok_insert get_insert map_add_def fun_eq_iff split: option.splits)
qed simp

text \<open>
  The keys of one map that another does not have yet, in order: the search loop of the resolver.
\<close>

lemma find_missing_None:
  "ok m \<Longrightarrow> find (\<lambda>k. k \<notin> D) (keys m) = None \<longleftrightarrow> dom (get m) \<subseteq> D"
  by (auto simp: find_None_iff simp flip: keys_dom)

lemma find_missing_Some:
  "ok m \<Longrightarrow> find (\<lambda>k. k \<notin> D) (keys m) = Some k \<Longrightarrow> k \<in> dom (get m) \<and> k \<notin> D"
  using find_Some_set keys_dom by fastforce

end

lemma bt_ok_Nil [simp]: "bt_ok []"
  by (simp add: bt_ok_def)

lemma bt_insert_keys: "set (map fst (bt_insert k v m)) = insert k (set (map fst m))"
  by (induction k v m rule: bt_insert.induct) auto

lemma bt_insert_ok: "bt_ok m \<Longrightarrow> bt_ok (bt_insert k v m)"
proof (induction k v m rule: bt_insert.induct)
  case (2 k v l w m)
  then show ?case
    using bt_insert_keys [of k v m] by (auto simp: bt_ok_def)
qed (simp add: bt_ok_def)

lemma bt_get_lt: "bt_ok ((l, w) # m) \<Longrightarrow> k \<le> l \<Longrightarrow> map_of m k = None"
  by (auto simp: bt_ok_def map_of_eq_None_iff)

lemma bt_get_insert: "bt_ok m \<Longrightarrow> map_of (bt_insert k v m) = (map_of m)(k \<mapsto> v)"
proof (induction k v m rule: bt_insert.induct)
  case (2 k v l w m)
  then have IH: "l < k \<Longrightarrow> map_of (bt_insert k v m) = (map_of m)(k \<mapsto> v)"
    by (auto simp: bt_ok_def)
  show ?case
    using IH by (cases k l rule: linorder_cases) (auto simp: fun_eq_iff)
qed auto

lemma bt_get_remove: "map_of (bt_remove k m) = (map_of m)(k := None)"
  by (induction m) (auto simp: bt_remove_def)

lemma bt_remove_ok: "bt_ok m \<Longrightarrow> bt_ok (bt_remove k m)"
  unfolding bt_ok_def bt_remove_def by (induction m) auto

lemma bt_keys_sorted: "bt_ok m \<Longrightarrow> sorted_wrt (<) (map fst m)"
  by (simp add: bt_ok_def)

interpretation bt: ordered_map map_of bt_insert bt_remove "map fst" bt_ok
  by unfold_locales
    (auto simp: bt_get_insert bt_get_remove dom_map_of_conv_image_fst
      intro: bt_insert_ok bt_remove_ok bt_keys_sorted)

lemma bt_ok_distinct: "bt_ok m \<Longrightarrow> distinct (map fst m)"
  by (rule bt.keys_distinct)

lemma bt_in_set_iff: "bt_ok m \<Longrightarrow> (k, v) \<in> set m \<longleftrightarrow> bt_get m k = Some v"
  using bt_ok_distinct by (metis Some_eq_map_of_iff)

lemma bt_of_list_ok [simp]: "bt_ok (bt_of_list kvs)"
  unfolding bt_of_list_def by (rule bt.fold_insert_ok) simp

lemma bt_of_list_get: "bt_get (bt_of_list kvs) = map_of (rev kvs)"
  unfolding bt_of_list_def by (simp add: bt.fold_insert_get)

lemma bt_push_ok [simp]: "bt_ok m \<Longrightarrow> bt_ok (bt_push k v m)"
  by (simp add: bt_push_def bt_insert_ok)

lemma bt_get_push:
  "bt_ok m \<Longrightarrow> bt_get (bt_push k v m) =
    (bt_get m)(k \<mapsto> (case bt_get m k of None \<Rightarrow> [] | Some vs \<Rightarrow> vs) @ [v])"
  by (simp add: bt_push_def bt_get_insert)

text \<open>Two ordered maps with the same lookups are the same list, so they iterate alike.\<close>

lemma bt_list_eq: "distinct (map fst m) \<Longrightarrow> m = map (\<lambda>k. (k, the (map_of m k))) (map fst m)"
proof -
  assume d: "distinct (map fst m)"
  have "map (\<lambda>p. (fst p, the (map_of m (fst p)))) m = m"
    by (rule map_idI) (use d in auto)
  then show ?thesis by (simp add: comp_def)
qed

lemma bt_ext:
  assumes "bt_ok m" and "bt_ok n" and "bt_get m = bt_get n"
  shows "m = n"
proof -
  have "set (bt_keys m) = set (bt_keys n)"
    using assms by (simp only: bt.keys_dom)
  then have "bt_keys m = bt_keys n"
    using assms bt_keys_sorted by (metis sorted_distinct_set_unique strict_sorted_iff)
  then show ?thesis
    using assms bt_list_eq bt_ok_distinct by metis
qed

lemma btset_of_list_set [simp]: "set (btset_of_list ks) = set ks"
proof -
  have "set (btset_of_list ks) = dom (bt_get (bt_of_list (map (\<lambda>k. (k, ())) ks)))"
    unfolding btset_of_list_def by (simp only: bt.keys_dom bt_of_list_ok)
  also have "\<dots> = set ks"
    by (auto simp: bt_of_list_get dom_map_of_conv_image_fst image_image)
  finally show ?thesis .
qed

lemma btset_of_list_sorted: "sorted_wrt (<) (btset_of_list ks)"
  unfolding btset_of_list_def by (rule bt.keys_sorted) simp

lemma btset_of_list_cong:
  assumes "set ks = set ls"
  shows "btset_of_list ks = btset_of_list ls"
  using assms btset_of_list_sorted [of ks] btset_of_list_sorted [of ls]
  by (metis btset_of_list_set sorted_distinct_set_unique strict_sorted_iff)

lemma btset_of_list_Nil_iff [simp]: "btset_of_list ks = [] \<longleftrightarrow> ks = []"
  by (metis btset_of_list_set set_empty)

lemma btset_of_list_Nil [simp]: "btset_of_list [] = []"
  by simp

text \<open>Sums over the values, for measures.\<close>

lemma bt_sum_replace:
  "bt_ok m \<Longrightarrow> bt_get m k = Some v \<Longrightarrow>
    sum_list (map (\<lambda>p. f (snd p)) (bt_insert k w m)) + f v =
    sum_list (map (\<lambda>p. f (snd p)) m) + (f w :: nat)"
proof (induction k w m rule: bt_insert.induct)
  case (2 k w l x m)
  then have "\<not> k < l"
    using bt_get_lt [of l x m k] by (auto simp: less_le split: if_splits)
  with 2 show ?case
    by (cases k l rule: linorder_cases) (auto simp: bt_ok_def)
qed simp

lemma bt_sum_remove:
  "bt_ok m \<Longrightarrow> bt_get m k = Some v \<Longrightarrow>
    sum_list (map (\<lambda>p. f (snd p)) (bt_remove k m)) + f v =
    (sum_list (map (\<lambda>p. f (snd p)) m) :: nat)"
proof (induction m)
  case (Cons p m)
  have "bt_remove k m = m" if "fst p = k"
    using Cons.prems(1) that by (auto simp: bt_remove_def bt_ok_def filter_id_conv)
  then show ?case
    using Cons by (cases p) (auto simp: bt_remove_def bt_ok_def split: if_splits)
qed simp

end
