(* ===== verification/Locks.thy ===== *)
theory Locks
  imports Domain BTree
begin

text \<open>
  \<open>ResourceLockCoordinator\<close> of \<open>crates/alcomd-application/src/lib.rs\<close>: tasks acquire sets of
  resource keys in canonical order; the coordinator keeps only weak references to the locks it
  hands out.  A lock is the address of its \<open>Arc<Mutex<()>>\<close>; an address is never reused while a
  weak reference to it is in the table.  The awaits are the only places where tasks interleave, so
  a step is what a task does between two of them.  Any task that waits for a free lock may take it:
  tokio serves the waiters first come, first served, which is one of the runs.
\<close>

section \<open>The keys of a request\<close>

definition key_cmp :: "uuid_ops \<Rightarrow> resource_key \<Rightarrow> resource_key \<Rightarrow> ordering" where
  "key_cmp U k l = cmp_of (canonical_bytes U k) (canonical_bytes U l)"

text \<open>\<open>keys.sort_by_key(ResourceKey::canonical_bytes); keys.dedup()\<close>.\<close>

definition lock_order :: "uuid_ops \<Rightarrow> resource_key list \<Rightarrow> resource_key list" where
  "lock_order U keys = remdups_adj (sort_by (key_cmp U) keys)"

lemma key_cmp_preorder: "cmp_preorder (key_cmp U)"
  unfolding key_cmp_def [abs_def] by (intro cmp_intros)

lemma set_lock_order [simp]: "set (lock_order U keys) = set keys"
  by (simp add: lock_order_def)

definition key_less :: "uuid_ops \<Rightarrow> resource_key \<Rightarrow> resource_key \<Rightarrow> bool" where
  "key_less U k l \<longleftrightarrow> canonical_bytes U k < canonical_bytes U l"

lemma sorted_wrt_remdups_adj:
  assumes "sorted_wrt R xs"
    and "\<And>x y. R x y \<Longrightarrow> x \<in> set xs \<Longrightarrow> y \<in> set xs \<Longrightarrow> R y x \<Longrightarrow> x = y"
  shows "sorted_wrt (\<lambda>x y. R x y \<and> x \<noteq> y) (remdups_adj xs)"
  using assms
proof (induction xs rule: remdups_adj.induct)
  case (3 x y xs)
  have R: "R x z" if "z \<in> set (y # xs)" for z
    using 3(3) that by auto
  have tail: "sorted_wrt R (y # xs)"
    using 3(3) by simp
  have anti: "\<And>u v. R u v \<Longrightarrow> u \<in> set (y # xs) \<Longrightarrow> v \<in> set (y # xs) \<Longrightarrow> R v u \<Longrightarrow> u = v"
    using 3(4) by simp
  show ?case
  proof (cases "x = y")
    case True
    then have "sorted_wrt (\<lambda>x y. R x y \<and> x \<noteq> y) (remdups_adj (y # xs))"
      using 3(1) tail anti by blast
    with True show ?thesis by simp
  next
    case False
    have "x \<noteq> z" if z: "z \<in> set (y # xs)" for z
    proof
      assume "x = z"
      with z False have "R y x" using tail by simp
      then show False using 3(4) [of x y] R [of y] False by simp
    qed
    moreover have "sorted_wrt (\<lambda>x y. R x y \<and> x \<noteq> y) (remdups_adj (y # xs))"
      using 3(2) False tail anti by blast
    ultimately show ?thesis
      using False R by simp
  qed
qed auto

lemma lock_order_strict:
  assumes "uuid_laws U" and "\<forall>k \<in> set keys. key_wf k"
  shows "sorted_wrt (key_less U) (lock_order U keys)"
proof -
  have inj: "canonical_bytes U k = canonical_bytes U l \<Longrightarrow> k = l"
    if "k \<in> set keys" "l \<in> set keys" for k l
    using assms that canonical_bytes_same by blast
  have "sorted_wrt (\<lambda>k l. key_cmp U k l \<noteq> Greater \<and> k \<noteq> l) (lock_order U keys)"
    unfolding lock_order_def
    by (rule sorted_wrt_remdups_adj [OF cmp_preorder.sort_by_sorted [OF key_cmp_preorder]])
      (use inj in \<open>auto simp: key_cmp_def antisym\<close>)
  then show ?thesis
    by (rule sorted_wrt_mono_rel [rotated])
      (use inj in \<open>auto simp: key_cmp_def key_less_def less_le\<close>)
qed


section \<open>The coordinator\<close>

text \<open>
  What a call to \<open>acquire\<close> has reached: locks still to take and guards already taken, each with
  the key it stands for; the requested keys are the argument of the call.
\<close>

type_synonym lock_ref = "resource_key \<times> nat"

datatype lock_phase =
    Acquiring "resource_key list" "lock_ref list" "lock_ref list"
  | Holding "resource_key list" "lock_ref list"
  | Releasing "lock_ref list"

fun guards :: "lock_phase \<Rightarrow> lock_ref list" where
  "guards (Acquiring keys ls gs) = gs"
| "guards (Holding keys gs) = gs"
| "guards (Releasing gs) = gs"

fun strong_refs :: "lock_phase \<Rightarrow> lock_ref list" where
  "strong_refs (Acquiring keys ls gs) = gs @ ls"
| "strong_refs (Holding keys gs) = gs"
| "strong_refs (Releasing gs) = gs"

record coordinator =
  entries :: "resource_key \<Rightarrow> nat option"
  lock_owner :: "nat \<Rightarrow> nat option"
  next_lock :: nat
  lock_tasks :: "(nat, lock_phase) btree"

definition coordinator_default :: coordinator where
  "coordinator_default =
     \<lparr>entries = (\<lambda>_. None), lock_owner = (\<lambda>_. None), next_lock = 0, lock_tasks = []\<rparr>"

text \<open>\<open>Weak::upgrade\<close> succeeds while somebody still holds the \<open>Arc\<close>.\<close>

definition upgradable :: "coordinator \<Rightarrow> lock_ref list \<Rightarrow> nat \<Rightarrow> bool" where
  "upgradable c acc l \<longleftrightarrow>
     l \<in> set (map snd acc) \<or> list_ex (\<lambda>tp. l \<in> set (map snd (strong_refs (snd tp)))) (lock_tasks c)"

definition lock_for :: "coordinator \<Rightarrow> lock_ref list \<Rightarrow> resource_key \<Rightarrow> coordinator \<times> nat" where
  "lock_for c acc k =
     (case entries c k of
        Some l \<Rightarrow>
          if upgradable c acc l then (c, l)
          else (c\<lparr>entries := (entries c)(k \<mapsto> next_lock c), next_lock := next_lock c + 1\<rparr>, next_lock c)
      | None \<Rightarrow>
          (c\<lparr>entries := (entries c)(k \<mapsto> next_lock c), next_lock := next_lock c + 1\<rparr>, next_lock c))"

fun collect_locks ::
  "coordinator \<Rightarrow> lock_ref list \<Rightarrow> resource_key list \<Rightarrow> coordinator \<times> lock_ref list" where
  "collect_locks c acc [] = (c, acc)"
| "collect_locks c acc (k # ks) =
     (let (c', l) = lock_for c acc k in collect_locks c' (acc @ [(k, l)]) ks)"

datatype lock_action =
    Request nat "resource_key list"  \<comment> \<open>enter \<open>acquire\<close> and collect the locks\<close>
  | Lock nat                         \<comment> \<open>\<open>lock.lock_owned().await\<close> returns\<close>
  | Acquired nat                     \<comment> \<open>\<open>acquire\<close> returns the guards\<close>
  | DropGuards nat                   \<comment> \<open>the caller drops \<open>ResourceLockGuards\<close>\<close>
  | Abandon nat                      \<comment> \<open>the future of \<open>acquire\<close> is dropped at an await\<close>
  | Unlock nat                       \<comment> \<open>one \<open>OwnedMutexGuard\<close> is dropped\<close>
  | Finish nat

definition set_phase :: "nat \<Rightarrow> lock_phase \<Rightarrow> coordinator \<Rightarrow> coordinator" where
  "set_phase t p c = c\<lparr>lock_tasks := bt_insert t p (lock_tasks c)\<rparr>"

fun lock_do :: "uuid_ops \<Rightarrow> lock_action \<Rightarrow> coordinator \<Rightarrow> coordinator option" where
  "lock_do U (Request t keys) c =
     (if bt_get (lock_tasks c) t = None \<and> list_all key_wf keys
      then let (c', locks) = collect_locks c [] (lock_order U keys)
           in Some (set_phase t (Acquiring keys locks []) c')
      else None)"
| "lock_do U (Lock t) c =
     (case bt_get (lock_tasks c) t of
        Some (Acquiring keys ((k, l) # ls) gs) \<Rightarrow>
          if lock_owner c l = None
          then Some (set_phase t (Acquiring keys ls (gs @ [(k, l)]))
                 (c\<lparr>lock_owner := (lock_owner c)(l \<mapsto> t)\<rparr>))
          else None
      | _ \<Rightarrow> None)"
| "lock_do U (Acquired t) c =
     (case bt_get (lock_tasks c) t of
        Some (Acquiring keys [] gs) \<Rightarrow> Some (set_phase t (Holding keys gs) c)
      | _ \<Rightarrow> None)"
| "lock_do U (DropGuards t) c =
     (case bt_get (lock_tasks c) t of
        Some (Holding keys gs) \<Rightarrow> Some (set_phase t (Releasing gs) c)
      | _ \<Rightarrow> None)"
| "lock_do U (Abandon t) c =
     (case bt_get (lock_tasks c) t of
        Some (Acquiring keys ls gs) \<Rightarrow> Some (set_phase t (Releasing gs) c)
      | _ \<Rightarrow> None)"
| "lock_do U (Unlock t) c =
     (case bt_get (lock_tasks c) t of
        Some (Releasing ((k, l) # gs)) \<Rightarrow>
          Some (set_phase t (Releasing gs) (c\<lparr>lock_owner := (lock_owner c)(l := None)\<rparr>))
      | _ \<Rightarrow> None)"
| "lock_do U (Finish t) c =
     (case bt_get (lock_tasks c) t of
        Some (Releasing []) \<Rightarrow> Some (c\<lparr>lock_tasks := bt_remove t (lock_tasks c)\<rparr>)
      | _ \<Rightarrow> None)"

fun lock_run :: "uuid_ops \<Rightarrow> lock_action list \<Rightarrow> coordinator \<Rightarrow> coordinator option" where
  "lock_run U [] c = Some c"
| "lock_run U (a # as) c = Option.bind (lock_do U a c) (lock_run U as)"

inductive lock_reachable :: "uuid_ops \<Rightarrow> coordinator \<Rightarrow> bool" for U where
  lock_init: "lock_reachable U coordinator_default"
| lock_step: "lock_reachable U c \<Longrightarrow> lock_do U a c = Some d \<Longrightarrow> lock_reachable U d"

section \<open>The invariant\<close>

definition entries_inv :: "coordinator \<Rightarrow> bool" where
  "entries_inv c \<longleftrightarrow>
     (\<forall>k l. entries c k = Some l \<longrightarrow> l < next_lock c) \<and>
     (\<forall>k k' l. entries c k = Some l \<longrightarrow> entries c k' = Some l \<longrightarrow> k = k')"

definition refs_ok :: "coordinator \<Rightarrow> lock_ref list \<Rightarrow> bool" where
  "refs_ok c rs \<longleftrightarrow> (\<forall>(k, l) \<in> set rs. entries c k = Some l)"

fun phase_ok :: "uuid_ops \<Rightarrow> lock_phase \<Rightarrow> bool" where
  "phase_ok U (Acquiring keys ls gs) \<longleftrightarrow>
     list_all key_wf keys \<and> map fst (gs @ ls) = lock_order U keys"
| "phase_ok U (Holding keys gs) \<longleftrightarrow> list_all key_wf keys \<and> map fst gs = lock_order U keys"
| "phase_ok U (Releasing gs) \<longleftrightarrow> True"

definition lock_inv :: "uuid_ops \<Rightarrow> coordinator \<Rightarrow> bool" where
  "lock_inv U c \<longleftrightarrow>
     bt_ok (lock_tasks c) \<and> entries_inv c \<and>
     (\<forall>t p. bt_get (lock_tasks c) t = Some p \<longrightarrow>
        refs_ok c (strong_refs p) \<and> phase_ok U p \<and>
        sorted_wrt (key_less U) (map fst (strong_refs p))) \<and>
     (\<forall>l t. lock_owner c l = Some t \<longleftrightarrow>
        (\<exists>p. bt_get (lock_tasks c) t = Some p \<and> l \<in> snd ` set (guards p)))"

definition tasks_refs_ok :: "coordinator \<Rightarrow> bool" where
  "tasks_refs_ok c \<longleftrightarrow>
     (\<forall>t p. bt_get (lock_tasks c) t = Some p \<longrightarrow> refs_ok c (strong_refs p))"

lemma upgradableI:
  assumes "bt_ok (lock_tasks c)" and "bt_get (lock_tasks c) t = Some p"
    and "(k, l) \<in> set (strong_refs p)"
  shows "upgradable c acc l"
proof -
  have "(t, p) \<in> set (lock_tasks c)"
    using assms by (simp add: bt_in_set_iff)
  then have "list_ex (\<lambda>tp. l \<in> set (map snd (strong_refs (snd tp)))) (lock_tasks c)"
    using assms(3) unfolding list_ex_iff by force
  then show ?thesis by (simp add: upgradable_def)
qed

lemma entries_inv_fresh:
  "entries_inv c \<Longrightarrow>
    entries_inv (c\<lparr>entries := (entries c)(k \<mapsto> next_lock c), next_lock := next_lock c + 1\<rparr>)"
  by (auto simp: entries_inv_def less_Suc_eq)

text \<open>
  Taking over or replacing an entry never detaches a lock somebody still refers to from its key.
\<close>

lemma lock_for_spec:
  assumes "bt_ok (lock_tasks c)" and "entries_inv c" and "tasks_refs_ok c" and "refs_ok c acc"
    and "lock_for c acc k = (c', l)"
  shows "entries_inv c' \<and> entries c' k = Some l \<and> lock_tasks c' = lock_tasks c \<and>
    lock_owner c' = lock_owner c \<and> tasks_refs_ok c' \<and> refs_ok c' acc"
proof (cases "\<exists>m. entries c k = Some m \<and> upgradable c acc m")
  case True
  then show ?thesis
    using assms by (auto simp: lock_for_def)
next
  case False
  then have c': "c' = c\<lparr>entries := (entries c)(k \<mapsto> next_lock c), next_lock := next_lock c + 1\<rparr>"
    and l: "l = next_lock c"
    using assms(5) by (auto simp: lock_for_def split: option.splits if_splits)
  have keep: "refs_ok c' rs" if "refs_ok c rs" "\<And>j m. (j, m) \<in> set rs \<Longrightarrow> upgradable c acc m" for rs
    using that False by (fastforce simp: refs_ok_def c')
  have "refs_ok c' acc"
    using assms(4) by (rule keep) (force simp: upgradable_def)
  moreover have "tasks_refs_ok c'"
    unfolding tasks_refs_ok_def
  proof (intro allI impI)
    fix t p assume "bt_get (lock_tasks c') t = Some p"
    then have p: "bt_get (lock_tasks c) t = Some p" by (simp add: c')
    show "refs_ok c' (strong_refs p)"
      by (rule keep) (use p assms(1,3) upgradableI in \<open>auto simp: tasks_refs_ok_def\<close>)
  qed
  ultimately show ?thesis
    using entries_inv_fresh [OF assms(2)] by (simp add: c' l)
qed

lemma collect_locks_spec:
  assumes "bt_ok (lock_tasks c)" and "entries_inv c" and "tasks_refs_ok c" and "refs_ok c acc"
    and "collect_locks c acc ks = (c', ls)"
  shows "entries_inv c' \<and> lock_tasks c' = lock_tasks c \<and> lock_owner c' = lock_owner c \<and>
    tasks_refs_ok c' \<and> refs_ok c' ls \<and> map fst ls = map fst acc @ ks"
  using assms
proof (induction ks arbitrary: c acc)
  case (Cons k ks)
  obtain d l where d: "lock_for c acc k = (d, l)" by fastforce
  have one: "entries_inv d \<and> entries d k = Some l \<and> lock_tasks d = lock_tasks c \<and>
      lock_owner d = lock_owner c \<and> tasks_refs_ok d \<and> refs_ok d acc"
    using lock_for_spec [OF Cons.prems(1-4) d] .
  then have "refs_ok d (acc @ [(k, l)])"
    by (auto simp: refs_ok_def)
  moreover have "collect_locks d (acc @ [(k, l)]) ks = (c', ls)"
    using Cons.prems(5) d by simp
  ultimately show ?case
    using Cons.IH [of d "acc @ [(k, l)]"] one Cons.prems(1) by simp
qed auto

lemma lock_inv_tasks_refs: "lock_inv U c \<Longrightarrow> tasks_refs_ok c"
  by (simp add: lock_inv_def tasks_refs_ok_def)

lemma lock_inv_phase:
  "lock_inv U c \<Longrightarrow> bt_get (lock_tasks c) t = Some p \<Longrightarrow>
    refs_ok c (strong_refs p) \<and> phase_ok U p \<and> sorted_wrt (key_less U) (map fst (strong_refs p))"
  by (auto simp: lock_inv_def)

lemma lock_inv_owner:
  "lock_inv U c \<Longrightarrow> lock_owner c l = Some t \<longleftrightarrow>
    (\<exists>p. bt_get (lock_tasks c) t = Some p \<and> l \<in> snd ` set (guards p))"
  by (simp add: lock_inv_def)

text \<open>Changing the phase of one task while keeping the table.\<close>

lemma lock_inv_set_phase:
  assumes inv: "lock_inv U c" and get: "bt_get (lock_tasks c) t = Some p"
    and sub: "set (strong_refs q) \<subseteq> set (strong_refs p)"
    and ok: "phase_ok U q" and sorted: "sorted_wrt (key_less U) (map fst (strong_refs q))"
    and owner: "\<And>l. own l = (if l \<in> snd ` set (guards q) then Some t
        else if l \<in> snd ` set (guards p) then None else lock_owner c l)"
    and free: "\<And>l. l \<in> snd ` set (guards q) - snd ` set (guards p) \<Longrightarrow> lock_owner c l = None"
  shows "lock_inv U (set_phase t q (c\<lparr>lock_owner := own\<rparr>))"
proof -
  have bt: "bt_ok (lock_tasks c)" and ent: "entries_inv c"
    using inv by (simp_all add: lock_inv_def)
  have tasks: "bt_get (bt_insert t q (lock_tasks c)) = (bt_get (lock_tasks c))(t \<mapsto> q)"
    using bt by (rule bt_get_insert)
  have refs: "refs_ok c (strong_refs q)"
    using lock_inv_phase [OF inv get] sub by (auto simp: refs_ok_def)
  have own: "own l = Some u \<longleftrightarrow>
      (\<exists>r. ((bt_get (lock_tasks c))(t \<mapsto> q)) u = Some r \<and> l \<in> snd ` set (guards r))" for l u
  proof (cases "u = t")
    case True
    then show ?thesis
      using lock_inv_owner [OF inv, of l t] get by (auto simp: owner)
  next
    case False
    have "lock_owner c l = Some u \<Longrightarrow> l \<notin> snd ` set (guards q) \<and> l \<notin> snd ` set (guards p)"
      using lock_inv_owner [OF inv, of l t] get free [of l] False by auto
    then show ?thesis
      using lock_inv_owner [OF inv, of l u] False by (auto simp: owner)
  qed
  show ?thesis
    unfolding lock_inv_def set_phase_def
    using bt ent ok sorted refs own lock_inv_phase [OF inv] bt_insert_ok [OF bt]
    by (auto simp: tasks refs_ok_def entries_inv_def)
qed

lemma key_less_distinct: "sorted_wrt (key_less U) ks \<Longrightarrow> distinct ks"
  by (induction ks) (auto simp: key_less_def)

lemma refs_distinct:
  assumes "lock_inv U c" and "bt_get (lock_tasks c) t = Some p"
  shows "distinct (map snd (strong_refs p))"
proof -
  have "sorted_wrt (key_less U) (map fst (strong_refs p))" and refs: "refs_ok c (strong_refs p)"
    using lock_inv_phase [OF assms] by simp_all
  then have "distinct (map fst (strong_refs p))"
    using key_less_distinct by blast
  then have "distinct (strong_refs p)" and inj: "inj_on fst (set (strong_refs p))"
    by (simp_all add: distinct_map)
  moreover have "inj_on snd (set (strong_refs p))"
  proof (rule inj_onI)
    fix x y assume xy: "x \<in> set (strong_refs p)" "y \<in> set (strong_refs p)" "snd x = snd y"
    then have "entries c (fst x) = Some (snd x)" "entries c (fst y) = Some (snd x)"
      using refs by (auto simp: refs_ok_def)
    then have "fst x = fst y"
      using assms(1) by (auto simp: lock_inv_def entries_inv_def)
    with inj xy show "x = y" by (auto dest: inj_onD)
  qed
  ultimately show ?thesis by (simp add: distinct_map)
qed

lemma lock_inv_init: "lock_inv U coordinator_default"
  by (simp add: lock_inv_def coordinator_default_def entries_inv_def)

lemma lock_inv_request:
  assumes U: "uuid_laws U" and inv: "lock_inv U c" and idle: "bt_get (lock_tasks c) t = None"
    and wf: "list_all key_wf keys" and col: "collect_locks c [] (lock_order U keys) = (c', ls)"
  shows "lock_inv U (set_phase t (Acquiring keys ls []) c')"
proof -
  have bt: "bt_ok (lock_tasks c)" and ent: "entries_inv c"
    using inv by (simp_all add: lock_inv_def)
  have c': "entries_inv c'" "lock_tasks c' = lock_tasks c" "lock_owner c' = lock_owner c"
      "tasks_refs_ok c'" "refs_ok c' ls" "map fst ls = lock_order U keys"
    using collect_locks_spec [OF bt ent lock_inv_tasks_refs [OF inv] _ col]
    by (simp_all add: refs_ok_def)
  have tasks: "bt_get (bt_insert t q (lock_tasks c)) = (bt_get (lock_tasks c))(t \<mapsto> q)" for q
    using bt by (rule bt_get_insert)
  have sorted: "sorted_wrt (key_less U) (map fst ls)"
    using lock_order_strict [OF U] wf c'(6) by (simp add: list_all_iff)
  have "entries_inv (set_phase t (Acquiring keys ls []) c')"
    using c'(1) by (simp add: entries_inv_def set_phase_def)
  moreover have "refs_ok (set_phase t (Acquiring keys ls []) c') (strong_refs p)"
    if "((bt_get (lock_tasks c))(t \<mapsto> Acquiring keys ls [])) u = Some p" for u p
    using that c'(2,4,5) by (auto simp: tasks_refs_ok_def refs_ok_def set_phase_def split: if_splits)
  ultimately show ?thesis
    unfolding lock_inv_def
    using bt_insert_ok [OF bt] c' wf sorted lock_inv_phase [OF inv] lock_inv_owner [OF inv] idle
    by (auto simp: tasks set_phase_def)
qed

lemma lock_inv_finish:
  assumes inv: "lock_inv U c" and get: "bt_get (lock_tasks c) t = Some (Releasing [])"
  shows "lock_inv U (c\<lparr>lock_tasks := bt_remove t (lock_tasks c)\<rparr>)"
proof -
  have "bt_ok (bt_remove t (lock_tasks c))"
    using inv by (simp add: lock_inv_def bt_remove_ok)
  then show ?thesis
    using inv get unfolding lock_inv_def
    by (auto simp: bt_get_remove refs_ok_def entries_inv_def)
qed

lemma lock_inv_do:
  assumes U: "uuid_laws U" and inv: "lock_inv U c" and do: "lock_do U a c = Some d"
  shows "lock_inv U d"
proof (cases a)
  case (Request t keys)
  then show ?thesis
    using do lock_inv_request [OF U inv] by (auto split: if_splits prod.splits)
next
  case (Lock t)
  then obtain keys k l ls gs where
    get: "bt_get (lock_tasks c) t = Some (Acquiring keys ((k, l) # ls) gs)"
    and free: "lock_owner c l = None"
    and d: "d = set_phase t (Acquiring keys ls (gs @ [(k, l)]))
       (c\<lparr>lock_owner := (lock_owner c)(l \<mapsto> t)\<rparr>)"
    using do by (auto split: option.splits lock_phase.splits list.splits if_splits)
  show ?thesis
    unfolding d
    by (rule lock_inv_set_phase [OF inv get])
      (use lock_inv_phase [OF inv get] lock_inv_owner [OF inv] get free in \<open>auto\<close>)
next
  case (Unlock t)
  then obtain k l gs where get: "bt_get (lock_tasks c) t = Some (Releasing ((k, l) # gs))"
    and d: "d = set_phase t (Releasing gs) (c\<lparr>lock_owner := (lock_owner c)(l := None)\<rparr>)"
    using do by (auto split: option.splits lock_phase.splits list.splits)
  have "l \<notin> snd ` set gs"
    using refs_distinct [OF inv get] by simp
  then show ?thesis
    unfolding d
    by (intro lock_inv_set_phase [OF inv get])
      (use lock_inv_phase [OF inv get] lock_inv_owner [OF inv] get in \<open>auto\<close>)
next
  case (Abandon t)
  then obtain keys ls gs where get: "bt_get (lock_tasks c) t = Some (Acquiring keys ls gs)"
    and d: "d = set_phase t (Releasing gs) (c\<lparr>lock_owner := lock_owner c\<rparr>)"
    using do by (auto split: option.splits lock_phase.splits list.splits)
  show ?thesis
    unfolding d
    by (rule lock_inv_set_phase [OF inv get])
      (use lock_inv_phase [OF inv get] lock_inv_owner [OF inv] get in
        \<open>auto simp: sorted_wrt_append\<close>)
next
  case (Acquired t)
  then obtain keys gs where get: "bt_get (lock_tasks c) t = Some (Acquiring keys [] gs)"
    and d: "d = set_phase t (Holding keys gs) (c\<lparr>lock_owner := lock_owner c\<rparr>)"
    using do by (auto split: option.splits lock_phase.splits list.splits)
  show ?thesis
    unfolding d
    by (rule lock_inv_set_phase [OF inv get])
      (use lock_inv_phase [OF inv get] lock_inv_owner [OF inv] get in \<open>auto\<close>)
next
  case (DropGuards t)
  then obtain keys gs where get: "bt_get (lock_tasks c) t = Some (Holding keys gs)"
    and d: "d = set_phase t (Releasing gs) (c\<lparr>lock_owner := lock_owner c\<rparr>)"
    using do by (auto split: option.splits lock_phase.splits list.splits)
  show ?thesis
    unfolding d
    by (rule lock_inv_set_phase [OF inv get])
      (use lock_inv_phase [OF inv get] lock_inv_owner [OF inv] get in \<open>auto\<close>)
next
  case (Finish t)
  then show ?thesis
    using do lock_inv_finish [OF inv] by (auto split: option.splits lock_phase.splits list.splits)
qed

lemma lock_reachable_inv: "uuid_laws U \<Longrightarrow> lock_reachable U c \<Longrightarrow> lock_inv U c"
  by (rotate_tac, induction rule: lock_reachable.induct) (auto intro: lock_inv_init lock_inv_do)

section \<open>Progress\<close>

text \<open>
  The actions that need nobody's decision: taking a free lock, returning from \<open>acquire\<close>, dropping
  the next guard.
\<close>

fun internal :: "lock_action \<Rightarrow> bool" where
  "internal (Request t keys) = False"
| "internal (DropGuards t) = False"
| "internal (Abandon t) = False"
| "internal a = True"

lemma lock_blocked_by_later:
  assumes inv: "lock_inv U c" and get: "bt_get (lock_tasks c) t = Some (Acquiring keys ((k, l) # ls) gs)"
    and stuck: "\<And>a. internal a \<Longrightarrow> lock_do U a c = None"
    and none: "\<And>u keys gs. bt_get (lock_tasks c) u \<noteq> Some (Holding keys gs)"
  shows "\<exists>u keys' k' l' ls' gs'.
    bt_get (lock_tasks c) u = Some (Acquiring keys' ((k', l') # ls') gs') \<and> key_less U k k'"
proof -
  obtain u where u: "lock_owner c l = Some u"
    using stuck [of "Lock t"] get by fastforce
  then obtain p where p: "bt_get (lock_tasks c) u = Some p" and l: "l \<in> snd ` set (guards p)"
    using lock_inv_owner [OF inv] by blast
  show ?thesis
  proof (cases p)
    case (Acquiring keys' ls' gs')
    then obtain k' l' ls'' where ls': "ls' = (k', l') # ls''"
      using stuck [of "Acquired u"] p by (cases ls') auto
    obtain j where j: "(j, l) \<in> set gs'"
      using l Acquiring by auto
    have "refs_ok c (gs @ (k, l) # ls)" "refs_ok c (gs' @ ls')"
      using lock_inv_phase [OF inv get] lock_inv_phase [OF inv p] Acquiring by simp_all
    then have "entries c k = Some l" "entries c j = Some l"
      using j by (auto simp: refs_ok_def)
    then have "j = k"
      using inv unfolding lock_inv_def entries_inv_def by blast
    moreover have "key_less U j k'"
      using lock_inv_phase [OF inv p] Acquiring ls' j by (auto simp: sorted_wrt_append)
    ultimately show ?thesis
      using p Acquiring ls' by blast
  next
    case (Holding keys' gs')
    then show ?thesis using none p by blast
  next
    case (Releasing gs')
    then show ?thesis
      using stuck [of "Unlock u"] p l by (cases gs') auto
  qed
qed

lemma lock_progress:
  assumes inv: "lock_inv U c" and busy: "lock_tasks c \<noteq> []"
    and none: "\<And>u keys gs. bt_get (lock_tasks c) u \<noteq> Some (Holding keys gs)"
  shows "\<exists>a. internal a \<and> lock_do U a c \<noteq> None"
proof (rule ccontr)
  assume "\<not> ?thesis"
  then have stuck: "\<And>a. internal a \<Longrightarrow> lock_do U a c = None" by blast
  define heads where "heads = {canonical_bytes U k | k t keys l ls gs.
    bt_get (lock_tasks c) t = Some (Acquiring keys ((k, l) # ls) gs)}"
  have "heads \<subseteq> (\<lambda>p. canonical_bytes U (fst (hd (case p of Acquiring keys ls gs \<Rightarrow> ls | _ \<Rightarrow> []))))
      ` ran (bt_get (lock_tasks c))"
    unfolding heads_def by (force simp: ran_def)
  then have fin: "finite heads"
    by (rule finite_subset) (intro finite_imageI finite_ran finite_dom_map_of)
  obtain t p where "(t, p) \<in> set (lock_tasks c)"
    using busy by (cases "lock_tasks c") auto
  then have p: "bt_get (lock_tasks c) t = Some p"
    using inv by (simp add: lock_inv_def bt_in_set_iff)
  have "heads \<noteq> {}"
  proof (cases p)
    case (Acquiring keys ls gs)
    then obtain k l ls' where "ls = (k, l) # ls'"
      using stuck [of "Acquired t"] p by (cases ls) auto
    then show ?thesis using p Acquiring heads_def by blast
  next
    case (Holding keys gs)
    then show ?thesis using none p by blast
  next
    case (Releasing gs)
    then show ?thesis
      using stuck [of "Unlock t"] stuck [of "Finish t"] p by (cases gs) auto
  qed
  with fin have "Max heads \<in> heads" by simp
  then obtain k u keys l ls gs where m: "Max heads = canonical_bytes U k"
    "bt_get (lock_tasks c) u = Some (Acquiring keys ((k, l) # ls) gs)"
    unfolding heads_def by blast
  obtain u' keys' k' l' ls' gs' where
    "bt_get (lock_tasks c) u' = Some (Acquiring keys' ((k', l') # ls') gs')" and less: "key_less U k k'"
    using lock_blocked_by_later [OF inv m(2) stuck none] by blast
  then have "canonical_bytes U k' \<in> heads"
    unfolding heads_def by blast
  then have "canonical_bytes U k' \<le> canonical_bytes U k"
    using fin m(1) Max_ge [of heads] by metis
  with less show False by (simp add: key_less_def)
qed

text \<open>How much a call still has to do.\<close>

fun phase_work :: "lock_phase \<Rightarrow> nat" where
  "phase_work (Acquiring keys ls gs) = 2 * length ls + length gs + 3"
| "phase_work (Holding keys gs) = length gs + 2"
| "phase_work (Releasing gs) = length gs + 1"

definition lock_work :: "coordinator \<Rightarrow> nat" where
  "lock_work c = sum_list (map (\<lambda>tp. phase_work (snd tp)) (lock_tasks c))"

lemma set_phase_work:
  "bt_ok (lock_tasks c) \<Longrightarrow> bt_get (lock_tasks c) t = Some p \<Longrightarrow>
    phase_work q < phase_work p \<Longrightarrow> lock_work (set_phase t q (c\<lparr>lock_owner := own\<rparr>)) < lock_work c"
  using bt_sum_replace [of "lock_tasks c" t p phase_work q] by (simp add: lock_work_def set_phase_def)

lemma set_phase_work':
  "bt_ok (lock_tasks c) \<Longrightarrow> bt_get (lock_tasks c) t = Some p \<Longrightarrow>
    phase_work q < phase_work p \<Longrightarrow> lock_work (set_phase t q c) < lock_work c"
  using set_phase_work [of c t p q "lock_owner c"] by simp

lemma lock_do_work:
  assumes inv: "lock_inv U c" and a: "internal a \<or> (\<exists>t. a = DropGuards t)"
    and do: "lock_do U a c = Some d"
  shows "lock_work d < lock_work c"
proof -
  have bt: "bt_ok (lock_tasks c)" using inv by (simp add: lock_inv_def)
  have "lock_work (c\<lparr>lock_tasks := bt_remove t (lock_tasks c)\<rparr>) < lock_work c"
    if "bt_get (lock_tasks c) t = Some (Releasing [])" for t
    using bt_sum_remove [OF bt that, of phase_work] by (simp add: lock_work_def)
  then show ?thesis
    using do a set_phase_work [OF bt] set_phase_work' [OF bt]
    by (cases a) (auto split: option.splits lock_phase.splits list.splits if_splits)
qed

lemma lock_drains:
  assumes U: "uuid_laws U" and inv: "lock_inv U c"
  shows "\<exists>as d. list_all (\<lambda>a. internal a \<or> (\<exists>t. a = DropGuards t)) as \<and>
    lock_run U as c = Some d \<and> lock_tasks d = []"
  using inv
proof (induction "lock_work c" arbitrary: c rule: less_induct)
  case less
  show ?case
  proof (cases "lock_tasks c = []")
    case True
    then show ?thesis by (intro exI [of _ "[]"] exI [of _ c]) simp
  next
    case False
    have "\<exists>a. (internal a \<or> (\<exists>t. a = DropGuards t)) \<and> lock_do U a c \<noteq> None"
    proof (cases "\<exists>u keys gs. bt_get (lock_tasks c) u = Some (Holding keys gs)")
      case True
      then obtain u keys gs where "bt_get (lock_tasks c) u = Some (Holding keys gs)" by blast
      then show ?thesis by (intro exI [of _ "DropGuards u"]) simp
    next
      case hold: False
      then show ?thesis
        using lock_progress [OF less.prems False] by blast
    qed
    then obtain a d where a: "internal a \<or> (\<exists>t. a = DropGuards t)" and d: "lock_do U a c = Some d"
      by blast
    obtain as e where "list_all (\<lambda>a. internal a \<or> (\<exists>t. a = DropGuards t)) as"
      "lock_run U as d = Some e" "lock_tasks e = []"
      using less.hyps [OF lock_do_work [OF less.prems a d] lock_inv_do [OF U less.prems d]] by blast
    with a d show ?thesis
      by (intro exI [of _ "a # as"] exI [of _ e]) simp
  qed
qed

lemma lock_run_reachable:
  "lock_reachable U c \<Longrightarrow> lock_run U as c = Some d \<Longrightarrow> lock_reachable U d"
  by (induction as arbitrary: c) (auto intro: lock_step split: bind_splits)

section \<open>Properties\<close>

text \<open>
  C9: Mutual exclusion.  Although the coordinator keeps only weak references and replaces the
  entry of a key whose lock nobody refers to any more, two calls that hold their guards at the same
  time were never given a common key.
\<close>

theorem lock_mutual_exclusion:
  assumes "uuid_laws U" and "lock_reachable U c" and "t \<noteq> u"
    and "bt_get (lock_tasks c) t = Some (Holding keys gs)"
    and "bt_get (lock_tasks c) u = Some (Holding keys' gs')"
  shows "set keys \<inter> set keys' = {}"
proof (rule ccontr)
  assume "set keys \<inter> set keys' \<noteq> {}"
  then obtain k where k: "k \<in> set keys" "k \<in> set keys'" by blast
  have inv: "lock_inv U c"
    using assms(1,2) by (rule lock_reachable_inv)
  note t = lock_inv_phase [OF inv assms(4)] and u = lock_inv_phase [OF inv assms(5)]
  have "set keys = fst ` set gs" "set keys' = fst ` set gs'"
    using t u by (metis phase_ok.simps(2) list.set_map set_lock_order)+
  then obtain l l' where l: "(k, l) \<in> set gs" "(k, l') \<in> set gs'"
    using k by force
  then have "entries c k = Some l" "entries c k = Some l'"
    using t u by (auto simp: refs_ok_def)
  then have "l' = l" by simp
  then have "lock_owner c l = Some t" "lock_owner c l = Some u"
    using l assms(4,5) lock_inv_owner [OF inv] by force+
  with assms(3) show False by simp
qed

definition demo_requests :: "lock_action list" where
  "demo_requests = [Request 0 [StateStoreKey, ExtensionKey ''b'', StateStoreKey],
     Request 1 [ExtensionKey ''a''], Lock 0, Lock 0, Acquired 0, Lock 1, Acquired 1]"

theorem lock_mutual_exclusion_witness:
  "{StateStoreKey, ExtensionKey ''b''} \<inter> {ExtensionKey ''a''} = {} \<and>
   lock_reachable demo_uuid (the (lock_run demo_uuid demo_requests coordinator_default))"
proof -
  have "case lock_run demo_uuid demo_requests coordinator_default of None \<Rightarrow> False | Some c \<Rightarrow>
      bt_get (lock_tasks c) 0 =
        Some (Holding [StateStoreKey, ExtensionKey ''b'', StateStoreKey]
          [(ExtensionKey ''b'', 0), (StateStoreKey, 1)]) \<and>
      bt_get (lock_tasks c) 1 = Some (Holding [ExtensionKey ''a''] [(ExtensionKey ''a'', 2)])"
    by code_simp
  then obtain c where c: "lock_run demo_uuid demo_requests coordinator_default = Some c"
    "bt_get (lock_tasks c) 0 = Some (Holding [StateStoreKey, ExtensionKey ''b'', StateStoreKey]
          [(ExtensionKey ''b'', 0), (StateStoreKey, 1)])"
    "bt_get (lock_tasks c) 1 = Some (Holding [ExtensionKey ''a''] [(ExtensionKey ''a'', 2)])"
    by (auto split: option.splits)
  have "lock_reachable demo_uuid c"
    using lock_run_reachable [OF lock_init c(1)] .
  then show ?thesis
    using lock_mutual_exclusion [OF demo_uuid_laws _ _ c(2,3)] c(1) by simp
qed

text \<open>
  C5: No deadlock and no lost wake-up.  From every reachable state of the coordinator all pending
  calls can be served, without a new request and without abandoning a call, by callers dropping
  the guards they were given; every such action uses up work, so no schedule of them runs forever.
\<close>

theorem lock_no_deadlock:
  assumes "uuid_laws U" and "lock_reachable U c"
  shows "(\<exists>as d. list_all (\<lambda>a. internal a \<or> (\<exists>t. a = DropGuards t)) as \<and>
      lock_run U as c = Some d \<and> lock_tasks d = []) \<and>
    (lock_tasks c = [] \<or> (\<exists>u keys gs. bt_get (lock_tasks c) u = Some (Holding keys gs)) \<or>
      (\<exists>a. internal a \<and> lock_do U a c \<noteq> None)) \<and>
    (\<forall>a d. internal a \<or> (\<exists>t. a = DropGuards t) \<longrightarrow> lock_do U a c = Some d \<longrightarrow>
      lock_work d < lock_work c)"
proof -
  have inv: "lock_inv U c"
    using assms by (rule lock_reachable_inv)
  show ?thesis
    using lock_drains [OF assms(1) inv] lock_progress [OF inv] lock_do_work [OF inv] by blast
qed

text \<open>Two calls that ask for the same two keys in opposite orders.\<close>

theorem lock_no_deadlock_witness:
  "\<exists>c as d. lock_run demo_uuid
      [Request 0 [StateStoreKey, ExtensionKey ''a''], Request 1 [ExtensionKey ''a'', StateStoreKey],
       Lock 0] coordinator_default = Some c \<and> lock_do demo_uuid (Lock 1) c = None \<and>
    lock_run demo_uuid as c = Some d \<and> lock_tasks d = []"
proof -
  have "case lock_run demo_uuid
      [Request 0 [StateStoreKey, ExtensionKey ''a''], Request 1 [ExtensionKey ''a'', StateStoreKey],
       Lock 0] coordinator_default of None \<Rightarrow> False
    | Some c \<Rightarrow> Option.is_none (lock_do demo_uuid (Lock 1) c)"
    by code_simp
  then obtain c where c: "lock_run demo_uuid
      [Request 0 [StateStoreKey, ExtensionKey ''a''], Request 1 [ExtensionKey ''a'', StateStoreKey],
       Lock 0] coordinator_default = Some c" "lock_do demo_uuid (Lock 1) c = None"
    by (auto split: option.splits simp: Option.is_none_def)
  show ?thesis
    using c lock_no_deadlock [OF demo_uuid_laws lock_run_reachable [OF lock_init c(1)]] by blast
qed

end
