(* ===== verification/Semver.thy ===== *)
theory Semver
  imports RustStrings "HOL-Library.Product_Lexorder"
begin

text \<open>
  The interface of the \<open>semver\<close> crate, which is not part of the repository: \<open>Version\<close> with its
  documented public fields, and its functions as the fields of \<open>semver_ops\<close>, an argument of every
  definition that calls them.  \<open>semver_laws\<close> states the documented behaviour the theorems rely on;
  \<open>demo_semver\<close> is a concrete library that has it.
\<close>

record version =
  v_major :: u64
  v_minor :: u64
  v_patch :: u64
  v_pre :: string
  v_build :: string

text \<open>\<open>Version::new\<close>.\<close>

definition version_new :: "u64 \<Rightarrow> u64 \<Rightarrow> u64 \<Rightarrow> version" where
  "version_new a b c = \<lparr>v_major = a, v_minor = b, v_patch = c, v_pre = [], v_build = []\<rparr>"

abbreviation v_core :: "version \<Rightarrow> u64 \<times> u64 \<times> u64" where
  "v_core v \<equiv> (v_major v, v_minor v, v_patch v)"

record semver_ops =
  sv_parse :: "string \<Rightarrow> version option"          \<comment> \<open>\<open>Version::parse\<close>\<close>
  sv_cmp :: "version \<Rightarrow> version \<Rightarrow> ordering"        \<comment> \<open>\<open>Version::cmp_precedence\<close>\<close>
  sv_show :: "version \<Rightarrow> string"                    \<comment> \<open>\<open>Display\<close>\<close>

definition semver_char :: "char \<Rightarrow> bool" where
  "semver_char c \<longleftrightarrow> is_ascii_alphanumeric c \<or> c \<in> {CHR ''.'', CHR ''-'', CHR ''+''}"

text \<open>A version that came out of the parser, so that its pre-release part follows the grammar.\<close>

definition parsed :: "semver_ops \<Rightarrow> version \<Rightarrow> bool" where
  "parsed S v \<longleftrightarrow> sv_parse S (sv_show S v) = Some v"

definition semver_laws :: "semver_ops \<Rightarrow> bool" where
  "semver_laws S \<longleftrightarrow>
     cmp_preorder (sv_cmp S) \<and>
     (\<forall>v w. sv_cmp S v w = Equal \<longleftrightarrow> v_core v = v_core w \<and> v_pre v = v_pre w) \<and>
     (\<forall>v w. v_core v < v_core w \<longrightarrow> sv_cmp S v w = Less) \<and>
     (\<forall>v w. v_core v = v_core w \<longrightarrow> v_pre v \<noteq> [] \<longrightarrow> v_pre w = [] \<longrightarrow> sv_cmp S v w = Less) \<and>
     (\<forall>v w. v_core v = v_core w \<longrightarrow> v_pre v = ''0'' \<longrightarrow> parsed S w \<longrightarrow> sv_cmp S v w \<noteq> Greater) \<and>
     (\<forall>s v. sv_parse S s = Some v \<longrightarrow> sv_show S v = s \<and> list_all semver_char s \<and>
        (\<exists>c cs. s = c # cs \<and> is_ascii_digit c) \<and> (\<exists>c \<in> set s. c = CHR ''.''))"

lemma semver_preorder: "semver_laws S \<Longrightarrow> cmp_preorder (sv_cmp S)"
  by (simp add: semver_laws_def)

lemma semver_equal:
  "semver_laws S \<Longrightarrow> sv_cmp S v w = Equal \<longleftrightarrow> v_core v = v_core w \<and> v_pre v = v_pre w"
  by (simp add: semver_laws_def)

lemma semver_core_less: "semver_laws S \<Longrightarrow> v_core v < v_core w \<Longrightarrow> sv_cmp S v w = Less"
  unfolding semver_laws_def by blast

lemma semver_pre_less:
  "semver_laws S \<Longrightarrow> v_core v = v_core w \<Longrightarrow> v_pre v \<noteq> [] \<Longrightarrow> v_pre w = [] \<Longrightarrow> sv_cmp S v w = Less"
  unfolding semver_laws_def by blast

lemma semver_zero_least:
  "semver_laws S \<Longrightarrow> v_core v = v_core w \<Longrightarrow> v_pre v = ''0'' \<Longrightarrow> parsed S w \<Longrightarrow> sv_cmp S v w \<noteq> Greater"
  unfolding semver_laws_def by blast

lemma semver_parse_show:
  "semver_laws S \<Longrightarrow> sv_parse S s = Some v \<Longrightarrow> sv_show S v = s"
  unfolding semver_laws_def by blast

lemma semver_parse_parsed: "semver_laws S \<Longrightarrow> sv_parse S s = Some v \<Longrightarrow> parsed S v"
  by (simp add: parsed_def semver_parse_show)

lemma semver_parse_chars: "semver_laws S \<Longrightarrow> sv_parse S s = Some v \<Longrightarrow> list_all semver_char s"
  unfolding semver_laws_def by blast

lemma semver_parse_shape:
  "semver_laws S \<Longrightarrow> sv_parse S s = Some v \<Longrightarrow> CHR ''.'' \<in> set s \<and> (\<exists>c cs. s = c # cs \<and> is_ascii_digit c)"
  unfolding semver_laws_def by blast

lemma semver_core_le:
  assumes "semver_laws S" and "sv_cmp S v w \<noteq> Greater"
  shows "v_core v \<le> v_core w"
proof (rule ccontr)
  assume "\<not> v_core v \<le> v_core w"
  then have "v_core w < v_core v"
    by (rule not_le_imp_less)
  then have "sv_cmp S w v = Less"
    by (rule semver_core_less [OF assms(1)])
  with assms show False
    using cmp_preorder.cmp_greater_iff [OF semver_preorder] by blast
qed

text \<open>
  The first pre-release of a core is a lower bound for everything of that core: a version is below
  it exactly when its core is smaller.
\<close>

lemma semver_below_zero:
  assumes "semver_laws S" and "parsed S c" and "v_pre z = ''0''"
  shows "sv_cmp S c z = Less \<longleftrightarrow> v_core c < v_core z"
proof
  assume less: "sv_cmp S c z = Less"
  then have "v_core c \<le> v_core z"
    using semver_core_le [OF assms(1)] by simp
  moreover have "v_core c \<noteq> v_core z"
  proof
    assume "v_core c = v_core z"
    then have "sv_cmp S z c \<noteq> Greater"
      using semver_zero_least [OF assms(1), of z c] assms by simp
    with less show False
      using cmp_preorder.cmp_greater_iff [OF semver_preorder [OF assms(1)]] by blast
  qed
  ultimately show "v_core c < v_core z" by (rule le_neq_trans)
qed (rule semver_core_less [OF assms(1)])

lemma semver_not_below_zero:
  assumes "semver_laws S" and "parsed S c" and "v_pre z = ''0''"
  shows "sv_cmp S c z \<noteq> Less \<longleftrightarrow> v_core z \<le> v_core c"
  using semver_below_zero [OF assms] by (metis not_less)

text \<open>Cores compare lexicographically; the proofs unfold that only where they need it.\<close>

lemmas core_order = less_prod_simp less_eq_prod_simp

section \<open>A concrete library for the witnesses\<close>

text \<open>Strict Semantic Versioning 2.0 syntax and precedence.\<close>

fun show_core :: "version \<Rightarrow> string" where
  "show_core v = show_nat (unat (v_major v)) @ ''.'' @ show_nat (unat (v_minor v)) @ ''.'' @
     show_nat (unat (v_patch v))"

definition demo_show :: "version \<Rightarrow> string" where
  "demo_show v = show_core v @ (if v_pre v = [] then [] else ''-'' @ v_pre v) @
     (if v_build v = [] then [] else ''+'' @ v_build v)"

definition ident_key :: "string \<Rightarrow> nat \<times> nat \<times> string" where
  "ident_key s = (if s \<noteq> [] \<and> list_all is_ascii_digit s then (0, dec_value s, []) else (1, 0, s))"

definition demo_parse :: "string \<Rightarrow> version option" where
  "demo_parse s =
     (let (rest, build) = (case split_once (CHR ''+'') s of None \<Rightarrow> (s, []) | Some p \<Rightarrow> p);
          (core, pre) = (case split_once (CHR ''-'') rest of None \<Rightarrow> (rest, []) | Some p \<Rightarrow> p)
      in case map parse_u64 (split_on (CHR ''.'') core) of
           [Some a, Some b, Some c] \<Rightarrow>
             let v = \<lparr>v_major = a, v_minor = b, v_patch = c, v_pre = pre, v_build = build\<rparr>
             in if demo_show v = s \<and> list_all semver_char s
                  \<and> (pre = [] \<or> [] \<notin> set (split_on (CHR ''.'') pre)) then Some v else None
         | _ \<Rightarrow> None)"

definition demo_cmp :: "version \<Rightarrow> version \<Rightarrow> ordering" where
  "demo_cmp v w =
     then_with (cmp_of (v_core v) (v_core w))
       (then_with (cmp_of (v_pre v = []) (v_pre w = []))
         (then_with (cmp_of (map ident_key (split_on (CHR ''.'') (v_pre v)))
                      (map ident_key (split_on (CHR ''.'') (v_pre w))))
           (cmp_of (v_pre v) (v_pre w))))"

definition demo_semver :: semver_ops where
  "demo_semver = \<lparr>sv_parse = demo_parse, sv_cmp = demo_cmp, sv_show = demo_show\<rparr>"

lemma demo_cmp_preorder: "cmp_preorder demo_cmp"
  unfolding demo_cmp_def [abs_def]
  by (intro cmp_preorder_then)
    (rule cmp_preorder_on [OF cmp_of_preorder])+

lemma demo_parse_Some:
  "demo_parse s = Some v \<Longrightarrow> demo_show v = s \<and> list_all semver_char s \<and>
    (v_pre v = [] \<or> [] \<notin> set (split_on (CHR ''.'') (v_pre v)))"
  by (auto simp: demo_parse_def Let_def split: prod.splits list.splits option.splits if_splits)

lemma split_on_single: "split_on c s = [p] \<Longrightarrow> p = s"
  by (induction c s arbitrary: p rule: split_on.induct) (auto split: list.splits if_splits)

lemma ident_key_zero: "s \<noteq> [] \<Longrightarrow> ident_key ''0'' \<le> ident_key s"
  by (simp add: ident_key_def is_ascii_digit_def dec_value_def)

lemma demo_zero_least:
  assumes "v_core v = v_core w" and "v_pre v = ''0''" and "demo_parse s = Some w"
  shows "demo_cmp v w \<noteq> Greater"
proof (cases "v_pre w = []")
  case True
  then show ?thesis
    using assms by (simp add: demo_cmp_def then_with_iffs)
next
  case False
  obtain p ps where p: "split_on (CHR ''.'') (v_pre w) = p # ps"
    by (cases "split_on (CHR ''.'') (v_pre w)") auto
  then have "p \<noteq> []"
    using demo_parse_Some [OF assms(3)] False by auto
  then have "ident_key ''0'' \<le> ident_key p"
    by (rule ident_key_zero)
  then have key: "[ident_key ''0''] \<le> map ident_key (p # ps)"
    by (cases ps) (auto simp: le_less)
  have raw: "''0'' \<le> v_pre w" if eq: "[ident_key ''0''] = map ident_key (p # ps)"
  proof -
    have "v_pre w = p"
      using eq p split_on_single [of "CHR ''.''" "v_pre w" p] by simp
    moreover have "list_all is_ascii_digit p"
      using eq by (auto simp: ident_key_def is_ascii_digit_def split: if_splits)
    then obtain c cs where "p = c # cs" "is_ascii_digit c"
      using \<open>p \<noteq> []\<close> by (cases p) auto
    moreover have "byte c = (48 :: nat) \<longleftrightarrow> c = CHR ''0''"
      using of_char_eq_iff [of c "CHR ''0''", where ?'a = nat] by simp
    ultimately show ?thesis
      by (cases cs) (auto simp: is_ascii_digit_def less_char_def le_less)
  qed
  have zero: "split_on (CHR ''.'') ''0'' = [''0'']" by simp
  have "then_with (cmp_of (map ident_key (split_on (CHR ''.'') ''0''))
      (map ident_key (split_on (CHR ''.'') (v_pre w)))) (cmp_of ''0'' (v_pre w)) \<noteq> Greater"
    unfolding zero p list.map using key raw
    by (simp only: then_with_iffs cmp_of_iffs list.map) (metis leD)
  then show ?thesis
    using assms False by (simp add: demo_cmp_def then_with_def)
qed

lemma demo_show_shape:
  "CHR ''.'' \<in> set (demo_show v) \<and> (\<exists>c cs. demo_show v = c # cs \<and> is_ascii_digit c)"
proof -
  obtain c cs where "show_nat (unat (v_major v)) = c # cs" "is_ascii_digit c"
    using show_nat_digits [of "unat (v_major v)"] by (cases "show_nat (unat (v_major v))") auto
  then show ?thesis by (simp add: demo_show_def)
qed

lemma demo_semver_laws: "semver_laws demo_semver"
  unfolding semver_laws_def
proof (intro conjI allI impI)
  show "cmp_preorder (sv_cmp demo_semver)"
    by (simp add: demo_semver_def demo_cmp_preorder)
next
  fix v w
  show "sv_cmp demo_semver v w = Equal \<longleftrightarrow> v_core v = v_core w \<and> v_pre v = v_pre w"
    by (auto simp: demo_semver_def demo_cmp_def then_with_iffs)
  show "sv_cmp demo_semver v w = Less" if "v_core v < v_core w"
    using that by (simp only: demo_semver_def demo_cmp_def then_with_iffs cmp_of_iffs semver_ops.simps) blast
  show "sv_cmp demo_semver v w = Less" if "v_core v = v_core w" "v_pre v \<noteq> []" "v_pre w = []"
    using that by (simp add: demo_semver_def demo_cmp_def then_with_iffs)
  show "sv_cmp demo_semver v w \<noteq> Greater"
    if "v_core v = v_core w" "v_pre v = ''0''" "parsed demo_semver w"
    using that demo_zero_least [of v w] by (simp add: demo_semver_def parsed_def)
next
  fix s v assume "sv_parse demo_semver s = Some v"
  then have s: "demo_show v = s" and chars: "list_all semver_char s"
    using demo_parse_Some [of s v] by (simp_all add: demo_semver_def)
  then show "sv_show demo_semver v = s" "list_all semver_char s"
    by (simp_all add: demo_semver_def)
  show "\<exists>c cs. s = c # cs \<and> is_ascii_digit c" "\<exists>c \<in> set s. c = CHR ''.''"
    using demo_show_shape [of v] s by simp_all
qed

declare less_prod_simp [simp del] less_eq_prod_simp [simp del]

end
