(* ===== verification/Range.thy ===== *)
theory Range
  imports Semver BTree
begin

text \<open>
  \<open>crates/alcomd-vpm/src/range.rs\<close>: VPM version ranges, a disjunction of conjunctions of
  comparator predicates, with partial versions, hyphen ranges, carets and tildes.
\<close>

section \<open>Data\<close>

datatype range_error = RangeInvalid | RangeTooLarge

datatype predicate =
    Exact version | GreaterThan version | GreaterOrEqual version | LessThan version
  | LessOrEqual version

record conjunction =
  predicates :: "predicate list"
  source :: string
  prerelease_cores :: "(u64 \<times> u64 \<times> u64) list"

datatype vpm_range = VpmRange (arms: "conjunction list")

definition max_range_bytes :: nat where
  "max_range_bytes = 1024"

definition max_or_arms :: nat where
  "max_or_arms = 64"

definition max_predicates :: nat where
  "max_predicates = 128"

section \<open>Matching\<close>

fun predicate_version :: "predicate \<Rightarrow> version" where
  "predicate_version (Exact v) = v"
| "predicate_version (GreaterThan v) = v"
| "predicate_version (GreaterOrEqual v) = v"
| "predicate_version (LessThan v) = v"
| "predicate_version (LessOrEqual v) = v"

definition predicate_matches :: "semver_ops \<Rightarrow> predicate \<Rightarrow> version \<Rightarrow> bool" where
  "predicate_matches S p candidate =
     (let ordering = sv_cmp S candidate (predicate_version p) in
      case p of
        Exact _ \<Rightarrow> ordering = Equal
      | GreaterThan _ \<Rightarrow> ordering = Greater
      | GreaterOrEqual _ \<Rightarrow> ordering \<noteq> Less
      | LessThan _ \<Rightarrow> ordering = Less
      | LessOrEqual _ \<Rightarrow> ordering \<noteq> Greater)"

definition conjunction_matches :: "semver_ops \<Rightarrow> conjunction \<Rightarrow> version \<Rightarrow> bool \<Rightarrow> bool" where
  "conjunction_matches S c v include_prerelease =
     (if \<not> include_prerelease \<and> v_pre v \<noteq> [] \<and> v_core v \<notin> set (prerelease_cores c) then False
      else list_all (\<lambda>p. predicate_matches S p v) (predicates c))"

definition range_matches :: "semver_ops \<Rightarrow> vpm_range \<Rightarrow> version \<Rightarrow> bool \<Rightarrow> bool" where
  "range_matches S r v include_prerelease =
     list_ex (\<lambda>arm. conjunction_matches S arm v include_prerelease) (arms r)"

definition range_canonical :: "vpm_range \<Rightarrow> string" where
  "range_canonical r = join '' || '' (map source (arms r))"

section \<open>Partial versions\<close>

record partial_version =
  lower :: version
  precision :: nat

definition is_wildcard :: "string \<Rightarrow> bool" where
  "is_wildcard part \<longleftrightarrow> part = ''*'' \<or> part = ''x'' \<or> part = ''X''"

text \<open>The loop over the dot-separated parts; the numbers read so far are in order.\<close>

fun partial_parts :: "bool \<Rightarrow> u64 list \<Rightarrow> string list \<Rightarrow> range_error + u64 list" where
  "partial_parts wildcard ns [] = Inr ns"
| "partial_parts wildcard ns (part # parts) =
     (if is_wildcard part then partial_parts True ns parts
      else if wildcard \<or> part = [] \<or> \<not> list_all is_ascii_digit part
        \<or> (length part > 1 \<and> hd part = CHR ''0'') then Inl RangeInvalid
      else and_then (ok_or (parse_u64 part) RangeInvalid)
        (\<lambda>n. partial_parts wildcard (ns @ [n]) parts))"

definition number_at :: "u64 list \<Rightarrow> nat \<Rightarrow> u64" where
  "number_at ns i = (if i < length ns then ns ! i else 0)"

definition partial_parse :: "semver_ops \<Rightarrow> string \<Rightarrow> range_error + partial_version" where
  "partial_parse S input =
     (case sv_parse S input of
        Some v \<Rightarrow> Inr \<lparr>lower = v, precision = 3\<rparr>
      | None \<Rightarrow>
          let parts = split_on (CHR ''.'') input in
          if length parts < 1 \<or> 3 < length parts then Inl RangeInvalid
          else and_then (partial_parts False [] parts)
            (\<lambda>ns. Inr \<lparr>lower = version_new (number_at ns 0) (number_at ns 1) (number_at ns 2),
                     precision = length ns\<rparr>))"

definition checked_next :: "u64 \<Rightarrow> range_error + u64" where
  "checked_next value = ok_or (checked_inc value) RangeInvalid"

definition partial_next :: "partial_version \<Rightarrow> range_error + version option" where
  "partial_next p =
     (if precision p = 0 then Inr None
      else if precision p = 1 then
        and_then (checked_next (v_major (lower p))) (\<lambda>n. Inr (Some (version_new n 0 0)))
      else if precision p = 2 then
        and_then (checked_next (v_minor (lower p)))
          (\<lambda>n. Inr (Some (version_new (v_major (lower p)) n 0)))
      else
        and_then (checked_next (v_patch (lower p)))
          (\<lambda>n. Inr (Some (version_new (v_major (lower p)) (v_minor (lower p)) n))))"

definition before_release :: "version \<Rightarrow> version" where
  "before_release v = v\<lparr>v_pre := ''0''\<rparr>"

section \<open>Parsing\<close>

definition operators :: "string list" where
  "operators = [''>='', ''<='', ''>'', ''<'', ''='', ''^'', ''~'']"

text \<open>The first operator that is a prefix, and what follows it.\<close>

fun strip_operator :: "string list \<Rightarrow> string \<Rightarrow> string \<times> string" where
  "strip_operator [] input = ([], input)"
| "strip_operator (op # ops) input =
     (case strip_prefix op input of Some rest \<Rightarrow> (op, rest) | None \<Rightarrow> strip_operator ops input)"

definition required_next :: "partial_version \<Rightarrow> range_error + version" where
  "required_next p = and_then (partial_next p) (\<lambda>n. ok_or n RangeInvalid)"

definition caret_upper :: "partial_version \<Rightarrow> range_error + version" where
  "caret_upper p =
     (let l = lower p in
      if v_major l > 0 \<or> precision p = 1 then
        and_then (checked_next (v_major l)) (\<lambda>n. Inr (version_new n 0 0))
      else if v_minor l > 0 \<or> precision p = 2 then
        and_then (checked_next (v_minor l)) (\<lambda>n. Inr (version_new 0 n 0))
      else and_then (checked_next (v_patch l)) (\<lambda>n. Inr (version_new 0 0 n)))"

definition tilde_upper :: "partial_version \<Rightarrow> range_error + version" where
  "tilde_upper p =
     (let l = lower p in
      if precision p = 1 then and_then (checked_next (v_major l)) (\<lambda>n. Inr (version_new n 0 0))
      else and_then (checked_next (v_minor l)) (\<lambda>n. Inr (version_new (v_major l) n 0)))"

definition primitive_predicates ::
  "string \<Rightarrow> partial_version \<Rightarrow> range_error + predicate list" where
  "primitive_predicates operator p =
     (if precision p = 0 then
        Inr (if operator = ''>'' then [LessThan (version_new 0 0 0)]
             else if operator = ''<'' then [LessThan (before_release (version_new 0 0 0))]
             else if operator \<in> {''<='', ''~'', ''^''} then [GreaterOrEqual (version_new 0 0 0)]
             else [])
      else if operator = ''>='' then
        Inr [GreaterOrEqual (if precision p < 3 then before_release (lower p) else lower p)]
      else if operator = ''<='' then
        (if precision p < 3 then and_then (required_next p) (\<lambda>n. Inr [LessThan n])
         else Inr [LessOrEqual (lower p)])
      else if operator = ''>'' then
        (if precision p < 3 then
           and_then (required_next p) (\<lambda>n. Inr [GreaterOrEqual (before_release n)])
         else Inr [GreaterThan (lower p)])
      else if operator = ''<'' then
        Inr [LessThan (if precision p < 3 then before_release (lower p) else lower p)]
      else if operator = ''^'' \<or> operator = ''~'' then
        and_then (if operator = ''~'' then tilde_upper p else caret_upper p)
          (\<lambda>u. Inr [GreaterOrEqual (lower p), LessThan (before_release u)])
      else if precision p = 3 then Inr [Exact (lower p)]
      else and_then (required_next p)
        (\<lambda>n. Inr [GreaterOrEqual (before_release (lower p)), LessThan (before_release n)]))"

definition parse_primitive :: "semver_ops \<Rightarrow> string \<Rightarrow> range_error + predicate list" where
  "parse_primitive S input =
     (let (operator, operand) = strip_operator operators input in
      and_then (partial_parse S operand) (primitive_predicates operator))"

text \<open>\<open>trim_start_matches(['>', '<', '=', '^', '~'])\<close>.\<close>

definition operator_char :: "char \<Rightarrow> bool" where
  "operator_char c \<longleftrightarrow> c \<in> set ''><=^~''"

definition token_operand :: "string \<Rightarrow> string" where
  "token_operand token = dropWhile operator_char token"

text \<open>The cores for which a token names a pre-release version.\<close>

definition token_cores :: "semver_ops \<Rightarrow> string list \<Rightarrow> (u64 \<times> u64 \<times> u64) list" where
  "token_cores S tokens =
     btset_of_list
       (concat (map (\<lambda>token.
          case sv_parse S (token_operand token) of
            Some v \<Rightarrow> if v_pre v \<noteq> [] then [v_core v] else []
          | None \<Rightarrow> []) tokens))"

definition hyphen_predicates ::
  "partial_version \<Rightarrow> partial_version \<Rightarrow> range_error + predicate list" where
  "hyphen_predicates lo up =
     (let lows = (if precision lo > 0
                  then [GreaterOrEqual (if precision lo < 3 then before_release (lower lo) else lower lo)]
                  else []) in
      if precision up = 3 then Inr (lows @ [LessOrEqual (lower up)])
      else and_then (partial_next up) (\<lambda>next.
        Inr (lows @ (case next of Some n \<Rightarrow> [LessThan (before_release n)] | None \<Rightarrow> []))))"

text \<open>\<open>tokens.get(i)\<close>.\<close>

definition get_token :: "string list \<Rightarrow> nat \<Rightarrow> string option" where
  "get_token ts i = (if i < length ts then Some (ts ! i) else None)"

text \<open>
  One round of the loop of \<open>parse_conjunction\<close> at token \<open>t\<close> followed by \<open>ts\<close>: the predicates and
  the source term it adds, and the tokens it leaves.
\<close>

definition next_term ::
  "semver_ops \<Rightarrow> string \<Rightarrow> string list \<Rightarrow> range_error + (predicate list \<times> string \<times> string list)" where
  "next_term S t ts =
     (if get_token ts 0 = Some ''-'' then
        and_then (partial_parse S t) (\<lambda>lo.
        and_then (ok_or (get_token ts 1) RangeInvalid) (\<lambda>u.
        and_then (partial_parse S u) (\<lambda>up.
        and_then (hyphen_predicates lo up) (\<lambda>ps. Inr (ps, t @ '' - '' @ u, drop 2 ts)))))
      else if t \<in> set operators then
        and_then (ok_or (get_token ts 0) RangeInvalid) (\<lambda>operand.
        and_then (parse_primitive S (t @ operand)) (\<lambda>ps. Inr (ps, t @ operand, drop 1 ts)))
      else and_then (parse_primitive S t) (\<lambda>ps. Inr (ps, t, ts)))"

lemma next_term_rest: "next_term S t ts = Inr (ps, s, rest) \<Longrightarrow> length rest \<le> length ts"
  by (auto simp: next_term_def result_simps split: if_splits)

function parse_terms ::
  "semver_ops \<Rightarrow> string list \<Rightarrow> predicate list \<Rightarrow> string list \<Rightarrow>
    range_error + (predicate list \<times> string list)" where
  "parse_terms S [] ps ss = Inr (ps, ss)"
| "parse_terms S (t # ts) ps ss =
     (case next_term S t ts of
        Inl e \<Rightarrow> Inl e
      | Inr (qs, s, rest) \<Rightarrow>
          if length (ps @ qs) > max_predicates then Inl RangeTooLarge
          else parse_terms S rest (ps @ qs) (ss @ [s]))"
  by pat_completeness auto
termination
  by (relation "measure (\<lambda>(S, ts, ps, ss). length ts)") (auto dest: next_term_rest)

definition parse_conjunction :: "semver_ops \<Rightarrow> string \<Rightarrow> range_error + conjunction" where
  "parse_conjunction S input =
     (if input = [] then Inr \<lparr>predicates = [], source = ''*'', prerelease_cores = []\<rparr>
      else
        let tokens = split_ascii_whitespace input in
        if length tokens > max_predicates then Inl RangeTooLarge
        else and_then (parse_terms S tokens [] []) (\<lambda>(ps, ss).
          Inr \<lparr>predicates = ps, source = join '' '' (btset_of_list ss),
               prerelease_cores = token_cores S tokens\<rparr>))"

definition source_cmp :: "conjunction \<Rightarrow> conjunction \<Rightarrow> ordering" where
  "source_cmp a b = cmp_of (source a) (source b)"

definition range_parse :: "semver_ops \<Rightarrow> string \<Rightarrow> range_error + vpm_range" where
  "range_parse S input =
     (if length input > max_range_bytes then Inl RangeTooLarge
      else if any_control input then Inl RangeInvalid
      else
        let raw_arms = split_bars input in
        if length raw_arms > max_or_arms then Inl RangeTooLarge
        else and_then (collect (\<lambda>raw. parse_conjunction S (trim raw)) raw_arms) (\<lambda>cs.
          Inr (VpmRange (remdups_adj (sort_by source_cmp cs)))))"

text \<open>A project's direct requirement: a plain version means that version or any later one.\<close>

definition project_range_parse :: "semver_ops \<Rightarrow> string \<Rightarrow> range_error + vpm_range" where
  "project_range_parse S input =
     and_then (range_parse S input) (\<lambda>ordinary.
       case sv_parse S (trim input) of
         Some v \<Rightarrow> and_then (parse_conjunction S (''>='' @ sv_show S v)) (\<lambda>c. Inr (VpmRange [c]))
       | None \<Rightarrow> Inr ordinary)"

section \<open>Lemmas on matching\<close>

lemma conjunction_matches_iff:
  "conjunction_matches S c v incl \<longleftrightarrow>
    (incl \<or> v_pre v = [] \<or> v_core v \<in> set (prerelease_cores c)) \<and>
    (\<forall>p \<in> set (predicates c). predicate_matches S p v)"
  by (auto simp: conjunction_matches_def list_all_iff)

lemma range_matches_iff:
  "range_matches S r v incl \<longleftrightarrow> (\<exists>c \<in> set (arms r). conjunction_matches S c v incl)"
  by (auto simp: range_matches_def list_ex_iff)

lemma predicate_matches_simps [simp]:
  "predicate_matches S (Exact w) v \<longleftrightarrow> sv_cmp S v w = Equal"
  "predicate_matches S (GreaterThan w) v \<longleftrightarrow> sv_cmp S v w = Greater"
  "predicate_matches S (GreaterOrEqual w) v \<longleftrightarrow> sv_cmp S v w \<noteq> Less"
  "predicate_matches S (LessThan w) v \<longleftrightarrow> sv_cmp S v w = Less"
  "predicate_matches S (LessOrEqual w) v \<longleftrightarrow> sv_cmp S v w \<noteq> Greater"
  by (simp_all add: predicate_matches_def)

lemma range_parse_arms:
  "range_parse S input = Inr r \<Longrightarrow>
    \<exists>cs. list_all2 (\<lambda>raw c. parse_conjunction S (trim raw) = Inr c) (split_bars input) cs \<and>
      set (arms r) = set cs"
  by (auto simp: range_parse_def Let_def result_simps split: if_splits)

lemma range_parse_matches:
  assumes "range_parse S input = Inr r"
  shows "range_matches S r v incl \<longleftrightarrow>
    (\<exists>raw \<in> set (split_bars input). \<exists>c. parse_conjunction S (trim raw) = Inr c \<and>
      conjunction_matches S c v incl)"
proof -
  obtain cs where
    cs: "list_all2 (\<lambda>raw c. parse_conjunction S (trim raw) = Inr c) (split_bars input) cs"
    and set_cs: "set (arms r) = set cs"
    using range_parse_arms [OF assms] by blast
  show ?thesis
    unfolding range_matches_iff set_cs
    by (rule collected_ex [of "\<lambda>raw. parse_conjunction S (trim raw)", OF cs])
qed

lemma token_cores_set:
  "set (token_cores S tokens) =
    {v_core v | v t. t \<in> set tokens \<and> sv_parse S (token_operand t) = Some v \<and> v_pre v \<noteq> []}"
  by (force simp: token_cores_def split: option.splits if_splits)

lemma parse_conjunction_cores:
  "parse_conjunction S input = Inr c \<Longrightarrow>
    prerelease_cores c = token_cores S (split_ascii_whitespace input)"
  by (auto simp: parse_conjunction_def Let_def result_simps token_cores_def btset_of_list_def
      bt_of_list_def split_ascii_whitespace_def split: if_splits)

section \<open>Lemmas on the comparators\<close>

lemma checked_next_Inr_iff [result_simps]:
  "checked_next w = Inr n \<longleftrightarrow> n = w + 1 \<and> unat n = unat w + 1"
  by (simp add: checked_next_def result_simps checked_inc_Some_iff)

lemmas word_nat_order = core_order word_less_nat_alt word_le_nat_alt word_unat_eq_iff

lemma checked_next_less:
  assumes "checked_next w = Inr n"
  shows "x < n \<longleftrightarrow> x \<le> w"
  using assms by (auto simp: result_simps word_less_nat_alt word_le_nat_alt)

lemma before_release_simps [simp]:
  "v_pre (before_release v) = ''0''"
  "v_major (before_release v) = v_major v"
  "v_minor (before_release v) = v_minor v"
  "v_patch (before_release v) = v_patch v"
  by (simp_all add: before_release_def)

lemma version_new_simps [simp]:
  "v_major (version_new a b c) = a" "v_minor (version_new a b c) = b"
  "v_patch (version_new a b c) = c" "v_pre (version_new a b c) = []"
  by (simp_all add: version_new_def)

lemma partial_parse_version: "sv_parse S s = Some v \<Longrightarrow> partial_parse S s = Inr \<lparr>lower = v, precision = 3\<rparr>"
  by (simp add: partial_parse_def)

lemma strip_operator_caret: "strip_operator operators (CHR ''^'' # s) = (''^'', s)"
  by (simp add: operators_def)

lemma strip_operator_tilde: "strip_operator operators (CHR ''~'' # s) = (''~'', s)"
  by (simp add: operators_def)

text \<open>Between a lower bound and the first pre-release of an upper core.\<close>

lemma below_upper:
  assumes "semver_laws S" and "parsed S c"
  shows "sv_cmp S c (before_release u) = Less \<longleftrightarrow> v_core c < v_core u"
  using semver_below_zero [OF assms, of "before_release u"] by simp

lemma above_lower:
  assumes "semver_laws S" and "sv_cmp S c v \<noteq> Less"
  shows "v_core v \<le> v_core c"
proof (rule semver_core_le [OF assms(1)])
  show "sv_cmp S v c \<noteq> Greater"
    using assms cmp_preorder.cmp_greater_iff [OF semver_preorder [OF assms(1)]] by blast
qed

section \<open>What the parsers accept\<close>

definition operand_char :: "char \<Rightarrow> bool" where
  "operand_char c \<longleftrightarrow> semver_char c \<or> c = CHR ''*''"

lemma partial_parts_accepted:
  "partial_parts w ns parts = Inr ms \<Longrightarrow> part \<in> set parts \<Longrightarrow>
    is_wildcard part \<or> (part \<noteq> [] \<and> list_all is_ascii_digit part)"
  by (induction w ns parts rule: partial_parts.induct) (auto simp: result_simps split: if_splits)

lemma partial_parts_length:
  "partial_parts w ns parts = Inr ms \<Longrightarrow> length ms \<le> length ns + length parts"
  by (induction w ns parts rule: partial_parts.induct)
    (fastforce simp: result_simps split: if_splits)+

lemma wildcard_chars: "is_wildcard part \<Longrightarrow> part \<noteq> [] \<and> list_all operand_char part \<and>
    \<not> operator_char (hd part) \<and> hd part \<noteq> CHR ''-''"
  by (auto simp: is_wildcard_def operand_char_def semver_char_def is_ascii_alphanumeric_def
      is_ascii_alphabetic_def operator_char_def)

lemma digit_not_operator: "is_ascii_digit c \<Longrightarrow> \<not> operator_char c \<and> c \<noteq> CHR ''-''"
  by (auto simp: is_ascii_digit_def operator_char_def)

lemma digit_operand_char: "is_ascii_digit c \<Longrightarrow> operand_char c"
  by (simp add: operand_char_def semver_char_def is_ascii_alphanumeric_def)

text \<open>An operand starts like a version and contains no operator, space or bar.\<close>

lemma partial_parse_chars:
  assumes "semver_laws S" and "partial_parse S s = Inr p"
  shows "s \<noteq> [] \<and> list_all operand_char s \<and> \<not> operator_char (hd s) \<and> hd s \<noteq> CHR ''-''"
proof (cases "sv_parse S s")
  case (Some v)
  then show ?thesis
    using semver_parse_chars [OF assms(1) Some] semver_parse_shape [OF assms(1) Some]
      digit_not_operator by (auto simp: operand_char_def list_all_iff)
next
  case None
  obtain ns where ns: "partial_parts False [] (split_on (CHR ''.'') s) = Inr ns"
    using assms(2) None by (auto simp: partial_parse_def Let_def result_simps split: if_splits)
  have part: "part \<noteq> [] \<and> list_all operand_char part \<and> \<not> operator_char (hd part) \<and> hd part \<noteq> CHR ''-''"
    if "part \<in> set (split_on (CHR ''.'') s)" for part
    using partial_parts_accepted [OF ns that] wildcard_chars [of part] digit_not_operator
      digit_operand_char by (cases part) (auto simp: list_all_iff)
  obtain q qs where q: "split_on (CHR ''.'') s = q # qs"
    by (cases "split_on (CHR ''.'') s") auto
  have "s \<noteq> [] \<and> hd s = hd q"
    using split_on_hd [OF q] part [of q] q by simp
  moreover have "list_all operand_char s"
    using split_on_chars [of _ s "CHR ''.''"] part
    by (fastforce simp: list_all_iff operand_char_def semver_char_def)
  ultimately show ?thesis
    using part [of q] q by simp
qed

lemma strip_operator_none:
  "s \<noteq> [] \<Longrightarrow> \<not> operator_char (hd s) \<Longrightarrow> strip_operator operators s = ([], s)"
  by (cases s) (auto simp: operators_def operator_char_def)

lemma partial_parse_cases:
  assumes "partial_parse S s = Inr p"
  obtains (full) v where "sv_parse S s = Some v" "p = \<lparr>lower = v, precision = 3\<rparr>"
  | (parts) ns where "length ns \<le> 3" "precision p = length ns"
      "lower p = version_new (number_at ns 0) (number_at ns 1) (number_at ns 2)"
proof (cases "sv_parse S s")
  case (Some v)
  then show ?thesis
    using assms by (intro full) (auto simp: partial_parse_def)
next
  case None
  then obtain ns where "partial_parts False [] (split_on (CHR ''.'') s) = Inr ns"
    and p: "p = \<lparr>lower = version_new (number_at ns 0) (number_at ns 1) (number_at ns 2),
      precision = length ns\<rparr>" and "length (split_on (CHR ''.'') s) \<le> 3"
    using assms by (auto simp: partial_parse_def Let_def result_simps split: if_splits)
  then have "length ns \<le> 3"
    using partial_parts_length by fastforce
  then show ?thesis
    by (intro parts) (simp_all add: p)
qed

section \<open>Properties\<close>

definition same_leftmost :: "version \<Rightarrow> version \<Rightarrow> bool" where
  "same_leftmost v c \<longleftrightarrow>
     v_major c = v_major v \<and>
     (v_major v = 0 \<longrightarrow> v_minor c = v_minor v \<and> (v_minor v = 0 \<longrightarrow> v_patch c = v_patch v))"

text \<open>
  C24: A caret on a full version accepts exactly the versions at or above it that agree with it up
  to and including its first non-zero number, pre-releases of the next one excluded; it is refused
  only when that number cannot be increased.
\<close>

theorem caret_semantics:
  assumes "semver_laws S" and "sv_parse S operand = Some v" and "parsed S c"
    and "parse_primitive S (''^'' @ operand) = Inr ps"
  shows "(\<forall>p \<in> set ps. predicate_matches S p c) \<longleftrightarrow> sv_cmp S c v \<noteq> Less \<and> same_leftmost v c"
proof -
  obtain u where u: "caret_upper \<lparr>lower = v, precision = 3\<rparr> = Inr u"
    and ps: "ps = [GreaterOrEqual v, LessThan (before_release u)]"
    using assms(4)
    by (auto simp: parse_primitive_def strip_operator_caret partial_parse_version [OF assms(2)]
        primitive_predicates_def result_simps)
  have "v_core c < v_core u \<longleftrightarrow> same_leftmost v c" if "v_core v \<le> v_core c"
    using u that
    by (auto simp: caret_upper_def result_simps same_leftmost_def word_nat_order split: if_splits)
  then show ?thesis
    using above_lower [OF assms(1), of c v] by (auto simp: ps below_upper [OF assms(1,3)])
qed

theorem caret_semantics_witness:
  "\<not> list_all (\<lambda>p. predicate_matches demo_semver p (version_new 0 3 0))
      [GreaterOrEqual (version_new 0 2 3), LessThan (before_release (version_new 0 3 0))]"
proof -
  have "sv_parse demo_semver ''0.2.3'' = Some (version_new 0 2 3)"
    "parsed demo_semver (version_new 0 3 0)"
    "parse_primitive demo_semver (''^'' @ ''0.2.3'') =
      Inr [GreaterOrEqual (version_new 0 2 3), LessThan (before_release (version_new 0 3 0))]"
    unfolding parsed_def by code_simp+
  from caret_semantics [OF demo_semver_laws this] show ?thesis
    by (simp add: same_leftmost_def)
qed

text \<open>
  C25: A tilde on a full version fixes its major and minor numbers; a partial version without an
  operator fixes exactly the numbers it spells out, pre-releases included.
\<close>

theorem tilde_and_partial_semantics:
  assumes "semver_laws S" and "parsed S c" and "partial_parse S operand = Inr p"
    and "precision p = 3 \<and> parse_primitive S (''~'' @ operand) = Inr ps \<or>
      precision p \<in> {1, 2} \<and> parse_primitive S operand = Inr ps"
  shows "(\<forall>q \<in> set ps. predicate_matches S q c) \<longleftrightarrow>
    v_major c = v_major (lower p) \<and>
    (precision p > 1 \<longrightarrow> v_minor c = v_minor (lower p)) \<and>
    (precision p = 3 \<longrightarrow> sv_cmp S c (lower p) \<noteq> Less)"
  using assms(4)
proof
  assume p3: "precision p = 3 \<and> parse_primitive S (''~'' @ operand) = Inr ps"
  then obtain u where u: "tilde_upper p = Inr u"
    and ps: "ps = [GreaterOrEqual (lower p), LessThan (before_release u)]"
    using assms(3)
    by (auto simp: parse_primitive_def strip_operator_tilde primitive_predicates_def result_simps)
  have "v_core c < v_core u \<longleftrightarrow> v_major c = v_major (lower p) \<and> v_minor c = v_minor (lower p)"
    if "v_core (lower p) \<le> v_core c"
  proof -
    have "u = version_new (v_major (lower p)) (v_minor (lower p) + 1) 0"
      and "unat (v_minor (lower p) + 1) = unat (v_minor (lower p)) + 1"
      using u p3 by (auto simp: tilde_upper_def Let_def result_simps)
    with that show ?thesis
      by (auto simp: word_nat_order)
  qed
  then show ?thesis
    using above_lower [OF assms(1), of c "lower p"] p3
    by (auto simp: ps below_upper [OF assms(1,2)])
next
  assume p12: "precision p \<in> {1, 2} \<and> parse_primitive S operand = Inr ps"
  obtain ns where ns: "length ns \<le> 3" "precision p = length ns"
      "lower p = version_new (number_at ns 0) (number_at ns 1) (number_at ns 2)"
    using assms(3) p12 by (cases rule: partial_parse_cases) auto
  have "strip_operator operators operand = ([], operand)"
    using partial_parse_chars [OF assms(1,3)] strip_operator_none by blast
  then obtain n where n: "partial_next p = Inr (Some n)"
    and ps: "ps = [GreaterOrEqual (before_release (lower p)), LessThan (before_release n)]"
    using p12 assms(3)
    by (auto simp: parse_primitive_def primitive_predicates_def required_next_def result_simps
        split: if_splits)
  have core: "v_core (lower p) \<le> v_core c \<and> v_core c < v_core n \<longleftrightarrow> v_major c = v_major (lower p) \<and>
      (precision p > 1 \<longrightarrow> v_minor c = v_minor (lower p))"
  proof (cases "precision p = 1")
    case True
    then have "n = version_new (v_major (lower p) + 1) 0 0"
      and "unat (v_major (lower p) + 1) = unat (v_major (lower p)) + 1"
      using n by (auto simp: partial_next_def result_simps)
    moreover have "v_minor (lower p) = 0" "v_patch (lower p) = 0"
      using True ns by (simp_all add: number_at_def)
    ultimately show ?thesis
      using True by (auto simp: word_nat_order)
  next
    case False
    then have "n = version_new (v_major (lower p)) (v_minor (lower p) + 1) 0"
      and "unat (v_minor (lower p) + 1) = unat (v_minor (lower p)) + 1"
      using n p12 by (auto simp: partial_next_def result_simps)
    moreover have "v_patch (lower p) = 0"
      using False p12 ns by (simp add: number_at_def)
    ultimately show ?thesis
      using False p12 by (auto simp: word_nat_order)
  qed
  have "(\<forall>q \<in> set ps. predicate_matches S q c) \<longleftrightarrow>
      v_core (lower p) \<le> v_core c \<and> v_core c < v_core n"
    using semver_not_below_zero [OF assms(1,2), of "before_release (lower p)"]
    by (simp add: ps below_upper [OF assms(1,2)])
  then show ?thesis
    unfolding core using p12 by auto
qed

theorem tilde_and_partial_semantics_witness:
  "list_all (\<lambda>q. predicate_matches demo_semver q (before_release (version_new 1 2 0)))
      [GreaterOrEqual (before_release (version_new 1 2 0)), LessThan (before_release (version_new 1 3 0))]"
proof -
  have "parsed demo_semver (before_release (version_new 1 2 0))"
    "partial_parse demo_semver ''1.2.x'' = Inr \<lparr>lower = version_new 1 2 0, precision = 2\<rparr>"
    "parse_primitive demo_semver ''1.2.x'' =
      Inr [GreaterOrEqual (before_release (version_new 1 2 0)), LessThan (before_release (version_new 1 3 0))]"
    unfolding parsed_def by code_simp+
  then show ?thesis
    using tilde_and_partial_semantics [OF demo_semver_laws, of _ "''1.2.x''"
        "\<lparr>lower = version_new 1 2 0, precision = 2\<rparr>"] by fastforce
qed

text \<open>
  C26: Pre-releases are opt-in per core.  Without the flag a pre-release matches a parsed range
  exactly through an alternative whose comparators accept it and whose text names a pre-release of
  the same core; a release matches independently of the flag, and the flag only ever adds matches.
\<close>

theorem prerelease_gate:
  assumes "range_parse S input = Inr r"
  shows "(range_matches S r v False \<longleftrightarrow>
      (\<exists>raw \<in> set (split_bars input). \<exists>c. parse_conjunction S (trim raw) = Inr c \<and>
        (\<forall>p \<in> set (predicates c). predicate_matches S p v) \<and>
        (v_pre v = [] \<or>
          (\<exists>t \<in> set (split_ascii_whitespace (trim raw)). \<exists>w.
            sv_parse S (token_operand t) = Some w \<and> v_pre w \<noteq> [] \<and> v_core w = v_core v)))) \<and>
    (range_matches S r v False \<longrightarrow> range_matches S r v True) \<and>
    (v_pre v = [] \<longrightarrow> range_matches S r v True = range_matches S r v False)"
proof -
  have "v_core v \<in> set (prerelease_cores c) \<longleftrightarrow>
      (\<exists>t \<in> set (split_ascii_whitespace i). \<exists>w.
        sv_parse S (token_operand t) = Some w \<and> v_pre w \<noteq> [] \<and> v_core w = v_core v)"
    if "parse_conjunction S i = Inr c" for i c
    unfolding parse_conjunction_cores [OF that] token_cores_set mem_Collect_eq by metis
  then show ?thesis
    unfolding range_parse_matches [OF assms] conjunction_matches_iff by blast
qed

theorem prerelease_gate_witness:
  "range_matches demo_semver (sum.projr (range_parse demo_semver ''>=1.0.0-rc.1 || 2.x''))
      (before_release (version_new 2 0 0)) True \<and>
   \<not> range_matches demo_semver (sum.projr (range_parse demo_semver ''>=1.0.0-rc.1 || 2.x''))
      (before_release (version_new 2 0 0)) False"
proof -
  have "is_ok (range_parse demo_semver ''>=1.0.0-rc.1 || 2.x'')" by code_simp
  then obtain r where r: "range_parse demo_semver ''>=1.0.0-rc.1 || 2.x'' = Inr r"
    by (auto simp: is_ok_iff)
  have "list_all (\<lambda>raw. case parse_conjunction demo_semver (trim raw) of
        Inl e \<Rightarrow> False
      | Inr c \<Rightarrow> list_all (\<lambda>t. case sv_parse demo_semver (token_operand t) of
            Some w \<Rightarrow> v_pre w = [] \<or> v_core w \<noteq> v_core (before_release (version_new 2 0 0))
          | None \<Rightarrow> True) (split_ascii_whitespace (trim raw)))
      (split_bars ''>=1.0.0-rc.1 || 2.x'')"
    by code_simp
  then have no: "\<not> range_matches demo_semver r (before_release (version_new 2 0 0)) False"
    using prerelease_gate [OF r, of "before_release (version_new 2 0 0)"]
    by (fastforce simp: list_all_iff split: option.splits)
  have "range_matches demo_semver (sum.projr (range_parse demo_semver ''>=1.0.0-rc.1 || 2.x''))
      (before_release (version_new 2 0 0)) True"
    by code_simp
  with no r show ?thesis by simp
qed

end
