(* ===== verification/RangeCanonical.thy ===== *)
theory RangeCanonical
  imports Range
begin

text \<open>
  The canonical text of a range (\<open>VpmRange::canonical\<close>) is what the resolver stores and parses
  again.  The lemmas follow the text through the parser: every source term splits into the tokens
  that produce it, terms can be reordered and deduplicated, and the separators of the canonical form
  are taken apart again.
\<close>

section \<open>Strings\<close>

definition term_char :: "char \<Rightarrow> bool" where
  "term_char c \<longleftrightarrow> operand_char c \<or> operator_char c"

definition plain_char :: "char \<Rightarrow> bool" where
  "plain_char c \<longleftrightarrow> 33 \<le> byte c \<and> byte c < (127 :: nat) \<and> c \<noteq> CHR ''|''"

lemma term_char_plain: "term_char c \<Longrightarrow> plain_char c"
  unfolding term_char_def
proof (elim disjE)
  assume "operand_char c"
  moreover have "c \<noteq> CHR ''|''" if "byte c \<noteq> (124 :: nat)"
    using that by auto
  ultimately show ?thesis
    by (auto simp: operand_char_def semver_char_def is_ascii_alphanumeric_def is_ascii_digit_def
        is_ascii_alphabetic_def plain_char_def)
qed (auto simp: operator_char_def plain_char_def)

lemma plain_not_whitespace: "plain_char c \<Longrightarrow> \<not> is_ascii_whitespace c"
  by (auto simp: plain_char_def is_ascii_whitespace_def)

lemma split_ws_acc_space:
  "split_ws_acc acc (a @ CHR '' '' # b) = split_ws_acc acc a @ split_ws_acc [] b"
  by (induction a arbitrary: acc) (auto simp: is_ascii_whitespace_def)

lemma split_ws_space:
  "split_ascii_whitespace (a @ CHR '' '' # b) = split_ascii_whitespace a @ split_ascii_whitespace b"
  unfolding split_ascii_whitespace_def by (rule split_ws_acc_space)

lemma split_ws_acc_word:
  "list_all plain_char w \<Longrightarrow> split_ws_acc acc w = (if acc @ w = [] then [] else [acc @ w])"
  by (induction w arbitrary: acc) (auto simp: plain_not_whitespace)

lemma split_ws_word: "w \<noteq> [] \<Longrightarrow> list_all plain_char w \<Longrightarrow> split_ascii_whitespace w = [w]"
  unfolding split_ascii_whitespace_def by (simp add: split_ws_acc_word)

lemma split_ws_join: "split_ascii_whitespace (join '' '' ss) = concat (map split_ascii_whitespace ss)"
proof (induction "'' ''" ss rule: join.induct)
  case 1
  show ?case by (simp add: split_ascii_whitespace_def)
next
  case (3 s t ts)
  then show ?case by (simp add: split_ws_space)
qed simp

text \<open>A text that starts and ends with a visible ASCII character is not trimmed.\<close>

lemma ws_prefix_plain: "33 \<le> a \<Longrightarrow> a < 127 \<Longrightarrow> ws_prefix (a # s) = 0"
  by (cases "a # s" rule: ws_prefix.cases) auto

lemma ws_suffix_plain:
  assumes "s \<noteq> []" and "33 \<le> last s" and "last s < 127"
  shows "ws_suffix s = 0"
proof -
  obtain i z where s: "s = i @ [z]"
    using assms(1) by (cases s rule: rev_cases) auto
  have "drop (length s - 1) s = [z]"
    by (simp add: s)
  moreover have "ws_prefix (drop (length s - 2) s) \<noteq> 2"
    using assms by (cases i rule: rev_cases) (auto simp: s)
  moreover have "ws_prefix (drop (length s - 3) s) \<noteq> 3"
    using assms by (cases i rule: rev_cases; cases "butlast i" rule: rev_cases) (auto simp: s)
  ultimately show ?thesis
    using assms by (auto simp: ws_suffix_def Let_def s)
qed

lemma ws_suffix_space:
  "ws_suffix (s @ [32]) = 1"
  by (simp add: ws_suffix_def Let_def)

lemma trim_plain:
  assumes "s \<noteq> []" and "plain_char (hd s)" and "plain_char (last s)"
  shows "trim s = s"
proof -
  have "ws_prefix (map of_char s) = 0"
    using assms by (cases s) (auto simp: plain_char_def intro: ws_prefix_plain)
  then have "trim_start s = s"
    by (subst trim_start.simps) simp
  moreover have "ws_suffix (map of_char s) = 0"
    using assms by (intro ws_suffix_plain) (auto simp: plain_char_def last_map)
  then have "trim_end s = s"
    by (subst trim_end.simps) simp
  ultimately show ?thesis by (simp add: trim_def)
qed

lemma trim_start_space: "trim_start (CHR '' '' # s) = trim_start s"
proof -
  have "ws_prefix (map of_char (CHR '' '' # s)) = 1"
    by (cases "map of_char (CHR '' '' # s) :: nat list" rule: ws_prefix.cases) auto
  then show ?thesis
    by (subst trim_start.simps) simp
qed

lemma trim_end_space: "trim_end (s @ '' '') = trim_end s"
  using ws_suffix_space [of "map of_char s"] by (subst trim_end.simps) simp

lemma trim_padded:
  assumes "s = [] \<or> (plain_char (hd s) \<and> plain_char (last s))"
    and "pre = [] \<or> pre = '' ''" and "post = [] \<or> post = '' ''"
  shows "trim (pre @ s @ post) = s"
proof (cases "s = []")
  case True
  have "trim_start [] = []" "trim_end [] = []"
    by (subst trim_start.simps, simp, subst trim_end.simps, simp add: ws_suffix_def)
  then show ?thesis
    using assms True by (auto simp: trim_def trim_start_space)
next
  case False
  have "trim_start (s @ post) = s @ post"
    using assms False by (subst trim_start.simps, cases s)
      (auto simp: plain_char_def ws_prefix_plain)
  moreover have "trim_end (s @ post) = trim_end s"
    using assms trim_end_space by auto
  moreover have "trim_end s = s"
    using trim_plain [OF False] assms False
    by (subst trim_end.simps, simp add: ws_suffix_plain plain_char_def last_map)
  ultimately show ?thesis
    using assms by (auto simp: trim_def trim_start_space)
qed

lemma split_bars_single: "CHR ''|'' \<notin> set a \<Longrightarrow> split_bars a = [a]"
  by (induction a rule: split_bars.induct) auto

lemma split_bars_append:
  "CHR ''|'' \<notin> set a \<Longrightarrow> split_bars (a @ ''||'' @ r) = a # split_bars r"
proof (induction a)
  case (Cons d a)
  then show ?case by (cases a) auto
qed simp

lemma any_control_ascii: "list_all (\<lambda>c. 32 \<le> byte c \<and> byte c < (127 :: nat)) s \<Longrightarrow> \<not> any_control s"
  by (induction s rule: any_control.induct) auto

section \<open>Terms\<close>

abbreviation words :: "string \<Rightarrow> string list" where
  "words \<equiv> split_ascii_whitespace"

text \<open>A source term that the parser reads back as itself, with the predicates \<open>qs\<close>.\<close>

definition reads_back :: "semver_ops \<Rightarrow> string \<Rightarrow> predicate list \<Rightarrow> bool" where
  "reads_back S s qs \<longleftrightarrow>
     (\<exists>t ts. words s = t # ts \<and> hd t \<noteq> CHR ''-'' \<and> t \<noteq> [] \<and>
        (\<forall>rest. get_token rest 0 \<noteq> Some ''-'' \<longrightarrow> next_term S t (ts @ rest) = Inr (qs, s, rest))) \<and>
     s \<noteq> [] \<and> list_all (\<lambda>c. term_char c \<or> c = CHR '' '') s \<and>
     plain_char (hd s) \<and> plain_char (last s)"

lemma strip_operator_Some:
  "strip_operator ops s = (op, r) \<Longrightarrow> s = op @ r \<and> (op = [] \<or> op \<in> set ops)"
  by (induction ops s rule: strip_operator.induct)
    (auto split: option.splits simp: strip_prefix_Some_iff)

lemma operators_chars: "op \<in> set operators \<Longrightarrow> op \<noteq> [] \<and> list_all operator_char op \<and> hd op \<noteq> CHR ''-''"
  by (auto simp: operators_def operator_char_def)

lemma no_empty_version: "semver_laws S \<Longrightarrow> sv_parse S [] = None"
  using semver_parse_shape [of S "[]"] by (cases "sv_parse S []") auto

text \<open>Everything \<open>parse_primitive\<close> accepts is an operand behind at most one operator.\<close>

lemma parse_primitive_chars:
  assumes S: "semver_laws S" and parse: "parse_primitive S s = Inr qs"
  shows "s \<noteq> [] \<and> list_all term_char s \<and> hd s \<noteq> CHR ''-'' \<and> s \<notin> set operators"
proof -
  obtain op r where or: "strip_operator operators s = (op, r)" by fastforce
  then obtain p where p: "partial_parse S r = Inr p"
    using parse by (auto simp: parse_primitive_def result_simps)
  have s: "s = op @ r" "op = [] \<or> op \<in> set operators"
    using strip_operator_Some [OF or] by simp_all
  have r: "r \<noteq> []" "list_all operand_char r" "hd r \<noteq> CHR ''-''" "\<not> operator_char (hd r)"
    using partial_parse_chars [OF S p] by simp_all
  have "\<not> list_all operator_char s"
    using r by (cases r) (auto simp: s(1))
  moreover have "list_all term_char s"
    using r s operators_chars [of op] by (auto simp: list_all_iff term_char_def)
  moreover have "hd s \<noteq> CHR ''-''"
    using r s operators_chars [of op] by (cases op) auto
  ultimately show ?thesis
    using r(1) s(1) operators_chars [of s] by auto
qed

lemma reads_back_word:
  assumes S: "semver_laws S" and parse: "parse_primitive S s = Inr qs"
  shows "words s = [s] \<and> reads_back S s qs"
proof -
  have s: "s \<noteq> []" "list_all term_char s" "hd s \<noteq> CHR ''-''" "s \<notin> set operators"
    using parse_primitive_chars [OF S parse] by simp_all
  have plain: "list_all plain_char s"
    using s(2) by (auto simp: list_all_iff term_char_plain)
  then have "words s = [s]"
    using s(1) by (rule split_ws_word [rotated])
  moreover have "plain_char (hd s)" "plain_char (last s)"
    using plain s(1) by (simp_all add: list_all_iff)
  moreover have "next_term S s rest = Inr (qs, s, rest)" if "get_token rest 0 \<noteq> Some ''-''" for rest
    using that parse s(4) by (simp add: next_term_def)
  ultimately show ?thesis
    using s by (auto simp: reads_back_def list_all_iff)
qed

lemma operand_plain:
  assumes "semver_laws S" and "partial_parse S s = Inr p"
  shows "s \<noteq> [] \<and> list_all plain_char s \<and> list_all term_char s \<and> hd s \<noteq> CHR ''-''"
  using partial_parse_chars [OF assms] term_char_plain
  by (auto simp: list_all_iff term_char_def)

lemma reads_back_hyphen:
  assumes S: "semver_laws S" and t: "partial_parse S t = Inr lo" and u: "partial_parse S u = Inr up"
    and qs: "hyphen_predicates lo up = Inr qs"
  shows "words (t @ '' - '' @ u) = [t, ''-'', u] \<and> reads_back S (t @ '' - '' @ u) qs"
proof -
  note t' = operand_plain [OF S t] and u' = operand_plain [OF S u]
  have "plain_char (CHR ''-'')" by (simp add: plain_char_def)
  then have "words (t @ '' - '' @ u) = [t, ''-'', u]"
    using t' u' split_ws_space [of t "''- '' @ u"] split_ws_space [of "''-''" u]
    by (simp add: split_ws_word)
  moreover have "next_term S t ([''-'', u] @ rest) = Inr (qs, t @ '' - '' @ u, rest)" for rest
    using t u qs by (simp add: next_term_def get_token_def)
  moreover have "term_char (CHR ''-'')"
    by (simp add: term_char_def operand_char_def semver_char_def)
  ultimately show ?thesis
    using t' u' by (auto simp: reads_back_def list_all_iff)
qed

lemma token_cores_append:
  "set (token_cores S (a @ b)) = set (token_cores S a) \<union> set (token_cores S b)"
  unfolding token_cores_set by auto

lemma token_cores_concat:
  "set (token_cores S (concat tss)) = (\<Union>ts \<in> set tss. set (token_cores S ts))"
proof (induction tss)
  case Nil
  show ?case by (simp add: token_cores_set)
next
  case (Cons ts tss)
  then show ?case by (simp add: token_cores_append)
qed

lemma token_operand_merged:
  "list_all operator_char op \<Longrightarrow> token_operand (op @ r) = token_operand r"
  unfolding token_operand_def by (induction op) auto

lemma next_term_good:
  assumes S: "semver_laws S" and nt: "next_term S t ts = Inr (qs, s, rest)"
  shows "\<exists>consumed. t # ts = consumed @ rest \<and> length (words s) \<le> length consumed \<and>
    set (token_cores S (words s)) = set (token_cores S consumed) \<and> reads_back S s qs"
proof (cases "get_token ts 0 = Some ''-''")
  case True
  then obtain lo u up where lo: "partial_parse S t = Inr lo" and u: "get_token ts 1 = Some u"
    and up: "partial_parse S u = Inr up" and hp: "hyphen_predicates lo up = Inr qs"
    and s: "s = t @ '' - '' @ u" and rest: "rest = drop 2 ts"
    using nt by (auto simp: next_term_def result_simps)
  have "ts = [''-'', u] @ rest"
    using True u rest by (cases ts; cases "tl ts") (auto simp: get_token_def split: if_splits)
  then show ?thesis
    using reads_back_hyphen [OF S lo up hp] s by (intro exI [of _ "[t, ''-'', u]"]) simp
next
  case noh: False
  show ?thesis
  proof (cases "t \<in> set operators")
    case True
    then obtain operand where get: "get_token ts 0 = Some operand"
      and prim: "parse_primitive S (t @ operand) = Inr qs"
      and s: "s = t @ operand" and rest: "rest = drop 1 ts"
      using nt noh by (auto simp: next_term_def result_simps)
    have "ts = [operand] @ rest"
      using get rest by (cases ts) (auto simp: get_token_def split: if_splits)
    moreover have "token_operand (t @ operand) = token_operand operand" "token_operand t = []"
      using operators_chars [OF True] token_operand_merged [of t operand]
        token_operand_merged [of t "[]"] by (simp_all add: token_operand_def)
    then have "set (token_cores S [t @ operand]) = set (token_cores S [t, operand])"
      using no_empty_version [OF S] unfolding token_cores_set by auto
    ultimately show ?thesis
      using reads_back_word [OF S prim] s by (intro exI [of _ "[t, operand]"]) simp
  next
    case False
    then have "parse_primitive S t = Inr qs" "s = t" "rest = ts"
      using nt noh by (auto simp: next_term_def result_simps)
    then show ?thesis
      using reads_back_word [OF S] by (intro exI [of _ "[t]"]) simp
  qed
qed

section \<open>Conjunctions\<close>

definition term_predicates :: "semver_ops \<Rightarrow> string \<Rightarrow> predicate list" where
  "term_predicates S s =
     (case words s of
        [] \<Rightarrow> []
      | t # ts \<Rightarrow> (case next_term S t ts of Inl e \<Rightarrow> [] | Inr (qs, _, _) \<Rightarrow> qs))"

lemma reads_back_predicates: "reads_back S s qs \<Longrightarrow> qs = term_predicates S s"
  by (auto simp: reads_back_def term_predicates_def get_token_def dest: spec [of _ "[]"])

lemma parse_terms_good:
  assumes "semver_laws S" and "parse_terms S ts ps ss = Inr (ps', ss')"
  shows "\<exists>new. ss' = ss @ new \<and> ps' = ps @ concat (map (term_predicates S) new) \<and>
    (\<forall>s \<in> set new. reads_back S s (term_predicates S s)) \<and>
    sum_list (map (\<lambda>s. length (words s)) new) \<le> length ts \<and>
    set (token_cores S ts) = (\<Union>s \<in> set new. set (token_cores S (words s))) \<and>
    (length ps \<le> max_predicates \<longrightarrow> length ps' \<le> max_predicates)"
  using assms
proof (induction S ts ps ss rule: parse_terms.induct)
  case (1 S ps ss)
  then show ?case by (simp add: token_cores_set)
next
  case (2 S t ts ps ss)
  obtain qs s rest where nt: "next_term S t ts = Inr (qs, s, rest)"
    using 2(3) by (cases "next_term S t ts") auto
  then have len: "\<not> length (ps @ qs) > max_predicates"
    and rec: "parse_terms S rest (ps @ qs) (ss @ [s]) = Inr (ps', ss')"
    using 2(3) by (auto split: if_splits)
  obtain consumed where c: "t # ts = consumed @ rest" "length (words s) \<le> length consumed"
    "set (token_cores S (words s)) = set (token_cores S consumed)" "reads_back S s qs"
    using next_term_good [OF 2(2) nt] by blast
  have qs: "qs = term_predicates S s"
    using c(4) by (rule reads_back_predicates)
  obtain new where new: "ss' = (ss @ [s]) @ new" "ps' = (ps @ qs) @ concat (map (term_predicates S) new)"
    "\<forall>s \<in> set new. reads_back S s (term_predicates S s)"
    "sum_list (map (\<lambda>s. length (words s)) new) \<le> length rest"
    "set (token_cores S rest) = (\<Union>s \<in> set new. set (token_cores S (words s)))"
    "length (ps @ qs) \<le> max_predicates \<longrightarrow> length ps' \<le> max_predicates"
    using 2(1) [OF nt refl refl len 2(2) rec] by blast
  have "length (t # ts) = length consumed + length rest"
    using c(1) by (metis length_append)
  then show ?case
    using new c qs len token_cores_append [of S consumed rest]
    by (intro exI [of _ "s # new"]) (simp add: c(1))
qed

lemma parse_terms_words:
  assumes "\<forall>s \<in> set new. reads_back S s (term_predicates S s)"
    and "length (ps @ concat (map (term_predicates S) new)) \<le> max_predicates"
  shows "parse_terms S (concat (map words new)) ps ss =
    Inr (ps @ concat (map (term_predicates S) new), ss @ new)"
  using assms
proof (induction new arbitrary: ps ss)
  case (Cons s new)
  obtain t ts where w: "words s = t # ts"
    and nt: "\<And>rest. get_token rest 0 \<noteq> Some ''-'' \<Longrightarrow>
      next_term S t (ts @ rest) = Inr (term_predicates S s, s, rest)"
    using Cons.prems(1) by (auto simp: reads_back_def)
  have "get_token (concat (map words new)) 0 \<noteq> Some ''-''"
    using Cons.prems(1) by (cases new) (auto simp: get_token_def reads_back_def)
  then show ?case
    using Cons by (simp add: w nt)
qed simp

lemma distinct_sum_le:
  assumes "distinct ys" and "set ys \<subseteq> set xs"
  shows "sum_list (map f ys) \<le> (sum_list (map f xs) :: nat)"
proof -
  have "sum f (set xs) \<le> sum_list (map f xs)"
    by (induction xs) (auto simp: sum.insert_if)
  moreover have "sum f (set ys) \<le> sum f (set xs)"
    using assms by (intro sum_mono2) auto
  ultimately show ?thesis
    using assms(1) by (simp add: sum_list_distinct_conv_sum_set)
qed

lemma join_ends:
  "ss \<noteq> [] \<Longrightarrow> (\<And>s. s \<in> set ss \<Longrightarrow> s \<noteq> []) \<Longrightarrow>
    join sep ss \<noteq> [] \<and> hd (join sep ss) = hd (hd ss) \<and> last (join sep ss) = last (last ss)"
  by (induction sep ss rule: join.induct) auto

lemma join_chars: "c \<in> set (join sep ss) \<Longrightarrow> c \<in> set sep \<or> (\<exists>s \<in> set ss. c \<in> set s)"
  by (induction sep ss rule: join.induct) auto

definition clean_text :: "string \<Rightarrow> bool" where
  "clean_text s \<longleftrightarrow>
     (s = [] \<or> plain_char (hd s) \<and> plain_char (last s)) \<and> list_all (\<lambda>c. plain_char c \<or> c = CHR '' '') s"

text \<open>Parsing the source of a conjunction gives one with the same predicates and cores.\<close>

lemma parse_source:
  assumes S: "semver_laws S" and parse: "parse_conjunction S input = Inr c"
  shows "clean_text (source c) \<and> (\<exists>d. parse_conjunction S (source c) = Inr d \<and>
    set (predicates d) = set (predicates c) \<and> set (prerelease_cores d) = set (prerelease_cores c))"
proof (cases "input = []")
  case True
  then have c: "c = \<lparr>predicates = [], source = ''*'', prerelease_cores = []\<rparr>"
    using parse by (simp add: parse_conjunction_def)
  have noversion: "sv_parse S ''*'' = None"
    using semver_parse_shape [OF S, of "''*''"] by (cases "sv_parse S ''*''") auto
  have "partial_parse S ''*'' = Inr \<lparr>lower = version_new 0 0 0, precision = 0\<rparr>"
    by (simp add: partial_parse_def noversion is_wildcard_def number_at_def)
  then have "parse_primitive S ''*'' = Inr []"
    by (simp add: parse_primitive_def operators_def primitive_predicates_def)
  moreover have star: "words ''*'' = [''*'']"
    by (simp add: split_ascii_whitespace_def is_ascii_whitespace_def)
  moreover have "token_operand ''*'' = ''*''"
    by (simp add: token_operand_def operator_char_def)
  then have "set (token_cores S [''*'']) = {}"
    using noversion unfolding token_cores_set by auto
  ultimately have "parse_conjunction S ''*'' =
      Inr \<lparr>predicates = [], source = join '' '' (btset_of_list [''*'']),
        prerelease_cores = token_cores S [''*'']\<rparr> \<and> set (token_cores S [''*'']) = {}"
    by (simp add: parse_conjunction_def next_term_def operators_def get_token_def max_predicates_def)
  then show ?thesis
    by (simp add: c clean_text_def plain_char_def)
next
  case False
  then obtain ps ss where len: "length (words input) \<le> max_predicates"
    and terms: "parse_terms S (words input) [] [] = Inr (ps, ss)"
    and c: "c = \<lparr>predicates = ps, source = join '' '' (btset_of_list ss),
      prerelease_cores = token_cores S (words input)\<rparr>"
    using parse by (auto simp: parse_conjunction_def Let_def result_simps split: if_splits)
  obtain ps: "ps = concat (map (term_predicates S) ss)"
    and good: "\<forall>s \<in> set ss. reads_back S s (term_predicates S s)"
    and nwords: "sum_list (map (\<lambda>s. length (words s)) ss) \<le> length (words input)"
    and cores: "set (token_cores S (words input)) = (\<Union>s \<in> set ss. set (token_cores S (words s)))"
    and nps: "length ps \<le> max_predicates"
    using parse_terms_good [OF S terms] by auto
  let ?us = "btset_of_list ss"
  have dist: "distinct ?us"
    using btset_of_list_sorted strict_sorted_iff by blast
  have sub: "set ?us \<subseteq> set ss" by simp
  have ws: "words (source c) = concat (map words ?us)"
    by (simp add: c split_ws_join)
  have ends: "s \<noteq> [] \<and> plain_char (hd s) \<and> plain_char (last s) \<and>
      list_all (\<lambda>c. plain_char c \<or> c = CHR '' '') s" if "s \<in> set ss" for s
    using good that term_char_plain by (auto simp: reads_back_def list_all_iff)
  have clean: "clean_text (source c)"
  proof -
    have "source c = [] \<or> plain_char (hd (source c)) \<and> plain_char (last (source c))"
    proof (cases "ss = []")
      case False
      then have "?us \<noteq> []" by simp
      then show ?thesis
        using join_ends [of ?us "'' ''"] ends hd_in_set [of ?us] last_in_set [of ?us] by (auto simp: c)
    qed (simp add: c)
    moreover have "list_all (\<lambda>c. plain_char c \<or> c = CHR '' '') (source c)"
      using ends join_chars [of _ "'' ''" ?us] by (fastforce simp: c list_all_iff)
    ultimately show ?thesis by (simp add: clean_text_def)
  qed
  have "\<exists>d. parse_conjunction S (source c) = Inr d \<and> set (predicates d) = set ps \<and>
      set (prerelease_cores d) = set (token_cores S (words input))"
  proof (cases "ss = []")
    case True
    then show ?thesis
      by (simp add: c ps cores parse_conjunction_def btset_of_list_def bt_of_list_def)
  next
    case False
    then have ne: "source c \<noteq> []"
      using join_ends [of ?us "'' ''"] ends by (auto simp: c)
    have "length (words (source c)) \<le> max_predicates"
      using distinct_sum_le [OF dist sub, of "\<lambda>s. length (words s)"] nwords len
      by (simp add: ws length_concat comp_def)
    moreover have "length (concat (map (term_predicates S) ?us)) \<le> max_predicates"
      using distinct_sum_le [OF dist sub, of "\<lambda>s. length (term_predicates S s)"] nps
      by (simp add: ps length_concat comp_def)
    then have "parse_terms S (words (source c)) [] [] = Inr (concat (map (term_predicates S) ?us), ?us)"
      using parse_terms_words [of ?us S "[]" "[]"] good by (simp add: ws)
    moreover have "set (token_cores S (words (source c))) = set (token_cores S (words input))"
      by (simp add: ws cores token_cores_concat)
    ultimately show ?thesis
      using ne by (simp add: parse_conjunction_def ps)
  qed
  with clean show ?thesis by (simp add: c)
qed

section \<open>Ranges\<close>

lemma clean_no_bar: "clean_text s \<Longrightarrow> CHR ''|'' \<notin> set s"
  by (auto simp: clean_text_def list_all_iff plain_char_def)

lemma split_canonical:
  assumes "ss \<noteq> []" and "\<forall>s \<in> set ss. clean_text s" and "pre = [] \<or> pre = '' ''"
  shows "map trim (split_bars (pre @ join '' || '' ss)) = ss"
  using assms
proof (induction "'' || ''" ss arbitrary: pre rule: join.induct)
  case (2 s)
  then have "CHR ''|'' \<notin> set (pre @ s)"
    using clean_no_bar by auto
  then show ?case
    using 2 trim_padded [of s pre "[]"] by (auto simp: split_bars_single clean_text_def)
next
  case (3 s t ts)
  have bar: "CHR ''|'' \<notin> set (pre @ s @ '' '')"
    using 3 clean_no_bar [of s] by auto
  have "split_bars (pre @ join '' || '' (s # t # ts)) =
      split_bars ((pre @ s @ '' '') @ ''||'' @ ('' '' @ join '' || '' (t # ts)))"
    by simp
  also have "\<dots> = (pre @ s @ '' '') # split_bars ('' '' @ join '' || '' (t # ts))"
    using bar by (rule split_bars_append)
  finally show ?case
    using 3(1) [of "'' ''"] 3(2-4) trim_padded [of s pre "'' ''"]
    by (simp add: clean_text_def)
qed simp

lemma canonical_no_control:
  assumes "\<forall>s \<in> set ss. clean_text s"
  shows "\<not> any_control (join '' || '' ss)"
proof (rule any_control_ascii)
  have "32 \<le> byte c \<and> byte c < (127 :: nat)" if "c \<in> set (join '' || '' ss)" for c
  proof -
    have "plain_char c \<or> c = CHR '' '' \<or> c = CHR ''|''"
      using join_chars [OF that] assms by (auto simp: clean_text_def list_all_iff)
    then show ?thesis
      by (elim disjE) (simp_all add: plain_char_def)
  qed
  then show "list_all (\<lambda>c. 32 \<le> byte c \<and> byte c < (127 :: nat)) (join '' || '' ss)"
    by (simp add: list_all_iff)
qed

section \<open>Properties\<close>

text \<open>
  C20: The canonical text of a parsed range stands for the range.  Unless it has grown over the
  length limit it parses again, and the result accepts the same versions in both pre-release modes;
  if it has grown over the limit, it is refused as too large.
\<close>

theorem canonical_roundtrip:
  assumes "semver_laws S" and "range_parse S input = Inr r"
  shows "if length (range_canonical r) \<le> max_range_bytes
    then \<exists>q. range_parse S (range_canonical r) = Inr q \<and>
      (\<forall>v incl. range_matches S q v incl = range_matches S r v incl)
    else range_parse S (range_canonical r) = Inl RangeTooLarge"
proof (cases "length (range_canonical r) \<le> max_range_bytes")
  case True
  obtain cs where few: "length (split_bars input) \<le> max_or_arms"
    and cs: "collect (\<lambda>raw. parse_conjunction S (trim raw)) (split_bars input) = Inr cs"
    and r: "r = VpmRange (remdups_adj (sort_by source_cmp cs))"
    using assms(2) by (auto simp: range_parse_def Let_def result_simps split: if_splits)
  let ?as = "arms r"
  have parsed_arm: "\<exists>i. parse_conjunction S i = Inr c" if "c \<in> set ?as" for c
    using that cs by (auto simp: r result_simps list_all2_conv_all_nth in_set_conv_nth)
  have arm: "clean_text (source c) \<and> (\<exists>d. parse_conjunction S (source c) = Inr d \<and>
      set (predicates d) = set (predicates c) \<and> set (prerelease_cores d) = set (prerelease_cores c))"
    if "c \<in> set ?as" for c
    using parsed_arm [OF that] parse_source [OF assms(1)] by blast
  have "length cs = length (split_bars input)"
    using cs by (rule collect_Inr_length)
  then have few_arms: "length ?as \<le> max_or_arms" and ne: "?as \<noteq> []"
    using few remdups_adj_length [of "sort_by source_cmp cs"] by (auto simp: r)
  have pieces: "map trim (split_bars (range_canonical r)) = map source ?as"
    using split_canonical [of "map source ?as" "[]"] ne arm by (simp add: range_canonical_def)
  then have "length (split_bars (range_canonical r)) = length ?as"
    by (metis length_map)
  moreover have "\<not> any_control (range_canonical r)"
    using canonical_no_control [of "map source ?as"] arm by (simp add: range_canonical_def)
  moreover obtain ds where ds: "collect (parse_conjunction S) (map source ?as) = Inr ds"
    using collect_total [of "map source ?as" "parse_conjunction S"] arm by fastforce
  then have "collect (\<lambda>raw. parse_conjunction S (trim raw)) (split_bars (range_canonical r)) = Inr ds"
    by (simp add: pieces flip: collect_map)
  ultimately obtain q where q: "range_parse S (range_canonical r) = Inr q"
    using True few_arms by (simp add: range_parse_def)
  have "range_matches S q v incl = range_matches S r v incl" for v incl
  proof -
    have "range_matches S q v incl \<longleftrightarrow> (\<exists>piece \<in> set (map trim (split_bars (range_canonical r))).
        \<exists>c. parse_conjunction S piece = Inr c \<and> conjunction_matches S c v incl)"
      unfolding range_parse_matches [OF q] by auto
    also have "\<dots> \<longleftrightarrow> (\<exists>a \<in> set ?as. \<exists>c. parse_conjunction S (source a) = Inr c \<and>
        conjunction_matches S c v incl)"
      unfolding pieces by auto
    also have "\<dots> \<longleftrightarrow> (\<exists>a \<in> set ?as. conjunction_matches S a v incl)"
      using arm by (fastforce simp: conjunction_matches_iff)
    finally show ?thesis by (simp add: range_matches_iff)
  qed
  with q True show ?thesis by auto
next
  case False
  then show ?thesis by (simp add: range_parse_def)
qed

theorem canonical_roundtrip_witness:
  "\<exists>r q. range_parse demo_semver ''<2.0.0 >= 1.0.0-rc.1 ||1.x - 3'' = Inr r \<and>
    range_canonical r = ''1.x - 3 || <2.0.0 >=1.0.0-rc.1'' \<and>
    range_parse demo_semver (range_canonical r) = Inr q \<and>
    range_matches demo_semver q (version_new 3 5 0) False"
proof -
  have "case range_parse demo_semver ''<2.0.0 >= 1.0.0-rc.1 ||1.x - 3'' of Inl e \<Rightarrow> False
    | Inr r \<Rightarrow> range_canonical r = ''1.x - 3 || <2.0.0 >=1.0.0-rc.1'' \<and>
        range_matches demo_semver r (version_new 3 5 0) False"
    by code_simp
  then obtain r where r: "range_parse demo_semver ''<2.0.0 >= 1.0.0-rc.1 ||1.x - 3'' = Inr r"
      "range_canonical r = ''1.x - 3 || <2.0.0 >=1.0.0-rc.1''"
      "range_matches demo_semver r (version_new 3 5 0) False"
    by (auto split: sum.splits)
  have "length (range_canonical r) \<le> max_range_bytes"
    by (simp add: r(2) max_range_bytes_def)
  then show ?thesis
    using canonical_roundtrip [OF demo_semver_laws r(1)] r by auto
qed

end
