(* ===== verification/Unity.thy ===== *)
theory Unity
  imports RustStrings "HOL-Library.Product_Lexorder"
begin

text \<open>
  \<open>crates/alcomd-vpm/src/unity_version.rs\<close>: Unity versions as the resolver compares them, with
  \<open>canonical_unity_version\<close> and \<open>parse_decimal\<close> of \<open>crates/alcomd-application/src/m5.rs\<close>.
\<close>

section \<open>The canonical editor version\<close>

datatype m5_unity_error = VersionUnverified

text \<open>The loop reads the digits from \<open>start\<close>; the result is the index behind them.\<close>

definition parse_decimal :: "string \<Rightarrow> nat \<Rightarrow> bool \<Rightarrow> m5_unity_error + nat" where
  "parse_decimal bytes start allow_zero =
     (if length bytes \<le> start then Inl VersionUnverified
      else
        let first = bytes ! start in
        if \<not> is_ascii_digit first \<or> (\<not> allow_zero \<and> first = CHR ''0'') then Inl VersionUnverified
        else
          let end = start + 1 + length (takeWhile is_ascii_digit (drop (start + 1) bytes)) in
          if first = CHR ''0'' \<and> end > start + 1 then Inl VersionUnverified else Inr end)"

definition byte_at :: "string \<Rightarrow> nat \<Rightarrow> char option" where
  "byte_at bytes i = (if i < length bytes then Some (bytes ! i) else None)"

definition channel_byte :: "char option \<Rightarrow> bool" where
  "channel_byte c \<longleftrightarrow> (case c of None \<Rightarrow> False | Some d \<Rightarrow> d \<in> set ''abfpx'')"

text \<open>One of the first two components: digits and a dot.\<close>

definition parse_component :: "string \<Rightarrow> nat \<Rightarrow> m5_unity_error + nat" where
  "parse_component bytes i =
     and_then (parse_decimal bytes i True) (\<lambda>j.
     and_then (ensure (byte_at bytes j = Some (CHR ''.'')) VersionUnverified) (\<lambda>_. Inr (j + 1)))"

definition canonical_unity_version :: "string \<Rightarrow> m5_unity_error + string" where
  "canonical_unity_version value =
     (if length value < 8 \<or> length value > 64 \<or> \<not> is_ascii value then Inl VersionUnverified
      else
        and_then (parse_component value 0) (\<lambda>i1.
        and_then (parse_component value i1) (\<lambda>i2.
        and_then (parse_decimal value i2 True) (\<lambda>i3.
        and_then (ensure (channel_byte (byte_at value i3)) VersionUnverified) (\<lambda>_.
        and_then (parse_decimal value (i3 + 1) False) (\<lambda>i4.
        and_then
          (if i4 < length value then
             and_then (ensure (byte_at value i4 = Some (CHR ''c'')) VersionUnverified)
               (\<lambda>_. parse_decimal value (i4 + 1) False)
           else Inr i4) (\<lambda>i5.
        and_then (ensure (i5 = length value) VersionUnverified) (\<lambda>_. Inr value))))))))"

section \<open>Versions\<close>

datatype unity_version =
  UnityVersion (uv_major: u64) (uv_minor: u64) (uv_update: u64) (uv_channel: nat) (uv_revision: u64)

text \<open>The derived \<open>Ord\<close>: field by field.\<close>

definition uv_key :: "unity_version \<Rightarrow> u64 \<times> u64 \<times> u64 \<times> nat \<times> u64" where
  "uv_key v = (uv_major v, uv_minor v, uv_update v, uv_channel v, uv_revision v)"

instantiation unity_version :: linorder
begin

definition less_eq_unity_version :: "unity_version \<Rightarrow> unity_version \<Rightarrow> bool" where
  "v \<le> w \<longleftrightarrow> uv_key v \<le> uv_key w"

definition less_unity_version :: "unity_version \<Rightarrow> unity_version \<Rightarrow> bool" where
  "v < w \<longleftrightarrow> uv_key v < uv_key w"

instance
proof
  fix v w x :: unity_version
  have inj: "uv_key v = uv_key w \<Longrightarrow> v = w"
    by (simp add: uv_key_def unity_version.expand)
  show "v < w \<longleftrightarrow> v \<le> w \<and> \<not> w \<le> v" "v \<le> v" "v \<le> w \<or> w \<le> v"
    unfolding less_eq_unity_version_def less_unity_version_def by auto
  show "v \<le> w \<Longrightarrow> w \<le> x \<Longrightarrow> v \<le> x"
    unfolding less_eq_unity_version_def by (rule order_trans)
  show "v \<le> w \<Longrightarrow> w \<le> v \<Longrightarrow> v = w"
    unfolding less_eq_unity_version_def by (rule inj, rule antisym)
qed

end

definition uv_major_minor :: "u64 \<Rightarrow> u64 \<Rightarrow> unity_version" where
  "uv_major_minor a b = UnityVersion a b 0 0 0"

definition decimal :: "string \<Rightarrow> u64 option" where
  "decimal value =
     (if value = [] \<or> \<not> list_all is_ascii_digit value \<or> (length value > 1 \<and> hd value = CHR ''0'')
      then None else parse_u64 value)"

definition channel_rank :: "char \<Rightarrow> nat option" where
  "channel_rank c =
     (if c = CHR ''a'' then Some 1 else if c = CHR ''b'' then Some 2
      else if c = CHR ''f'' then Some 3 else if c = CHR ''p'' then Some 4 else None)"

definition parse_release :: "string \<Rightarrow> (u64 \<times> nat \<times> u64) option" where
  "parse_release value =
     (case dropWhile is_ascii_digit value of
        [] \<Rightarrow> None
      | c # rest \<Rightarrow>
          Option.bind (channel_rank c) (\<lambda>channel.
          Option.bind (decimal (takeWhile is_ascii_digit value)) (\<lambda>update.
          Option.bind (decimal rest) (\<lambda>revision.
            if revision > 0 then Some (update, channel, revision) else None))))"

definition uv_parse_editor :: "string \<Rightarrow> unity_version option" where
  "uv_parse_editor value =
     (case canonical_unity_version value of
        Inl e \<Rightarrow> None
      | Inr _ \<Rightarrow>
          Option.bind (split_once (CHR ''.'') value) (\<lambda>(major, rest).
          Option.bind (split_once (CHR ''.'') rest) (\<lambda>(minor, release).
          Option.bind (parse_release release) (\<lambda>(update, channel, revision).
          Option.bind (decimal major) (\<lambda>a.
          Option.bind (decimal minor) (\<lambda>b.
            Some (UnityVersion a b update channel revision)))))))"

definition uv_minimum :: "string \<Rightarrow> string option \<Rightarrow> unity_version option" where
  "uv_minimum unity release =
     Option.bind (split_once (CHR ''.'') unity) (\<lambda>(major, minor).
     Option.bind (decimal major) (\<lambda>a.
     Option.bind (decimal minor) (\<lambda>b.
       case release of
         None \<Rightarrow> Some (uv_major_minor a b)
       | Some r \<Rightarrow> map_option (\<lambda>(u, c, n). UnityVersion a b u c n) (parse_release r))))"

text \<open>\<open>Err(())\<close> is \<open>Inl ()\<close>.\<close>

definition package_minimum ::
  "string option \<Rightarrow> string option \<Rightarrow> unit + unity_version option" where
  "package_minimum unity release =
     (case unity of
        None \<Rightarrow> Inr None
      | Some u \<Rightarrow> and_then (ok_or (uv_minimum u release) ()) (\<lambda>v. Inr (Some v)))"

definition meets_minimum :: "unity_version option \<Rightarrow> unity_version option \<Rightarrow> bool" where
  "meets_minimum actual minimum =
     (case minimum of
        None \<Rightarrow> True
      | Some m \<Rightarrow> (case actual of None \<Rightarrow> False | Some a \<Rightarrow> a \<ge> m))"

section \<open>Properties\<close>

lemma decimal_show: "decimal s = Some w \<Longrightarrow> s = show_nat (unat w)"
  using parse_u64_Some [of s w] show_nat_dec_value [of s]
  by (cases s) (auto simp: decimal_def split: if_splits)

definition channel_letter :: "nat \<Rightarrow> string" where
  "channel_letter n = (if n = 1 then ''a'' else if n = 2 then ''b'' else if n = 3 then ''f'' else ''p'')"

definition uv_show :: "unity_version \<Rightarrow> string" where
  "uv_show v = show_nat (unat (uv_major v)) @ ''.'' @ show_nat (unat (uv_minor v)) @ ''.'' @
     show_nat (unat (uv_update v)) @ channel_letter (uv_channel v) @ show_nat (unat (uv_revision v))"

lemma parse_release_show:
  assumes "parse_release s = Some (u, c, n)"
  shows "s = show_nat (unat u) @ channel_letter c @ show_nat (unat n) \<and> 0 < n \<and> c \<in> {1..4}"
proof -
  obtain d rest where d: "dropWhile is_ascii_digit s = d # rest"
    using assms by (auto simp: parse_release_def split: list.splits)
  have "channel_rank d = Some c" and u: "decimal (takeWhile is_ascii_digit s) = Some u"
    and n: "decimal rest = Some n" and "0 < n"
    using assms by (auto simp: parse_release_def d bind_eq_Some_conv split: if_splits)
  then have "[d] = channel_letter c" "c \<in> {1..4}"
    by (auto simp: channel_rank_def channel_letter_def split: if_splits)
  moreover have "s = takeWhile is_ascii_digit s @ [d] @ rest"
    using d by (metis append_Cons append_Nil takeWhile_dropWhile_id)
  ultimately show ?thesis
    using decimal_show [OF u] decimal_show [OF n] \<open>0 < n\<close> by simp
qed

text \<open>
  C27: A Unity editor version that is interpreted at all is interpreted without loss: printing the
  five fields gives back the exact text, so different texts have different versions and the
  numeric order is an order on the texts.
\<close>

theorem editor_version_roundtrip:
  assumes "uv_parse_editor s = Some v"
  shows "uv_show v = s \<and> canonical_unity_version s = Inr s \<and> 0 < uv_revision v"
proof -
  obtain major rest minor release where m: "split_once (CHR ''.'') s = Some (major, rest)"
    and r: "split_once (CHR ''.'') rest = Some (minor, release)"
    and rel: "parse_release release = Some (uv_update v, uv_channel v, uv_revision v)"
    and a: "decimal major = Some (uv_major v)" and b: "decimal minor = Some (uv_minor v)"
    and canon: "is_ok (canonical_unity_version s)"
    using assms by (auto simp: uv_parse_editor_def bind_eq_Some_conv is_ok_def split: sum.splits)
  have "canonical_unity_version s = Inr s"
    using canon by (auto simp: is_ok_iff canonical_unity_version_def result_simps split: if_splits)
  then show ?thesis
    using split_once_Some [OF m] split_once_Some [OF r] parse_release_show [OF rel]
      decimal_show [OF a] decimal_show [OF b] by (simp add: uv_show_def)
qed

theorem editor_version_roundtrip_witness:
  "uv_show (UnityVersion 2022 3 22 3 1) = ''2022.3.22f1''"
proof -
  have "uv_parse_editor ''2022.3.22f1'' = Some (UnityVersion 2022 3 22 3 1)"
    by code_simp
  then show ?thesis
    using editor_version_roundtrip by blast
qed

text \<open>
  A package minimum is a lower bound in the numeric version order: a newer editor meets every
  minimum an older one meets, an unknown editor meets none, a bare major.minor minimum is met by
  every interpreted version of that line or a later one.
\<close>

theorem minimum_is_lower_bound:
  "(meets_minimum (Some v) m \<longrightarrow> v \<le> w \<longrightarrow> meets_minimum (Some w) m) \<and>
   (meets_minimum None m \<longleftrightarrow> m = None) \<and>
   (meets_minimum (Some v) (Some (uv_major_minor a b)) \<longleftrightarrow> (a, b) \<le> (uv_major v, uv_minor v))"
proof -
  have "uv_major_minor a b \<le> v \<longleftrightarrow> (a, b) \<le> (uv_major v, uv_minor v)"
    by (auto simp: less_eq_unity_version_def uv_key_def uv_major_minor_def)
  then show ?thesis
    by (auto simp: meets_minimum_def split: option.splits)
qed

theorem minimum_is_lower_bound_witness:
  "meets_minimum (Some (UnityVersion 2022 3 22 4 1)) (Some (UnityVersion 2022 3 22 3 1))"
proof -
  have "meets_minimum (Some (UnityVersion 2022 3 22 3 1)) (Some (UnityVersion 2022 3 22 3 1))"
    "UnityVersion 2022 3 22 3 1 \<le> UnityVersion 2022 3 22 4 1"
    by code_simp+
  then show ?thesis
    using minimum_is_lower_bound by blast
qed

end
