(* ===== verification/Resolver.thy ===== *)
theory Resolver
  imports RangeCanonical Unity Domain
begin

text \<open>
  \<open>crates/alcomd-vpm/src/resolver.rs\<close>: the package resolver, a depth-first search over the packages
  still without a choice, with the error classes that end the search at once and those that make it
  try the next precedence group.  A \<open>[u8; 32]\<close> is a string of bytes.
\<close>

section \<open>Data\<close>

definition max_requirements :: nat where
  "max_requirements = 4096"

datatype source_authority =
    RepositoryAuthority (repository_locator: "string option") (authority_repository_id: string)
      (repository_revision: u64) (repository_priority: u64) (artifact_url: string)
      (credential_reference: "string option") (download_headers_present: bool)
  | UserPackageAuthority (authority_user_package_id: user_package_id) (user_source_revision: u64)

record package_source =
  authority :: source_authority
  source_identity :: string
  manifest_fingerprint :: string
  archive_sha256 :: "string option"

datatype source_selector = SelectRepository string | SelectUserPackage user_package_id

record package_dependency =
  dep_package_id :: string
  dep_range :: string

record package_candidate =
  pc_package_id :: string
  pc_version :: version
  pc_yanked :: bool
  pc_unity_minimum :: "unity_version option"
  pc_legacy_metadata_present :: bool
  pc_dependencies :: "package_dependency list"
  pc_source :: package_source

record resolve_request =
  rq_package_id :: string
  rq_range :: string
  rq_source :: "source_selector option"
  rq_include_prerelease :: bool
  rq_unity_version :: "unity_version option"

record resolved_package =
  rp_package_id :: string
  rp_version :: version
  rp_source :: package_source
  rp_direct :: bool

datatype dependency_edge =
  DependencyEdge (from_package_id: string) (to_package_id: string) (edge_range: string) (edge_direct: bool)

record resolution =
  packages :: "resolved_package list"
  dependency_edges :: "dependency_edge list"

datatype resolve_error =
    InvalidPackageId | InvalidVersion | InvalidRange | TooManyRequirements
  | PackageNotFound string | DependencyMissing string | DependencyConflict string
  | UnityIncompatible string | VersionYanked string | SourceAmbiguous string string
  | LegacyCleanupRequired string

record requirement =
  req_from_package_id :: string
  range_text :: string
  req_range :: vpm_range
  req_source :: "source_selector option"
  req_direct :: bool

record locked_package =
  locked_version :: version
  locked_dependencies :: "package_dependency list"
  locked_installed :: bool

datatype selection = CatalogChoice package_candidate | InstalledChoice locked_package

record project_rules =
  rules_locked :: "(string, locked_package) btree"
  rules_direct :: "(string, vpm_range) btree"
  rules_explicit :: "string list"
  preserve_unselected :: bool

datatype legacy_handling = RejectLegacy | CollectCleanupObligations

record solve_options =
  opt_include_prerelease :: bool
  opt_unity_version :: "unity_version option"
  opt_legacy_handling :: legacy_handling
  opt_project :: "project_rules option"

record cleanup_obligation =
  ob_package_id :: string
  ob_version :: version
  ob_source :: package_source

type_synonym catalog_index = "(string, package_candidate list) btree"
type_synonym requirement_map = "(string, requirement list) btree"
type_synonym selected_map = "(string, selection) btree"

text \<open>The derived order of edges.\<close>

definition edge_key :: "dependency_edge \<Rightarrow> string \<times> string \<times> string \<times> bool" where
  "edge_key e = (from_package_id e, to_package_id e, edge_range e, edge_direct e)"

definition edge_cmp :: "dependency_edge \<Rightarrow> dependency_edge \<Rightarrow> ordering" where
  "edge_cmp a b = cmp_of (edge_key a) (edge_key b)"

section \<open>Sources\<close>

fun source_priority_of :: "source_authority \<Rightarrow> u64" where
  "source_priority_of (RepositoryAuthority l i r p u c d) = p"
| "source_priority_of (UserPackageAuthority i r) = - 1"

definition source_priority :: "package_source \<Rightarrow> u64" where
  "source_priority s = source_priority_of (authority s)"

definition deterministic_key :: "uuid_ops \<Rightarrow> package_source \<Rightarrow> string" where
  "deterministic_key U s =
     (case authority s of
        RepositoryAuthority l i r p u c d \<Rightarrow> ''repository:'' @ i
      | UserPackageAuthority i r \<Rightarrow> ''user-package:'' @ user_package_id_to_string U i)"

fun matches_selector_of :: "source_authority \<Rightarrow> source_selector \<Rightarrow> bool" where
  "matches_selector_of (RepositoryAuthority l i r p u c d) (SelectRepository selected) = (i = selected)"
| "matches_selector_of (UserPackageAuthority i r) (SelectUserPackage selected) = (i = selected)"
| "matches_selector_of _ _ = False"

definition matches_selector :: "package_source \<Rightarrow> source_selector \<Rightarrow> bool" where
  "matches_selector s sel = matches_selector_of (authority s) sel"

definition is_repository :: "package_source \<Rightarrow> bool" where
  "is_repository s \<longleftrightarrow>
     (case authority s of RepositoryAuthority l i r p u c d \<Rightarrow> True | UserPackageAuthority i r \<Rightarrow> False)"

text \<open>Local repositories pass their path on with the download headers.\<close>

definition download_headers :: "package_source \<Rightarrow> string option option" where
  "download_headers s =
     (case authority s of
        RepositoryAuthority locator i r p u c True \<Rightarrow>
          Some (if strip_prefix ''local-fileid-v1:'' (source_identity s) \<noteq> None then locator else None)
      | _ \<Rightarrow> None)"

section \<open>Satisfaction\<close>

definition candidate_satisfies ::
  "semver_ops \<Rightarrow> package_candidate \<Rightarrow> requirement list \<Rightarrow> bool \<Rightarrow> unity_version option \<Rightarrow> bool" where
  "candidate_satisfies S c reqs include_prerelease unity \<longleftrightarrow>
     \<not> pc_yanked c \<and> meets_minimum unity (pc_unity_minimum c) \<and>
     list_all (\<lambda>r.
       (case req_source r of None \<Rightarrow> True | Some sel \<Rightarrow> matches_selector (pc_source c) sel) \<and>
       range_matches S (req_range r) (pc_version c) include_prerelease) reqs"

fun selection_version :: "selection \<Rightarrow> version" where
  "selection_version (CatalogChoice c) = pc_version c"
| "selection_version (InstalledChoice l) = locked_version l"

fun selection_dependencies :: "selection \<Rightarrow> package_dependency list" where
  "selection_dependencies (CatalogChoice c) = pc_dependencies c"
| "selection_dependencies (InstalledChoice l) = locked_dependencies l"

fun selection_satisfies ::
  "semver_ops \<Rightarrow> selection \<Rightarrow> requirement list \<Rightarrow> solve_options \<Rightarrow> bool" where
  "selection_satisfies S (CatalogChoice c) reqs opts =
     candidate_satisfies S c reqs (opt_include_prerelease opts) (opt_unity_version opts)"
| "selection_satisfies S (InstalledChoice l) reqs opts =
     list_all (\<lambda>r. req_source r = None \<and>
       range_matches S (req_range r) (locked_version l)
         (opt_include_prerelease opts \<or> v_pre (locked_version l) \<noteq> [])) reqs"

definition candidate_order :: "semver_ops \<Rightarrow> package_candidate \<Rightarrow> package_candidate \<Rightarrow> ordering" where
  "candidate_order S l r =
     then_with (sv_cmp S (pc_version r) (pc_version l))
       (then_with (cmp_of (source_priority (pc_source l)) (source_priority (pc_source r)))
         (cmp_of (pc_package_id l) (pc_package_id r)))"

definition source_group_is_ambiguous :: "bool \<Rightarrow> bool \<Rightarrow> bool \<Rightarrow> nat \<Rightarrow> bool" where
  "source_group_is_ambiguous explicit has_repository has_user_package preferred_count \<longleftrightarrow>
     (\<not> explicit \<and> has_repository \<and> has_user_package) \<or> preferred_count > 1"

definition validate_package_id :: "string \<Rightarrow> resolve_error + unit" where
  "validate_package_id value =
     (if value = [] \<or> length value > 128 \<or> \<not> is_ascii_alphanumeric (hd value)
        \<or> \<not> list_all (\<lambda>c. is_ascii_alphanumeric c \<or> c \<in> set ''._-'') value
      then Inl InvalidPackageId else Inr ())"

definition authority_valid :: "source_authority \<Rightarrow> bool" where
  "authority_valid a =
     (case a of
        RepositoryAuthority l i r p u c d \<Rightarrow> i \<noteq> [] \<and> r \<noteq> 0 \<and> p \<noteq> 0 \<and> u \<noteq> []
      | UserPackageAuthority i r \<Rightarrow> r \<noteq> 0)"

definition parse_dependency_range :: "semver_ops \<Rightarrow> string \<Rightarrow> resolve_error + vpm_range" where
  "parse_dependency_range S text = map_err (\<lambda>_. InvalidRange) (range_parse S text)"

definition validate_candidate :: "semver_ops \<Rightarrow> package_candidate \<Rightarrow> resolve_error + unit" where
  "validate_candidate S c =
     and_then (validate_package_id (pc_package_id c)) (\<lambda>_.
       if \<not> authority_valid (authority (pc_source c)) \<or> source_identity (pc_source c) = []
         \<or> length (pc_dependencies c) > max_requirements
       then Inl InvalidPackageId
       else try_each (\<lambda>d.
         and_then (validate_package_id (dep_package_id d)) (\<lambda>_.
         and_then (parse_dependency_range S (dep_range d)) (\<lambda>_. Inr ()))) (pc_dependencies c))"

section \<open>Project rules\<close>

definition dependencies_on :: "locked_package \<Rightarrow> string \<Rightarrow> package_dependency list" where
  "dependencies_on l pid = filter (\<lambda>d. dep_package_id d = pid) (locked_dependencies l)"

text \<open>Does a locked package that the selection leaves alone still accept the new version?\<close>

definition validate_dependent ::
  "semver_ops \<Rightarrow> bool \<Rightarrow> selected_map \<Rightarrow> string \<Rightarrow> version \<Rightarrow> string \<times> locked_package \<Rightarrow>
    resolve_error + unit" where
  "validate_dependent S include_prerelease selected pid v dependent =
     (let l = snd dependent in
      case bt_get selected (fst dependent) of
        Some choice \<Rightarrow>
          if selection_version choice \<noteq> locked_version l then Inr ()
          else try_each (\<lambda>d. and_then (parse_dependency_range S (dep_range d)) (\<lambda>r.
                 if \<not> range_matches S r v (include_prerelease \<or> v_pre (locked_version l) \<noteq> [])
                 then Inl (DependencyConflict pid) else Inr ())) (dependencies_on l pid)
      | None \<Rightarrow>
          try_each (\<lambda>d. and_then (parse_dependency_range S (dep_range d)) (\<lambda>r.
            if \<not> range_matches S r v (include_prerelease \<or> v_pre (locked_version l) \<noteq> [])
            then Inl (DependencyConflict pid) else Inr ())) (dependencies_on l pid))"

definition validate_choice ::
  "semver_ops \<Rightarrow> project_rules \<Rightarrow> bool \<Rightarrow> selected_map \<Rightarrow> string \<times> selection \<Rightarrow>
    resolve_error + unit" where
  "validate_choice S rules include_prerelease selected entry =
     (let pid = fst entry; v = selection_version (snd entry) in
      if (case bt_get (rules_locked rules) pid of Some old \<Rightarrow> locked_version old = v | None \<Rightarrow> False)
      then Inr ()
      else if pid \<notin> set (rules_explicit rules) \<and>
        (case bt_get (rules_direct rules) pid of
           Some r \<Rightarrow> \<not> range_matches S r v include_prerelease | None \<Rightarrow> False)
      then Inl (DependencyConflict pid)
      else try_each (validate_dependent S include_prerelease selected pid v) (rules_locked rules))"

definition validate_preserved ::
  "semver_ops \<Rightarrow> project_rules \<Rightarrow> selected_map \<Rightarrow> bool \<Rightarrow> resolve_error + unit" where
  "validate_preserved S rules selected include_prerelease =
     (if \<not> preserve_unselected rules then Inr ()
      else try_each (validate_choice S rules include_prerelease selected) selected)"

section \<open>The search\<close>

definition classify_no_candidates ::
  "semver_ops \<Rightarrow> catalog_index \<Rightarrow> string \<Rightarrow> requirement list \<Rightarrow> bool \<Rightarrow> unity_version option \<Rightarrow>
    resolve_error" where
  "classify_no_candidates S catalog pid reqs include_prerelease unity =
     (case bt_get catalog pid of
        None \<Rightarrow>
          if list_ex (\<lambda>r. \<not> req_direct r) reqs then DependencyMissing pid else PackageNotFound pid
      | Some candidates \<Rightarrow>
          let matching = filter (\<lambda>c. list_all (\<lambda>r.
                (case req_source r of None \<Rightarrow> True | Some sel \<Rightarrow> matches_selector (pc_source c) sel) \<and>
                range_matches S (req_range r) (pc_version c) include_prerelease) reqs) candidates in
          if list_ex pc_yanked matching then VersionYanked pid
          else if list_ex (\<lambda>c. \<not> meets_minimum unity (pc_unity_minimum c)) matching
          then UnityIncompatible pid
          else if length reqs > 1 \<or> list_ex (\<lambda>r. \<not> req_direct r) reqs then DependencyConflict pid
          else PackageNotFound pid)"

text \<open>The errors that end the search; all others make it try the next choice.\<close>

fun is_hard :: "resolve_error \<Rightarrow> bool" where
  "is_hard (SourceAmbiguous p v) = True"
| "is_hard (LegacyCleanupRequired p) = True"
| "is_hard TooManyRequirements = True"
| "is_hard _ = False"

text \<open>The requirements after a choice for \<open>pid\<close>, the first half of \<open>solve_after_choice\<close>.\<close>

definition requirement_count :: "requirement_map \<Rightarrow> nat" where
  "requirement_count reqs = sum_list (map length (bt_values reqs))"

definition add_requirements ::
  "semver_ops \<Rightarrow> string \<Rightarrow> package_dependency list \<Rightarrow> requirement_map \<Rightarrow>
    resolve_error + requirement_map" where
  "add_requirements S pid deps reqs =
     and_then
       (try_fold (\<lambda>d rs. and_then (parse_dependency_range S (dep_range d)) (\<lambda>r.
          Inr (bt_push (dep_package_id d)
            \<lparr>req_from_package_id = pid, range_text = range_canonical r, req_range = r,
             req_source = None, req_direct = False\<rparr> rs))) deps reqs)
       (\<lambda>next. if requirement_count next > max_requirements then Inl TooManyRequirements
               else Inr next)"

text \<open>Maximal runs of equal precedence.\<close>

function precedence_groups ::
  "semver_ops \<Rightarrow> package_candidate list \<Rightarrow> package_candidate list list" where
  "precedence_groups S [] = []"
| "precedence_groups S (c # cs) =
     (c # takeWhile (\<lambda>d. sv_cmp S (pc_version d) (pc_version c) = Equal) cs) #
     precedence_groups S (dropWhile (\<lambda>d. sv_cmp S (pc_version d) (pc_version c) = Equal) cs)"
  by pat_completeness auto
termination
  by (relation "measure (\<lambda>(S, cs). length cs)") (auto simp: length_dropWhile_le less_Suc_eq_le)

text \<open>The candidate a group stands for.\<close>

definition group_choice ::
  "semver_ops \<Rightarrow> solve_options \<Rightarrow> string \<Rightarrow> bool \<Rightarrow> package_candidate list \<Rightarrow>
    resolve_error + package_candidate" where
  "group_choice S opts pid source_is_explicit grp =
     (let best = Min (set (map (\<lambda>c. source_priority (pc_source c)) grp));
          preferred = filter (\<lambda>c. source_priority (pc_source c) = best) grp in
      if source_group_is_ambiguous source_is_explicit
           (list_ex (\<lambda>c. is_repository (pc_source c)) grp)
           (list_ex (\<lambda>c. \<not> is_repository (pc_source c)) grp) (length preferred)
      then Inl (SourceAmbiguous pid (sv_show S (pc_version (hd grp))))
      else case preferred of
        [] \<Rightarrow> Inl (PackageNotFound pid)
      | c # _ \<Rightarrow>
          if pc_legacy_metadata_present c \<and> opt_legacy_handling opts = RejectLegacy
          then Inl (LegacyCleanupRequired pid) else Inr c)"

text \<open>The loop over the groups; \<open>attempt\<close> is \<open>solve_after_choice\<close>.\<close>

fun try_groups ::
  "semver_ops \<Rightarrow> solve_options \<Rightarrow> string \<Rightarrow> bool \<Rightarrow> (package_candidate \<Rightarrow> resolve_error + 'r) \<Rightarrow>
    package_candidate list list \<Rightarrow> resolve_error option \<Rightarrow> resolve_error + 'r" where
  "try_groups S opts pid explicit attempt [] last_error =
     Inl (case last_error of Some e \<Rightarrow> e | None \<Rightarrow> PackageNotFound pid)"
| "try_groups S opts pid explicit attempt (g # gs) last_error =
     (case group_choice S opts pid explicit g of
        Inl e \<Rightarrow> Inl e
      | Inr c \<Rightarrow>
          (case attempt c of
             Inr solution \<Rightarrow> Inr solution
           | Inl e \<Rightarrow>
               if is_hard e then Inl e
               else try_groups S opts pid explicit attempt gs (Some e)))"

lemma group_choice_preferred:
  assumes "group_choice S opts pid ex g = Inr c"
  shows "\<exists>cs. filter (\<lambda>d. source_priority (pc_source d) =
      Min (set (map (\<lambda>d. source_priority (pc_source d)) g))) g = c # cs"
  using assms unfolding group_choice_def Let_def by (simp split: if_splits list.splits)

lemma group_choice_member: "group_choice S opts pid ex g = Inr c \<Longrightarrow> c \<in> set g"
  using group_choice_preferred by (metis filter_is_subset list.set_intros(1) subsetD)

lemma try_groups_cong [fundef_cong]:
  assumes "gs = gs'" and "last_error = last_error'"
    and "\<And>c. c \<in> set (concat gs') \<Longrightarrow> attempt c = attempt' c"
  shows "try_groups S opts pid ex attempt gs last_error = try_groups S opts pid ex attempt' gs' last_error'"
  unfolding assms(1,2) using assms(3)
  by (induction gs' arbitrary: last_error')
    (auto split: sum.splits dest: group_choice_member)

lemma precedence_groups_concat [simp]: "concat (precedence_groups S cs) = cs"
  by (induction S cs rule: precedence_groups.induct) auto

lemma precedence_groups_nonempty: "g \<in> set (precedence_groups S cs) \<Longrightarrow> g \<noteq> []"
  by (induction S cs rule: precedence_groups.induct) auto

definition locked_for :: "solve_options \<Rightarrow> string \<Rightarrow> locked_package option" where
  "locked_for opts pid =
     (case opt_project opts of
        None \<Rightarrow> None
      | Some rules \<Rightarrow>
          if pid \<in> set (rules_explicit rules) then None else bt_get (rules_locked rules) pid)"

text \<open>Keeping what is installed comes first when the project asks for it.\<close>

definition installed_choice ::
  "semver_ops \<Rightarrow> solve_options \<Rightarrow> string \<Rightarrow> requirement list \<Rightarrow> locked_package option" where
  "installed_choice S opts pid reqs =
     (case locked_for opts pid of
        None \<Rightarrow> None
      | Some l \<Rightarrow>
          if locked_installed l
            \<and> (case opt_project opts of Some rules \<Rightarrow> preserve_unselected rules | None \<Rightarrow> False)
            \<and> selection_satisfies S (InstalledChoice l) reqs opts
          then Some l else None)"

text \<open>A candidate of the locked version comes first, whatever its precedence.\<close>

definition preferred_candidate :: "semver_ops \<Rightarrow> solve_options \<Rightarrow> string \<Rightarrow> package_candidate \<Rightarrow> bool" where
  "preferred_candidate S opts pid c \<longleftrightarrow>
     (case locked_for opts pid of
        Some l \<Rightarrow> sv_cmp S (locked_version l) (pc_version c) = Equal
      | None \<Rightarrow> False)"

definition search_order ::
  "semver_ops \<Rightarrow> solve_options \<Rightarrow> string \<Rightarrow> package_candidate \<Rightarrow> package_candidate \<Rightarrow> ordering" where
  "search_order S opts pid l r =
     then_with (cmp_of (preferred_candidate S opts pid r) (preferred_candidate S opts pid l))
       (candidate_order S l r)"

definition ordered_candidates ::
  "semver_ops \<Rightarrow> catalog_index \<Rightarrow> solve_options \<Rightarrow> string \<Rightarrow> requirement list \<Rightarrow>
    package_candidate list" where
  "ordered_candidates S catalog opts pid reqs =
     sort_by (search_order S opts pid)
       (filter (\<lambda>c. candidate_satisfies S c reqs (opt_include_prerelease opts) (opt_unity_version opts))
         (case bt_get catalog pid of None \<Rightarrow> [] | Some cs \<Rightarrow> cs))"

definition search_candidates ::
  "semver_ops \<Rightarrow> catalog_index \<Rightarrow> solve_options \<Rightarrow> string \<Rightarrow> requirement list \<Rightarrow>
    (package_candidate \<Rightarrow> resolve_error + 'r) \<Rightarrow> resolve_error option \<Rightarrow> resolve_error + 'r" where
  "search_candidates S catalog opts pid reqs attempt last_error =
     (let candidates = ordered_candidates S catalog opts pid reqs in
      if candidates = [] then
        Inl (case last_error of Some e \<Rightarrow> e
             | None \<Rightarrow> classify_no_candidates S catalog pid reqs (opt_include_prerelease opts)
                         (opt_unity_version opts))
      else try_groups S opts pid (list_ex (\<lambda>r. req_source r \<noteq> None) reqs) attempt
             (precedence_groups S candidates) last_error)"

definition search_package ::
  "semver_ops \<Rightarrow> catalog_index \<Rightarrow> solve_options \<Rightarrow> string \<Rightarrow> requirement list \<Rightarrow>
    (selection \<Rightarrow> resolve_error + 'r) \<Rightarrow> resolve_error + 'r" where
  "search_package S catalog opts pid reqs attempt =
     (case installed_choice S opts pid reqs of
        None \<Rightarrow> search_candidates S catalog opts pid reqs (\<lambda>c. attempt (CatalogChoice c)) None
      | Some l \<Rightarrow>
          (case attempt (InstalledChoice l) of
             Inr solution \<Rightarrow> Inr solution
           | Inl e \<Rightarrow>
               if is_hard e then Inl e
               else search_candidates S catalog opts pid reqs (\<lambda>c. attempt (CatalogChoice c)) (Some e)))"

text \<open>What a choice for \<open>pid\<close> can be.\<close>

fun choice_available :: "catalog_index \<Rightarrow> solve_options \<Rightarrow> string \<Rightarrow> selection \<Rightarrow> bool" where
  "choice_available catalog opts pid (CatalogChoice c) \<longleftrightarrow>
     (\<exists>cs. bt_get catalog pid = Some cs \<and> c \<in> set cs)"
| "choice_available catalog opts pid (InstalledChoice l) \<longleftrightarrow>
     (\<exists>rules. opt_project opts = Some rules \<and> pid \<notin> set (rules_explicit rules) \<and>
        bt_get (rules_locked rules) pid = Some l \<and> locked_installed l \<and> preserve_unselected rules)"

lemma installed_choice_Some:
  "installed_choice S opts pid reqs = Some l \<Longrightarrow>
    choice_available catalog opts pid (InstalledChoice l) \<and> selection_satisfies S (InstalledChoice l) reqs opts"
  by (auto simp: installed_choice_def locked_for_def split: option.splits if_splits)

lemma ordered_candidates_set:
  "c \<in> set (ordered_candidates S catalog opts pid reqs) \<longleftrightarrow>
    choice_available catalog opts pid (CatalogChoice c) \<and> selection_satisfies S (CatalogChoice c) reqs opts"
  by (cases "bt_get catalog pid") (auto simp: ordered_candidates_def)

lemma search_candidates_cong:
  assumes "\<And>c. choice_available catalog opts pid (CatalogChoice c) \<Longrightarrow> attempt c = attempt' c"
  shows "search_candidates S catalog opts pid reqs attempt last_error =
    search_candidates S catalog opts pid reqs attempt' last_error"
  unfolding search_candidates_def Let_def
  by (intro if_cong refl try_groups_cong) (use assms ordered_candidates_set in auto)

lemma search_package_cong [fundef_cong]:
  assumes "pid = pid'" and "reqs = reqs'"
    and "\<And>choice. choice_available catalog opts pid' choice \<Longrightarrow> attempt choice = attempt' choice"
  shows "search_package S catalog opts pid reqs attempt = search_package S catalog opts pid' reqs' attempt'"
proof -
  have "search_candidates S catalog opts pid' reqs' (\<lambda>c. attempt (CatalogChoice c)) e =
      search_candidates S catalog opts pid' reqs' (\<lambda>c. attempt' (CatalogChoice c)) e" for e
    by (rule search_candidates_cong) (use assms(3) in auto)
  moreover have "attempt (InstalledChoice l) = attempt' (InstalledChoice l)"
    if "installed_choice S opts pid' reqs' = Some l" for l
    using that assms(3) installed_choice_Some by blast
  ultimately show ?thesis
    unfolding search_package_def assms(1,2) by (auto split: option.split sum.split)
qed

text \<open>The packages a search can still choose.\<close>

definition pool :: "catalog_index \<Rightarrow> solve_options \<Rightarrow> string set" where
  "pool catalog opts =
     set (bt_keys catalog) \<union>
     (case opt_project opts of None \<Rightarrow> {} | Some rules \<Rightarrow> set (bt_keys (rules_locked rules)))"

lemma choice_available_pool: "choice_available catalog opts pid choice \<Longrightarrow> pid \<in> pool catalog opts"
  by (cases choice) (force simp: pool_def dest: map_of_SomeD)+

lemma pool_finite [simp]: "finite (pool catalog opts)"
  by (simp add: pool_def split: option.split)

lemma unselected_decreases:
  assumes "choice_available catalog opts pid choice" and "bt_get selected pid = None"
  shows "card (pool catalog opts - set (bt_keys (bt_insert pid choice selected))) <
    card (pool catalog opts - set (bt_keys selected))"
proof (rule psubset_card_mono)
  have "pid \<notin> set (bt_keys selected)"
    using assms(2) by (simp add: map_of_eq_None_iff)
  then show "pool catalog opts - set (bt_keys (bt_insert pid choice selected)) \<subset>
      pool catalog opts - set (bt_keys selected)"
    using choice_available_pool [OF assms(1)] bt_insert_keys [of pid choice selected] by auto
qed simp

definition violated ::
  "semver_ops \<Rightarrow> solve_options \<Rightarrow> selected_map \<Rightarrow> string \<times> requirement list \<Rightarrow> bool" where
  "violated S opts selected entry \<longleftrightarrow>
     (case bt_get selected (fst entry) of
        Some choice \<Rightarrow> \<not> selection_satisfies S choice (snd entry) opts
      | None \<Rightarrow> False)"

function solve ::
  "semver_ops \<Rightarrow> catalog_index \<Rightarrow> solve_options \<Rightarrow> requirement_map \<Rightarrow> selected_map \<Rightarrow>
    resolve_error + (selected_map \<times> requirement_map)" where
  "solve S catalog opts reqs selected =
     (case find (violated S opts selected) reqs of
        Some entry \<Rightarrow> Inl (PackageNotFound (fst entry))
      | None \<Rightarrow>
          (case find (\<lambda>entry. bt_get selected (fst entry) = None) reqs of
             None \<Rightarrow>
               (case opt_project opts of
                  None \<Rightarrow> Inr (selected, reqs)
                | Some rules \<Rightarrow>
                    and_then (validate_preserved S rules selected (opt_include_prerelease opts))
                      (\<lambda>_. Inr (selected, reqs)))
           | Some entry \<Rightarrow>
               search_package S catalog opts (fst entry) (snd entry) (\<lambda>choice.
                 and_then (add_requirements S (fst entry) (selection_dependencies choice) reqs)
                   (\<lambda>next. solve S catalog opts next (bt_insert (fst entry) choice selected)))))"
  by pat_completeness auto
termination
proof (relation "measure (\<lambda>(S, catalog, opts, reqs, selected).
    card (pool catalog opts - set (bt_keys selected)))", goal_cases)
  case (2 S catalog opts reqs selected entry choice following)
  then show ?case
    using unselected_decreases find_Some_set [OF 2(2)] by simp
qed simp

declare solve.simps [simp del]

section \<open>The entry points\<close>

record request_state =
  rs_requirements :: requirement_map
  rs_include_prerelease :: bool
  rs_unity_version :: "unity_version option"

definition add_request ::
  "semver_ops \<Rightarrow> resolve_request \<Rightarrow> request_state \<Rightarrow> resolve_error + request_state" where
  "add_request S rq st =
     and_then (validate_package_id (rq_package_id rq)) (\<lambda>_.
     and_then
       (case rq_unity_version rq of
          None \<Rightarrow> Inr (rs_unity_version st)
        | Some v \<Rightarrow>
            if rs_unity_version st \<noteq> None \<and> rs_unity_version st \<noteq> Some v then Inl InvalidRange
            else Inr (Some v)) (\<lambda>unity.
     and_then (parse_dependency_range S (rq_range rq)) (\<lambda>r.
       Inr \<lparr>rs_requirements = bt_push (rq_package_id rq)
              \<lparr>req_from_package_id = rq_package_id rq, range_text = range_canonical r,
               req_range = r, req_source = rq_source rq, req_direct = True\<rparr> (rs_requirements st),
            rs_include_prerelease = (rs_include_prerelease st \<or> rq_include_prerelease rq),
            rs_unity_version = unity\<rparr>)))"

definition index_catalog ::
  "semver_ops \<Rightarrow> package_candidate list \<Rightarrow> resolve_error + catalog_index" where
  "index_catalog S catalog =
     try_fold (\<lambda>c m. and_then (validate_candidate S c) (\<lambda>_. Inr (bt_push (pc_package_id c) c m)))
       catalog []"

fun catalog_choice :: "selection \<Rightarrow> package_candidate list" where
  "catalog_choice (CatalogChoice c) = [c]"
| "catalog_choice (InstalledChoice l) = []"

definition chosen_candidates :: "selected_map \<Rightarrow> package_candidate list" where
  "chosen_candidates selected = concat (map catalog_choice (bt_values selected))"

definition collect_edges :: "requirement_map \<Rightarrow> dependency_edge list" where
  "collect_edges reqs =
     remdups_adj (sort_by edge_cmp (concat (map (\<lambda>(pid, rs).
       map (\<lambda>r. DependencyEdge (req_from_package_id r) pid (range_text r) (req_direct r)) rs) reqs)))"

definition resolve_packages_internal ::
  "semver_ops \<Rightarrow> package_candidate list \<Rightarrow> resolve_request list \<Rightarrow> legacy_handling \<Rightarrow>
    project_rules option \<Rightarrow> resolve_error + (resolution \<times> cleanup_obligation list)" where
  "resolve_packages_internal S catalog requests legacy project =
     (if requests = [] \<or> length requests > max_requirements then Inl TooManyRequirements
      else
        and_then (try_fold (add_request S) requests
          \<lparr>rs_requirements = [], rs_include_prerelease = False, rs_unity_version = None\<rparr>) (\<lambda>st.
        and_then (index_catalog S catalog) (\<lambda>index.
        and_then (solve S index
            \<lparr>opt_include_prerelease = rs_include_prerelease st, opt_unity_version = rs_unity_version st,
             opt_legacy_handling = legacy, opt_project = project\<rparr> (rs_requirements st) [])
          (\<lambda>(selected, reqs).
          Inr (\<lparr>packages = map (\<lambda>c. \<lparr>rp_package_id = pc_package_id c, rp_version = pc_version c,
                   rp_source = pc_source c,
                   rp_direct = (pc_package_id c \<in> set (map rq_package_id requests))\<rparr>)
                 (chosen_candidates selected),
               dependency_edges = collect_edges reqs\<rparr>,
             map (\<lambda>c. \<lparr>ob_package_id = pc_package_id c, ob_version = pc_version c,
                   ob_source = pc_source c\<rparr>)
               (filter pc_legacy_metadata_present (chosen_candidates selected)))))))"

definition resolve_packages ::
  "semver_ops \<Rightarrow> package_candidate list \<Rightarrow> resolve_request list \<Rightarrow> resolve_error + resolution" where
  "resolve_packages S catalog requests =
     and_then (resolve_packages_internal S catalog requests RejectLegacy None) (\<lambda>r. Inr (fst r))"

definition resolve_unity_migration_packages ::
  "semver_ops \<Rightarrow> package_candidate list \<Rightarrow> resolve_request list \<Rightarrow>
    resolve_error + (resolution \<times> cleanup_obligation list)" where
  "resolve_unity_migration_packages S catalog requests =
     resolve_packages_internal S catalog requests CollectCleanupObligations None"

definition resolve_project_change ::
  "semver_ops \<Rightarrow> package_candidate list \<Rightarrow> resolve_request list \<Rightarrow> project_rules \<Rightarrow>
    resolve_error + (resolution \<times> cleanup_obligation list)" where
  "resolve_project_change S catalog requests project =
     resolve_packages_internal S catalog requests CollectCleanupObligations (Some project)"

end
