(* ===== verification/Catalog.thy ===== *)
theory Catalog
  imports Resolver
begin

text \<open>
  \<open>candidates_from_catalog\<close> and \<open>parse_digest\<close> of \<open>crates/alcomd-vpm/src/resolver.rs\<close>: from the rows
  of the stored catalog to the candidates the resolver works on.  The JSON parser is not part of the
  repository: \<open>json_object\<close> gives the entries of the object a text denotes in the map's iteration
  order, each with its value as a string if it is one, and nothing when the text is no object.
\<close>

datatype catalog_source =
    RepositoryRow (row_locator: string) (row_repository_id: string) (row_repository_revision: u64)
      (row_priority: u64) (row_source_identity: string) (row_artifact_url: string)
      (row_credential: "string option") (row_headers_present: bool) (row_zip_sha256: "string option")
      (row_local_zip_sha256: "string option") (row_manifest_fingerprint: string)
  | UserPackageRow (row_user_package_id: user_package_id) (row_source_revision: u64)
      (row_user_source_identity: string) (row_archive_sha256: string)
      (row_user_manifest_fingerprint: string)

record catalog_entry =
  ce_source :: catalog_source
  ce_package_id :: string
  ce_version :: string
  ce_yanked :: bool
  ce_unity :: "string option"
  ce_author_name :: string
  ce_author_email :: "string option"
  ce_unity_release :: "string option"
  ce_dependencies_json :: string
  ce_legacy_metadata_present :: bool

record resolver_catalog =
  catalog_entries :: "catalog_entry list"
  catalog_complete :: bool

type_synonym json_object = "string \<Rightarrow> (string \<times> string option) list option"

definition digest_nibble :: "char \<Rightarrow> nat" where
  "digest_nibble c =
     (if is_ascii_digit c then byte c - 48
      else if 97 \<le> byte c \<and> byte c \<le> (102 :: nat) then byte c - 97 + 10 else 0)"

fun digest_pairs :: "string \<Rightarrow> string" where
  "digest_pairs (a # b # s) =
     char_of (16 * digest_nibble a + digest_nibble b) # digest_pairs s"
| "digest_pairs _ = []"

definition parse_digest :: "string \<Rightarrow> resolve_error + string" where
  "parse_digest value =
     (if length value \<noteq> 64
        \<or> list_ex (\<lambda>c. \<not> is_ascii_digit c \<and> \<not> (97 \<le> byte c \<and> byte c \<le> (102 :: nat))) value
      then Inl InvalidRange else Inr (digest_pairs value))"

definition row_dependency ::
  "semver_ops \<Rightarrow> string \<times> string option \<Rightarrow> resolve_error + package_dependency" where
  "row_dependency S entry =
     and_then (ok_or (snd entry) InvalidRange) (\<lambda>range.
     and_then (validate_package_id (fst entry)) (\<lambda>_.
     and_then (parse_dependency_range S range) (\<lambda>_.
       Inr \<lparr>dep_package_id = fst entry, dep_range = range\<rparr>)))"

definition row_dependencies ::
  "semver_ops \<Rightarrow> json_object \<Rightarrow> string \<Rightarrow> resolve_error + package_dependency list" where
  "row_dependencies S J text =
     and_then (ok_or (J text) InvalidRange) (collect (row_dependency S))"

fun row_source :: "catalog_source \<Rightarrow> resolve_error + package_source" where
  "row_source (RepositoryRow locator rid n prio identity url cred headers zip_digest local_zip fingerprint) =
     and_then (case zip_digest of None \<Rightarrow> Inr None | Some z \<Rightarrow> and_then (parse_digest z) (\<lambda>d. Inr (Some d)))
       (\<lambda>digest.
         Inr \<lparr>authority = RepositoryAuthority (if locator = [] then None else Some locator)
                rid n prio url cred headers,
              source_identity = identity, manifest_fingerprint = fingerprint,
              archive_sha256 = (case digest of Some d \<Rightarrow> Some d | None \<Rightarrow> local_zip)\<rparr>)"
| "row_source (UserPackageRow uid n identity archive fingerprint) =
     Inr \<lparr>authority = UserPackageAuthority uid n, source_identity = identity,
          manifest_fingerprint = fingerprint, archive_sha256 = Some archive\<rparr>"

definition row_candidate ::
  "semver_ops \<Rightarrow> json_object \<Rightarrow> catalog_entry \<Rightarrow> resolve_error + package_candidate" where
  "row_candidate S J row =
     and_then (ok_or (sv_parse S (ce_version row)) InvalidVersion) (\<lambda>v.
     and_then (map_err (\<lambda>_. InvalidRange) (package_minimum (ce_unity row) (ce_unity_release row))) (\<lambda>unity.
     and_then (row_dependencies S J (ce_dependencies_json row)) (\<lambda>deps.
     and_then (row_source (ce_source row)) (\<lambda>src.
       Inr \<lparr>pc_package_id = ce_package_id row, pc_version = v, pc_yanked = ce_yanked row,
            pc_unity_minimum = unity, pc_legacy_metadata_present = ce_legacy_metadata_present row,
            pc_dependencies = deps, pc_source = src\<rparr>))))"

definition catalog_cmp ::
  "semver_ops \<Rightarrow> uuid_ops \<Rightarrow> package_candidate \<Rightarrow> package_candidate \<Rightarrow> ordering" where
  "catalog_cmp S U l r =
     then_with (cmp_of (pc_package_id l) (pc_package_id r))
       (then_with (sv_cmp S (pc_version l) (pc_version r))
         (then_with (cmp_of (source_priority (pc_source l)) (source_priority (pc_source r)))
           (cmp_of (deterministic_key U (pc_source l)) (deterministic_key U (pc_source r)))))"

definition candidates_from_catalog ::
  "semver_ops \<Rightarrow> uuid_ops \<Rightarrow> json_object \<Rightarrow> resolver_catalog \<Rightarrow>
    resolve_error + package_candidate list" where
  "candidates_from_catalog S U J catalog =
     and_then (collect (row_candidate S J) (catalog_entries catalog)) (\<lambda>cs. Inr (sort_by (catalog_cmp S U) cs))"

section \<open>Properties\<close>

lemma catalog_cmp_preorder:
  assumes "semver_laws S"
  shows "cmp_preorder (catalog_cmp S U)"
proof -
  have "cmp_preorder (\<lambda>l r. sv_cmp S (pc_version l) (pc_version r))"
    by (rule cmp_preorder_on [OF semver_preorder [OF assms]])
  moreover have "cmp_preorder (\<lambda>l r. cmp_of (f l) (f r))" for f :: "package_candidate \<Rightarrow> string"
    by (rule cmp_preorder_on [OF cmp_of_preorder])
  moreover have "cmp_preorder (\<lambda>l r. cmp_of (source_priority (pc_source l)) (source_priority (pc_source r)))"
    by (rule cmp_preorder_on [OF cmp_of_preorder])
  ultimately show ?thesis
    unfolding catalog_cmp_def [abs_def] by (intro cmp_preorder_then)
qed

lemma digest_pairs_length: "length (digest_pairs s) = length s div 2"
  by (induction s rule: digest_pairs.induct) auto

lemma row_dependency_Inr:
  "row_dependency S entry = Inr d \<Longrightarrow>
    dep_package_id d = fst entry \<and> snd entry = Some (dep_range d) \<and>
    validate_package_id (dep_package_id d) = Inr () \<and> is_ok (range_parse S (dep_range d))"
  by (auto simp: row_dependency_def result_simps parse_dependency_range_def is_ok_iff)

subsection \<open>Digests\<close>

text \<open>The text of a digest, two lower-case hexadecimal digits for each byte.\<close>

definition lowercase_hex :: "string \<Rightarrow> string" where
  "lowercase_hex bytes = concat (map (\<lambda>b. [''0123456789abcdef'' ! (byte b div 16),
     ''0123456789abcdef'' ! (byte b mod 16)]) bytes)"

definition hex_char :: "char \<Rightarrow> bool" where
  "hex_char c \<longleftrightarrow> is_ascii_digit c \<or> (97 \<le> byte c \<and> byte c \<le> (102 :: nat))"

lemma digest_nibble_text:
  assumes "hex_char c"
  shows "digest_nibble c < 16 \<and> ''0123456789abcdef'' ! digest_nibble c = c"
proof -
  have "byte c \<in> set ([48..<58] @ [97..<103])"
    using assms unfolding hex_char_def is_ascii_digit_def set_append set_upt Un_iff atLeastLessThan_iff by linarith
  moreover have "\<forall>n \<in> set ([48..<58] @ [97..<103]). digest_nibble (char_of n) < 16 \<and>
      ''0123456789abcdef'' ! digest_nibble (char_of n) = char_of n"
    by code_simp
  ultimately have "digest_nibble (char_of (byte c)) < 16 \<and>
      ''0123456789abcdef'' ! digest_nibble (char_of (byte c)) = char_of (byte c)"
    by blast
  then show ?thesis by simp
qed

lemma digest_pairs_text:
  "list_all hex_char s \<Longrightarrow> even (length s) \<Longrightarrow> lowercase_hex (digest_pairs s) = s"
proof (induction s rule: digest_pairs.induct)
  case (1 a b s)
  have ok: "hex_char a" "hex_char b" "list_all hex_char s" "even (length s)"
    using "1.prems" by simp_all
  define m n where "m = digest_nibble a" and "n = digest_nibble b"
  have less: "m < 16" "n < 16"
    using ok digest_nibble_text by (simp_all add: m_def n_def)
  then have byte: "byte (char_of (16 * m + n)) = 16 * m + n"
    by simp
  have "lowercase_hex (digest_pairs (a # b # s)) =
      [''0123456789abcdef'' ! ((16 * m + n) div 16), ''0123456789abcdef'' ! ((16 * m + n) mod 16)] @
      lowercase_hex (digest_pairs s)"
    by (simp only: lowercase_hex_def digest_pairs.simps list.map concat.simps byte flip: m_def n_def)
  also have "\<dots> = [''0123456789abcdef'' ! m, ''0123456789abcdef'' ! n] @ s"
    using less "1.IH" [OF ok(3,4)] by simp
  also have "\<dots> = a # b # s"
    unfolding m_def n_def using ok digest_nibble_text by simp
  finally show ?case .
qed (simp_all add: lowercase_hex_def)

lemma parse_digest_Inr:
  assumes "parse_digest z = Inr d"
  shows "length d = 32 \<and> lowercase_hex d = z"
proof -
  have z: "length z = 64" "list_all hex_char z" "d = digest_pairs z"
    using assms by (auto simp: parse_digest_def hex_char_def list_all_iff list_ex_iff split: if_splits)
  then show ?thesis
    using digest_pairs_text [of z] by (simp add: digest_pairs_length)
qed

subsection \<open>Rows\<close>

text \<open>A package source that holds what a row says: the digest in the row's text, when it has one, comes first.\<close>

fun source_of_row :: "catalog_source \<Rightarrow> package_source \<Rightarrow> bool" where
  "source_of_row (RepositoryRow locator rid n prio identity url cred headers zip_digest local_zip fingerprint) s \<longleftrightarrow>
     (\<exists>known. authority s = RepositoryAuthority known rid n prio url cred headers \<and>
        (known = None \<longleftrightarrow> locator = []) \<and> (\<forall>l. known = Some l \<longrightarrow> l = locator)) \<and>
     source_identity s = identity \<and> manifest_fingerprint s = fingerprint \<and>
     (case zip_digest of
        None \<Rightarrow> archive_sha256 s = local_zip
      | Some z \<Rightarrow> (\<exists>d. archive_sha256 s = Some d \<and> length d = 32 \<and> lowercase_hex d = z))"
| "source_of_row (UserPackageRow uid n identity archive fingerprint) s \<longleftrightarrow>
     authority s = UserPackageAuthority uid n \<and> source_identity s = identity \<and>
     manifest_fingerprint s = fingerprint \<and> archive_sha256 s = Some archive"

lemma row_source_Inr:
  assumes "row_source row = Inr s"
  shows "source_of_row row s"
proof (cases row)
  case (RepositoryRow locator rid n prio identity url cred headers zip_digest local_zip fingerprint)
  show ?thesis
  proof (cases zip_digest)
    case None
    with assms show ?thesis by (auto simp: RepositoryRow result_simps)
  next
    case (Some z)
    with assms obtain d where d: "parse_digest z = Inr d"
      and s: "s = \<lparr>authority = RepositoryAuthority (if locator = [] then None else Some locator)
          rid n prio url cred headers, source_identity = identity, manifest_fingerprint = fingerprint,
          archive_sha256 = Some d\<rparr>"
      by (auto simp: RepositoryRow result_simps)
    show ?thesis
      using parse_digest_Inr [OF d] by (simp add: RepositoryRow Some s)
  qed
qed (use assms in auto)

definition candidate_of_row :: "semver_ops \<Rightarrow> json_object \<Rightarrow> catalog_entry \<Rightarrow> package_candidate \<Rightarrow> bool" where
  "candidate_of_row S J row c \<longleftrightarrow>
     pc_package_id c = ce_package_id row \<and>
     sv_parse S (ce_version row) = Some (pc_version c) \<and> sv_show S (pc_version c) = ce_version row \<and>
     pc_yanked c = ce_yanked row \<and> pc_legacy_metadata_present c = ce_legacy_metadata_present row \<and>
     package_minimum (ce_unity row) (ce_unity_release row) = Inr (pc_unity_minimum c) \<and>
     J (ce_dependencies_json row) =
       Some (map (\<lambda>d. (dep_package_id d, Some (dep_range d))) (pc_dependencies c)) \<and>
     (\<forall>d \<in> set (pc_dependencies c). validate_package_id (dep_package_id d) = Inr () \<and>
        is_ok (range_parse S (dep_range d))) \<and>
     source_of_row (ce_source row) (pc_source c)"

lemma dependencies_entries:
  "list_all2 (\<lambda>e d. row_dependency S e = Inr d) entries deps \<Longrightarrow>
    entries = map (\<lambda>d. (dep_package_id d, Some (dep_range d))) deps \<and>
    (\<forall>d \<in> set deps. validate_package_id (dep_package_id d) = Inr () \<and> is_ok (range_parse S (dep_range d)))"
proof (induction rule: list_all2_induct)
  case (Cons e entries d deps)
  have "e = (dep_package_id d, Some (dep_range d))" "validate_package_id (dep_package_id d) = Inr ()"
    "is_ok (range_parse S (dep_range d))"
    using row_dependency_Inr [OF Cons.hyps(1)] by (auto simp: prod_eq_iff)
  with Cons.IH show ?case by simp
qed simp

lemma row_candidate_Inr:
  assumes "semver_laws S" and "row_candidate S J row = Inr c"
  shows "candidate_of_row S J row c"
proof -
  obtain v unity entries deps src where v: "sv_parse S (ce_version row) = Some v"
    and unity: "package_minimum (ce_unity row) (ce_unity_release row) = Inr unity"
    and json: "J (ce_dependencies_json row) = Some entries"
    and deps: "list_all2 (\<lambda>e d. row_dependency S e = Inr d) entries deps"
    and src: "row_source (ce_source row) = Inr src"
    and c: "c = \<lparr>pc_package_id = ce_package_id row, pc_version = v, pc_yanked = ce_yanked row,
          pc_unity_minimum = unity, pc_legacy_metadata_present = ce_legacy_metadata_present row,
          pc_dependencies = deps, pc_source = src\<rparr>"
    using assms(2) by (auto simp: row_candidate_def row_dependencies_def result_simps)
  then show ?thesis
    using semver_parse_show [OF assms(1) v] dependencies_entries [OF deps] row_source_Inr [OF src]
    by (simp add: candidate_of_row_def)
qed

subsection \<open>The catalog\<close>

text \<open>
  C29: Reading the catalog loses nothing and invents nothing.  The candidates are the rows, one for
  each, in the resolver's order.  A candidate has the identity, the flags and the minimum Unity version
  of its row; its version is the one the row's text denotes, and prints as that text; its dependencies
  are the entries of the row's object, all of them in their order, each with a valid identifier and a
  range that parses; its source holds the row's fields, and its digest is the one whose hexadecimal text
  is in the row, or the locally computed one where the row has no text.
\<close>

theorem catalog_candidates_faithful:
  assumes "semver_laws S" and "candidates_from_catalog S U J catalog = Inr cs"
  shows "sorted_wrt (\<lambda>a b. catalog_cmp S U a b \<noteq> Greater) cs \<and>
    (\<exists>ds. mset ds = mset cs \<and> list_all2 (candidate_of_row S J) (catalog_entries catalog) ds)"
proof -
  obtain ds where ds: "list_all2 (\<lambda>row c. row_candidate S J row = Inr c) (catalog_entries catalog) ds"
    and cs: "cs = sort_by (catalog_cmp S U) ds"
    using assms(2) by (auto simp: candidates_from_catalog_def result_simps)
  have "list_all2 (candidate_of_row S J) (catalog_entries catalog) ds"
    using ds by (rule list_all2_mono) (rule row_candidate_Inr [OF assms(1)])
  moreover have "sorted_wrt (\<lambda>a b. catalog_cmp S U a b \<noteq> Greater) cs"
    unfolding cs by (rule cmp_preorder.sort_by_sorted [OF catalog_cmp_preorder [OF assms(1)]])
  ultimately show ?thesis
    by (intro conjI exI [of _ ds]) (simp_all add: cs)
qed

definition demo_row :: "string \<Rightarrow> string \<Rightarrow> catalog_entry" where
  "demo_row pid v =
     \<lparr>ce_source = UserPackageRow (UserPackageId 7) 1 ''s'' [] [], ce_package_id = pid, ce_version = v,
      ce_yanked = False, ce_unity = Some ''2022.3'', ce_author_name = [], ce_author_email = None,
      ce_unity_release = None, ce_dependencies_json = ''json'', ce_legacy_metadata_present = False\<rparr>"

definition demo_json :: json_object where
  "demo_json text = (if text = ''json'' then Some [(''b'', Some ''1.x'')] else None)"

theorem catalog_candidates_faithful_witness:
  "\<exists>cs. candidates_from_catalog demo_semver demo_uuid demo_json
      \<lparr>catalog_entries = [demo_row ''b'' ''1.0.0'', demo_row ''a'' ''2.0.0''], catalog_complete = True\<rparr> = Inr cs \<and>
    map pc_package_id cs = [''a'', ''b''] \<and>
    sorted_wrt (\<lambda>a b. catalog_cmp demo_semver demo_uuid a b \<noteq> Greater) cs \<and>
    (\<exists>c \<in> set cs. candidate_of_row demo_semver demo_json (demo_row ''b'' ''1.0.0'') c)"
proof -
  let ?cat = "\<lparr>catalog_entries = [demo_row ''b'' ''1.0.0'', demo_row ''a'' ''2.0.0''], catalog_complete = True\<rparr>"
  have "case candidates_from_catalog demo_semver demo_uuid demo_json ?cat of
      Inl e \<Rightarrow> False | Inr cs \<Rightarrow> map pc_package_id cs = [''a'', ''b'']"
    by code_simp
  then obtain cs where "candidates_from_catalog demo_semver demo_uuid demo_json ?cat = Inr cs"
    "map pc_package_id cs = [''a'', ''b'']"
    by (auto split: sum.splits)
  moreover from catalog_candidates_faithful [OF demo_semver_laws this(1)]
  obtain ds where "sorted_wrt (\<lambda>a b. catalog_cmp demo_semver demo_uuid a b \<noteq> Greater) cs" "mset ds = mset cs"
    "list_all2 (candidate_of_row demo_semver demo_json) [demo_row ''b'' ''1.0.0'', demo_row ''a'' ''2.0.0''] ds"
    by auto
  moreover from this obtain c where "c \<in> set ds" "candidate_of_row demo_semver demo_json (demo_row ''b'' ''1.0.0'') c"
    unfolding list_all2_Cons1 by (metis list.set_intros(1))
  moreover have "set ds = set cs"
    using \<open>mset ds = mset cs\<close> by (rule mset_eq_setD)
  ultimately show ?thesis by (intro exI [of _ cs] conjI bexI [of _ c]) simp_all
qed

end
