(* ===== verification/ResolverSound.thy ===== *)
theory ResolverSound
  imports Catalog
begin

text \<open>
  What a successful resolution guarantees, by induction over the search: every requirement that was
  ever raised is met by the choice for its package, every choice came from the catalog or the
  installed set, and the dependencies of every choice were raised.
\<close>

section \<open>Inversion of the search steps\<close>

definition legacy_allowed :: "solve_options \<Rightarrow> selection \<Rightarrow> bool" where
  "legacy_allowed opts choice \<longleftrightarrow>
     (case choice of
        CatalogChoice c \<Rightarrow> \<not> (pc_legacy_metadata_present c \<and> opt_legacy_handling opts = RejectLegacy)
      | InstalledChoice l \<Rightarrow> True)"

lemma group_choice_legacy:
  "group_choice S opts pid ex g = Inr c \<Longrightarrow> legacy_allowed opts (CatalogChoice c)"
  unfolding group_choice_def Let_def legacy_allowed_def by (simp split: if_splits list.splits)

lemma try_groups_Inr:
  assumes "try_groups S opts pid ex attempt gs last_error = Inr sol"
  shows "\<exists>c \<in> set (concat gs). attempt c = Inr sol \<and> legacy_allowed opts (CatalogChoice c)"
  using assms
proof (induction gs arbitrary: last_error)
  case (Cons g gs)
  then obtain c where c: "group_choice S opts pid ex g = Inr c"
    by (auto split: sum.splits)
  show ?case
  proof (cases "attempt c")
    case (Inl e)
    then have "try_groups S opts pid ex attempt gs (Some e) = Inr sol"
      using Cons.prems c by (auto split: if_splits)
    from Cons.IH [OF this] show ?thesis by auto
  next
    case (Inr r)
    then show ?thesis
      using Cons.prems c group_choice_member [OF c] group_choice_legacy [OF c] by auto
  qed
qed simp

lemma search_candidates_Inr:
  assumes "search_candidates S catalog opts pid reqs attempt last_error = Inr sol"
  shows "\<exists>c. choice_available catalog opts pid (CatalogChoice c) \<and>
    selection_satisfies S (CatalogChoice c) reqs opts \<and> legacy_allowed opts (CatalogChoice c) \<and>
    attempt c = Inr sol"
proof -
  have "try_groups S opts pid (list_ex (\<lambda>r. req_source r \<noteq> None) reqs) attempt
      (precedence_groups S (ordered_candidates S catalog opts pid reqs)) last_error = Inr sol"
    using assms by (simp add: search_candidates_def Let_def split: if_splits)
  from try_groups_Inr [OF this] show ?thesis
    unfolding precedence_groups_concat using ordered_candidates_set by blast
qed

lemma search_package_Inr:
  assumes "search_package S catalog opts pid reqs attempt = Inr sol"
  shows "\<exists>choice. choice_available catalog opts pid choice \<and>
    selection_satisfies S choice reqs opts \<and> legacy_allowed opts choice \<and> attempt choice = Inr sol"
proof (cases "installed_choice S opts pid reqs")
  case None
  then have "search_candidates S catalog opts pid reqs (\<lambda>c. attempt (CatalogChoice c)) None = Inr sol"
    using assms by (simp add: search_package_def)
  from search_candidates_Inr [OF this] show ?thesis by blast
next
  case (Some l)
  show ?thesis
  proof (cases "attempt (InstalledChoice l)")
    case (Inl e)
    then have "search_candidates S catalog opts pid reqs (\<lambda>c. attempt (CatalogChoice c)) (Some e) = Inr sol"
      using assms Some by (simp add: search_package_def split: if_splits)
    from search_candidates_Inr [OF this] show ?thesis by blast
  next
    case (Inr r)
    then show ?thesis
      using assms Some installed_choice_Some [OF Some, of catalog]
      by (intro exI [of _ "InstalledChoice l"]) (simp add: search_package_def legacy_allowed_def)
  qed
qed

section \<open>Requirements only grow\<close>

definition grown :: "requirement_map \<Rightarrow> requirement_map \<Rightarrow> bool" where
  "grown reqs reqs' \<longleftrightarrow>
     (\<forall>pid rs. bt_get reqs pid = Some rs \<longrightarrow> (\<exists>more. bt_get reqs' pid = Some (rs @ more)))"

lemma grown_refl [simp]: "grown reqs reqs"
  by (simp add: grown_def)

lemma grown_trans: "grown a b \<Longrightarrow> grown b c \<Longrightarrow> grown a c"
  unfolding grown_def by (metis append.assoc)

lemma grown_push: "bt_ok reqs \<Longrightarrow> grown reqs (bt_push pid r reqs)"
  by (auto simp: grown_def bt_get_push)

text \<open>The dependencies of a choice have been raised.\<close>

definition dependency_requirement :: "string \<Rightarrow> vpm_range \<Rightarrow> requirement" where
  "dependency_requirement pid r =
     \<lparr>req_from_package_id = pid, range_text = range_canonical r, req_range = r, req_source = None,
      req_direct = False\<rparr>"

definition raised :: "semver_ops \<Rightarrow> requirement_map \<Rightarrow> string \<Rightarrow> package_dependency \<Rightarrow> bool" where
  "raised S reqs pid d \<longleftrightarrow>
     (\<exists>r rs. range_parse S (dep_range d) = Inr r \<and> bt_get reqs (dep_package_id d) = Some rs \<and>
        dependency_requirement pid r \<in> set rs)"

lemma raised_grown: "raised S reqs pid d \<Longrightarrow> grown reqs reqs' \<Longrightarrow> raised S reqs' pid d"
  unfolding raised_def grown_def by (metis Un_iff set_append)

lemma add_requirements_spec:
  assumes "add_requirements S pid deps reqs = Inr reqs'" and "bt_ok reqs"
  shows "bt_ok reqs' \<and> grown reqs reqs' \<and> (\<forall>d \<in> set deps. raised S reqs' pid d) \<and>
    requirement_count reqs' \<le> max_requirements"
proof -
  let ?f = "\<lambda>d rs. and_then (parse_dependency_range S (dep_range d)) (\<lambda>r.
    Inr (bt_push (dep_package_id d) (dependency_requirement pid r) rs))"
  have fold: "try_fold ?f deps reqs = Inr reqs'" and "requirement_count reqs' \<le> max_requirements"
    using assms(1) by (auto simp: add_requirements_def dependency_requirement_def result_simps
        split: if_splits)
  have "try_fold ?f deps rs = Inr reqs' \<Longrightarrow> bt_ok rs \<Longrightarrow>
      bt_ok reqs' \<and> grown rs reqs' \<and> (\<forall>d \<in> set deps. raised S reqs' pid d)" for rs
  proof (induction deps arbitrary: rs)
    case (Cons d deps)
    then obtain r where r: "range_parse S (dep_range d) = Inr r"
      and rest: "try_fold ?f deps (bt_push (dep_package_id d) (dependency_requirement pid r) rs) = Inr reqs'"
      by (auto simp: result_simps parse_dependency_range_def)
    let ?rs = "bt_push (dep_package_id d) (dependency_requirement pid r) rs"
    have IH: "bt_ok reqs' \<and> grown ?rs reqs' \<and> (\<forall>d \<in> set deps. raised S reqs' pid d)"
      using Cons.IH [OF rest] Cons.prems(2) by simp
    have "raised S ?rs pid d"
      using r Cons.prems(2) by (simp add: raised_def bt_get_push)
    then show ?case
      using IH raised_grown grown_trans [OF grown_push [OF Cons.prems(2)]] by auto
  qed simp
  with fold assms(2) \<open>requirement_count reqs' \<le> max_requirements\<close> show ?thesis by blast
qed

section \<open>The search is sound\<close>

definition sound_extension ::
  "semver_ops \<Rightarrow> catalog_index \<Rightarrow> solve_options \<Rightarrow> requirement_map \<Rightarrow> selected_map \<Rightarrow>
    selected_map \<Rightarrow> requirement_map \<Rightarrow> bool" where
  "sound_extension S catalog opts reqs selected selected' reqs' \<longleftrightarrow>
     bt_ok selected' \<and> bt_ok reqs' \<and> grown reqs reqs' \<and>
     bt_get selected \<subseteq>\<^sub>m bt_get selected' \<and>
     (\<forall>pid rs. bt_get reqs' pid = Some rs \<longrightarrow>
        (\<exists>choice. bt_get selected' pid = Some choice \<and> selection_satisfies S choice rs opts)) \<and>
     (\<forall>pid choice. bt_get selected' pid = Some choice \<longrightarrow>
        bt_get selected pid = Some choice \<or>
        (pid \<in> dom (bt_get reqs') \<and> choice_available catalog opts pid choice \<and>
         legacy_allowed opts choice \<and>
         (\<forall>d \<in> set (selection_dependencies choice). raised S reqs' pid d))) \<and>
     (\<forall>rules. opt_project opts = Some rules \<longrightarrow>
        validate_preserved S rules selected' (opt_include_prerelease opts) = Inr ()) \<and>
     (requirement_count reqs' \<le> max_requirements \<or> (reqs' = reqs \<and> selected' = selected))"

lemma grown_dom: "grown reqs reqs' \<Longrightarrow> dom (bt_get reqs) \<subseteq> dom (bt_get reqs')"
  unfolding grown_def by blast

lemma sound_extension_finished:
  assumes ok: "bt_ok reqs" "bt_ok selected"
    and none: "find (violated S opts selected) reqs = None"
    and all: "find (\<lambda>entry. bt_get selected (fst entry) = None) reqs = None"
    and valid: "\<And>rules. opt_project opts = Some rules \<Longrightarrow>
      validate_preserved S rules selected (opt_include_prerelease opts) = Inr ()"
  shows "sound_extension S catalog opts reqs selected selected reqs"
proof -
  have "\<exists>choice. bt_get selected pid = Some choice \<and> selection_satisfies S choice rs opts"
    if "bt_get reqs pid = Some rs" for pid rs
  proof -
    have "(pid, rs) \<in> set reqs"
      using that by (rule map_of_SomeD)
    then show ?thesis
      using none all by (fastforce simp: find_None_iff violated_def split: option.splits)
  qed
  then show ?thesis
    using ok valid by (simp add: sound_extension_def)
qed

lemma sound_extension_step:
  assumes sel: "bt_ok selected" and fresh: "bt_get selected pid = None"
    and entry: "bt_get reqs pid = Some rs"
    and avail: "choice_available catalog opts pid choice" and leg: "legacy_allowed opts choice"
    and add: "grown reqs following" "\<forall>d \<in> set (selection_dependencies choice). raised S following pid d"
      "requirement_count following \<le> max_requirements"
    and sound: "sound_extension S catalog opts following (bt_insert pid choice selected) selected' reqs'"
  shows "sound_extension S catalog opts reqs selected selected' reqs'"
proof -
  have get: "bt_get (bt_insert pid choice selected) = (bt_get selected)(pid \<mapsto> choice)"
    using sel by (rule bt_get_insert)
  have g: "grown following reqs'"
    using sound by (simp add: sound_extension_def)
  have le: "bt_get selected \<subseteq>\<^sub>m bt_get selected'"
    using sound fresh unfolding sound_extension_def get
    by (auto simp: map_le_def dom_def split: if_splits)
  have choice: "bt_get selected q = Some ch \<or> (q \<in> dom (bt_get reqs') \<and>
      choice_available catalog opts q ch \<and> legacy_allowed opts ch \<and>
      (\<forall>d \<in> set (selection_dependencies ch). raised S reqs' q d))"
    if q: "bt_get selected' q = Some ch" for q ch
  proof (cases "q = pid")
    case True
    have "bt_get selected' pid = Some choice"
      using sound unfolding sound_extension_def get by (auto simp: map_le_def)
    moreover have "pid \<in> dom (bt_get reqs')"
      using entry grown_dom [OF grown_trans [OF add(1) g]] by auto
    ultimately show ?thesis
      using True q avail leg add(2) raised_grown [OF _ g] by auto
  next
    case False
    have "((bt_get selected)(pid \<mapsto> choice)) q = Some ch \<or> (q \<in> dom (bt_get reqs') \<and>
        choice_available catalog opts q ch \<and> legacy_allowed opts ch \<and>
        (\<forall>d \<in> set (selection_dependencies ch). raised S reqs' q d))"
      using sound q unfolding sound_extension_def get by blast
    then show ?thesis
      using False by simp
  qed
  show ?thesis
    using sound le choice grown_trans [OF add(1) g] add(3)
    unfolding sound_extension_def by blast
qed

lemma solve_sound:
  assumes "solve S catalog opts reqs selected = Inr (selected', reqs')"
    and "bt_ok reqs" and "bt_ok selected"
  shows "sound_extension S catalog opts reqs selected selected' reqs'"
  using assms
proof (induction S catalog opts reqs selected rule: solve.induct)
  case (1 S catalog opts reqs selected)
  note run = 1(2) [unfolded solve.simps [of S catalog opts reqs selected]]
  have none: "find (violated S opts selected) reqs = None"
    using run by (cases "find (violated S opts selected) reqs") simp_all
  show ?case
  proof (cases "find (\<lambda>entry. bt_get selected (fst entry) = None) reqs")
    case None
    then have fin: "selected' = selected \<and> reqs' = reqs \<and> (\<forall>rules. opt_project opts = Some rules \<longrightarrow>
        validate_preserved S rules selected (opt_include_prerelease opts) = Inr ())"
      using run none by (auto simp: result_simps split: option.splits)
    with sound_extension_finished [OF 1(3,4) none None, of catalog] show ?thesis by blast
  next
    case (Some entry)
    then have entry: "bt_get selected (fst entry) = None" "entry \<in> set reqs"
      using find_Some_set [OF Some] by auto
    have "search_package S catalog opts (fst entry) (snd entry) (\<lambda>choice.
        and_then (add_requirements S (fst entry) (selection_dependencies choice) reqs)
          (\<lambda>next. solve S catalog opts next (bt_insert (fst entry) choice selected))) =
        Inr (selected', reqs')"
      using run none Some by simp
    from search_package_Inr [OF this] obtain choice following where
      avail: "choice_available catalog opts (fst entry) choice" and leg: "legacy_allowed opts choice"
      and add: "add_requirements S (fst entry) (selection_dependencies choice) reqs = Inr following"
      and rec: "solve S catalog opts following (bt_insert (fst entry) choice selected) = Inr (selected', reqs')"
      by (auto simp: result_simps)
    note spec = add_requirements_spec [OF add 1(3)]
    have "sound_extension S catalog opts following (bt_insert (fst entry) choice selected) selected' reqs'"
      using 1(1) [OF none Some avail add rec] spec bt_insert_ok [OF 1(4)] by blast
    moreover have "bt_get reqs (fst entry) = Some (snd entry)"
      using entry(2) 1(3) by (simp flip: bt_in_set_iff)
    ultimately show ?thesis
      using sound_extension_step [OF 1(4) entry(1) _ avail leg] spec by blast
  qed
qed

section \<open>Requests and catalog\<close>

lemma bt_push_get_set:
  "bt_ok m \<Longrightarrow> bt_get m k = Some vs \<Longrightarrow> v \<in> set vs \<Longrightarrow>
    \<exists>ws. bt_get (bt_push l w m) k = Some ws \<and> v \<in> set ws"
  by (auto simp: bt_get_push)

lemma index_catalog_spec:
  assumes "index_catalog S catalog = Inr index"
  shows "bt_ok index \<and> (\<forall>c \<in> set catalog. validate_candidate S c = Inr ()) \<and>
    (\<forall>pid. bt_get index pid =
      (let cs = filter (\<lambda>c. pc_package_id c = pid) catalog in if cs = [] then None else Some cs))"
proof -
  let ?f = "\<lambda>c m. and_then (validate_candidate S c) (\<lambda>_. Inr (bt_push (pc_package_id c) c m))"
  have "try_fold ?f catalog m = Inr index \<Longrightarrow> bt_ok m \<Longrightarrow>
      bt_ok index \<and> (\<forall>c \<in> set catalog. validate_candidate S c = Inr ()) \<and>
      (\<forall>pid. bt_get index pid =
        (let cs = (case bt_get m pid of None \<Rightarrow> [] | Some cs \<Rightarrow> cs) @ filter (\<lambda>c. pc_package_id c = pid) catalog
         in if cs = [] \<and> bt_get m pid = None then None else Some cs))" for m
  proof (induction catalog arbitrary: m)
    case Nil
    then show ?case by (auto simp: Let_def split: option.splits)
  next
    case (Cons c catalog)
    then have v: "validate_candidate S c = Inr ()"
      and rest: "try_fold ?f catalog (bt_push (pc_package_id c) c m) = Inr index"
      by (auto simp: result_simps)
    have get: "bt_get (bt_push (pc_package_id c) c m) pid =
        (if pid = pc_package_id c then Some ((case bt_get m pid of None \<Rightarrow> [] | Some cs \<Rightarrow> cs) @ [c])
         else bt_get m pid)" for pid
      using Cons.prems(2) by (simp add: bt_get_push)
    show ?case
      using Cons.IH [OF rest] Cons.prems(2) v by (auto simp: get Let_def)
  qed
  from this [of "[]"] assms show ?thesis
    by (simp add: index_catalog_def)
qed

definition direct_requirement :: "resolve_request \<Rightarrow> vpm_range \<Rightarrow> requirement" where
  "direct_requirement rq r =
     \<lparr>req_from_package_id = rq_package_id rq, range_text = range_canonical r, req_range = r,
      req_source = rq_source rq, req_direct = True\<rparr>"

definition requested :: "semver_ops \<Rightarrow> request_state \<Rightarrow> resolve_request \<Rightarrow> bool" where
  "requested S st rq \<longleftrightarrow>
     (\<exists>r rs. range_parse S (rq_range rq) = Inr r \<and>
        bt_get (rs_requirements st) (rq_package_id rq) = Some rs \<and> direct_requirement rq r \<in> set rs) \<and>
     (rq_include_prerelease rq \<longrightarrow> rs_include_prerelease st) \<and>
     (\<forall>v. rq_unity_version rq = Some v \<longrightarrow> rs_unity_version st = Some v)"

lemma add_request_spec:
  assumes "add_request S rq st = Inr st'" and "bt_ok (rs_requirements st)"
  shows "bt_ok (rs_requirements st') \<and> requested S st' rq \<and>
    (\<forall>rq'. requested S st rq' \<longrightarrow> requested S st' rq') \<and>
    rs_include_prerelease st' = (rs_include_prerelease st \<or> rq_include_prerelease rq)"
proof -
  obtain unity r where r: "range_parse S (rq_range rq) = Inr r"
    and unity: "case rq_unity_version rq of None \<Rightarrow> unity = rs_unity_version st
      | Some v \<Rightarrow> unity = Some v \<and> (rs_unity_version st = None \<or> rs_unity_version st = Some v)"
    and st': "st' = \<lparr>rs_requirements = bt_push (rq_package_id rq) (direct_requirement rq r) (rs_requirements st),
      rs_include_prerelease = (rs_include_prerelease st \<or> rq_include_prerelease rq),
      rs_unity_version = unity\<rparr>"
    using assms(1)
    by (auto simp: add_request_def result_simps parse_dependency_range_def direct_requirement_def
        split: option.splits if_splits)
  have new: "requested S st' rq"
    using r unity assms(2) by (auto simp: requested_def st' bt_get_push split: option.splits)
  have old: "requested S st' rq'" if "requested S st rq'" for rq'
  proof -
    have "\<exists>r rs. range_parse S (rq_range rq') = Inr r \<and>
        bt_get (rs_requirements st') (rq_package_id rq') = Some rs \<and> direct_requirement rq' r \<in> set rs"
      using that bt_push_get_set [OF assms(2)] unfolding requested_def st' by fastforce
    then show ?thesis
      using that unity unfolding requested_def st' by (auto split: option.splits)
  qed
  show ?thesis
    using new old assms(2) by (simp add: st')
qed

lemma requests_spec:
  assumes "try_fold (add_request S) requests st = Inr st'" and "bt_ok (rs_requirements st)"
  shows "bt_ok (rs_requirements st') \<and> (\<forall>rq \<in> set requests. requested S st' rq) \<and>
    (\<forall>rq. requested S st rq \<longrightarrow> requested S st' rq) \<and>
    rs_include_prerelease st' =
      (rs_include_prerelease st \<or> (\<exists>rq \<in> set requests. rq_include_prerelease rq))"
  using assms
proof (induction requests arbitrary: st)
  case (Cons rq requests)
  then obtain mid where mid: "add_request S rq st = Inr mid"
    and rest: "try_fold (add_request S) requests mid = Inr st'"
    by (auto simp: result_simps)
  note one = add_request_spec [OF mid Cons.prems(2)]
  then have "bt_ok (rs_requirements mid)" by blast
  note IH = Cons.IH [OF rest this]
  have "rs_include_prerelease st' =
      (rs_include_prerelease st \<or> (\<exists>q \<in> set (rq # requests). rq_include_prerelease q))"
    using IH one by auto
  then show ?case
    using IH one by auto
qed simp

lemma internal_Inr:
  assumes "resolve_packages_internal S catalog requests legacy project = Inr (res, obligations)"
  obtains st index selected reqs where
    "bt_ok (rs_requirements st)" "\<forall>rq \<in> set requests. requested S st rq"
    "rs_include_prerelease st = (\<exists>rq \<in> set requests. rq_include_prerelease rq)"
    "index_catalog S catalog = Inr index"
    "sound_extension S index \<lparr>opt_include_prerelease = rs_include_prerelease st,
        opt_unity_version = rs_unity_version st, opt_legacy_handling = legacy, opt_project = project\<rparr>
      (rs_requirements st) [] selected reqs"
    "packages res = map (\<lambda>c. \<lparr>rp_package_id = pc_package_id c, rp_version = pc_version c,
        rp_source = pc_source c, rp_direct = (pc_package_id c \<in> set (map rq_package_id requests))\<rparr>)
      (chosen_candidates selected)"
    "dependency_edges res = collect_edges reqs"
    "obligations = map (\<lambda>c. \<lparr>ob_package_id = pc_package_id c, ob_version = pc_version c,
        ob_source = pc_source c\<rparr>) (filter pc_legacy_metadata_present (chosen_candidates selected))"
proof -
  obtain st index selected reqs where
    st: "try_fold (add_request S) requests
      \<lparr>rs_requirements = [], rs_include_prerelease = False, rs_unity_version = None\<rparr> = Inr st"
    and index: "index_catalog S catalog = Inr index"
    and run: "solve S index \<lparr>opt_include_prerelease = rs_include_prerelease st,
        opt_unity_version = rs_unity_version st, opt_legacy_handling = legacy, opt_project = project\<rparr>
      (rs_requirements st) [] = Inr (selected, reqs)"
    and res: "packages res = map (\<lambda>c. \<lparr>rp_package_id = pc_package_id c, rp_version = pc_version c,
        rp_source = pc_source c, rp_direct = (pc_package_id c \<in> set (map rq_package_id requests))\<rparr>)
      (chosen_candidates selected)" "dependency_edges res = collect_edges reqs"
    "obligations = map (\<lambda>c. \<lparr>ob_package_id = pc_package_id c, ob_version = pc_version c,
        ob_source = pc_source c\<rparr>) (filter pc_legacy_metadata_present (chosen_candidates selected))"
    using assms by (auto simp: resolve_packages_internal_def result_simps split: if_splits prod.splits)
  have ok: "bt_ok (rs_requirements st) \<and> (\<forall>rq \<in> set requests. requested S st rq) \<and>
      rs_include_prerelease st = (\<exists>rq \<in> set requests. rq_include_prerelease rq)"
    using requests_spec [OF st] by simp
  then have "bt_ok (rs_requirements st)" by blast
  from solve_sound [OF run this bt_ok_Nil] ok index res show ?thesis
    by (intro that) blast+
qed

lemma choice_from_catalog:
  assumes "index_catalog S catalog = Inr index" and "choice_available index opts pid (CatalogChoice c)"
  shows "c \<in> set catalog \<and> pc_package_id c = pid"
  using index_catalog_spec [OF assms(1)] assms(2) by (auto simp: Let_def split: if_splits)

lemma chosen_candidates_set:
  "bt_ok selected \<Longrightarrow>
    c \<in> set (chosen_candidates selected) \<longleftrightarrow> (\<exists>pid. bt_get selected pid = Some (CatalogChoice c))"
proof -
  assume ok: "bt_ok selected"
  have "c \<in> set (catalog_choice ch) \<longleftrightarrow> ch = CatalogChoice c" for ch
    by (cases ch) auto
  then have "c \<in> set (chosen_candidates selected) \<longleftrightarrow> (\<exists>pid. (pid, CatalogChoice c) \<in> set selected)"
    by (force simp: chosen_candidates_def)
  then show ?thesis
    using ok by (simp add: bt_in_set_iff)
qed

lemma chosen_candidates_sorted:
  assumes "bt_ok selected"
    and "\<And>pid c. (pid, CatalogChoice c) \<in> set selected \<Longrightarrow> pc_package_id c = pid"
  shows "sorted_wrt (<) (map pc_package_id (chosen_candidates selected))"
proof -
  have "map pc_package_id (chosen_candidates selected) =
      map fst (filter (\<lambda>p. catalog_choice (snd p) \<noteq> []) selected)"
    using assms(2)
  proof (induction selected)
    case (Cons p selected)
    have "map pc_package_id (catalog_choice (snd p)) =
        (if catalog_choice (snd p) \<noteq> [] then [fst p] else [])"
      using Cons.prems [of "fst p"] by (cases p; cases "snd p") auto
    then show ?case
      using Cons by (simp add: chosen_candidates_def)
  qed (simp add: chosen_candidates_def)
  moreover have "sorted_wrt (<) (map fst (filter (\<lambda>p. catalog_choice (snd p) \<noteq> []) selected))"
    using assms(1) by (simp add: bt_ok_def sorted_wrt_map sorted_wrt_filter)
  ultimately show ?thesis by simp
qed

text \<open>
  The guarantee on one chosen package: where it comes from, that nothing forbids it, and that what
  it depends on is there.  \<open>present\<close> gives the version a package is resolved to.
\<close>

definition well_chosen ::
  "semver_ops \<Rightarrow> package_candidate list \<Rightarrow> resolve_request list \<Rightarrow> legacy_handling \<Rightarrow>
    (string \<Rightarrow> vpm_range \<Rightarrow> bool) \<Rightarrow> resolved_package \<Rightarrow> bool" where
  "well_chosen S catalog requests legacy present p \<longleftrightarrow>
     (\<exists>c \<in> set catalog.
        rp_package_id p = pc_package_id c \<and> rp_version p = pc_version c \<and> rp_source p = pc_source c \<and>
        \<not> pc_yanked c \<and> \<not> (pc_legacy_metadata_present c \<and> legacy = RejectLegacy) \<and>
        (\<forall>rq \<in> set requests. \<forall>v. rq_unity_version rq = Some v \<longrightarrow>
           meets_minimum (Some v) (pc_unity_minimum c)) \<and>
        (rp_direct p \<longleftrightarrow> pc_package_id c \<in> set (map rq_package_id requests)) \<and>
        (\<forall>d \<in> set (pc_dependencies c). \<exists>r. range_parse S (dep_range d) = Inr r \<and>
           present (dep_package_id d) r))"

definition includes_prerelease :: "resolve_request list \<Rightarrow> bool" where
  "includes_prerelease requests \<longleftrightarrow> (\<exists>rq \<in> set requests. rq_include_prerelease rq)"

lemma satisfied_range:
  "selection_satisfies S choice rs opts \<Longrightarrow> r \<in> set rs \<Longrightarrow>
    range_matches S (req_range r) (selection_version choice)
      (opt_include_prerelease opts \<or>
        (\<exists>l. choice = InstalledChoice l \<and> v_pre (locked_version l) \<noteq> []))"
  by (cases choice) (auto simp: candidate_satisfies_def list_all_iff)

text \<open>Every raised requirement on a package is met by what was selected for it.\<close>

definition met_by_selection ::
  "semver_ops \<Rightarrow> bool \<Rightarrow> selected_map \<Rightarrow> string \<Rightarrow> vpm_range \<Rightarrow> bool" where
  "met_by_selection S include_prerelease selected pid r \<longleftrightarrow>
     (\<exists>choice. bt_get selected pid = Some choice \<and>
        range_matches S r (selection_version choice)
          (include_prerelease \<or> (\<exists>l. choice = InstalledChoice l \<and> v_pre (locked_version l) \<noteq> [])))"

lemma raised_met:
  assumes "sound_extension S index opts reqs0 [] selected reqs" and "raised S reqs pid d"
  shows "\<exists>r. range_parse S (dep_range d) = Inr r \<and>
    met_by_selection S (opt_include_prerelease opts) selected (dep_package_id d) r"
proof -
  obtain r rs where r: "range_parse S (dep_range d) = Inr r"
    and rs: "bt_get reqs (dep_package_id d) = Some rs" "dependency_requirement pid r \<in> set rs"
    using assms(2) by (auto simp: raised_def)
  obtain choice where "bt_get selected (dep_package_id d) = Some choice"
    "selection_satisfies S choice rs opts"
    using assms(1) rs(1) unfolding sound_extension_def by blast
  then show ?thesis
    using r satisfied_range [OF _ rs(2)] by (auto simp: met_by_selection_def dependency_requirement_def)
qed

lemma selection_origin:
  assumes "sound_extension S index opts reqs0 [] selected reqs" and "bt_get selected pid = Some choice"
  shows "choice_available index opts pid choice \<and> legacy_allowed opts choice \<and>
    (\<forall>d \<in> set (selection_dependencies choice). raised S reqs pid d) \<and>
    (\<exists>rs. bt_get reqs pid = Some rs \<and> selection_satisfies S choice rs opts)"
proof -
  have "bt_get [] pid = Some choice \<or> (pid \<in> dom (bt_get reqs) \<and>
      choice_available index opts pid choice \<and> legacy_allowed opts choice \<and>
      (\<forall>d \<in> set (selection_dependencies choice). raised S reqs pid d))"
    using assms unfolding sound_extension_def by blast
  moreover have "\<exists>rs. bt_get reqs pid = Some rs \<and> selection_satisfies S choice rs opts"
    if "pid \<in> dom (bt_get reqs)"
    using that assms unfolding sound_extension_def by fastforce
  ultimately show ?thesis by simp
qed

lemma chosen_well_chosen:
  assumes index: "index_catalog S catalog = Inr index"
    and sound: "sound_extension S index opts reqs0 [] selected reqs"
    and unity: "\<And>rq v. rq \<in> set requests \<Longrightarrow> rq_unity_version rq = Some v \<Longrightarrow> opt_unity_version opts = Some v"
    and c: "c \<in> set (chosen_candidates selected)"
  shows "well_chosen S catalog requests (opt_legacy_handling opts)
    (met_by_selection S (opt_include_prerelease opts) selected)
    \<lparr>rp_package_id = pc_package_id c, rp_version = pc_version c, rp_source = pc_source c,
      rp_direct = (pc_package_id c \<in> set (map rq_package_id requests))\<rparr>"
proof -
  have "bt_ok selected"
    using sound by (simp add: sound_extension_def)
  then obtain pid where get: "bt_get selected pid = Some (CatalogChoice c)"
    using c chosen_candidates_set by blast
  note origin = selection_origin [OF sound get]
  then have "c \<in> set catalog"
    using choice_from_catalog [OF index] by blast
  moreover have fit: "\<not> pc_yanked c \<and> meets_minimum (opt_unity_version opts) (pc_unity_minimum c)"
    using origin by (auto simp: candidate_satisfies_def)
  moreover have "\<forall>rq \<in> set requests. \<forall>v. rq_unity_version rq = Some v \<longrightarrow>
      meets_minimum (Some v) (pc_unity_minimum c)"
    using fit unity by metis
  moreover have "\<not> (pc_legacy_metadata_present c \<and> opt_legacy_handling opts = RejectLegacy)"
    using origin by (simp add: legacy_allowed_def)
  moreover have "\<exists>r. range_parse S (dep_range d) = Inr r \<and>
      met_by_selection S (opt_include_prerelease opts) selected (dep_package_id d) r"
    if "d \<in> set (pc_dependencies c)" for d
    using origin that by (intro raised_met [OF sound]) auto
  ultimately show ?thesis
    unfolding well_chosen_def by (intro bexI [of _ c]) simp_all
qed

lemma satisfied_source:
  "selection_satisfies S choice rs opts \<Longrightarrow> r \<in> set rs \<Longrightarrow> req_source r = Some sel \<Longrightarrow>
    \<exists>c. choice = CatalogChoice c \<and> matches_selector (pc_source c) sel"
  by (cases choice) (auto simp: candidate_satisfies_def list_all_iff dest!: bspec)

lemma request_met:
  assumes "requested S st rq"
    and "sound_extension S index opts (rs_requirements st) [] selected reqs"
  shows "\<exists>r choice. range_parse S (rq_range rq) = Inr r \<and>
    bt_get selected (rq_package_id rq) = Some choice \<and>
    range_matches S r (selection_version choice)
      (opt_include_prerelease opts \<or> (\<exists>l. choice = InstalledChoice l \<and> v_pre (locked_version l) \<noteq> [])) \<and>
    (\<forall>sel. rq_source rq = Some sel \<longrightarrow>
      (\<exists>c. choice = CatalogChoice c \<and> matches_selector (pc_source c) sel))"
proof -
  obtain r rs where r: "range_parse S (rq_range rq) = Inr r"
    and rs: "bt_get (rs_requirements st) (rq_package_id rq) = Some rs" "direct_requirement rq r \<in> set rs"
    using assms(1) by (auto simp: requested_def)
  obtain more where "bt_get reqs (rq_package_id rq) = Some (rs @ more)"
    using assms(2) rs(1) unfolding sound_extension_def grown_def by blast
  then obtain choice where ch: "bt_get selected (rq_package_id rq) = Some choice"
    and sat: "selection_satisfies S choice (rs @ more) opts"
    using assms(2) unfolding sound_extension_def by blast
  have mem: "direct_requirement rq r \<in> set (rs @ more)"
    using rs(2) by simp
  have "\<exists>c. choice = CatalogChoice c \<and> matches_selector (pc_source c) sel"
    if "rq_source rq = Some sel" for sel
    using satisfied_source [OF sat mem, of sel] that by (simp add: direct_requirement_def)
  then show ?thesis
    using r ch satisfied_range [OF sat mem] by (auto simp: direct_requirement_def)
qed

definition request_served ::
  "semver_ops \<Rightarrow> resolved_package list \<Rightarrow> bool \<Rightarrow> resolve_request \<Rightarrow> bool" where
  "request_served S ps include_prerelease rq \<longleftrightarrow>
     (\<exists>r. range_parse S (rq_range rq) = Inr r \<and>
       (\<exists>p \<in> set ps. rp_package_id p = rq_package_id rq \<and> rp_direct p \<and>
          range_matches S r (rp_version p) include_prerelease \<and>
          (\<forall>sel. rq_source rq = Some sel \<longrightarrow> matches_selector (rp_source p) sel)))"

definition provided :: "semver_ops \<Rightarrow> resolved_package list \<Rightarrow> bool \<Rightarrow> string \<Rightarrow> vpm_range \<Rightarrow> bool" where
  "provided S ps include_prerelease pid r \<longleftrightarrow>
     (\<exists>p \<in> set ps. rp_package_id p = pid \<and> range_matches S r (rp_version p) include_prerelease)"

lemma catalog_only:
  assumes "sound_extension S index opts reqs0 [] selected reqs" and "opt_project opts = None"
    and "bt_get selected pid = Some choice"
  shows "\<exists>c. choice = CatalogChoice c"
  using selection_origin [OF assms(1,3)] assms(2) by (cases choice) auto

section \<open>Properties\<close>

text \<open>
  C1: A resolution that succeeds is a solution.  The packages have distinct identifiers in order;
  each is an unyanked catalog candidate without legacy clean-up that runs on the requested Unity
  version; every request is served by a package in its range and from its source; and every
  dependency of every package is provided in its range by a package of the result.
\<close>

theorem resolve_packages_sound:
  assumes "resolve_packages S catalog requests = Inr res"
  shows "sorted_wrt (<) (map rp_package_id (packages res)) \<and>
    (\<forall>p \<in> set (packages res). well_chosen S catalog requests RejectLegacy
      (provided S (packages res) (includes_prerelease requests)) p) \<and>
    (\<forall>rq \<in> set requests. request_served S (packages res) (includes_prerelease requests) rq)"
proof -
  obtain obligations where
    "resolve_packages_internal S catalog requests RejectLegacy None = Inr (res, obligations)"
    using assms by (auto simp: resolve_packages_def result_simps)
  then obtain st index selected reqs where
    st: "\<forall>rq \<in> set requests. requested S st rq"
      "rs_include_prerelease st = (\<exists>rq \<in> set requests. rq_include_prerelease rq)"
    and index: "index_catalog S catalog = Inr index"
    and sound: "sound_extension S index \<lparr>opt_include_prerelease = rs_include_prerelease st,
        opt_unity_version = rs_unity_version st, opt_legacy_handling = RejectLegacy, opt_project = None\<rparr>
      (rs_requirements st) [] selected reqs"
    and packages: "packages res = map (\<lambda>c. \<lparr>rp_package_id = pc_package_id c, rp_version = pc_version c,
        rp_source = pc_source c, rp_direct = (pc_package_id c \<in> set (map rq_package_id requests))\<rparr>)
      (chosen_candidates selected)"
    by (rule internal_Inr)
  let ?incl = "includes_prerelease requests"
  have incl: "rs_include_prerelease st = ?incl"
    using st(2) by (simp add: includes_prerelease_def)
  have ok: "bt_ok selected"
    using sound by (simp add: sound_extension_def)
  have only: "\<exists>c. choice = CatalogChoice c" if "bt_get selected pid = Some choice" for pid choice
    using catalog_only [OF sound _ that] by simp
  have pid: "pc_package_id c = pid" if "bt_get selected pid = Some (CatalogChoice c)" for pid c
    using selection_origin [OF sound that] choice_from_catalog [OF index] by blast
  have package: "\<exists>p \<in> set (packages res). rp_package_id p = pid \<and> rp_version p = pc_version c \<and>
      rp_source p = pc_source c \<and> (rp_direct p \<longleftrightarrow> pid \<in> set (map rq_package_id requests))"
    if "bt_get selected pid = Some (CatalogChoice c)" for pid c
  proof -
    have "c \<in> set (chosen_candidates selected)"
      using that chosen_candidates_set [OF ok] by blast
    then show ?thesis
      using pid [OF that] by (auto simp: packages)
  qed
  have met: "provided S (packages res) ?incl q r" if "met_by_selection S ?incl selected q r" for q r
    using that only package unfolding met_by_selection_def provided_def by fastforce
  have "sorted_wrt (<) (map rp_package_id (packages res))"
    using chosen_candidates_sorted [OF ok] pid ok by (simp add: packages comp_def bt_in_set_iff)
  moreover have "well_chosen S catalog requests RejectLegacy (provided S (packages res) ?incl) p"
    if "p \<in> set (packages res)" for p
  proof -
    obtain c where c: "c \<in> set (chosen_candidates selected)" and p: "p = \<lparr>rp_package_id = pc_package_id c,
        rp_version = pc_version c, rp_source = pc_source c,
        rp_direct = (pc_package_id c \<in> set (map rq_package_id requests))\<rparr>"
      using \<open>p \<in> set (packages res)\<close> by (auto simp: packages)
    have "well_chosen S catalog requests RejectLegacy (met_by_selection S ?incl selected) p"
      using chosen_well_chosen [OF index sound _ c] st(1) incl by (auto simp: p requested_def)
    then show ?thesis
      using met unfolding well_chosen_def by blast
  qed
  moreover have "request_served S (packages res) ?incl rq" if rq: "rq \<in> set requests" for rq
  proof -
    obtain r c where "range_parse S (rq_range rq) = Inr r"
      and get: "bt_get selected (rq_package_id rq) = Some (CatalogChoice c)"
      and "range_matches S r (pc_version c) ?incl"
      "\<forall>sel. rq_source rq = Some sel \<longrightarrow> matches_selector (pc_source c) sel"
      using request_met [OF bspec [OF st(1) rq] sound] only incl by fastforce
    then show ?thesis
      using package [OF get] rq unfolding request_served_def by fastforce
  qed
  ultimately show ?thesis by blast
qed

text \<open>A small catalog: \<open>a\<close> in two versions that need \<open>b\<close>, of which the older version satisfies them.\<close>

definition demo_source :: package_source where
  "demo_source = \<lparr>authority = RepositoryAuthority None ''r'' 1 1 ''u'' None False,
     source_identity = ''s'', manifest_fingerprint = [], archive_sha256 = None\<rparr>"

definition demo_candidate :: "string \<Rightarrow> version \<Rightarrow> (string \<times> string) list \<Rightarrow> package_candidate" where
  "demo_candidate pid v deps =
     \<lparr>pc_package_id = pid, pc_version = v, pc_yanked = False, pc_unity_minimum = None,
      pc_legacy_metadata_present = False,
      pc_dependencies = map (\<lambda>(d, r). \<lparr>dep_package_id = d, dep_range = r\<rparr>) deps,
      pc_source = demo_source\<rparr>"

definition demo_catalog :: "package_candidate list" where
  "demo_catalog =
     [demo_candidate ''a'' (version_new 1 0 0) [(''b'', ''^1.0.0'')],
      demo_candidate ''a'' (version_new 2 0 0) [(''b'', ''>=3'')],
      demo_candidate ''b'' (version_new 1 0 0) [], demo_candidate ''b'' (version_new 1 2 0) []]"

definition demo_request :: "string \<Rightarrow> string \<Rightarrow> resolve_request" where
  "demo_request pid r =
     \<lparr>rq_package_id = pid, rq_range = r, rq_source = None, rq_include_prerelease = False,
      rq_unity_version = None\<rparr>"

lemma demo_resolves:
  "\<exists>res. resolve_packages demo_semver demo_catalog [demo_request ''a'' ''>=1.0.0''] = Inr res \<and>
    map rp_version (packages res) = [version_new 1 0 0, version_new 1 2 0]"
proof -
  have "case resolve_packages demo_semver demo_catalog [demo_request ''a'' ''>=1.0.0''] of
      Inl e \<Rightarrow> False
    | Inr res \<Rightarrow> map rp_version (packages res) = [version_new 1 0 0, version_new 1 2 0]"
    by code_simp
  then show ?thesis
    by (auto split: sum.splits)
qed

theorem resolve_packages_sound_witness:
  "\<exists>res. resolve_packages demo_semver demo_catalog [demo_request ''a'' ''>=1.0.0''] = Inr res \<and>
    map rp_version (packages res) = [version_new 1 0 0, version_new 1 2 0] \<and>
    request_served demo_semver (packages res) False (demo_request ''a'' ''>=1.0.0'')"
proof -
  obtain res where
    res: "resolve_packages demo_semver demo_catalog [demo_request ''a'' ''>=1.0.0''] = Inr res"
      "map rp_version (packages res) = [version_new 1 0 0, version_new 1 2 0]"
    using demo_resolves by auto
  then show ?thesis
    using resolve_packages_sound [OF res(1)] by (simp add: includes_prerelease_def demo_request_def)
qed

text \<open>
  C30: The error for a package without a usable candidate names the true obstacle.  A yanked error
  means that some listed candidate is yanked and would be usable if it were not, and if it had no
  minimum Unity version; a Unity error means that some listed candidate would be usable without its
  minimum Unity version; a missing dependency means the catalog does not know the package at all; a conflict means that no
  listed candidate is in all ranges and from the chosen source.
\<close>

theorem no_candidate_explained:
  assumes "\<And>c. choice_available index opts pid (CatalogChoice c) \<Longrightarrow>
    \<not> candidate_satisfies S c reqs incl unity"
  shows "case classify_no_candidates S index pid reqs incl unity of
      VersionYanked p \<Rightarrow> p = pid \<and> (\<exists>c. choice_available index opts pid (CatalogChoice c) \<and> pc_yanked c \<and>
        candidate_satisfies S (c\<lparr>pc_yanked := False, pc_unity_minimum := None\<rparr>) reqs incl unity)
    | UnityIncompatible p \<Rightarrow> p = pid \<and> (\<exists>c. choice_available index opts pid (CatalogChoice c) \<and>
        \<not> meets_minimum unity (pc_unity_minimum c) \<and>
        candidate_satisfies S (c\<lparr>pc_unity_minimum := None\<rparr>) reqs incl unity)
    | DependencyMissing p \<Rightarrow> p = pid \<and> bt_get index pid = None \<and> (\<exists>r \<in> set reqs. \<not> req_direct r)
    | DependencyConflict p \<Rightarrow> p = pid \<and> bt_get index pid \<noteq> None \<and>
        (\<forall>c. choice_available index opts pid (CatalogChoice c) \<longrightarrow>
          \<not> candidate_satisfies S (c\<lparr>pc_yanked := False, pc_unity_minimum := None\<rparr>) reqs incl unity)
    | PackageNotFound p \<Rightarrow> p = pid \<and> (\<forall>r \<in> set reqs. req_direct r) \<and>
        (\<forall>c. choice_available index opts pid (CatalogChoice c) \<longrightarrow>
          \<not> candidate_satisfies S (c\<lparr>pc_yanked := False, pc_unity_minimum := None\<rparr>) reqs incl unity)
    | _ \<Rightarrow> False"
proof (cases "bt_get index pid")
  case None
  then show ?thesis
    by (auto simp: classify_no_candidates_def list_ex_iff)
next
  case (Some cs)
  define P where "P c \<longleftrightarrow> list_all (\<lambda>r.
      (case req_source r of None \<Rightarrow> True | Some sel \<Rightarrow> matches_selector (pc_source c) sel) \<and>
      range_matches S (req_range r) (pc_version c) incl) reqs" for c :: package_candidate
  have sat: "candidate_satisfies S c reqs incl unity \<longleftrightarrow>
      \<not> pc_yanked c \<and> meets_minimum unity (pc_unity_minimum c) \<and> P c" for c
    by (simp add: candidate_satisfies_def P_def)
  have upd: "P (c\<lparr>pc_yanked := b\<rparr>) = P c" "P (c\<lparr>pc_unity_minimum := m\<rparr>) = P c" for c b m
    by (simp_all add: P_def cong: option.case_cong)
  have none: "c \<in> set cs \<Longrightarrow> P c \<Longrightarrow> pc_yanked c \<or> \<not> meets_minimum unity (pc_unity_minimum c)" for c
    using assms [of c] Some sat by auto
  have "classify_no_candidates S index pid reqs incl unity =
      (if \<exists>c \<in> set cs. P c \<and> pc_yanked c then VersionYanked pid
       else if \<exists>c \<in> set cs. P c \<and> \<not> meets_minimum unity (pc_unity_minimum c) then UnityIncompatible pid
       else if length reqs > 1 \<or> (\<exists>r \<in> set reqs. \<not> req_direct r) then DependencyConflict pid
       else PackageNotFound pid)"
    by (auto simp: classify_no_candidates_def Some P_def list_ex_iff)
  then show ?thesis
    using none by (auto simp: Some sat upd meets_minimum_def)
qed

theorem no_candidate_explained_witness:
  "case classify_no_candidates demo_semver [(''b'', [demo_candidate ''b'' (version_new 1 0 0) []])] ''b''
      [dependency_requirement ''a'' (VpmRange [])] False None of
    DependencyConflict p \<Rightarrow> p = ''b'' | _ \<Rightarrow> False"
proof -
  let ?index = "[(''b'', [demo_candidate ''b'' (version_new 1 0 0) []])] :: catalog_index"
  let ?reqs = "[dependency_requirement ''a'' (VpmRange [])]"
  have unsat: "\<not> candidate_satisfies demo_semver c ?reqs False None" for c
    by (simp add: candidate_satisfies_def dependency_requirement_def range_matches_def)
  have "classify_no_candidates demo_semver ?index ''b'' ?reqs False None = DependencyConflict ''b''"
    by (simp add: classify_no_candidates_def dependency_requirement_def range_matches_def)
  then show ?thesis
    using no_candidate_explained [of ?index _ "''b''", OF unsat] by simp
qed

end
