(* ===== verification/ProjectChange.thy ===== *)
theory ProjectChange
  imports ResolverSound
begin

text \<open>
  \<open>resolve_project_change\<close> of \<open>crates/alcomd-vpm/src/resolver.rs\<close>: resolving a change of a project
  that has locked packages, some of which are to be left alone.
\<close>

section \<open>What the preservation check establishes\<close>

definition accepts :: "semver_ops \<Rightarrow> bool \<Rightarrow> locked_package \<Rightarrow> string \<Rightarrow> version \<Rightarrow> bool" where
  "accepts S include_prerelease l pid v \<longleftrightarrow>
     (\<forall>d \<in> set (locked_dependencies l). dep_package_id d = pid \<longrightarrow>
        (\<exists>r. range_parse S (dep_range d) = Inr r \<and>
           range_matches S r v (include_prerelease \<or> v_pre (locked_version l) \<noteq> [])))"

lemma validate_dependent_Inr_iff:
  "validate_dependent S incl selected pid v (dep, l) = Inr () \<longleftrightarrow>
    (\<exists>choice. bt_get selected dep = Some choice \<and> selection_version choice \<noteq> locked_version l) \<or>
    accepts S incl l pid v"
  by (auto simp: validate_dependent_def accepts_def dependencies_on_def result_simps
      parse_dependency_range_def split: option.splits if_splits)

lemma validate_choice_Inr_iff:
  "validate_choice S rules incl selected (pid, choice) = Inr () \<longleftrightarrow>
    (\<exists>old. bt_get (rules_locked rules) pid = Some old \<and> locked_version old = selection_version choice) \<or>
    ((pid \<in> set (rules_explicit rules) \<or>
       (\<forall>r. bt_get (rules_direct rules) pid = Some r \<longrightarrow>
          range_matches S r (selection_version choice) incl)) \<and>
     (\<forall>entry \<in> set (rules_locked rules).
        validate_dependent S incl selected pid (selection_version choice) entry = Inr ()))"
  by (auto simp: validate_choice_def Let_def result_simps split: option.splits if_splits)

lemma validate_preserved_choice:
  assumes "validate_preserved S rules selected incl = Inr ()" and "preserve_unselected rules"
    and "bt_ok selected" and "bt_get selected pid = Some choice"
  shows "validate_choice S rules incl selected (pid, choice) = Inr ()"
  using assms by (auto simp: validate_preserved_def result_simps bt_in_set_iff)

section \<open>Results\<close>

text \<open>
  A project change leaves some locked packages installed as they are: they are not asked for, they are
  installed in the locked version, and the result has no package of that name.
\<close>

type_synonym kept_packages = "string \<Rightarrow> locked_package option"

definition stays_installed :: "project_rules \<Rightarrow> resolved_package list \<Rightarrow> kept_packages \<Rightarrow> bool" where
  "stays_installed rules ps kept \<longleftrightarrow>
     (\<forall>pid l. kept pid = Some l \<longrightarrow>
        preserve_unselected rules \<and> pid \<notin> set (rules_explicit rules) \<and>
        bt_get (rules_locked rules) pid = Some l \<and> locked_installed l \<and>
        pid \<notin> rp_package_id ` set ps)"

definition kept_in_range :: "semver_ops \<Rightarrow> kept_packages \<Rightarrow> bool \<Rightarrow> string \<Rightarrow> vpm_range \<Rightarrow> bool" where
  "kept_in_range S kept incl pid r \<longleftrightarrow>
     (\<exists>l. kept pid = Some l \<and> range_matches S r (locked_version l) (incl \<or> v_pre (locked_version l) \<noteq> []))"

definition provided_or_kept ::
  "semver_ops \<Rightarrow> kept_packages \<Rightarrow> resolved_package list \<Rightarrow> bool \<Rightarrow> string \<Rightarrow> vpm_range \<Rightarrow> bool" where
  "provided_or_kept S kept ps incl pid r \<longleftrightarrow> provided S ps incl pid r \<or> kept_in_range S kept incl pid r"

text \<open>Only a request that names no source can be served by a package that stays.\<close>

definition served_or_kept ::
  "semver_ops \<Rightarrow> kept_packages \<Rightarrow> resolved_package list \<Rightarrow> bool \<Rightarrow> resolve_request \<Rightarrow> bool" where
  "served_or_kept S kept ps incl rq \<longleftrightarrow>
     request_served S ps incl rq \<or>
     (rq_source rq = None \<and>
      (\<exists>r. range_parse S (rq_range rq) = Inr r \<and> kept_in_range S kept incl (rq_package_id rq) r))"

text \<open>The kept packages' own dependencies are provided as well.\<close>

definition kept_provided ::
  "semver_ops \<Rightarrow> kept_packages \<Rightarrow> resolved_package list \<Rightarrow> bool \<Rightarrow> bool" where
  "kept_provided S kept ps incl \<longleftrightarrow>
     (\<forall>pid l. kept pid = Some l \<longrightarrow> (\<forall>d \<in> set (locked_dependencies l).
        \<exists>r. range_parse S (dep_range d) = Inr r \<and> provided_or_kept S kept ps incl (dep_package_id d) r))"

text \<open>The obligations name exactly the chosen candidates with legacy metadata.\<close>

definition cleanup_of :: "resolved_package \<Rightarrow> cleanup_obligation" where
  "cleanup_of p = \<lparr>ob_package_id = rp_package_id p, ob_version = rp_version p, ob_source = rp_source p\<rparr>"

definition cleans_up ::
  "package_candidate list \<Rightarrow> resolved_package list \<Rightarrow> cleanup_obligation list \<Rightarrow> bool" where
  "cleans_up catalog ps obligations \<longleftrightarrow>
     set obligations \<subseteq> cleanup_of ` set ps \<and>
     (\<forall>p \<in> set ps. \<exists>c \<in> set catalog. rp_package_id p = pc_package_id c \<and> rp_version p = pc_version c \<and>
        rp_source p = pc_source c \<and> (pc_legacy_metadata_present c \<longleftrightarrow> cleanup_of p \<in> set obligations))"

text \<open>
  A locked package changes only to a version that a rule asked for or that everything left alone
  accepts: the project's own direct range and the ranges of the locked packages that stay.
\<close>

definition preserves ::
  "semver_ops \<Rightarrow> project_rules \<Rightarrow> resolved_package list \<Rightarrow> bool \<Rightarrow> resolved_package \<Rightarrow> bool" where
  "preserves S rules ps incl p \<longleftrightarrow>
     (\<exists>old. bt_get (rules_locked rules) (rp_package_id p) = Some old \<and> locked_version old = rp_version p) \<or>
     ((rp_package_id p \<in> set (rules_explicit rules) \<or>
       (\<forall>r. bt_get (rules_direct rules) (rp_package_id p) = Some r \<longrightarrow>
          range_matches S r (rp_version p) incl)) \<and>
      (\<forall>(dep, l) \<in> set (rules_locked rules).
         (\<forall>q \<in> set ps. rp_package_id q = dep \<longrightarrow> rp_version q = locked_version l) \<longrightarrow>
         accepts S incl l (rp_package_id p) (rp_version p)))"

lemma project_change_result:
  assumes "resolve_project_change S catalog requests rules = Inr (res, obligations)"
  obtains st index selected reqs where
    "\<forall>rq \<in> set requests. requested S st rq"
    "index_catalog S catalog = Inr index"
    "sound_extension S index \<lparr>opt_include_prerelease = includes_prerelease requests,
        opt_unity_version = rs_unity_version st, opt_legacy_handling = CollectCleanupObligations,
        opt_project = Some rules\<rparr> (rs_requirements st) [] selected reqs"
    "packages res = map (\<lambda>c. \<lparr>rp_package_id = pc_package_id c, rp_version = pc_version c,
        rp_source = pc_source c, rp_direct = (pc_package_id c \<in> set (map rq_package_id requests))\<rparr>)
      (chosen_candidates selected)"
    "\<forall>pid c. bt_get selected pid = Some (CatalogChoice c) \<longrightarrow> pc_package_id c = pid"
    "bt_ok selected"
    "obligations = map (\<lambda>c. \<lparr>ob_package_id = pc_package_id c, ob_version = pc_version c,
        ob_source = pc_source c\<rparr>) (filter pc_legacy_metadata_present (chosen_candidates selected))"
proof -
  obtain st index selected reqs where
    st: "\<forall>rq \<in> set requests. requested S st rq"
      "rs_include_prerelease st = (\<exists>rq \<in> set requests. rq_include_prerelease rq)"
    and index: "index_catalog S catalog = Inr index"
    and sound: "sound_extension S index \<lparr>opt_include_prerelease = rs_include_prerelease st,
        opt_unity_version = rs_unity_version st, opt_legacy_handling = CollectCleanupObligations,
        opt_project = Some rules\<rparr> (rs_requirements st) [] selected reqs"
    and packages: "packages res = map (\<lambda>c. \<lparr>rp_package_id = pc_package_id c, rp_version = pc_version c,
        rp_source = pc_source c, rp_direct = (pc_package_id c \<in> set (map rq_package_id requests))\<rparr>)
      (chosen_candidates selected)"
    and obligations: "obligations = map (\<lambda>c. \<lparr>ob_package_id = pc_package_id c, ob_version = pc_version c,
        ob_source = pc_source c\<rparr>) (filter pc_legacy_metadata_present (chosen_candidates selected))"
    using assms unfolding resolve_project_change_def by (rule internal_Inr)
  have "pc_package_id c = pid" if "bt_get selected pid = Some (CatalogChoice c)" for pid c
    using selection_origin [OF sound that] choice_from_catalog [OF index] by blast
  moreover have "bt_ok selected"
    using sound by (simp add: sound_extension_def)
  ultimately show ?thesis
    using that [OF st(1) index _ packages _ _ obligations] sound st(2) by (simp add: includes_prerelease_def)
qed

lemma selected_package:
  assumes "packages res = map (\<lambda>c. \<lparr>rp_package_id = pc_package_id c, rp_version = pc_version c,
        rp_source = pc_source c, rp_direct = (pc_package_id c \<in> set (map rq_package_id requests))\<rparr>)
      (chosen_candidates selected)"
    and "\<And>pid c. bt_get selected pid = Some (CatalogChoice c) \<Longrightarrow> pc_package_id c = pid"
    and "bt_ok selected"
  shows "p \<in> set (packages res) \<longleftrightarrow>
    (\<exists>c. bt_get selected (rp_package_id p) = Some (CatalogChoice c) \<and>
      p = \<lparr>rp_package_id = pc_package_id c, rp_version = pc_version c, rp_source = pc_source c,
        rp_direct = (pc_package_id c \<in> set (map rq_package_id requests))\<rparr>)"
proof
  assume "p \<in> set (packages res)"
  then obtain c where c: "c \<in> set (chosen_candidates selected)"
    and p: "p = \<lparr>rp_package_id = pc_package_id c, rp_version = pc_version c, rp_source = pc_source c,
        rp_direct = (pc_package_id c \<in> set (map rq_package_id requests))\<rparr>"
    unfolding assms(1) by auto
  then obtain pid where "bt_get selected pid = Some (CatalogChoice c)"
    using chosen_candidates_set [OF assms(3)] by blast
  with assms(2) [OF this] p show "\<exists>c. bt_get selected (rp_package_id p) = Some (CatalogChoice c) \<and>
      p = \<lparr>rp_package_id = pc_package_id c, rp_version = pc_version c, rp_source = pc_source c,
        rp_direct = (pc_package_id c \<in> set (map rq_package_id requests))\<rparr>"
    by (intro exI [of _ c]) simp
next
  assume "\<exists>c. bt_get selected (rp_package_id p) = Some (CatalogChoice c) \<and>
      p = \<lparr>rp_package_id = pc_package_id c, rp_version = pc_version c, rp_source = pc_source c,
        rp_direct = (pc_package_id c \<in> set (map rq_package_id requests))\<rparr>"
  then obtain c where "bt_get selected (rp_package_id p) = Some (CatalogChoice c)"
    and p: "p = \<lparr>rp_package_id = pc_package_id c, rp_version = pc_version c, rp_source = pc_source c,
        rp_direct = (pc_package_id c \<in> set (map rq_package_id requests))\<rparr>" by blast
  then have "c \<in> set (chosen_candidates selected)"
    using chosen_candidates_set [OF assms(3)] by blast
  then show "p \<in> set (packages res)"
    unfolding assms(1) p set_map by (rule imageI)
qed

text \<open>What was selected from the installed packages.\<close>

definition kept_of :: "selected_map \<Rightarrow> kept_packages" where
  "kept_of selected pid = (case bt_get selected pid of Some (InstalledChoice l) \<Rightarrow> Some l | _ \<Rightarrow> None)"

lemma kept_of_iff: "kept_of selected pid = Some l \<longleftrightarrow> bt_get selected pid = Some (InstalledChoice l)"
  by (simp add: kept_of_def split: option.splits selection.splits)

text \<open>The result and the kept packages together are the selection.\<close>

lemma selection_provided:
  assumes package: "\<And>p. p \<in> set ps \<longleftrightarrow> (\<exists>c. bt_get selected (rp_package_id p) = Some (CatalogChoice c) \<and>
      p = \<lparr>rp_package_id = pc_package_id c, rp_version = pc_version c, rp_source = pc_source c,
        rp_direct = (pc_package_id c \<in> set ids)\<rparr>)"
    and pid: "\<And>pid c. bt_get selected pid = Some (CatalogChoice c) \<Longrightarrow> pc_package_id c = pid"
    and met: "met_by_selection S incl selected q r"
  shows "provided_or_kept S (kept_of selected) ps incl q r"
proof -
  obtain choice where ch: "bt_get selected q = Some choice"
    and r: "range_matches S r (selection_version choice)
      (incl \<or> (\<exists>l. choice = InstalledChoice l \<and> v_pre (locked_version l) \<noteq> []))"
    using met by (auto simp: met_by_selection_def)
  show ?thesis
  proof (cases choice)
    case (CatalogChoice c)
    let ?p = "\<lparr>rp_package_id = pc_package_id c, rp_version = pc_version c, rp_source = pc_source c,
      rp_direct = (pc_package_id c \<in> set ids)\<rparr>"
    have "?p \<in> set ps"
      using package [of ?p] ch pid CatalogChoice by simp
    then have "provided S ps incl q r"
      unfolding provided_def using r ch pid CatalogChoice by (intro bexI [of _ ?p]) simp_all
    then show ?thesis by (simp add: provided_or_kept_def)
  next
    case (InstalledChoice l)
    then show ?thesis
      using ch r by (auto simp: provided_or_kept_def kept_in_range_def kept_of_iff)
  qed
qed

lemma request_provided:
  assumes package: "\<And>p. p \<in> set ps \<longleftrightarrow> (\<exists>c. bt_get selected (rp_package_id p) = Some (CatalogChoice c) \<and>
      p = \<lparr>rp_package_id = pc_package_id c, rp_version = pc_version c, rp_source = pc_source c,
        rp_direct = (pc_package_id c \<in> set ids)\<rparr>)"
    and pid: "\<And>pid c. bt_get selected pid = Some (CatalogChoice c) \<Longrightarrow> pc_package_id c = pid"
    and rq: "requested S st rq" "rq_package_id rq \<in> set ids"
    and sound: "sound_extension S index opts (rs_requirements st) [] selected reqs"
  shows "served_or_kept S (kept_of selected) ps (opt_include_prerelease opts) rq"
proof -
  obtain r choice where r: "range_parse S (rq_range rq) = Inr r"
    and ch: "bt_get selected (rq_package_id rq) = Some choice"
    and m: "range_matches S r (selection_version choice)
      (opt_include_prerelease opts \<or> (\<exists>l. choice = InstalledChoice l \<and> v_pre (locked_version l) \<noteq> []))"
    and src: "\<forall>sel. rq_source rq = Some sel \<longrightarrow>
      (\<exists>c. choice = CatalogChoice c \<and> matches_selector (pc_source c) sel)"
    using request_met [OF rq(1) sound] by (elim exE conjE) (rule that)
  show ?thesis
  proof (cases choice)
    case (CatalogChoice c)
    let ?p = "\<lparr>rp_package_id = pc_package_id c, rp_version = pc_version c, rp_source = pc_source c,
      rp_direct = (pc_package_id c \<in> set ids)\<rparr>"
    have "?p \<in> set ps"
      using package [of ?p] ch pid CatalogChoice by simp
    moreover have "pc_package_id c = rq_package_id rq"
      using ch pid CatalogChoice by blast
    ultimately have "request_served S ps (opt_include_prerelease opts) rq"
      unfolding request_served_def using r m src rq(2) CatalogChoice
      by (intro exI [of _ r] conjI bexI [of _ ?p]) simp_all
    then show ?thesis by (simp add: served_or_kept_def)
  next
    case (InstalledChoice l)
    then have "rq_source rq = None"
      using src by (cases "rq_source rq") auto
    with r m ch InstalledChoice show ?thesis
      by (auto simp: served_or_kept_def kept_in_range_def kept_of_iff)
  qed
qed

lemma chosen_inject:
  assumes "bt_ok selected" and "\<And>pid c. bt_get selected pid = Some (CatalogChoice c) \<Longrightarrow> pc_package_id c = pid"
    and "c \<in> set (chosen_candidates selected)" and "d \<in> set (chosen_candidates selected)"
    and "pc_package_id c = pc_package_id d"
  shows "c = d"
proof -
  obtain p q where "bt_get selected p = Some (CatalogChoice c)" "bt_get selected q = Some (CatalogChoice d)"
    using assms(3,4) chosen_candidates_set [OF assms(1)] by blast
  moreover from this have "p = q"
    using assms(2,5) by metis
  ultimately show ?thesis by simp
qed

lemma selection_cleans_up:
  assumes ps: "ps = map (\<lambda>c. \<lparr>rp_package_id = pc_package_id c, rp_version = pc_version c,
        rp_source = pc_source c, rp_direct = (pc_package_id c \<in> set ids)\<rparr>) cs"
    and obligations: "obligations = map (\<lambda>c. \<lparr>ob_package_id = pc_package_id c, ob_version = pc_version c,
        ob_source = pc_source c\<rparr>) (filter pc_legacy_metadata_present cs)"
    and catalog: "\<And>c. c \<in> set cs \<Longrightarrow> c \<in> set catalog"
    and inject: "\<And>c d. c \<in> set cs \<Longrightarrow> d \<in> set cs \<Longrightarrow> pc_package_id c = pc_package_id d \<Longrightarrow> c = d"
  shows "cleans_up catalog ps obligations"
proof -
  have legacy: "pc_legacy_metadata_present c \<longleftrightarrow> \<lparr>ob_package_id = pc_package_id c, ob_version = pc_version c,
      ob_source = pc_source c\<rparr> \<in> set obligations" if "c \<in> set cs" for c
    using that inject [OF that] by (auto simp: obligations)
  have "set obligations \<subseteq> cleanup_of ` set ps"
    by (auto simp: ps obligations cleanup_of_def image_iff)
  moreover have "\<exists>c \<in> set catalog. rp_package_id p = pc_package_id c \<and> rp_version p = pc_version c \<and>
      rp_source p = pc_source c \<and> (pc_legacy_metadata_present c \<longleftrightarrow> cleanup_of p \<in> set obligations)"
    if p: "p \<in> set ps" for p
  proof -
    obtain c where "c \<in> set cs" and "p = \<lparr>rp_package_id = pc_package_id c, rp_version = pc_version c,
        rp_source = pc_source c, rp_direct = (pc_package_id c \<in> set ids)\<rparr>"
      using p by (auto simp: ps)
    then show ?thesis
      using catalog legacy by (intro bexI [of _ c]) (simp_all add: cleanup_of_def)
  qed
  ultimately show ?thesis by (simp add: cleans_up_def)
qed

section \<open>Properties\<close>

text \<open>
  C28: A project change that succeeds is a solution together with the locked packages that it leaves
  installed.  Every package of the result is a valid catalog candidate; every request is served by a
  package of the result, in its range and from its source, or by a package that stays; every dependency
  of a package of the result or of one that stays is provided in its range by either; and the clean-up
  obligations are those of the chosen candidates with legacy metadata.
\<close>

theorem resolve_project_change_sound:
  assumes "resolve_project_change S catalog requests rules = Inr (res, obligations)"
  shows "sorted_wrt (<) (map rp_package_id (packages res)) \<and> cleans_up catalog (packages res) obligations \<and>
    (\<exists>kept. stays_installed rules (packages res) kept \<and>
      kept_provided S kept (packages res) (includes_prerelease requests) \<and>
      (\<forall>p \<in> set (packages res). well_chosen S catalog requests CollectCleanupObligations
        (provided_or_kept S kept (packages res) (includes_prerelease requests)) p) \<and>
      (\<forall>rq \<in> set requests. served_or_kept S kept (packages res) (includes_prerelease requests) rq))"
proof -
  let ?incl = "includes_prerelease requests" and ?ps = "packages res"
  obtain st index selected reqs where
    st: "\<forall>rq \<in> set requests. requested S st rq"
    and index: "index_catalog S catalog = Inr index"
    and sound: "sound_extension S index \<lparr>opt_include_prerelease = ?incl,
        opt_unity_version = rs_unity_version st, opt_legacy_handling = CollectCleanupObligations,
        opt_project = Some rules\<rparr> (rs_requirements st) [] selected reqs"
    and packages: "?ps = map (\<lambda>c. \<lparr>rp_package_id = pc_package_id c, rp_version = pc_version c,
        rp_source = pc_source c, rp_direct = (pc_package_id c \<in> set (map rq_package_id requests))\<rparr>)
      (chosen_candidates selected)"
    and pid_eq: "\<forall>pid c. bt_get selected pid = Some (CatalogChoice c) \<longrightarrow> pc_package_id c = pid"
    and ok: "bt_ok selected"
    and obligations: "obligations = map (\<lambda>c. \<lparr>ob_package_id = pc_package_id c, ob_version = pc_version c,
        ob_source = pc_source c\<rparr>) (filter pc_legacy_metadata_present (chosen_candidates selected))"
    by (rule project_change_result [OF assms])
  have pid: "\<And>pid c. bt_get selected pid = Some (CatalogChoice c) \<Longrightarrow> pc_package_id c = pid"
    using pid_eq by blast
  note package = selected_package [OF packages pid ok]
  note met = selection_provided [OF package pid]
  have chosen: "well_chosen S catalog requests CollectCleanupObligations (met_by_selection S ?incl selected)
      \<lparr>rp_package_id = pc_package_id c, rp_version = pc_version c, rp_source = pc_source c,
        rp_direct = (pc_package_id c \<in> set (map rq_package_id requests))\<rparr>"
    if "c \<in> set (chosen_candidates selected)" for c
    using chosen_well_chosen [OF index sound _ that] st by (auto simp: requested_def)
  have "sorted_wrt (<) (map rp_package_id ?ps)"
    using chosen_candidates_sorted [OF ok] pid ok by (simp add: packages comp_def bt_in_set_iff)
  moreover have "cleans_up catalog ?ps obligations"
  proof (rule selection_cleans_up [OF packages obligations])
    show "c \<in> set catalog" if "c \<in> set (chosen_candidates selected)" for c
      using that chosen_candidates_set [OF ok] selection_origin [OF sound] choice_from_catalog [OF index] by blast
  qed (rule chosen_inject [OF ok pid])
  moreover have "stays_installed rules ?ps (kept_of selected)"
    unfolding stays_installed_def kept_of_iff
  proof (intro allI impI)
    fix q l
    assume ch: "bt_get selected q = Some (InstalledChoice l)"
    then have "q \<notin> rp_package_id ` set ?ps"
      using package by (auto simp del: image_iff)
    with selection_origin [OF sound ch] show "preserve_unselected rules \<and> q \<notin> set (rules_explicit rules) \<and>
        bt_get (rules_locked rules) q = Some l \<and> locked_installed l \<and> q \<notin> rp_package_id ` set ?ps"
      by simp
  qed
  moreover have "kept_provided S (kept_of selected) ?ps ?incl"
    unfolding kept_provided_def kept_of_iff
  proof (intro allI impI ballI)
    fix q l d
    assume "bt_get selected q = Some (InstalledChoice l)" and d: "d \<in> set (locked_dependencies l)"
    from selection_origin [OF sound this(1)] d have "raised S reqs q d"
      by simp
    from raised_met [OF sound this] met show "\<exists>r. range_parse S (dep_range d) = Inr r \<and>
        provided_or_kept S (kept_of selected) ?ps ?incl (dep_package_id d) r"
      by auto
  qed
  moreover have "well_chosen S catalog requests CollectCleanupObligations
      (provided_or_kept S (kept_of selected) ?ps ?incl) p" if "p \<in> set ?ps" for p
  proof -
    have "well_chosen S catalog requests CollectCleanupObligations (met_by_selection S ?incl selected) p"
      using that chosen by (auto simp: packages)
    then show ?thesis
      using met unfolding well_chosen_def by blast
  qed
  moreover have "served_or_kept S (kept_of selected) ?ps ?incl rq" if "rq \<in> set requests" for rq
    using request_provided [OF package pid bspec [OF st that] _ sound] that by simp
  ultimately show ?thesis by blast
qed

definition demo_rules :: project_rules where
  "demo_rules =
     \<lparr>rules_locked = [(''b'', \<lparr>locked_version = version_new 1 0 0, locked_dependencies = [],
        locked_installed = True\<rparr>)],
      rules_direct = [], rules_explicit = [''a''], preserve_unselected = True\<rparr>"

text \<open>The installed \<open>b\<close> is kept although the catalog has a newer one.\<close>

lemma demo_change:
  "\<exists>res obligations. resolve_project_change demo_semver demo_catalog [demo_request ''a'' ''1.x'']
      demo_rules = Inr (res, obligations) \<and> map rp_package_id (packages res) = [''a'']"
proof -
  have "case resolve_project_change demo_semver demo_catalog [demo_request ''a'' ''1.x''] demo_rules of
      Inl e \<Rightarrow> False
    | Inr r \<Rightarrow> map rp_package_id (packages (fst r)) = [''a'']"
    by code_simp
  then show ?thesis
    by (cases "resolve_project_change demo_semver demo_catalog [demo_request ''a'' ''1.x''] demo_rules") auto
qed

theorem resolve_project_change_sound_witness:
  "\<exists>res obligations kept. resolve_project_change demo_semver demo_catalog [demo_request ''a'' ''1.x'']
      demo_rules = Inr (res, obligations) \<and> map rp_package_id (packages res) = [''a''] \<and>
    stays_installed demo_rules (packages res) kept \<and>
    served_or_kept demo_semver kept (packages res) (includes_prerelease [demo_request ''a'' ''1.x''])
      (demo_request ''a'' ''1.x'')"
proof -
  obtain res obligations where
    run: "resolve_project_change demo_semver demo_catalog [demo_request ''a'' ''1.x''] demo_rules =
      Inr (res, obligations)"
    and ids: "map rp_package_id (packages res) = [''a'']"
    using demo_change by auto
  from resolve_project_change_sound [OF run] obtain kept where "stays_installed demo_rules (packages res) kept"
    "\<forall>rq \<in> set [demo_request ''a'' ''1.x'']. served_or_kept demo_semver kept (packages res)
      (includes_prerelease [demo_request ''a'' ''1.x'']) rq"
    by (elim conjE exE) (rule that)
  with run ids show ?thesis by (intro exI [of _ res] exI [of _ obligations] exI [of _ kept]) simp
qed

text \<open>
  C11: With the preservation rule every package of the result either keeps its locked version or is
  acceptable to all that is left alone: the project's direct requirement, unless the package was
  asked for explicitly, and every locked package whose own version does not change.
\<close>

theorem project_change_preserves:
  assumes "resolve_project_change S catalog requests rules = Inr (res, obligations)"
    and "preserve_unselected rules" and "bt_ok (rules_locked rules)" and "p \<in> set (packages res)"
  shows "preserves S rules (packages res) (includes_prerelease requests) p"
proof -
  let ?incl = "includes_prerelease requests"
  obtain st index selected reqs where
    "\<forall>rq \<in> set requests. requested S st rq" and "index_catalog S catalog = Inr index"
    and sound: "sound_extension S index \<lparr>opt_include_prerelease = ?incl,
        opt_unity_version = rs_unity_version st, opt_legacy_handling = CollectCleanupObligations,
        opt_project = Some rules\<rparr> (rs_requirements st) [] selected reqs"
    and packages: "packages res = map (\<lambda>c. \<lparr>rp_package_id = pc_package_id c, rp_version = pc_version c,
        rp_source = pc_source c, rp_direct = (pc_package_id c \<in> set (map rq_package_id requests))\<rparr>)
      (chosen_candidates selected)"
    and pid_eq: "\<forall>pid c. bt_get selected pid = Some (CatalogChoice c) \<longrightarrow> pc_package_id c = pid"
    and ok: "bt_ok selected"
    by (rule project_change_result [OF assms(1)]) (rule that; assumption)
  have pid: "\<And>pid c. bt_get selected pid = Some (CatalogChoice c) \<Longrightarrow> pc_package_id c = pid"
    using pid_eq by blast
  note package = selected_package [OF packages pid ok]
  obtain c where get: "bt_get selected (rp_package_id p) = Some (CatalogChoice c)"
    and v: "rp_version p = pc_version c"
    using package [of p] assms(4) by auto
  have "validate_preserved S rules selected ?incl = Inr ()"
    using sound by (auto simp: sound_extension_def)
  then have valid: "validate_choice S rules ?incl selected (rp_package_id p, CatalogChoice c) = Inr ()"
    using assms(2) ok get by (rule validate_preserved_choice)
  have "accepts S ?incl l (rp_package_id p) (rp_version p)"
    if dep: "(dep, l) \<in> set (rules_locked rules)"
      and stays: "\<forall>q \<in> set (packages res). rp_package_id q = dep \<longrightarrow> rp_version q = locked_version l"
      and check: "validate_dependent S ?incl selected (rp_package_id p) (pc_version c) (dep, l) = Inr ()"
    for dep l
  proof -
    have "selection_version choice = locked_version l" if ch: "bt_get selected dep = Some choice" for choice
    proof (cases choice)
      case (CatalogChoice d)
      let ?q = "\<lparr>rp_package_id = pc_package_id d, rp_version = pc_version d, rp_source = pc_source d,
        rp_direct = (pc_package_id d \<in> set (map rq_package_id requests))\<rparr>"
      have "?q \<in> set (packages res)"
        using package [of ?q] ch pid CatalogChoice by simp
      then show ?thesis
        using stays ch pid CatalogChoice by fastforce
    next
      case (InstalledChoice m)
      then have "bt_get (rules_locked rules) dep = Some m"
        using selection_origin [OF sound ch] by auto
      moreover have "bt_get (rules_locked rules) dep = Some l"
        using dep assms(3) by (simp add: bt_in_set_iff)
      ultimately show ?thesis
        using InstalledChoice by simp
    qed
    then show ?thesis
      using check v by (auto simp: validate_dependent_Inr_iff)
  qed
  then show ?thesis
    using valid unfolding validate_choice_Inr_iff preserves_def by (auto simp: v)
qed

theorem project_change_preserves_witness:
  "\<exists>res obligations. resolve_project_change demo_semver demo_catalog [demo_request ''a'' ''1.x'']
      demo_rules = Inr (res, obligations) \<and>
    preserves demo_semver demo_rules (packages res) (includes_prerelease [demo_request ''a'' ''1.x''])
      (hd (packages res))"
proof -
  obtain res obligations where
    run: "resolve_project_change demo_semver demo_catalog [demo_request ''a'' ''1.x''] demo_rules =
      Inr (res, obligations)"
    and "map rp_package_id (packages res) = [''a'']"
    using demo_change by auto
  then have "hd (packages res) \<in> set (packages res)"
    by (cases "packages res") auto
  moreover have "preserve_unselected demo_rules" "bt_ok (rules_locked demo_rules)"
    by (simp_all add: demo_rules_def bt_ok_def)
  ultimately show ?thesis
    using run project_change_preserves [OF run] by blast
qed

end
