(* ===== verification/ResolverOrder.thy ===== *)
theory ResolverOrder
  imports ResolverSound
begin

text \<open>
  The resolver's answer does not depend on the order in which the catalog lists its candidates.  Two
  runs on permuted catalogs are compared step by step: their candidate groups are permutations of
  each other, the group representatives are the same because an ambiguous group is refused, and the
  search continues or stops alike because errors agree on being final.
\<close>

section \<open>Agreement of results\<close>

definition agree :: "resolve_error + 'r \<Rightarrow> resolve_error + 'r \<Rightarrow> bool" where
  "agree a b \<longleftrightarrow>
     (case (a, b) of
        (Inr x, Inr y) \<Rightarrow> x = y
      | (Inl e, Inl f) \<Rightarrow> is_hard e = is_hard f
      | _ \<Rightarrow> False)"

lemma agree_refl [simp]: "agree a a"
  by (simp add: agree_def split: sum.split)

lemma agree_Inr: "agree (Inr x) b \<longleftrightarrow> b = Inr x"
  by (auto simp: agree_def split: sum.split)

lemma agree_Inl: "agree (Inl e) b \<longleftrightarrow> (\<exists>f. b = Inl f \<and> is_hard e = is_hard f)"
  by (auto simp: agree_def split: sum.split)

lemma agree_and_then: "(\<And>x. m = Inr x \<Longrightarrow> agree (f x) (g x)) \<Longrightarrow> agree (and_then m f) (and_then m g)"
  by (cases m) auto

section \<open>Sorted candidates fall into the same groups\<close>

text \<open>The primary order of the candidates: a preferred version first, then precedence downwards.\<close>

locale precedence_order =
  fixes S :: semver_ops and preferred :: "package_candidate \<Rightarrow> bool"
  assumes laws: "semver_laws S"
    and preferred_precedence:
      "sv_cmp S (pc_version c) (pc_version d) = Equal \<Longrightarrow> preferred c = preferred d"
begin

definition prec :: "package_candidate \<Rightarrow> package_candidate \<Rightarrow> ordering" where
  "prec l r = then_with (cmp_of (preferred r) (preferred l)) (sv_cmp S (pc_version r) (pc_version l))"

definition same :: "package_candidate \<Rightarrow> package_candidate \<Rightarrow> bool" where
  "same d c \<longleftrightarrow> sv_cmp S (pc_version d) (pc_version c) = Equal"

lemma prec_preorder: "cmp_preorder prec"
proof -
  have "cmp_preorder (\<lambda>l r. cmp_of (preferred r) (preferred l))"
    by (rule cmp_preorder_flip [OF cmp_preorder_on [OF cmp_of_preorder]])
  moreover have "cmp_preorder (\<lambda>l r. sv_cmp S (pc_version r) (pc_version l))"
    by (rule cmp_preorder_flip [OF cmp_preorder_on [OF semver_preorder [OF laws]]])
  ultimately show ?thesis
    unfolding prec_def [abs_def] by (rule cmp_preorder_then)
qed

lemma same_iff_prec: "same d c \<longleftrightarrow> prec c d = Equal"
  unfolding same_def prec_def using preferred_precedence
  by (auto simp: then_with_iffs)

lemma same_sym: "same d c \<longleftrightarrow> same c d"
  unfolding same_def using cmp_preorder.cmp_equal_sym [OF semver_preorder [OF laws]] .

lemma same_trans: "same a b \<Longrightarrow> same b c \<Longrightarrow> same a c"
  unfolding same_def using cmp_preorder.cmp_equal_trans [OF semver_preorder [OF laws]] by blast

definition prec_sorted :: "package_candidate list \<Rightarrow> bool" where
  "prec_sorted cs \<longleftrightarrow> sorted_wrt (\<lambda>a b. prec a b \<noteq> Greater) cs"

lemma prec_sorted_filter: "prec_sorted cs \<Longrightarrow> prec_sorted (filter P cs)"
  by (simp add: prec_sorted_def sorted_wrt_filter)

text \<open>What compares equal to the head stands in front.\<close>

lemma takeWhile_same:
  assumes "prec_sorted cs" and "\<forall>d \<in> set cs. prec c d \<noteq> Greater"
  shows "takeWhile (\<lambda>d. same d c) cs = filter (\<lambda>d. same d c) cs \<and>
    dropWhile (\<lambda>d. same d c) cs = filter (\<lambda>d. \<not> same d c) cs"
  using assms
proof (induction cs)
  case (Cons d cs)
  show ?case
  proof (cases "same d c")
    case True
    then show ?thesis
      using Cons by (simp add: prec_sorted_def)
  next
    case False
    have "\<not> same e c" if e: "e \<in> set cs" for e
    proof
      assume "same e c"
      then have "prec e c \<noteq> Greater"
        using same_iff_prec [of c e] same_sym [of e c] by simp
      moreover have "prec d e \<noteq> Greater" "prec c d \<noteq> Greater"
        using Cons.prems e by (auto simp: prec_sorted_def)
      ultimately have "prec d c \<noteq> Greater"
        using cmp_preorder.cmp_le_trans [OF prec_preorder] by blast
      then have "prec c d = Equal"
        using \<open>prec c d \<noteq> Greater\<close> cmp_preorder.cmp_greater_iff [OF prec_preorder]
        by (metis ordering.exhaust)
      with False same_iff_prec show False by blast
    qed
    then have "filter (\<lambda>d. same d c) cs = [] \<and> filter (\<lambda>d. \<not> same d c) cs = cs"
      by (auto simp: filter_empty_conv intro!: filter_True)
    then show ?thesis
      using False by simp
  qed
qed simp

lemma groups_Cons:
  assumes "prec_sorted (c # cs)"
  shows "precedence_groups S (c # cs) =
    filter (\<lambda>d. same d c) (c # cs) # precedence_groups S (filter (\<lambda>d. \<not> same d c) (c # cs))"
proof -
  have "prec_sorted cs" "\<forall>d \<in> set cs. prec c d \<noteq> Greater" and "same c c"
    using assms cmp_preorder.cmp_refl [OF prec_preorder] by (auto simp: prec_sorted_def same_iff_prec)
  with takeWhile_same [OF this(1,2)] show ?thesis
    by (simp add: same_def [symmetric])
qed

lemma heads_same:
  assumes "prec_sorted (c # cs)" and "prec_sorted (d # ds)" and "mset (c # cs) = mset (d # ds)"
  shows "same c d"
proof -
  have sets: "set (c # cs) = set (d # ds)"
    using assms(3) by (metis set_mset_mset)
  have refl: "prec a a \<noteq> Greater" for a
    using cmp_preorder.cmp_refl [OF prec_preorder] by simp
  have "d \<in> set (c # cs)" "c \<in> set (d # ds)"
    using sets by (metis list.set_intros(1))+
  then have "prec c d \<noteq> Greater" "prec d c \<noteq> Greater"
    using assms(1,2) refl by (auto simp: prec_sorted_def)
  then have "prec d c = Equal"
    using cmp_preorder.cmp_greater_iff [OF prec_preorder] by (metis ordering.exhaust)
  then show ?thesis
    using same_iff_prec by blast
qed

lemma groups_perm:
  assumes "prec_sorted cs" and "prec_sorted ds" and "mset cs = mset ds"
  shows "list_all2 (\<lambda>g h. mset g = mset h) (precedence_groups S cs) (precedence_groups S ds)"
  using assms
proof (induction "length cs" arbitrary: cs ds rule: less_induct)
  case less
  show ?case
  proof (cases cs)
    case Nil
    then show ?thesis using less.prems by simp
  next
    case (Cons c cs')
    then obtain d ds' where ds: "ds = d # ds'"
      using less.prems(3) by (cases ds) auto
    have "same c d"
      using heads_same less.prems Cons ds by blast
    then have eq: "same x c \<longleftrightarrow> same x d" for x
      using same_trans same_sym by blast
    let ?rest = "\<lambda>xs. filter (\<lambda>x. \<not> same x c) xs"
    have "length (?rest cs) < length cs"
      using Cons cmp_preorder.cmp_refl [OF prec_preorder]
      by (auto simp: same_iff_prec less_Suc_eq_le)
    then have "list_all2 (\<lambda>g h. mset g = mset h) (precedence_groups S (?rest cs)) (precedence_groups S (?rest ds))"
      using less.prems by (intro less.hyps prec_sorted_filter) (auto simp: mset_filter)
    moreover have "mset (filter (\<lambda>x. same x c) cs) = mset (filter (\<lambda>x. same x c) ds)"
      using less.prems(3) by (simp add: mset_filter)
    moreover have "precedence_groups S cs = filter (\<lambda>x. same x c) cs # precedence_groups S (?rest cs)"
      unfolding Cons by (rule groups_Cons) (use less.prems(1) Cons in simp)
    moreover have "precedence_groups S ds = filter (\<lambda>x. same x d) ds #
        precedence_groups S (filter (\<lambda>x. \<not> same x d) ds)"
      unfolding ds by (rule groups_Cons) (use less.prems(2) ds in simp)
    ultimately show ?thesis
      by (simp add: eq)
  qed
qed

end

text \<open>The resolver's own order is one, for every lawful version library.\<close>

lemma preferred_precedence_order:
  "semver_laws S \<Longrightarrow> precedence_order S (preferred_candidate S opts pid)"
proof (unfold_locales)
  fix c d :: package_candidate
  assume laws: "semver_laws S" and eq: "sv_cmp S (pc_version c) (pc_version d) = Equal"
  have "sv_cmp S v (pc_version c) = sv_cmp S v (pc_version d)" for v
    using cmp_preorder.cmp_equal_right [OF semver_preorder [OF laws] eq] .
  then show "preferred_candidate S opts pid c = preferred_candidate S opts pid d"
    by (simp add: preferred_candidate_def split: option.split)
qed

interpretation demo_order: precedence_order demo_semver "preferred_candidate demo_semver opts pid"
  for opts pid
  by (rule preferred_precedence_order [OF demo_semver_laws])

lemma search_order_preorder:
  assumes "semver_laws S"
  shows "cmp_preorder (search_order S opts pid)"
proof -
  have "cmp_preorder (\<lambda>l r. cmp_of (preferred_candidate S opts pid r) (preferred_candidate S opts pid l))"
    by (rule cmp_preorder_flip [OF cmp_preorder_on [OF cmp_of_preorder]])
  moreover have "cmp_preorder (\<lambda>l r. sv_cmp S (pc_version r) (pc_version l))"
    by (rule cmp_preorder_flip [OF cmp_preorder_on [OF semver_preorder [OF assms]]])
  moreover have "cmp_preorder (\<lambda>l r. cmp_of (source_priority (pc_source l)) (source_priority (pc_source r)))"
    by (rule cmp_preorder_on [OF cmp_of_preorder])
  moreover have "cmp_preorder (\<lambda>l r. cmp_of (pc_package_id l) (pc_package_id r))"
    by (rule cmp_preorder_on [OF cmp_of_preorder])
  ultimately show ?thesis
    unfolding search_order_def [abs_def] candidate_order_def by (intro cmp_preorder_then)
qed

lemma ordered_prec_sorted:
  assumes "semver_laws S"
  shows "precedence_order.prec_sorted S (preferred_candidate S opts pid)
    (ordered_candidates S catalog opts pid reqs)"
proof -
  note order = preferred_precedence_order [OF assms, of opts pid]
  have "sorted_wrt (\<lambda>a b. search_order S opts pid a b \<noteq> Greater) (ordered_candidates S catalog opts pid reqs)"
    unfolding ordered_candidates_def
    by (rule cmp_preorder.sort_by_sorted [OF search_order_preorder [OF assms]])
  then show ?thesis
    unfolding precedence_order.prec_sorted_def [OF order]
    by (rule sorted_wrt_mono_rel [rotated])
      (auto simp: search_order_def candidate_order_def precedence_order.prec_def [OF order]
        then_with_iffs)
qed

section \<open>Permuted catalogs\<close>

definition permuted :: "catalog_index \<Rightarrow> catalog_index \<Rightarrow> bool" where
  "permuted index index' \<longleftrightarrow>
     (\<forall>pid. rel_option (\<lambda>cs ds. mset cs = mset ds) (bt_get index pid) (bt_get index' pid))"

lemma permuted_available:
  "permuted index index' \<Longrightarrow> choice_available index opts pid ch = choice_available index' opts pid ch"
  by (cases ch) (auto simp: permuted_def rel_option_iff dest!: spec [of _ pid] mset_eq_setD
      split: option.splits)

lemma ordered_perm:
  assumes "permuted index index'"
  shows "mset (ordered_candidates S index opts pid reqs) = mset (ordered_candidates S index' opts pid reqs)"
  using assms unfolding permuted_def ordered_candidates_def
  by (auto simp: rel_option_iff mset_filter dest!: spec [of _ pid] split: option.splits)

lemma classify_soft: "\<not> is_hard (classify_no_candidates S index pid reqs incl unity)"
  by (auto simp: classify_no_candidates_def Let_def split: option.split)

lemma group_choice_perm:
  assumes "mset g = mset h"
  shows "agree (group_choice S opts pid ex g) (group_choice S opts pid ex h)"
proof -
  have sets: "set g = set h"
    using assms by (rule mset_eq_setD)
  let ?best = "Min (set (map (\<lambda>c. source_priority (pc_source c)) h))"
  let ?f = "filter (\<lambda>c. source_priority (pc_source c) = ?best)"
  have fperm: "mset (?f g) = mset (?f h)"
    using assms by (simp add: mset_filter)
  then have len: "length (?f g) = length (?f h)"
    by (metis size_mset)
  have one: "?f g = ?f h" if "length (?f h) \<le> 1"
  proof (cases "?f h")
    case Nil
    then show ?thesis using len by simp
  next
    case (Cons c cs)
    then have fh: "?f h = [c]"
      using that by (cases cs) auto
    then have "mset (?f g) = {#c#}"
      unfolding fperm by (simp only: mset.simps empty_neutral)
    then have "?f g = [c]"
      by (simp only: mset_single_iff)
    with fh show ?thesis by simp
  qed
  have ambiguous: "source_group_is_ambiguous ex (list_ex (\<lambda>c. is_repository (pc_source c)) g)
      (list_ex (\<lambda>c. \<not> is_repository (pc_source c)) g) (length (?f g)) =
    source_group_is_ambiguous ex (list_ex (\<lambda>c. is_repository (pc_source c)) h)
      (list_ex (\<lambda>c. \<not> is_repository (pc_source c)) h) (length (?f h))"
    using sets len by (simp add: list_ex_iff)
  have best: "Min (set (map (\<lambda>c. source_priority (pc_source c)) g)) = ?best"
    using sets by simp
  show ?thesis
  proof (cases "source_group_is_ambiguous ex (list_ex (\<lambda>c. is_repository (pc_source c)) h)
      (list_ex (\<lambda>c. \<not> is_repository (pc_source c)) h) (length (?f h))")
    case True
    then show ?thesis
      unfolding group_choice_def Let_def best using ambiguous by (simp add: agree_Inl)
  next
    case False
    then have "?f g = ?f h"
      by (intro one) (simp add: source_group_is_ambiguous_def)
    then show ?thesis
      unfolding group_choice_def Let_def best using ambiguous False by simp
  qed
qed

lemma try_groups_agree:
  assumes "list_all2 (\<lambda>g h. mset g = mset h) gs hs"
    and "\<And>c. c \<in> set (concat gs) \<Longrightarrow> agree (attempt c) (attempt' c)"
    and "rel_option (\<lambda>e f. is_hard e = is_hard f) l l'"
  shows "agree (try_groups S opts pid ex attempt gs l) (try_groups S opts pid ex attempt' hs l')"
  using assms
proof (induction gs hs arbitrary: l l' rule: list_all2_induct)
  case Nil
  then show ?case
    by (auto simp: agree_Inl rel_option_iff split: option.splits)
next
  case (Cons g gs h hs)
  have choice: "agree (group_choice S opts pid ex g) (group_choice S opts pid ex h)"
    using Cons.hyps(1) by (rule group_choice_perm)
  show ?case
  proof (cases "group_choice S opts pid ex g")
    case (Inl e)
    then show ?thesis
      using choice by (auto simp: agree_Inl)
  next
    case (Inr c)
    then have h: "group_choice S opts pid ex h = Inr c"
      using choice by (simp add: agree_Inr)
    have c: "agree (attempt c) (attempt' c)"
      using Cons.prems(1) group_choice_member [OF Inr] by simp
    show ?thesis
    proof (cases "attempt c")
      case (Inl e)
      then obtain f where "attempt' c = Inl f" "is_hard e = is_hard f"
        using c by (auto simp: agree_Inl)
      then show ?thesis
        using Inl \<open>group_choice S opts pid ex g = Inr c\<close> h Cons.IH [of "Some e" "Some f"] Cons.prems(1)
        by (auto simp: agree_Inl)
    next
      case (Inr sol)
      then show ?thesis
        using c h \<open>group_choice S opts pid ex g = Inr c\<close> by (simp add: agree_Inr)
    qed
  qed
qed

lemma search_candidates_agree:
  assumes "semver_laws S" and "permuted index index'"
    and "\<And>c. choice_available index opts pid (CatalogChoice c) \<Longrightarrow> agree (attempt c) (attempt' c)"
    and "rel_option (\<lambda>e f. is_hard e = is_hard f) l l'"
  shows "agree (search_candidates S index opts pid reqs attempt l)
    (search_candidates S index' opts pid reqs attempt' l')"
proof -
  let ?cs = "ordered_candidates S index opts pid reqs"
  let ?ds = "ordered_candidates S index' opts pid reqs"
  have perm: "mset ?cs = mset ?ds"
    using assms(2) by (rule ordered_perm)
  show ?thesis
  proof (cases "?cs = []")
    case True
    then have "?ds = []" using perm by simp
    then show ?thesis
      using True assms(4) classify_soft
      by (auto simp: search_candidates_def agree_Inl rel_option_iff split: option.splits)
  next
    case False
    then have ds: "?ds \<noteq> []" using perm by auto
    have groups: "list_all2 (\<lambda>g h. mset g = mset h) (precedence_groups S ?cs) (precedence_groups S ?ds)"
      using precedence_order.groups_perm [OF preferred_precedence_order [OF assms(1)]
          ordered_prec_sorted [OF assms(1)] ordered_prec_sorted [OF assms(1)] perm] .
    have "agree (try_groups S opts pid ex attempt (precedence_groups S ?cs) l)
        (try_groups S opts pid ex attempt' (precedence_groups S ?ds) l')" for ex
      by (rule try_groups_agree [OF groups])
        (use assms(3,4) ordered_candidates_set in \<open>auto simp del: choice_available.simps\<close>)
    then show ?thesis
      using False ds by (simp add: search_candidates_def)
  qed
qed

lemma search_package_agree:
  assumes "semver_laws S" and "permuted index index'"
    and "\<And>ch. choice_available index opts pid ch \<Longrightarrow> agree (attempt ch) (attempt' ch)"
  shows "agree (search_package S index opts pid reqs attempt) (search_package S index' opts pid reqs attempt')"
proof (cases "installed_choice S opts pid reqs")
  case None
  then show ?thesis
    unfolding search_package_def
    using search_candidates_agree [OF assms(1,2), of opts pid "\<lambda>c. attempt (CatalogChoice c)"
        "\<lambda>c. attempt' (CatalogChoice c)" None None reqs] assms(3) by simp
next
  case (Some l)
  have at: "agree (attempt (InstalledChoice l)) (attempt' (InstalledChoice l))"
    using assms(3) installed_choice_Some [OF Some] by blast
  show ?thesis
  proof (cases "attempt (InstalledChoice l)")
    case (Inl e)
    then obtain f where f: "attempt' (InstalledChoice l) = Inl f" "is_hard e = is_hard f"
      using at by (auto simp: agree_Inl)
    have "agree (search_candidates S index opts pid reqs (\<lambda>c. attempt (CatalogChoice c)) (Some e))
        (search_candidates S index' opts pid reqs (\<lambda>c. attempt' (CatalogChoice c)) (Some f))"
      by (rule search_candidates_agree [OF assms(1,2)]) (use assms(3) f in simp_all)
    then show ?thesis
      using Some Inl f by (auto simp: search_package_def agree_Inl)
  next
    case (Inr sol)
    then show ?thesis
      using at Some by (simp add: search_package_def agree_Inr)
  qed
qed

lemma solve_agree:
  assumes "semver_laws S" and "permuted index index'"
  shows "agree (solve S index opts reqs selected) (solve S index' opts reqs selected)"
  using assms
proof (induction S index opts reqs selected rule: solve.induct)
  case (1 S index opts reqs selected)
  show ?case
  proof (cases "find (violated S opts selected) reqs")
    case (Some entry)
    then show ?thesis
      by (simp add: solve.simps)
  next
    case none: None
    show ?thesis
    proof (cases "find (\<lambda>entry. bt_get selected (fst entry) = None) reqs")
      case None
      then show ?thesis
        using none by (subst (1 2) solve.simps) simp
    next
      case (Some entry)
      have "agree (search_package S index opts (fst entry) (snd entry) (\<lambda>choice.
          and_then (add_requirements S (fst entry) (selection_dependencies choice) reqs)
            (\<lambda>next. solve S index opts next (bt_insert (fst entry) choice selected))))
        (search_package S index' opts (fst entry) (snd entry) (\<lambda>choice.
          and_then (add_requirements S (fst entry) (selection_dependencies choice) reqs)
            (\<lambda>next. solve S index' opts next (bt_insert (fst entry) choice selected))))"
        by (rule search_package_agree [OF 1(2,3)])
          (intro agree_and_then 1(1) [OF none Some] 1(2,3))
      then show ?thesis
        using none Some by (subst (1 2) solve.simps) simp
    qed
  qed
qed

lemma index_catalog_perm:
  assumes "mset catalog' = mset catalog" and "index_catalog S catalog = Inr index"
  shows "\<exists>index'. index_catalog S catalog' = Inr index' \<and> permuted index index'"
proof -
  have valid: "\<forall>c \<in> set catalog'. validate_candidate S c = Inr ()"
    using index_catalog_spec [OF assms(2)] mset_eq_setD [OF assms(1)] by simp
  have "\<exists>m'. try_fold (\<lambda>c m. and_then (validate_candidate S c) (\<lambda>_. Inr (bt_push (pc_package_id c) c m)))
      cs m = Inr m'" if "\<forall>c \<in> set cs. validate_candidate S c = Inr ()" for cs m
    using that by (induction cs arbitrary: m) auto
  then obtain index' where index': "index_catalog S catalog' = Inr index'"
    using valid unfolding index_catalog_def by blast
  have "rel_option (\<lambda>cs ds. mset cs = mset ds) (bt_get index pid) (bt_get index' pid)" for pid
  proof -
    let ?f = "filter (\<lambda>c. pc_package_id c = pid)"
    have "mset (?f catalog) = mset (?f catalog')"
      using assms(1) by (simp add: mset_filter)
    moreover have "?f catalog = [] \<longleftrightarrow> ?f catalog' = []"
      using calculation by (metis mset_zero_iff)
    moreover have "bt_get index pid = (if ?f catalog = [] then None else Some (?f catalog))"
      "bt_get index' pid = (if ?f catalog' = [] then None else Some (?f catalog'))"
      using index_catalog_spec [OF assms(2)] index_catalog_spec [OF index'] by (simp_all add: Let_def)
    ultimately show ?thesis
      by (auto simp: rel_option_iff split: if_splits)
  qed
  with index' show ?thesis
    by (auto simp: permuted_def)
qed

section \<open>Properties\<close>

text \<open>
  C10: The order in which the catalog lists its candidates never matters: a resolution that succeeds
  on one listing gives the very same packages, edges and obligations on every permutation of it.
\<close>

theorem catalog_order_irrelevant:
  assumes "semver_laws S" and "mset catalog' = mset catalog"
    and "resolve_packages_internal S catalog requests legacy project = Inr r"
  shows "resolve_packages_internal S catalog' requests legacy project = Inr r"
proof -
  obtain st index solution where
    size: "requests \<noteq> []" "length requests \<le> max_requirements"
    and st: "try_fold (add_request S) requests
      \<lparr>rs_requirements = [], rs_include_prerelease = False, rs_unity_version = None\<rparr> = Inr st"
    and index: "index_catalog S catalog = Inr index"
    and run: "solve S index \<lparr>opt_include_prerelease = rs_include_prerelease st,
        opt_unity_version = rs_unity_version st, opt_legacy_handling = legacy, opt_project = project\<rparr>
      (rs_requirements st) [] = Inr solution"
    using assms(3) by (auto simp: resolve_packages_internal_def result_simps split: if_splits)
  obtain index' where index': "index_catalog S catalog' = Inr index'" and perm: "permuted index index'"
    using index_catalog_perm [OF assms(2) index] by blast
  have "solve S index' \<lparr>opt_include_prerelease = rs_include_prerelease st,
        opt_unity_version = rs_unity_version st, opt_legacy_handling = legacy, opt_project = project\<rparr>
      (rs_requirements st) [] = Inr solution"
    using solve_agree [OF assms(1) perm] run by (metis agree_Inr)
  then show ?thesis
    using assms(3) size st index index' run by (simp add: resolve_packages_internal_def)
qed

theorem catalog_order_irrelevant_witness:
  "resolve_packages_internal demo_semver (rev demo_catalog) [demo_request ''a'' ''>=1.0.0''] RejectLegacy None =
   resolve_packages_internal demo_semver demo_catalog [demo_request ''a'' ''>=1.0.0''] RejectLegacy None"
proof -
  obtain res where "resolve_packages demo_semver demo_catalog [demo_request ''a'' ''>=1.0.0''] = Inr res"
    using demo_resolves by blast
  then obtain r where
    r: "resolve_packages_internal demo_semver demo_catalog [demo_request ''a'' ''>=1.0.0''] RejectLegacy None = Inr r"
    by (auto simp: resolve_packages_def result_simps)
  have "mset (rev demo_catalog) = mset demo_catalog" by simp
  from catalog_order_irrelevant [OF demo_semver_laws this r] show ?thesis
    by (simp add: r)
qed

end
