(* ===== verification/Candidates.thy ===== *)
theory Candidates
  imports Resolver "HOL-Library.AList"
begin

text \<open>
  \<open>crates/alcomd-vpm/src/candidates.rs\<close> with the types of
  \<open>crates/alcomd-application/src/m7_candidates_types.rs\<close>: the evidence shown for the versions of a
  package, the choices and the update derived from it.  The evidence engine never runs the resolver.
  The \<open>url\<close> and \<open>sha2\<close> crates are parameters.
\<close>

section \<open>Data\<close>

datatype project_type =
    Avatars | Worlds | VpmStarter | UpmAvatars | UpmWorlds | UpmStarter
  | LegacySdk2 | LegacyWorlds | LegacyAvatars | UnknownType

datatype manifest_state = ManifestMissing | ManifestValid

record dependency_identity =
  di_package_id :: string
  di_value :: string

record read_issue =
  ri_code :: string
  ri_component :: string
  ri_item :: string
  ri_line :: "u64 option"
  ri_column :: "u64 option"

record project_observation =
  root_path :: string
  path_identity_key :: string
  po_project_type :: project_type
  po_unity_version :: string
  unity_revision :: "string option"
  vpm_manifest :: manifest_state
  upm_manifest :: manifest_state
  direct_dependencies :: "dependency_identity list"
  locked_dependencies :: "dependency_identity list"
  po_issues :: "read_issue list"

record package_settings =
  show_prerelease :: bool
  hidden_repository_ids :: "string list"
  hide_local_user_packages :: bool

record candidate_links =
  documentation :: "string option"
  changelog :: "string option"

record candidate_entry =
  ce_package_id :: string
  ce_version :: string
  ce_display_name :: "string option"
  ce_links :: candidate_links
  ce_source :: source_selector
  ce_source_revision :: u64
  ce_priority :: u64
  ce_yanked :: bool
  ce_unity :: "string option"
  ce_unity_release :: "string option"
  ce_metadata_ready :: bool
  ce_legacy_metadata_present :: bool

record evidence_input =
  ci_project :: project_observation
  ci_entries :: "candidate_entry list"
  ci_settings :: package_settings

datatype candidate_classification = Stable | Prerelease | ClassificationUnknown

datatype candidate_relation = NotInstalled | Newer | SamePrecedence | Older | RelationUnknown

datatype candidate_unity = UnityNotRequired | UnityCompatible | UnityTooOld | UnityUnknown

datatype candidate_eligibility = Eligible | Blocked | EligibilityUnknown

datatype candidate_reason =
    NoVisibleCandidate | SourceUnavailable | AllYanked | PrereleaseExcluded | StableUnavailable
  | ReasonUnityIncompatible | ProjectUnityUnknown | CatalogIncomplete | MetadataInvalid
  | ReasonClassificationUnknown | InstalledEvidenceUnknown | LegacyMetadata | ReasonSourceAmbiguous

text \<open>The derived \<open>Ord\<close>: declaration order.\<close>

fun reason_rank :: "candidate_reason \<Rightarrow> nat" where
  "reason_rank NoVisibleCandidate = 0"
| "reason_rank SourceUnavailable = 1"
| "reason_rank AllYanked = 2"
| "reason_rank PrereleaseExcluded = 3"
| "reason_rank StableUnavailable = 4"
| "reason_rank ReasonUnityIncompatible = 5"
| "reason_rank ProjectUnityUnknown = 6"
| "reason_rank CatalogIncomplete = 7"
| "reason_rank MetadataInvalid = 8"
| "reason_rank ReasonClassificationUnknown = 9"
| "reason_rank InstalledEvidenceUnknown = 10"
| "reason_rank LegacyMetadata = 11"
| "reason_rank ReasonSourceAmbiguous = 12"

lemma reason_rank_inject: "reason_rank a = reason_rank b \<Longrightarrow> a = b"
  by (cases a; cases b) simp_all

instantiation candidate_reason :: linorder
begin

definition less_eq_candidate_reason :: "candidate_reason \<Rightarrow> candidate_reason \<Rightarrow> bool" where
  "a \<le> b \<longleftrightarrow> reason_rank a \<le> reason_rank b"

definition less_candidate_reason :: "candidate_reason \<Rightarrow> candidate_reason \<Rightarrow> bool" where
  "a < b \<longleftrightarrow> reason_rank a < reason_rank b"

instance
  by standard
    (auto simp: less_eq_candidate_reason_def less_candidate_reason_def intro: reason_rank_inject)

end

datatype candidate_installed = Absent | Locked string | InstalledUnknown candidate_reason

record candidate_evidence =
  ev_version :: string
  ev_source :: source_selector
  ev_source_revision :: u64
  ev_classification :: candidate_classification
  ev_relation :: candidate_relation
  ev_unity :: candidate_unity
  ev_eligibility :: candidate_eligibility
  ev_reasons :: "candidate_reason list"

datatype candidate_choice =
    ChosenCandidate candidate_evidence | NoCandidate "candidate_reason list"
  | UnknownCandidate "candidate_reason list" | AmbiguousCandidate candidate_reason

datatype no_update_reason = NoUpdateSamePrecedence | InstalledNewer | NoUpdateNotInstalled

datatype candidate_update =
    UpdateTarget candidate_evidence | NoUpdate no_update_reason
  | UpdateUnavailable "candidate_reason list"

record candidate_provider =
  cp_source :: source_selector
  cp_source_revision :: u64

record source_override =
  so_package_id :: string
  so_source :: source_selector

record candidate_summary =
  cs_package_id :: string
  cs_display_name :: "string option"
  cs_links :: "candidate_links option"
  cs_providers :: "candidate_provider list"
  cs_direct :: bool
  cs_installed :: candidate_installed
  cs_latest :: candidate_choice
  cs_latest_stable :: candidate_choice
  cs_project_latest :: candidate_choice
  cs_project_latest_stable :: candidate_choice
  cs_update :: candidate_update
  cs_stable_update :: candidate_update

record observed =
  ob_entry :: candidate_entry
  ob_version :: "version option"
  ob_evidence :: candidate_evidence

section \<open>Evidence of one entry\<close>

definition visible :: "evidence_input \<Rightarrow> source_selector \<Rightarrow> bool" where
  "visible input src =
     (case src of
        SelectRepository i \<Rightarrow> i \<notin> set (hidden_repository_ids (ci_settings input))
      | SelectUserPackage _ \<Rightarrow> \<not> hide_local_user_packages (ci_settings input))"

definition installed_from_lock :: "semver_ops \<Rightarrow> string option \<Rightarrow> candidate_installed" where
  "installed_from_lock S locked =
     (case locked of
        None \<Rightarrow> Absent
      | Some v \<Rightarrow> if sv_parse S v \<noteq> None then Locked v else InstalledUnknown InstalledEvidenceUnknown)"

definition installed :: "semver_ops \<Rightarrow> evidence_input \<Rightarrow> string \<Rightarrow> candidate_installed" where
  "installed S input pid = installed_from_lock S
     (map_option di_value
       (find (\<lambda>d. di_package_id d = pid) (locked_dependencies (ci_project input))))"

definition classification_of :: "version option \<Rightarrow> candidate_classification" where
  "classification_of v =
     (case v of None \<Rightarrow> ClassificationUnknown | Some v \<Rightarrow> if v_pre v = [] then Stable else Prerelease)"

definition relation_of ::
  "semver_ops \<Rightarrow> version option \<Rightarrow> candidate_installed \<Rightarrow> candidate_relation" where
  "relation_of S v inst =
     (case (v, inst) of
        (Some _, Absent) \<Rightarrow> NotInstalled
      | (Some v, Locked locked) \<Rightarrow>
          (case map_option (sv_cmp S v) (sv_parse S locked) of
             Some Greater \<Rightarrow> Newer
           | Some Equal \<Rightarrow> SamePrecedence
           | Some Less \<Rightarrow> Older
           | None \<Rightarrow> RelationUnknown)
      | _ \<Rightarrow> RelationUnknown)"

definition unity_of :: "unity_version option \<Rightarrow> unit + unity_version option \<Rightarrow> candidate_unity" where
  "unity_of project_unity minimum =
     (case minimum of
        Inr None \<Rightarrow> UnityNotRequired
      | Inr (Some m) \<Rightarrow>
          if project_unity = None then UnityUnknown
          else if meets_minimum project_unity (Some m) then UnityCompatible else UnityTooOld
      | Inl _ \<Rightarrow> UnityUnknown)"

definition entry_reasons ::
  "evidence_input \<Rightarrow> candidate_entry \<Rightarrow> unit + unity_version option \<Rightarrow> candidate_classification \<Rightarrow>
   candidate_unity \<Rightarrow> candidate_reason list" where
  "entry_reasons input e minimum class unity = btset_of_list (
     (if ce_yanked e then [AllYanked] else []) @
     (if class = Prerelease \<and> \<not> show_prerelease (ci_settings input) then [PrereleaseExcluded] else []) @
     (if unity = UnityTooOld then [ReasonUnityIncompatible] else []) @
     (if unity = UnityUnknown
      then [if \<not> is_ok minimum then MetadataInvalid else ProjectUnityUnknown] else []) @
     (if \<not> ce_metadata_ready e then [CatalogIncomplete] else []) @
     (if class = ClassificationUnknown then [ReasonClassificationUnknown, MetadataInvalid] else []))"

definition eligibility_of ::
  "candidate_entry \<Rightarrow> candidate_classification \<Rightarrow> candidate_unity \<Rightarrow> candidate_reason list \<Rightarrow>
   candidate_eligibility" where
  "eligibility_of e class unity reasons =
     (if reasons = [] then Eligible
      else if \<not> ce_metadata_ready e \<or> class = ClassificationUnknown \<or> unity = UnityUnknown
      then EligibilityUnknown else Blocked)"

definition observe ::
  "semver_ops \<Rightarrow> evidence_input \<Rightarrow> unity_version option \<Rightarrow> candidate_installed \<Rightarrow> candidate_entry \<Rightarrow>
   observed" where
  "observe S input project_unity inst e =
     (let v = sv_parse S (ce_version e);
          class = classification_of v;
          minimum = package_minimum (ce_unity e) (ce_unity_release e);
          unity = unity_of project_unity minimum;
          reasons = entry_reasons input e minimum class unity
      in \<lparr>ob_entry = e, ob_version = v,
          ob_evidence =
            \<lparr>ev_version = ce_version e, ev_source = ce_source e,
             ev_source_revision = ce_source_revision e, ev_classification = class,
             ev_relation = relation_of S v inst, ev_unity = unity,
             ev_eligibility = eligibility_of e class unity reasons, ev_reasons = reasons\<rparr>\<rparr>)"

definition entry_selected :: "evidence_input \<Rightarrow> source_selector option \<Rightarrow> candidate_entry \<Rightarrow> bool" where
  "entry_selected input src e \<longleftrightarrow>
     visible input (ce_source e) \<and> (case src of None \<Rightarrow> True | Some s \<Rightarrow> s = ce_source e)"

definition observed_entries ::
  "semver_ops \<Rightarrow> evidence_input \<Rightarrow> candidate_entry list \<Rightarrow> source_selector option \<Rightarrow>
   candidate_installed \<Rightarrow> observed list" where
  "observed_entries S input entries src inst =
     (let project_unity = uv_parse_editor (po_unity_version (ci_project input))
      in map (observe S input project_unity inst) (filter (entry_selected input src) entries))"

definition observed_rows ::
  "semver_ops \<Rightarrow> evidence_input \<Rightarrow> string \<Rightarrow> source_selector option \<Rightarrow> candidate_installed \<Rightarrow>
   observed list" where
  "observed_rows S input pid src inst =
     observed_entries S input (filter (\<lambda>e. ce_package_id e = pid) (ci_entries input)) src inst"

section \<open>Comparing rows\<close>

definition same_precedence :: "semver_ops \<Rightarrow> observed \<Rightarrow> observed \<Rightarrow> bool" where
  "same_precedence S l r =
     (case (ob_version l, ob_version r) of (Some v, Some w) \<Rightarrow> sv_cmp S v w = Equal | _ \<Rightarrow> False)"

definition source_key :: "uuid_ops \<Rightarrow> source_selector \<Rightarrow> string" where
  "source_key U src =
     (case src of
        SelectRepository i \<Rightarrow> ''repository:'' @ i
      | SelectUserPackage i \<Rightarrow> ''user_package:'' @ user_package_id_to_string U i)"

definition exact_group :: "uuid_ops \<Rightarrow> observed \<Rightarrow> (string \<times> version) option" where
  "exact_group U row = map_option (\<lambda>v. (source_key U (ce_source (ob_entry row)), v\<lparr>v_build := []\<rparr>))
     (ob_version row)"

definition resolver_direct_match :: "observed \<Rightarrow> bool" where
  "resolver_direct_match row \<longleftrightarrow>
     ce_metadata_ready (ob_entry row) \<and> ob_version row \<noteq> None \<and> \<not> ce_yanked (ob_entry row) \<and>
     (ev_unity (ob_evidence row) = UnityCompatible \<or> ev_unity (ob_evidence row) = UnityNotRequired) \<and>
     PrereleaseExcluded \<notin> set (ev_reasons (ob_evidence row))"

definition row_priority :: "observed \<Rightarrow> u64" where
  "row_priority row =
     (case ce_source (ob_entry row) of
        SelectRepository _ \<Rightarrow> ce_priority (ob_entry row)
      | SelectUserPackage _ \<Rightarrow> - 1)"

definition version_display :: "semver_ops \<Rightarrow> version option \<Rightarrow> version option \<Rightarrow> ordering" where
  "version_display S l r =
     (case (l, r) of
        (Some v, Some w) \<Rightarrow> sv_cmp S w v
      | (Some _, None) \<Rightarrow> Less
      | (None, Some _) \<Rightarrow> Greater
      | (None, None) \<Rightarrow> Equal)"

definition display_order :: "semver_ops \<Rightarrow> uuid_ops \<Rightarrow> observed \<Rightarrow> observed \<Rightarrow> ordering" where
  "display_order S U l r =
     then_with (version_display S (ob_version l) (ob_version r))
       (then_with (if ob_version l \<noteq> None then cmp_of (row_priority l) (row_priority r) else Equal)
         (then_with (cmp_of (source_key U (ce_source (ob_entry l))) (source_key U (ce_source (ob_entry r))))
           (cmp_of (ce_version (ob_entry l)) (ce_version (ob_entry r)))))"

text \<open>\<open>Iterator::min_by\<close>: the first of the least elements.\<close>

fun min_by :: "('a \<Rightarrow> 'a \<Rightarrow> ordering) \<Rightarrow> 'a list \<Rightarrow> 'a option" where
  "min_by cmp [] = None"
| "min_by cmp [x] = Some x"
| "min_by cmp (x # y # ys) = min_by cmp ((if cmp x y = Greater then y else x) # ys)"

section \<open>The choices\<close>

text \<open>What keeps a row out of one choice; the loop skips the row when there is any reason.\<close>

definition choice_blockers :: "bool \<Rightarrow> bool \<Rightarrow> bool \<Rightarrow> observed \<Rightarrow> candidate_reason list" where
  "choice_blockers stable_only project show row = btset_of_list (
     (if ce_yanked (ob_entry row) then [AllYanked] else []) @
     (if ev_classification (ob_evidence row) = Prerelease \<and> (stable_only \<or> \<not> show)
      then [if stable_only then StableUnavailable else PrereleaseExcluded] else []) @
     (if project \<and> ev_unity (ob_evidence row) = UnityTooOld then [ReasonUnityIncompatible] else []))"

definition choice_uncertain :: "bool \<Rightarrow> observed \<Rightarrow> bool" where
  "choice_uncertain project row \<longleftrightarrow>
     \<not> ce_metadata_ready (ob_entry row) \<or> ob_version row = None \<or>
     MetadataInvalid \<in> set (ev_reasons (ob_evidence row)) \<or>
     (project \<and> ev_unity (ob_evidence row) = UnityUnknown)"

definition unknown_relevant :: "semver_ops \<Rightarrow> observed option \<Rightarrow> observed \<Rightarrow> bool" where
  "unknown_relevant S best row =
     (case best of
        None \<Rightarrow> True
      | Some b \<Rightarrow>
          (case (ob_version row, ob_version b) of
             (Some v, Some w) \<Rightarrow> sv_cmp S v w \<noteq> Less
           | _ \<Rightarrow> True))"

definition from_repository :: "observed \<Rightarrow> bool" where
  "from_repository row =
     (case ce_source (ob_entry row) of SelectRepository _ \<Rightarrow> True | SelectUserPackage _ \<Rightarrow> False)"

text \<open>The end of \<open>choose\<close>, for the rows known to be usable, best first, and the first of them.\<close>

definition choose_preferred ::
  "semver_ops \<Rightarrow> observed list \<Rightarrow> bool \<Rightarrow> observed list \<Rightarrow> observed \<Rightarrow> candidate_choice" where
  "choose_preferred S rows explicit known b =
     (let grp = takeWhile (\<lambda>row. same_precedence S row b) known;
          best_priority = Min (set (map row_priority grp));
          preferred = filter (\<lambda>row. row_priority row = best_priority) grp
      in
        if source_group_is_ambiguous explicit (list_ex from_repository grp)
             (list_ex (\<lambda>row. \<not> from_repository row) grp) (length preferred)
        then AmbiguousCandidate ReasonSourceAmbiguous
        else
          let selected = hd preferred
          in
            if length (filter (\<lambda>row. resolver_direct_match row \<and>
                  ce_source (ob_entry row) = ce_source (ob_entry selected) \<and>
                  same_precedence S row selected) rows) > 1
            then AmbiguousCandidate ReasonSourceAmbiguous
            else ChosenCandidate (ob_evidence selected))"

definition choose_candidate ::
  "semver_ops \<Rightarrow> uuid_ops \<Rightarrow> observed list \<Rightarrow> bool \<Rightarrow> bool \<Rightarrow> bool \<Rightarrow> bool \<Rightarrow> candidate_choice" where
  "choose_candidate S U rows stable_only project explicit show =
     (if rows = [] then NoCandidate [if explicit then SourceUnavailable else NoVisibleCandidate]
      else
        let blockers = choice_blockers stable_only project show;
            passed = filter (\<lambda>row. blockers row = []) rows;
            uncertain = filter (choice_uncertain project) passed;
            known = sort_by (display_order S U) (filter (\<lambda>row. \<not> choice_uncertain project row) passed);
            best = (case known of [] \<Rightarrow> None | k # _ \<Rightarrow> Some k);
            relevant_unknown = filter (unknown_relevant S best) uncertain
        in
          if relevant_unknown \<noteq> [] then
            UnknownCandidate
              (btset_of_list (concat (map (\<lambda>row. ev_reasons (ob_evidence row)) relevant_unknown)))
          else case best of
            None \<Rightarrow>
              (let blocked = btset_of_list (concat (map blockers rows))
               in NoCandidate (if blocked = []
                    then [if stable_only then StableUnavailable else NoVisibleCandidate] else blocked))
          | Some b \<Rightarrow> choose_preferred S rows explicit known b)"

definition update_evidence :: "candidate_choice \<Rightarrow> candidate_installed \<Rightarrow> candidate_update" where
  "update_evidence choice inst =
     (case inst of
        Absent \<Rightarrow> NoUpdate NoUpdateNotInstalled
      | InstalledUnknown _ \<Rightarrow> UpdateUnavailable [InstalledEvidenceUnknown]
      | Locked _ \<Rightarrow>
          (case choice of
             ChosenCandidate c \<Rightarrow>
               (if ev_relation c = Newer \<and> ev_eligibility c = Eligible then UpdateTarget c
                else if ev_relation c = SamePrecedence then NoUpdate NoUpdateSamePrecedence
                else if ev_relation c = Older then NoUpdate InstalledNewer
                else UpdateUnavailable [InstalledEvidenceUnknown])
           | NoCandidate reasons \<Rightarrow> UpdateUnavailable reasons
           | UnknownCandidate reasons \<Rightarrow> UpdateUnavailable reasons
           | AmbiguousCandidate reason \<Rightarrow> UpdateUnavailable [reason]))"

section \<open>All versions of a package\<close>

definition count_direct ::
  "uuid_ops \<Rightarrow> observed \<Rightarrow> ((string \<times> version) \<times> nat) list \<Rightarrow> ((string \<times> version) \<times> nat) list" where
  "count_direct U row counts =
     (if resolver_direct_match row then
        (case exact_group U row of
           None \<Rightarrow> counts
         | Some key \<Rightarrow>
             AList.update key ((case map_of counts key of None \<Rightarrow> 0 | Some n \<Rightarrow> n) + 1) counts)
      else counts)"

definition direct_counts :: "uuid_ops \<Rightarrow> observed list \<Rightarrow> ((string \<times> version) \<times> nat) list" where
  "direct_counts U rows = fold (count_direct U) rows []"

definition block_ambiguous ::
  "uuid_ops \<Rightarrow> ((string \<times> version) \<times> nat) list \<Rightarrow> observed \<Rightarrow> observed" where
  "block_ambiguous U counts row =
     (if ev_eligibility (ob_evidence row) = Eligible \<and>
         (case exact_group U row of
            None \<Rightarrow> False
          | Some key \<Rightarrow> (case map_of counts key of None \<Rightarrow> False | Some n \<Rightarrow> n > 1))
      then row\<lparr>ob_evidence := (ob_evidence row)
             \<lparr>ev_eligibility := Blocked, ev_reasons := ev_reasons (ob_evidence row) @ [ReasonSourceAmbiguous]\<rparr>\<rparr>
      else row)"

definition evaluate_candidate_versions ::
  "semver_ops \<Rightarrow> uuid_ops \<Rightarrow> evidence_input \<Rightarrow> string \<Rightarrow> source_selector option \<Rightarrow>
   candidate_evidence list" where
  "evaluate_candidate_versions S U input pid src =
     (let rows = observed_rows S input pid src (installed S input pid);
          counts = direct_counts U rows
      in map ob_evidence (sort_by (display_order S U) (map (block_ambiguous U counts) rows)))"

section \<open>The summary\<close>

text \<open>The URL as the \<open>url\<close> crate parses it; the parser is a parameter.\<close>

record parsed_url =
  url_scheme :: string
  url_host_str :: "string option"
  url_username :: string
  url_password :: "string option"
  url_to_string :: string

definition normalize_package_link :: "(string \<Rightarrow> parsed_url option) \<Rightarrow> string \<Rightarrow> string option" where
  "normalize_package_link parse_url text =
     (if text = [] \<or> length text > 2048 then None
      else Option.bind (parse_url text) (\<lambda>url.
        if (url_scheme url \<noteq> ''http'' \<and> url_scheme url \<noteq> ''https'') \<or> url_host_str url = None
           \<or> url_username url \<noteq> [] \<or> url_password url \<noteq> None
        then None
        else if length (url_to_string url) \<le> 2048 then Some (url_to_string url) else None))"

definition chosen_row :: "observed list \<Rightarrow> candidate_choice \<Rightarrow> observed option" where
  "chosen_row rows choice =
     (case choice of
        ChosenCandidate c \<Rightarrow>
          find (\<lambda>row. ce_source (ob_entry row) = ev_source c \<and> ce_version (ob_entry row) = ev_version c) rows
      | _ \<Rightarrow> None)"

definition or_else :: "'a option \<Rightarrow> 'a option \<Rightarrow> 'a option" where
  "or_else x y = (case x of None \<Rightarrow> y | Some _ \<Rightarrow> x)"

definition summary_presentation ::
  "semver_ops \<Rightarrow> uuid_ops \<Rightarrow> (string \<Rightarrow> parsed_url option) \<Rightarrow> observed list \<Rightarrow> string option \<Rightarrow>
   candidate_choice \<Rightarrow> candidate_choice \<Rightarrow> string option \<times> candidate_links option" where
  "summary_presentation S U parse_url rows lock_text project_latest latest =
     (let installed_entry = Option.bind lock_text (\<lambda>v.
            min_by (display_order S U) (filter (\<lambda>row. ce_version (ob_entry row) = v) rows));
          latest_entry = or_else (chosen_row rows project_latest) (chosen_row rows latest);
          display_name = or_else
            (Option.bind (or_else installed_entry latest_entry) (\<lambda>row. ce_display_name (ob_entry row)))
            (Option.bind (min_by (display_order S U)
                (filter (\<lambda>row. ce_display_name (ob_entry row) \<noteq> None) rows))
              (\<lambda>row. ce_display_name (ob_entry row)));
          link_entry =
            (if lock_text \<noteq> None then
               Option.bind installed_entry (\<lambda>preferred.
                 if length (filter (\<lambda>row. ce_version (ob_entry row) = ce_version (ob_entry preferred) \<and>
                      row_priority row = row_priority preferred) rows) = 1
                 then Some preferred else None)
             else latest_entry);
          links = Option.bind link_entry (\<lambda>row.
            let ls = \<lparr>documentation = Option.bind (documentation (ce_links (ob_entry row)))
                        (normalize_package_link parse_url),
                      changelog = Option.bind (changelog (ce_links (ob_entry row)))
                        (normalize_package_link parse_url)\<rparr>
            in if documentation ls \<noteq> None \<or> changelog ls \<noteq> None then Some ls else None)
      in (display_name, links))"

definition visible_catalog :: "evidence_input \<Rightarrow> (string, candidate_entry list) btree" where
  "visible_catalog input =
     fold (\<lambda>e m. if visible input (ce_source e) then bt_push (ce_package_id e) e m else m)
       (ci_entries input) []"

definition catalog_rows :: "(string, candidate_entry list) btree \<Rightarrow> string \<Rightarrow> candidate_entry list" where
  "catalog_rows catalog pid = (case bt_get catalog pid of None \<Rightarrow> [] | Some es \<Rightarrow> es)"

definition package_summary ::
  "semver_ops \<Rightarrow> uuid_ops \<Rightarrow> (string \<Rightarrow> parsed_url option) \<Rightarrow> evidence_input \<Rightarrow>
   (string, candidate_entry list) btree \<Rightarrow> string list \<Rightarrow> (string, string) btree \<Rightarrow>
   (string, source_selector) btree \<Rightarrow> string \<Rightarrow> candidate_summary" where
  "package_summary S U parse_url input catalog direct locked overrides pid =
     (let src = bt_get overrides pid;
          providers = bt_of_list (map (\<lambda>e. (source_key U (ce_source e),
            \<lparr>cp_source = ce_source e, cp_source_revision = ce_source_revision e\<rparr>)) (catalog_rows catalog pid));
          inst = installed_from_lock S (bt_get locked pid);
          rows = observed_entries S input (catalog_rows catalog pid) src inst;
          pick = (\<lambda>stable_only project. choose_candidate S U rows stable_only project (src \<noteq> None)
                    (show_prerelease (ci_settings input)));
          latest = pick False False;
          latest_stable = pick True False;
          project_latest = pick False True;
          project_latest_stable = pick True True;
          (display_name, links) =
            summary_presentation S U parse_url rows (bt_get locked pid) project_latest latest
      in \<lparr>cs_package_id = pid, cs_display_name = display_name, cs_links = links,
          cs_providers = bt_values providers, cs_direct = (pid \<in> set direct), cs_installed = inst,
          cs_latest = latest, cs_latest_stable = latest_stable, cs_project_latest = project_latest,
          cs_project_latest_stable = project_latest_stable,
          cs_update = update_evidence project_latest inst,
          cs_stable_update = update_evidence project_latest_stable inst\<rparr>)"

definition evaluate_candidate_summary ::
  "semver_ops \<Rightarrow> uuid_ops \<Rightarrow> (string \<Rightarrow> parsed_url option) \<Rightarrow> evidence_input \<Rightarrow> string list option \<Rightarrow>
   source_override list \<Rightarrow> candidate_summary list" where
  "evaluate_candidate_summary S U parse_url input package_ids sources =
     (let catalog = visible_catalog input;
          direct = btset_of_list (map di_package_id (direct_dependencies (ci_project input)));
          locked = bt_of_list (map (\<lambda>d. (di_package_id d, di_value d))
            (locked_dependencies (ci_project input)));
          overrides = bt_of_list (map (\<lambda>s. (so_package_id s, so_source s)) sources);
          ids = (case package_ids of
              Some ids \<Rightarrow> btset_of_list ids
            | None \<Rightarrow> btset_of_list (bt_keys catalog @ direct @ bt_keys locked))
      in map (package_summary S U parse_url input catalog direct locked overrides) ids)"

section \<open>The fingerprint of a list of records\<close>

definition be_bytes :: "u64 \<Rightarrow> string" where
  "be_bytes w = map (\<lambda>i. char_of (drop_bit (8 * i) (unat w) mod 256)) [7, 6, 5, 4, 3, 2, 1, 0]"

definition fingerprint_input :: "string list \<Rightarrow> string" where
  "fingerprint_input records = concat (map (\<lambda>r. be_bytes (of_nat (length r)) @ r) records)"

definition hex_digit :: "nat \<Rightarrow> char" where
  "hex_digit n = ''0123456789abcdef'' ! n"

definition fingerprint :: "(string \<Rightarrow> string) \<Rightarrow> string list \<Rightarrow> string" where
  "fingerprint sha256 records =
     concat (map (\<lambda>b. [hex_digit (of_char b div 16), hex_digit (of_char b mod 16)])
       (sha256 (fingerprint_input records)))"

section \<open>Order of the rows\<close>

lemma version_display_preorder:
  assumes "semver_laws S"
  shows "cmp_preorder (version_display S)"
proof
  note pre = semver_preorder [OF assms]
  fix x y z :: "version option"
  show "version_display S y x = reverse_ordering (version_display S x y)"
    by (cases x; cases y)
      (simp_all add: version_display_def, rule cmp_preorder.cmp_swap [OF pre])
  show "version_display S x y \<noteq> Greater \<Longrightarrow> version_display S y z \<noteq> Greater \<Longrightarrow>
    version_display S x z \<noteq> Greater"
    by (cases x; cases y; cases z)
      (simp_all add: version_display_def, metis cmp_preorder.cmp_le_trans [OF pre])
qed

text \<open>Only rows that both have a version reach the priorities.\<close>

lemma display_order_alt:
  "display_order S U = (\<lambda>l r. then_with (version_display S (ob_version l) (ob_version r))
     (then_with (cmp_of (if ob_version l = None then 0 else row_priority l)
                        (if ob_version r = None then 0 else row_priority r))
       (then_with (cmp_of (source_key U (ce_source (ob_entry l))) (source_key U (ce_source (ob_entry r))))
         (cmp_of (ce_version (ob_entry l)) (ce_version (ob_entry r))))))"
proof (intro ext)
  fix l r
  show "display_order S U l r = then_with (version_display S (ob_version l) (ob_version r))
     (then_with (cmp_of (if ob_version l = None then 0 else row_priority l)
                        (if ob_version r = None then 0 else row_priority r))
       (then_with (cmp_of (source_key U (ce_source (ob_entry l))) (source_key U (ce_source (ob_entry r))))
         (cmp_of (ce_version (ob_entry l)) (ce_version (ob_entry r)))))"
    by (cases "ob_version l"; cases "ob_version r")
      (simp_all add: display_order_def version_display_def then_with_simps cmp_of_def [of 0 0])
qed

lemma display_order_preorder:
  assumes "semver_laws S"
  shows "cmp_preorder (display_order S U)"
  unfolding display_order_alt
  by (intro cmp_preorder_then cmp_preorder_on [OF version_display_preorder [OF assms]]
      cmp_preorder_on [OF cmp_of_preorder])

lemma display_order_version:
  "display_order S U l r \<noteq> Greater \<Longrightarrow> version_display S (ob_version l) (ob_version r) \<noteq> Greater"
  by (auto simp: display_order_def then_with_iffs)

section \<open>What the choices guarantee\<close>

lemma known_versioned: "\<not> choice_uncertain project row \<Longrightarrow> \<exists>v. ob_version row = Some v"
  by (auto simp: choice_uncertain_def)

lemma preferred_member:
  assumes "grp \<noteq> []"
  shows "hd (filter (\<lambda>row. row_priority row = Min (set (map row_priority grp))) grp) \<in> set grp"
proof -
  have "Min (set (map row_priority grp)) \<in> set (map row_priority grp)"
    using assms by (intro Min_in) auto
  then have "filter (\<lambda>row. row_priority row = Min (set (map row_priority grp))) grp \<noteq> []"
    by (auto simp: filter_empty_conv)
  from hd_in_set [OF this] show ?thesis by simp
qed

text \<open>
  A chosen row passed the filters of the choice, and no row that passed them, not even one whose
  evidence is uncertain, has a higher precedence.
\<close>

lemma choose_candidate_spec:
  assumes L: "semver_laws S"
    and chosen: "choose_candidate S U rows stable_only project explicit show = ChosenCandidate c"
  obtains row v where "row \<in> set rows" and "c = ob_evidence row"
    and "choice_blockers stable_only project show row = []" and "\<not> choice_uncertain project row"
    and "ob_version row = Some v"
    and "\<And>r w. r \<in> set rows \<Longrightarrow> choice_blockers stable_only project show r = [] \<Longrightarrow>
      ob_version r = Some w \<Longrightarrow> sv_cmp S w v \<noteq> Greater"
proof -
  note pre = semver_preorder [OF L]
  define passed where "passed = filter (\<lambda>row. choice_blockers stable_only project show row = []) rows"
  define known where
    "known = sort_by (display_order S U) (filter (\<lambda>row. \<not> choice_uncertain project row) passed)"
  obtain b ks where known: "known = b # ks"
    and none: "\<forall>r \<in> set passed. choice_uncertain project r \<longrightarrow> \<not> unknown_relevant S (Some b) r"
    and pref: "choose_preferred S rows explicit known b = ChosenCandidate c"
    using chosen unfolding choose_candidate_def Let_def passed_def [symmetric] known_def [symmetric]
    by (cases known) (auto simp: filter_empty_conv split: if_splits)
  have set_known: "set known = {r \<in> set passed. \<not> choice_uncertain project r}"
    by (auto simp: known_def)
  obtain u where u: "ob_version b = Some u"
    using known_versioned set_known known by (metis (no_types, lifting) list.set_intros(1) mem_Collect_eq)
  define grp where "grp = takeWhile (\<lambda>row. same_precedence S row b) known"
  have "same_precedence S b b"
    using cmp_preorder.cmp_refl [OF pre] by (simp add: same_precedence_def u)
  then have "grp \<noteq> []"
    by (simp add: grp_def known)
  define row where "row = hd (filter (\<lambda>row. row_priority row = Min (set (map row_priority grp))) grp)"
  have c: "c = ob_evidence row"
    using pref unfolding choose_preferred_def Let_def grp_def [symmetric] row_def [symmetric]
    by (auto split: if_splits)
  have "row \<in> set grp"
    unfolding row_def by (rule preferred_member) fact
  then have row: "row \<in> set known" "same_precedence S row b"
    unfolding grp_def by (auto dest: set_takeWhileD)
  then obtain v where v: "ob_version row = Some v" and eq: "sv_cmp S v u = Equal"
    by (auto simp: same_precedence_def u split: option.splits)
  have top: "sv_cmp S w u \<noteq> Greater"
    if "r \<in> set rows" "choice_blockers stable_only project show r = []" "ob_version r = Some w" for r w
  proof (cases "choice_uncertain project r")
    case True
    then have "\<not> unknown_relevant S (Some b) r"
      using none that by (simp add: passed_def)
    then show ?thesis
      using that by (simp add: unknown_relevant_def u)
  next
    case False
    then have "r \<in> set known"
      using that by (simp add: set_known passed_def)
    moreover have "sorted_wrt (\<lambda>a b. display_order S U a b \<noteq> Greater) known"
      unfolding known_def by (rule cmp_preorder.sort_by_sorted [OF display_order_preorder [OF L]])
    ultimately have "r = b \<or> display_order S U b r \<noteq> Greater"
      using known by auto
    then show ?thesis
    proof
      assume "r = b"
      then show ?thesis
        using u that cmp_preorder.cmp_refl [OF pre] by simp
    next
      assume "display_order S U b r \<noteq> Greater"
      from display_order_version [OF this] show ?thesis
        using that by (simp add: version_display_def u)
    qed
  qed
  show thesis
  proof
    show "row \<in> set rows" "choice_blockers stable_only project show row = []"
      "\<not> choice_uncertain project row" "c = ob_evidence row" "ob_version row = Some v"
      using row c v by (auto simp: set_known passed_def)
    show "sv_cmp S w v \<noteq> Greater"
      if "r \<in> set rows" "choice_blockers stable_only project show r = []" "ob_version r = Some w" for r w
      using top [OF that] cmp_preorder.cmp_equal_right [OF pre eq] by simp
  qed
qed

section \<open>Rows of a package\<close>

lemma catalog_rows_push:
  "bt_ok m \<Longrightarrow> catalog_rows (bt_push k e m) pid = catalog_rows m pid @ (if k = pid then [e] else [])"
  by (auto simp: catalog_rows_def bt_push_def bt_get_insert split: option.splits)

lemma visible_catalog_rows:
  "catalog_rows (visible_catalog input) pid =
     filter (\<lambda>e. visible input (ce_source e) \<and> ce_package_id e = pid) (ci_entries input)"
proof -
  have "bt_ok m \<Longrightarrow> catalog_rows (fold (\<lambda>e m. if visible input (ce_source e)
      then bt_push (ce_package_id e) e m else m) es m) pid =
    catalog_rows m pid @ filter (\<lambda>e. visible input (ce_source e) \<and> ce_package_id e = pid) es" for es m
    by (induction es arbitrary: m) (auto simp: catalog_rows_push)
  from this [of "[]" "ci_entries input"] show ?thesis
    by (simp add: visible_catalog_def catalog_rows_def)
qed

text \<open>The summary and the list of versions look at the same rows.\<close>

lemma summary_rows:
  "observed_entries S input (catalog_rows (visible_catalog input) pid) src inst =
     observed_rows S input pid src inst"
  unfolding observed_rows_def observed_entries_def visible_catalog_rows Let_def
  by (auto simp: entry_selected_def intro!: arg_cong [of _ _ "map _"] filter_cong)

lemma observed_row:
  assumes "row \<in> set (observed_rows S input pid src inst)"
  obtains e where "e \<in> set (ci_entries input)" and "ce_package_id e = pid"
    and "entry_selected input src e"
    and "row = observe S input (uv_parse_editor (po_unity_version (ci_project input))) inst e"
  using assms by (auto simp: observed_rows_def observed_entries_def)

lemma observed_rowI:
  "e \<in> set (ci_entries input) \<Longrightarrow> ce_package_id e = pid \<Longrightarrow> entry_selected input src e \<Longrightarrow>
    observe S input (uv_parse_editor (po_unity_version (ci_project input))) inst e
      \<in> set (observed_rows S input pid src inst)"
  by (auto simp: observed_rows_def observed_entries_def)

lemma observe_simps [simp]:
  "ob_entry (observe S input pu inst e) = e"
  "ob_version (observe S input pu inst e) = sv_parse S (ce_version e)"
  "ev_version (ob_evidence (observe S input pu inst e)) = ce_version e"
  "ev_source (ob_evidence (observe S input pu inst e)) = ce_source e"
  "ev_source_revision (ob_evidence (observe S input pu inst e)) = ce_source_revision e"
  "ev_classification (ob_evidence (observe S input pu inst e)) = classification_of (sv_parse S (ce_version e))"
  "ev_relation (ob_evidence (observe S input pu inst e)) = relation_of S (sv_parse S (ce_version e)) inst"
  "ev_unity (ob_evidence (observe S input pu inst e)) =
     unity_of pu (package_minimum (ce_unity e) (ce_unity_release e))"
  by (simp_all add: observe_def Let_def)

lemma unity_of_iffs:
  "unity_of pu m = UnityCompatible \<or> unity_of pu m = UnityNotRequired \<longleftrightarrow>
     (\<exists>v. m = Inr v \<and> meets_minimum pu v)"
  "unity_of pu m = UnityTooOld \<longleftrightarrow> (\<exists>v. m = Inr (Some v) \<and> pu \<noteq> None \<and> \<not> meets_minimum pu (Some v))"
  by (auto simp: unity_of_def meets_minimum_def split: sum.splits option.splits if_splits)

lemma eligible_iff:
  "ev_eligibility (ob_evidence (observe S input pu inst e)) = Eligible \<longleftrightarrow>
     \<not> ce_yanked e \<and> ce_metadata_ready e \<and>
     (\<exists>v. sv_parse S (ce_version e) = Some v \<and> (v_pre v = [] \<or> show_prerelease (ci_settings input))) \<and>
     (\<exists>m. package_minimum (ce_unity e) (ce_unity_release e) = Inr m \<and> meets_minimum pu m)"
proof -
  have "ev_eligibility (ob_evidence (observe S input pu inst e)) = Eligible \<longleftrightarrow>
      entry_reasons input e (package_minimum (ce_unity e) (ce_unity_release e))
        (classification_of (sv_parse S (ce_version e)))
        (unity_of pu (package_minimum (ce_unity e) (ce_unity_release e))) = []"
    by (simp add: observe_def Let_def eligibility_of_def)
  also have "\<dots> \<longleftrightarrow> \<not> ce_yanked e \<and> ce_metadata_ready e \<and>
     (\<exists>v. sv_parse S (ce_version e) = Some v \<and> (v_pre v = [] \<or> show_prerelease (ci_settings input))) \<and>
     (unity_of pu (package_minimum (ce_unity e) (ce_unity_release e)) = UnityCompatible \<or>
      unity_of pu (package_minimum (ce_unity e) (ce_unity_release e)) = UnityNotRequired)"
    by (cases "unity_of pu (package_minimum (ce_unity e) (ce_unity_release e))")
      (auto simp: entry_reasons_def classification_of_def split: option.splits)
  finally show ?thesis by (simp add: unity_of_iffs)
qed

lemma observe_reasons:
  "set (ev_reasons (ob_evidence (observe S input pu inst e))) \<inter> {PrereleaseExcluded} =
     (if classification_of (sv_parse S (ce_version e)) = Prerelease \<and> \<not> show_prerelease (ci_settings input)
      then {PrereleaseExcluded} else {})"
  by (simp add: observe_def Let_def entry_reasons_def)

lemma eligible_direct_match:
  assumes "ev_eligibility (ob_evidence (observe S input pu inst e)) = Eligible"
  shows "resolver_direct_match (observe S input pu inst e)"
proof -
  have "PrereleaseExcluded \<notin> set (ev_reasons (ob_evidence (observe S input pu inst e)))"
    using assms observe_reasons [of S input pu inst e]
    by (auto simp: eligible_iff classification_of_def split: if_splits)
  with assms show ?thesis
    by (simp add: resolver_direct_match_def eligible_iff unity_of_iffs) auto
qed

section \<open>Updates\<close>

definition override_of :: "source_override list \<Rightarrow> string \<Rightarrow> source_selector option" where
  "override_of sources pid = map_of (rev (map (\<lambda>s. (so_package_id s, so_source s)) sources)) pid"

lemma package_summary_id [simp]:
  "cs_package_id (package_summary S U parse_url input catalog direct locked overrides pid) = pid"
  by (simp add: package_summary_def Let_def split: prod.splits)

lemma summary_member:
  assumes "s \<in> set (evaluate_candidate_summary S U parse_url input ids sources)"
  obtains locked direct where
    "s = package_summary S U parse_url input (visible_catalog input) direct locked
           (bt_of_list (map (\<lambda>s. (so_package_id s, so_source s)) sources)) (cs_package_id s)"
proof -
  from assms obtain locked direct pid where
    "s = package_summary S U parse_url input (visible_catalog input) direct locked
           (bt_of_list (map (\<lambda>s. (so_package_id s, so_source s)) sources)) pid"
    unfolding evaluate_candidate_summary_def Let_def by auto
  then show thesis by (intro that) simp
qed

lemma package_summary_fields:
  assumes inst: "inst = installed_from_lock S (bt_get locked pid)"
    and rows: "rows = observed_rows S input pid (bt_get overrides pid) inst"
    and pick: "\<And>st pr. pick st pr = choose_candidate S U rows st pr (bt_get overrides pid \<noteq> None)
      (show_prerelease (ci_settings input))"
    and s: "s = package_summary S U parse_url input (visible_catalog input) direct locked overrides pid"
  shows "cs_package_id s = pid" "cs_installed s = inst"
    "cs_latest s = pick False False" "cs_latest_stable s = pick True False"
    "cs_project_latest s = pick False True" "cs_project_latest_stable s = pick True True"
    "cs_update s = update_evidence (pick False True) inst"
    "cs_stable_update s = update_evidence (pick True True) inst"
    "cs_providers s = bt_values (bt_of_list (map (\<lambda>e. (source_key U (ce_source e),
       \<lparr>cp_source = ce_source e, cp_source_revision = ce_source_revision e\<rparr>))
       (filter (\<lambda>e. visible input (ce_source e) \<and> ce_package_id e = pid) (ci_entries input))))"
  unfolding s package_summary_def Let_def summary_rows pick rows inst
  by (simp_all add: visible_catalog_rows split: prod.splits)

text \<open>What an entry must offer to be proposed as an update.\<close>

definition usable_target ::
  "semver_ops \<Rightarrow> evidence_input \<Rightarrow> string \<Rightarrow> source_selector option \<Rightarrow> bool \<Rightarrow> candidate_entry \<Rightarrow>
   version \<Rightarrow> bool" where
  "usable_target S input pid src stable_only e v \<longleftrightarrow>
     e \<in> set (ci_entries input) \<and> ce_package_id e = pid \<and> entry_selected input src e \<and>
     \<not> ce_yanked e \<and> sv_parse S (ce_version e) = Some v \<and>
     (v_pre v = [] \<or> \<not> stable_only \<and> show_prerelease (ci_settings input)) \<and>
     (\<exists>m. package_minimum (ce_unity e) (ce_unity_release e) = Inr m \<and>
        meets_minimum (uv_parse_editor (po_unity_version (ci_project input))) m)"

lemma usable_not_blocked:
  "usable_target S input pid src stable_only e v \<Longrightarrow>
    choice_blockers stable_only True (show_prerelease (ci_settings input))
      (observe S input (uv_parse_editor (po_unity_version (ci_project input))) inst e) = []"
  by (auto simp: usable_target_def choice_blockers_def classification_of_def unity_of_iffs)

lemma update_evidence_Target:
  "update_evidence choice inst = UpdateTarget c \<longleftrightarrow>
     (\<exists>l. inst = Locked l) \<and> choice = ChosenCandidate c \<and> ev_relation c = Newer \<and> ev_eligibility c = Eligible"
  by (auto simp: update_evidence_def split: candidate_installed.splits candidate_choice.splits if_splits)

lemma relation_Newer:
  "relation_of S v inst = Newer \<longleftrightarrow>
     (\<exists>w l u. v = Some w \<and> inst = Locked l \<and> sv_parse S l = Some u \<and> sv_cmp S w u = Greater)"
  by (auto simp: relation_of_def split: option.splits candidate_installed.splits ordering.splits)


text \<open>
  C31: An update proposed in a summary is a visible, ready, usable version of that package from the
  requested source, strictly newer than the locked version, and no usable version has a higher
  precedence; a stable update is never a pre-release.
\<close>

theorem update_target_sound:
  assumes L: "semver_laws S"
    and s: "s \<in> set (evaluate_candidate_summary S U parse_url input ids sources)"
    and upd: "(if st then cs_stable_update s else cs_update s) = UpdateTarget c"
  shows "\<exists>e v locked u.
     usable_target S input (cs_package_id s) (override_of sources (cs_package_id s)) st e v \<and>
     ce_metadata_ready e \<and> ev_version c = ce_version e \<and> ev_source c = ce_source e \<and>
     ev_source_revision c = ce_source_revision e \<and>
     cs_installed s = Locked locked \<and> sv_parse S locked = Some u \<and> sv_cmp S v u = Greater \<and>
     (\<forall>e' v'. usable_target S input (cs_package_id s) (override_of sources (cs_package_id s)) st e' v' \<longrightarrow>
        sv_cmp S v' v \<noteq> Greater)"
proof -
  define pid where "pid = cs_package_id s"
  define src where "src = override_of sources pid"
  define pre_ok where "pre_ok = show_prerelease (ci_settings input)"
  obtain locked direct where s': "s = package_summary S U parse_url input (visible_catalog input) direct
      locked (bt_of_list (map (\<lambda>s. (so_package_id s, so_source s)) sources)) pid"
    using s unfolding pid_def by (rule summary_member)
  define inst where "inst = installed_from_lock S (bt_get locked pid)"
  define rows where "rows = observed_rows S input pid src inst"
  have src: "bt_get (bt_of_list (map (\<lambda>s. (so_package_id s, so_source s)) sources)) pid = src"
    by (simp add: src_def override_of_def bt_of_list_get)
  note fields = package_summary_fields [OF inst_def rows_def [unfolded src [symmetric]] refl s']
  have "update_evidence (choose_candidate S U rows st True (src \<noteq> None) pre_ok) inst = UpdateTarget c"
    using upd fields(7,8) unfolding src pre_ok_def by (cases st) simp_all
  then obtain l where l: "inst = Locked l"
    and chosen: "choose_candidate S U rows st True (src \<noteq> None) pre_ok = ChosenCandidate c"
    and newer: "ev_relation c = Newer" and eligible: "ev_eligibility c = Eligible"
    by (auto simp: update_evidence_Target)
  from L chosen obtain row v where row: "row \<in> set rows" "c = ob_evidence row"
      "choice_blockers st True pre_ok row = []" "ob_version row = Some v"
    and best: "\<And>r w. r \<in> set rows \<Longrightarrow> choice_blockers st True pre_ok r = [] \<Longrightarrow>
      ob_version r = Some w \<Longrightarrow> sv_cmp S w v \<noteq> Greater"
    by (rule choose_candidate_spec) blast
  from row(1) obtain e where e: "e \<in> set (ci_entries input)" "ce_package_id e = pid"
      "entry_selected input src e"
      "row = observe S input (uv_parse_editor (po_unity_version (ci_project input))) inst e"
    unfolding rows_def by (rule observed_row)
  have "usable_target S input pid src st e v"
    using e row eligible
    by (auto simp: usable_target_def eligible_iff choice_blockers_def classification_of_def
        split: if_splits)
  moreover have "sv_cmp S v' v \<noteq> Greater" if "usable_target S input pid src st e' v'" for e' v'
  proof (rule best)
    show "choice_blockers st True pre_ok
        (observe S input (uv_parse_editor (po_unity_version (ci_project input))) inst e') = []"
      unfolding pre_ok_def using that by (rule usable_not_blocked)
    show "observe S input (uv_parse_editor (po_unity_version (ci_project input))) inst e' \<in> set rows"
      using that unfolding rows_def by (intro observed_rowI) (auto simp: usable_target_def)
  qed (use that in \<open>auto simp: usable_target_def\<close>)
  moreover have "\<exists>u. sv_parse S l = Some u \<and> sv_cmp S v u = Greater"
    using newer e row l by (auto simp: relation_Newer)
  ultimately show ?thesis
    using e row eligible l fields(2)
    by (auto simp: eligible_iff simp flip: pid_def src_def)
qed

section \<open>The list of versions\<close>

lemma map_of_update: "map_of (AList.update k v m) = (map_of m)(k \<mapsto> v)"
  by (rule update_conv')

lemma direct_counts_get:
  "(case map_of (direct_counts U rows) key of None \<Rightarrow> 0 | Some n \<Rightarrow> n) =
     length (filter (\<lambda>row. resolver_direct_match row \<and> exact_group U row = Some key) rows)"
proof -
  have "(case map_of (fold (count_direct U) rows m) key of None \<Rightarrow> 0 | Some n \<Rightarrow> n) =
      (case map_of m key of None \<Rightarrow> 0 | Some n \<Rightarrow> n) +
      length (filter (\<lambda>row. resolver_direct_match row \<and> exact_group U row = Some key) rows)" for m
    by (induction rows arbitrary: m)
      (auto simp: count_direct_def map_of_update split: option.splits)
  from this [of "[]"] show ?thesis
    by (simp add: direct_counts_def)
qed

lemma block_ambiguous_simps [simp]:
  "ob_entry (block_ambiguous U counts row) = ob_entry row"
  "ob_version (block_ambiguous U counts row) = ob_version row"
  "ev_version (ob_evidence (block_ambiguous U counts row)) = ev_version (ob_evidence row)"
  "ev_source (ob_evidence (block_ambiguous U counts row)) = ev_source (ob_evidence row)"
  "ev_source_revision (ob_evidence (block_ambiguous U counts row)) = ev_source_revision (ob_evidence row)"
  by (simp_all add: block_ambiguous_def)

lemma block_ambiguous_eligible:
  "ev_eligibility (ob_evidence (block_ambiguous U (direct_counts U rows) row)) = Eligible \<longleftrightarrow>
     ev_eligibility (ob_evidence row) = Eligible \<and>
     (\<forall>key. exact_group U row = Some key \<longrightarrow>
        length (filter (\<lambda>r. resolver_direct_match r \<and> exact_group U r = Some key) rows) \<le> 1)"
  by (auto simp: block_ambiguous_def simp flip: direct_counts_get split: option.splits)

lemma evaluated_mset:
  "mset (evaluate_candidate_versions S U input pid src) =
     image_mset (\<lambda>row. ob_evidence (block_ambiguous U
         (direct_counts U (observed_rows S input pid src (installed S input pid))) row))
       (mset (observed_rows S input pid src (installed S input pid)))"
  by (simp add: evaluate_candidate_versions_def Let_def image_mset.compositionality comp_def)

lemma evaluated_count:
  "length (filter P (evaluate_candidate_versions S U input pid src)) =
     length (filter (\<lambda>row. P (ob_evidence (block_ambiguous U
         (direct_counts U (observed_rows S input pid src (installed S input pid))) row)))
       (observed_rows S input pid src (installed S input pid)))"
proof -
  have "size (filter_mset P (mset (evaluate_candidate_versions S U input pid src))) =
     size (filter_mset (\<lambda>row. P (ob_evidence (block_ambiguous U
         (direct_counts U (observed_rows S input pid src (installed S input pid))) row)))
       (mset (observed_rows S input pid src (installed S input pid))))"
    by (simp add: evaluated_mset filter_mset_image_mset)
  then show ?thesis by (simp flip: mset_filter)
qed

lemma evaluated_member:
  assumes "c \<in> set (evaluate_candidate_versions S U input pid src)"
  obtains row where "row \<in> set (observed_rows S input pid src (installed S input pid))"
    and "c = ob_evidence (block_ambiguous U
         (direct_counts U (observed_rows S input pid src (installed S input pid))) row)"
  using assms unfolding evaluate_candidate_versions_def Let_def by auto

text \<open>
  C32: Of the versions listed for a package, at most one that is eligible comes from any one source
  at any one precedence: two that differ only in build metadata cannot be told apart by a plan.
\<close>

theorem eligible_versions_unambiguous:
  assumes L: "semver_laws S"
  shows "length (filter (\<lambda>c. ev_eligibility c = Eligible \<and> ev_source c = from \<and>
      (case sv_parse S (ev_version c) of None \<Rightarrow> False | Some w \<Rightarrow> sv_cmp S w v = Equal))
    (evaluate_candidate_versions S U input pid src)) \<le> 1"
proof (rule ccontr)
  define rows where "rows = observed_rows S input pid src (installed S input pid)"
  define key where "key = (source_key U from, v\<lparr>v_build := []\<rparr>)"
  define Q where "Q row \<longleftrightarrow>
      ev_eligibility (ob_evidence (block_ambiguous U (direct_counts U rows) row)) = Eligible \<and>
      ev_source (ob_evidence row) = from \<and>
      (case sv_parse S (ev_version (ob_evidence row)) of None \<Rightarrow> False | Some w \<Rightarrow> sv_cmp S w v = Equal)"
    for row
  assume "\<not> ?thesis"
  then have two: "length (filter Q rows) > 1"
    by (simp add: evaluated_count Q_def [abs_def] rows_def not_le)
  have Q: "resolver_direct_match row \<and> exact_group U row = Some key \<and>
      length (filter (\<lambda>r. resolver_direct_match r \<and> exact_group U r = Some key) rows) \<le> 1"
    if mem: "row \<in> set rows" "Q row" for row
  proof -
    obtain e where e: "row = observe S input (uv_parse_editor (po_unity_version (ci_project input)))
        (installed S input pid) e"
      using mem(1) unfolding rows_def by (rule observed_row)
    have el: "ev_eligibility (ob_evidence row) = Eligible"
      using mem(2) by (simp add: Q_def block_ambiguous_eligible)
    obtain w where w: "sv_parse S (ce_version e) = Some w" "sv_cmp S w v = Equal"
      using mem(2) by (auto simp: Q_def e split: option.splits)
    have "exact_group U row = Some key"
      using mem(2) w semver_equal [OF L, of w v]
      by (simp add: exact_group_def key_def Q_def e)
    then show ?thesis
      using mem(2) el eligible_direct_match by (auto simp: Q_def block_ambiguous_eligible e)
  qed
  obtain row where "row \<in> set rows" "Q row"
    using two by (metis (no_types, lifting) filter_False length_0_conv not_one_less_zero)
  moreover have "length (filter Q rows) \<le>
      length (filter (\<lambda>r. resolver_direct_match r \<and> exact_group U r = Some key) rows)"
  proof -
    have "filter Q rows = filter Q (filter (\<lambda>r. resolver_direct_match r \<and> exact_group U r = Some key) rows)"
      using Q by (auto intro: filter_cong)
    then show ?thesis by (metis length_filter_le)
  qed
  ultimately show False
    using Q two by fastforce
qed

text \<open>
  C33: The list of versions shows every visible entry of the package and source exactly once, best
  first, and reading it never invents an entry.
\<close>

theorem versions_complete_and_ordered:
  assumes L: "semver_laws S"
  shows "mset (map (\<lambda>c. (ev_version c, ev_source c, ev_source_revision c))
           (evaluate_candidate_versions S U input pid src)) =
         mset (map (\<lambda>e. (ce_version e, ce_source e, ce_source_revision e))
           (filter (\<lambda>e. ce_package_id e = pid \<and> entry_selected input src e) (ci_entries input))) \<and>
     sorted_wrt (\<lambda>c d. version_display S (sv_parse S (ev_version c)) (sv_parse S (ev_version d)) \<noteq> Greater)
           (evaluate_candidate_versions S U input pid src)"
proof
  show "mset (map (\<lambda>c. (ev_version c, ev_source c, ev_source_revision c))
           (evaluate_candidate_versions S U input pid src)) =
         mset (map (\<lambda>e. (ce_version e, ce_source e, ce_source_revision e))
           (filter (\<lambda>e. ce_package_id e = pid \<and> entry_selected input src e) (ci_entries input)))"
    unfolding mset_map evaluated_mset
    by (simp add: observed_rows_def observed_entries_def image_mset.compositionality comp_def)
  define rows where "rows = map (block_ambiguous U (direct_counts U (observed_rows S input pid src
      (installed S input pid)))) (observed_rows S input pid src (installed S input pid))"
  have parsed: "ob_version row = sv_parse S (ev_version (ob_evidence row))" if "row \<in> set rows" for row
    using that unfolding rows_def by (auto elim!: observed_row)
  have "sorted_wrt (\<lambda>a b. display_order S U a b \<noteq> Greater) (sort_by (display_order S U) rows)"
    by (rule cmp_preorder.sort_by_sorted [OF display_order_preorder [OF L]])
  then have "sorted_wrt (\<lambda>a b. version_display S (sv_parse S (ev_version (ob_evidence a)))
      (sv_parse S (ev_version (ob_evidence b))) \<noteq> Greater) (sort_by (display_order S U) rows)"
    by (rule sorted_wrt_mono_rel [rotated]) (use parsed display_order_version in fastforce)
  then show "sorted_wrt (\<lambda>c d. version_display S (sv_parse S (ev_version c)) (sv_parse S (ev_version d)) \<noteq> Greater)
      (evaluate_candidate_versions S U input pid src)"
    by (simp add: evaluate_candidate_versions_def Let_def rows_def sorted_wrt_map)
qed

section \<open>Hidden sources\<close>

lemma bt_of_list_member: "(k, v) \<in> set (bt_of_list kvs) \<Longrightarrow> (k, v) \<in> set kvs"
  by (auto simp: bt_in_set_iff bt_of_list_get dest: map_of_SomeD)

lemma chosen_visible:
  assumes "semver_laws S"
    and "choose_candidate S U (observed_rows S input pid src inst) st pr ex show = ChosenCandidate c"
  shows "visible input (ev_source c) \<and> (src \<noteq> None \<longrightarrow> src = Some (ev_source c))"
proof -
  from assms obtain row where "row \<in> set (observed_rows S input pid src inst)" "c = ob_evidence row"
    by (rule choose_candidate_spec) blast
  then show ?thesis
    by (auto simp: entry_selected_def split: option.splits elim!: observed_row)
qed

text \<open>
  C34: Nothing of a hidden source is ever shown: neither a listed version, nor a provider, nor any of
  the choices, and with an explicit source only that source is chosen.
\<close>

theorem hidden_sources_never_shown:
  assumes "semver_laws S"
  shows "list_all (\<lambda>c. visible input (ev_source c)) (evaluate_candidate_versions S U input pid src) \<and>
     list_all (\<lambda>s. list_all (\<lambda>p. visible input (cp_source p)) (cs_providers s) \<and>
           list_all (\<lambda>choice. case choice of ChosenCandidate c \<Rightarrow>
               visible input (ev_source c) \<and>
               override_of sources (cs_package_id s) \<in> {None, Some (ev_source c)} | _ \<Rightarrow> True)
             [cs_latest s, cs_latest_stable s, cs_project_latest s, cs_project_latest_stable s])
         (evaluate_candidate_summary S U parse_url input ids sources)"
proof
  show "list_all (\<lambda>c. visible input (ev_source c)) (evaluate_candidate_versions S U input pid src)"
    by (auto simp: list_all_iff entry_selected_def elim!: evaluated_member observed_row)
  have "list_all (\<lambda>p. visible input (cp_source p)) (cs_providers s) \<and>
      list_all (\<lambda>choice. case choice of ChosenCandidate c \<Rightarrow>
          visible input (ev_source c) \<and>
          override_of sources (cs_package_id s) \<in> {None, Some (ev_source c)} | _ \<Rightarrow> True)
        [cs_latest s, cs_latest_stable s, cs_project_latest s, cs_project_latest_stable s]"
    if mem: "s \<in> set (evaluate_candidate_summary S U parse_url input ids sources)" for s
  proof -
    obtain locked direct where s: "s = package_summary S U parse_url input (visible_catalog input) direct
        locked (bt_of_list (map (\<lambda>s. (so_package_id s, so_source s)) sources)) (cs_package_id s)"
      using mem by (rule summary_member)
    note fields = package_summary_fields [OF refl refl refl s]
    have ov: "bt_get (bt_of_list (map (\<lambda>s. (so_package_id s, so_source s)) sources)) =
        override_of sources"
      by (simp add: override_of_def bt_of_list_get fun_eq_iff)
    have "visible input (cp_source p)" if "p \<in> set (cs_providers s)" for p
      using that unfolding fields(9) by (auto dest!: bt_of_list_member)
    moreover have "visible input (ev_source c) \<and> override_of sources (cs_package_id s) \<in> {None, Some (ev_source c)}"
      if "choose_candidate S U (observed_rows S input (cs_package_id s)
          (override_of sources (cs_package_id s)) inst) st pr ex sp = ChosenCandidate c"
      for c st pr ex sp inst
      using chosen_visible [OF assms that] by auto
    ultimately show ?thesis
      unfolding fields(3-6) ov by (auto simp: list_all_iff split: candidate_choice.splits)
  qed
  then show "list_all (\<lambda>s. list_all (\<lambda>p. visible input (cp_source p)) (cs_providers s) \<and>
           list_all (\<lambda>choice. case choice of ChosenCandidate c \<Rightarrow>
               visible input (ev_source c) \<and>
               override_of sources (cs_package_id s) \<in> {None, Some (ev_source c)} | _ \<Rightarrow> True)
             [cs_latest s, cs_latest_stable s, cs_project_latest s, cs_project_latest_stable s])
         (evaluate_candidate_summary S U parse_url input ids sources)"
    by (auto simp: list_all_iff)
qed

section \<open>The fingerprint\<close>

lemma be_bytes_length [simp]: "length (be_bytes w) = 8"
  by (simp add: be_bytes_def)

lemma be_bytes_inject: "be_bytes w = be_bytes v \<longleftrightarrow> w = v"
proof
  assume eq: "be_bytes w = be_bytes v"
  define m n where "m = unat w" and "n = unat v"
  have small: "m < 256 ^ 8" "n < 256 ^ 8"
    using unsigned_less [of w] unsigned_less [of v] by (simp_all add: m_def n_def)
  have "drop_bit (8 * i) m mod 256 = drop_bit (8 * i) n mod 256" if "i < 8" for i
  proof -
    have "i \<in> set [7, 6, 5, 4, 3, 2, 1, 0 :: nat]"
      using that by (auto simp: less_Suc_eq numeral_eq_Suc)
    then show ?thesis
      using eq by (auto simp: be_bytes_def m_def n_def)
  qed
  then have d: "m div 256 ^ i mod 256 = n div 256 ^ i mod 256" if "i < 8" for i
    using that by (simp add: drop_bit_eq_div power_mult)
  have "m mod 256 ^ k = n mod 256 ^ k" if "k \<le> 8" for k
    using that
  proof (induction k)
    case (Suc k)
    have "x mod 256 ^ Suc k = 256 ^ k * (x div 256 ^ k mod 256) + x mod 256 ^ k" for x :: nat
      by (simp only: power_Suc2 mod_mult2_eq)
    with Suc d [of k] show ?case by simp
  qed simp
  from this [of 8] small have "m = n" by simp
  then show "w = v" by (simp add: m_def n_def unsigned_word_eqI)
qed simp

lemma fingerprint_input_inject:
  assumes "list_all (\<lambda>r. length r < 2 ^ 64) xs" and "list_all (\<lambda>r. length r < 2 ^ 64) ys"
    and "fingerprint_input xs = fingerprint_input ys"
  shows "xs = ys"
  using assms
proof (induction xs arbitrary: ys)
  case Nil
  then show ?case by (cases ys) (auto simp: fingerprint_input_def dest: arg_cong [of _ _ length])
next
  case (Cons x xs)
  show ?case
  proof (cases ys)
    case Nil
    then show ?thesis
      using Cons.prems(3) by (auto simp: fingerprint_input_def dest: arg_cong [of _ _ length])
  next
    case ys: (Cons y zs)
    have split: "be_bytes (of_nat (length x)) = be_bytes (of_nat (length y)) \<and>
        x @ fingerprint_input xs = y @ fingerprint_input zs"
      using Cons.prems(3) ys by (simp add: fingerprint_input_def append_eq_append_conv)
    then have "(of_nat (length x) :: u64) = of_nat (length y)"
      by (simp add: be_bytes_inject)
    then have "length x = length y"
      using Cons.prems(1,2) ys
      by (auto dest!: arg_cong [of _ _ unat] simp: unat_of_nat take_bit_nat_eq_self)
    with split Cons ys show ?thesis by simp
  qed
qed

lemma hex_digit_inject: "m < 16 \<Longrightarrow> n < 16 \<Longrightarrow> hex_digit m = hex_digit n \<longleftrightarrow> m = n"
  unfolding hex_digit_def by (rule nth_eq_iff_index_eq) simp_all

lemma fingerprint_digest_inject:
  "concat (map (\<lambda>b. [hex_digit (of_char b div 16), hex_digit (of_char b mod 16)]) s) =
     concat (map (\<lambda>b. [hex_digit (of_char b div 16), hex_digit (of_char b mod 16)]) t) \<Longrightarrow> s = t"
proof (induction s arbitrary: t)
  case Nil
  then show ?case by (cases t) auto
next
  case (Cons b s)
  then obtain c u where t: "t = c # u"
    by (cases t) auto
  have "(of_char b :: nat) div 16 < 16" "(of_char c :: nat) div 16 < 16"
    using nat_of_char_less_256 [of b] nat_of_char_less_256 [of c] by linarith+
  with Cons.prems t have "(of_char b :: nat) div 16 = of_char c div 16" "(of_char b :: nat) mod 16 = of_char c mod 16"
    by (simp_all add: hex_digit_inject)
  then have "(of_char b :: nat) = of_char c"
    by (metis div_mult_mod_eq)
  with Cons t show ?case by simp
qed

text \<open>
  Two different lists of records have the same fingerprint only where SHA-256 itself collides:
  the length prefixes keep the record boundaries apart.
\<close>

theorem fingerprint_boundaries:
  assumes "list_all (\<lambda>r. length r < 2 ^ 64) xs" and "list_all (\<lambda>r. length r < 2 ^ 64) ys"
    and "fingerprint sha256 xs = fingerprint sha256 ys" and "xs \<noteq> ys"
  shows "fingerprint_input xs \<noteq> fingerprint_input ys \<and>
    sha256 (fingerprint_input xs) = sha256 (fingerprint_input ys)"
  using assms fingerprint_input_inject fingerprint_digest_inject
  unfolding fingerprint_def by blast


section \<open>A concrete input\<close>

text \<open>Version 1.0.0 is locked; 1.2.0 is offered by two sources, one of them hidden.\<close>

definition demo_entry :: "string \<Rightarrow> string \<Rightarrow> candidate_entry" where
  "demo_entry v repo =
     \<lparr>ce_package_id = ''p'', ce_version = v, ce_display_name = None,
      ce_links = \<lparr>documentation = None, changelog = None\<rparr>, ce_source = SelectRepository repo,
      ce_source_revision = 1, ce_priority = 0, ce_yanked = False, ce_unity = None,
      ce_unity_release = None, ce_metadata_ready = True, ce_legacy_metadata_present = False\<rparr>"

definition demo_input :: evidence_input where
  "demo_input =
     \<lparr>ci_project =
        \<lparr>root_path = ''/p'', path_identity_key = [], po_project_type = Worlds,
         po_unity_version = ''2022.3.22f1'', unity_revision = None, vpm_manifest = ManifestValid,
         upm_manifest = ManifestValid, direct_dependencies = [],
         locked_dependencies = [\<lparr>di_package_id = ''p'', di_value = ''1.0.0''\<rparr>], po_issues = []\<rparr>,
      ci_entries = [demo_entry ''1.2.0'' ''a'', demo_entry ''1.2.0'' ''hidden'', demo_entry ''1.0.0'' ''a'',
        demo_entry ''2.0.0-rc.1'' ''a''],
      ci_settings = \<lparr>show_prerelease = False, hidden_repository_ids = [''hidden''],
        hide_local_user_packages = False\<rparr>\<rparr>"

lemma demo_summary:
  "map (\<lambda>s. (cs_package_id s, case cs_update s of UpdateTarget c \<Rightarrow> ev_version c | _ \<Rightarrow> []))
     (evaluate_candidate_summary demo_semver demo_uuid (\<lambda>_. None) demo_input None []) = [(''p'', ''1.2.0'')]"
  by code_simp

theorem update_target_sound_witness:
  "\<exists>e v u. usable_target demo_semver demo_input ''p'' (override_of [] ''p'') False e v \<and>
     ce_metadata_ready e \<and> sv_parse demo_semver ''1.0.0'' = Some u \<and> sv_cmp demo_semver v u = Greater"
proof -
  obtain s c where s: "s \<in> set (evaluate_candidate_summary demo_semver demo_uuid (\<lambda>_. None) demo_input None [])"
    "cs_package_id s = ''p''" "cs_update s = UpdateTarget c"
    using demo_summary by (auto split: candidate_update.splits)
  have "map cs_installed (evaluate_candidate_summary demo_semver demo_uuid (\<lambda>_. None) demo_input None []) =
      [Locked ''1.0.0'']"
    by code_simp
  then have "cs_installed s = Locked ''1.0.0''"
    using s(1) by auto
  then show ?thesis
    using update_target_sound [OF demo_semver_laws s(1), of False c] s by auto
qed

theorem eligible_versions_unambiguous_witness:
  "length (filter (\<lambda>c. ev_eligibility c = Eligible \<and> ev_source c = SelectRepository ''a'' \<and>
      (case sv_parse demo_semver (ev_version c) of None \<Rightarrow> False
       | Some w \<Rightarrow> sv_cmp demo_semver w (version_new 1 2 0) = Equal))
    (evaluate_candidate_versions demo_semver demo_uuid demo_input ''p'' None)) \<le> 1"
  by (rule eligible_versions_unambiguous [OF demo_semver_laws])

theorem versions_complete_and_ordered_witness:
  "length (evaluate_candidate_versions demo_semver demo_uuid demo_input ''p'' None) = 3 \<and>
   sorted_wrt (\<lambda>c d. version_display demo_semver (sv_parse demo_semver (ev_version c))
       (sv_parse demo_semver (ev_version d)) \<noteq> Greater)
     (evaluate_candidate_versions demo_semver demo_uuid demo_input ''p'' None)"
proof -
  have "length (filter (\<lambda>e. ce_package_id e = ''p'' \<and> entry_selected demo_input None e)
      (ci_entries demo_input)) = 3"
    by code_simp
  with versions_complete_and_ordered [OF demo_semver_laws, of demo_uuid demo_input "''p''" None]
  show ?thesis
    by (metis (no_types, lifting) length_map mset_eq_length)
qed

theorem hidden_sources_never_shown_witness:
  "list_all (\<lambda>c. visible demo_input (ev_source c))
     (evaluate_candidate_versions demo_semver demo_uuid demo_input ''p'' None)"
  using hidden_sources_never_shown [OF demo_semver_laws] by blast

theorem fingerprint_boundaries_witness:
  "fingerprint_input [''ab'', ''c''] \<noteq> fingerprint_input [''a'', ''bc''] \<and>
   (\<lambda>s. ''x'') (fingerprint_input [''ab'', ''c'']) = (\<lambda>s. ''x'') (fingerprint_input [''a'', ''bc''])"
  by (rule fingerprint_boundaries) (simp_all add: fingerprint_def)

end
