(* ===== verification/OperationLogs.thy ===== *)
theory OperationLogs
  imports Access RustStrings
begin

text \<open>
  The operation log: \<open>crates/alcomd-application/src/operation_logs.rs\<close> (entries, types, validity)
  and \<open>crates/alcomd-store/src/operation_logs.rs\<close> (what a durable step appends, and the pages read
  back).  The log table is a list in insertion order with its \<open>AUTOINCREMENT\<close> counter; the steps a
  call has queued are part of the state.  \<open>serde_json\<close>, \<open>std::path\<close> (which differs by platform) and
  Unicode lower-casing are the fields of \<open>log_ops\<close>; random ids come from a supply.
\<close>

section \<open>Entries\<close>

definition log_max_safe_sequence :: nat where
  "log_max_safe_sequence = 9007199254740991"

definition log_max_entry_bytes :: nat where
  "log_max_entry_bytes = 512 * 1024"

definition log_max_details_bytes :: nat where
  "log_max_details_bytes = 256 * 1024"

definition log_max_path_bytes :: nat where
  "log_max_path_bytes = 128 * 1024"

datatype log_outcome = LogStarted | LogSucceeded | LogFailed | LogCancelled | LogWaiting

fun outcome_as_str :: "log_outcome \<Rightarrow> string" where
  "outcome_as_str LogStarted = ''started''"
| "outcome_as_str LogSucceeded = ''succeeded''"
| "outcome_as_str LogFailed = ''failed''"
| "outcome_as_str LogCancelled = ''cancelled''"
| "outcome_as_str LogWaiting = ''waiting''"

datatype log_type = LogRead | LogWrite | LogPassive | LogOpen | LogMaintenance

fun log_type_as_str :: "log_type \<Rightarrow> string" where
  "log_type_as_str LogRead = ''read''"
| "log_type_as_str LogWrite = ''write''"
| "log_type_as_str LogPassive = ''passive''"
| "log_type_as_str LogOpen = ''open''"
| "log_type_as_str LogMaintenance = ''maintenance''"

record log_target =
  lt_kind :: string
  lt_id :: "string option"
  lt_name :: "string option"
  lt_path :: "string option"

record log_entry =
  le_sequence :: nat
  le_entry_id :: string
  le_execution_id :: string
  le_actor :: string
  le_operation_id :: "string option"
  le_occurred_at_ms :: u64
  le_action :: string
  le_step :: string
  le_outcome :: log_outcome
  le_target :: "log_target option"
  le_details :: "string option"

record log_ops =
  entry_size :: "log_entry \<Rightarrow> nat option"                       \<comment> \<open>\<open>serde_json::to_vec\<close>\<close>
  actors_size :: "string list \<Rightarrow> nat option"
  json_text_field :: "string \<Rightarrow> string \<Rightarrow> string option option"   \<comment> \<open>outer \<open>None\<close>: not JSON\<close>
  decode_backup_id :: "string \<Rightarrow> string option"
  path_join :: "string \<Rightarrow> string \<Rightarrow> string"
  path_file_name :: "string \<Rightarrow> string option"
  path_is_absolute :: "string \<Rightarrow> bool"
  to_lowercase :: "string \<Rightarrow> string"

definition log_path :: "string \<Rightarrow> string \<Rightarrow> log_target" where
  "log_path kind path = \<lparr>lt_kind = kind, lt_id = None, lt_name = None, lt_path = Some path\<rparr>"

definition operation_type :: "log_entry \<Rightarrow> log_type option" where
  "operation_type e =
     (if le_action e = ''projects.register'' \<and> le_actor e = ''Core'' then Some LogPassive
      else if le_action e \<in> {''projects.refresh'', ''repositories.refresh'',
        ''packages.userPackages.refresh''} then Some LogRead
      else if le_action e \<in> {''unity.launch'', ''unity.hub.open''} then Some LogOpen
      else if le_action e \<in> {''state.check'', ''unity.installations.refresh''} then Some LogMaintenance
      else if le_action e \<in> {''projects.register'', ''projects.unregister'', ''projects.setFavorite'',
        ''repositories.register'', ''repositories.unregister'', ''repositories.exportListFile'',
        ''packages.apply'', ''packages.bulk'', ''packages.install'', ''packages.remove'',
        ''packages.upgrade'', ''packages.downgrade'', ''packages.resolve'', ''packages.reinstall'',
        ''packages.userPackages.enroll'', ''packages.userPackages.remove'', ''backups.create'',
        ''backups.restore'', ''projects.create'', ''projectTemplates.save'',
        ''projectTemplates.remove'', ''projectTemplates.export'', ''projects.copy'',
        ''projects.delete-directory'', ''projects.unity-migration'', ''extensions.install'',
        ''extensions.uninstall'', ''extensions.enable'', ''extensions.disable'',
        ''extensions.permission'', ''unity.projectLaunchConfig'', ''unity.installations.register'',
        ''unity.installations.remove'', ''settings.update''} then Some LogWrite
      else None)"

text \<open>\<open>str::contains\<close>.\<close>

definition contains_text :: "string \<Rightarrow> string \<Rightarrow> bool" where
  "contains_text value pat =
     list_ex (\<lambda>i. take (length pat) (drop i value) = pat) [0..<length value + 1]"

definition contains_search :: "log_ops \<Rightarrow> log_entry \<Rightarrow> string \<Rightarrow> bool" where
  "contains_search L e normalized =
     list_ex (\<lambda>v. case v of None \<Rightarrow> False | Some t \<Rightarrow> contains_text (to_lowercase L t) normalized)
       [Some (le_actor e), Some (le_action e), Some (le_step e), Some (outcome_as_str (le_outcome e)),
        map_option log_type_as_str (operation_type e),
        Option.bind (le_target e) lt_name, Option.bind (le_target e) lt_path, le_details e]"

definition entry_valid :: "log_ops \<Rightarrow> log_entry \<Rightarrow> bool" where
  "entry_valid L e \<longleftrightarrow>
     le_sequence e \<le> log_max_safe_sequence \<and>
     length (le_entry_id e) = 36 \<and> length (le_execution_id e) = 36 \<and>
     le_actor e \<noteq> [] \<and> length (le_actor e) \<le> 64 \<and>
     le_action e \<noteq> [] \<and> length (le_action e) \<le> 128 \<and>
     le_step e \<noteq> [] \<and> length (le_step e) \<le> 128 \<and>
     (case le_details e of None \<Rightarrow> True | Some d \<Rightarrow> length d \<le> log_max_details_bytes) \<and>
     (case Option.bind (le_target e) lt_path of None \<Rightarrow> True | Some p \<Rightarrow> length p \<le> log_max_path_bytes) \<and>
     (case entry_size L e of None \<Rightarrow> False | Some n \<Rightarrow> n \<le> log_max_entry_bytes)"

section \<open>The state and the context of a command\<close>

text \<open>The tables of other modules that the log reads: owner and id to the stored text.\<close>

record registry_tables =
  project_roots :: "(string \<times> string) \<Rightarrow> string option"
  plan_projects :: "(string \<times> string) \<Rightarrow> string option"
  backup_locators :: "(string \<times> string) \<Rightarrow> string option"

record log_state =
  log_rows :: "(string \<times> log_entry) list"
  log_seq :: nat
  pending_steps :: "log_entry list"
  registry :: registry_tables
  drawn :: nat

record log_call =
  lc_owner :: principal_id
  lc_actor :: string
  lc_execution_id :: string

record store_env =
  env_uuid :: uuid_ops
  env_log :: log_ops
  fresh_uuid :: "nat \<Rightarrow> uuid"
  env_call :: "log_call option"
  operation_failure :: "(operation_id \<times> string) option"

text \<open>\<open>Uuid::new_v4()\<close>: the next value of the supply, printed.\<close>

definition draw :: "store_env \<Rightarrow> 'a log_state_scheme \<Rightarrow> uuid \<times> 'a log_state_scheme" where
  "draw E s = (fresh_uuid E (drawn s), s\<lparr>drawn := drawn s + 1\<rparr>)"

section \<open>Appending\<close>

definition append_log ::
  "store_env \<Rightarrow> principal_id \<Rightarrow> log_entry \<Rightarrow> 'a log_state_scheme \<Rightarrow> store_error + 'a log_state_scheme" where
  "append_log E owner e s =
     and_then (ensure (entry_valid (env_log E) e) CorruptState) (\<lambda>_.
     and_then (ensure (le_occurred_at_ms e \<le> i64_max) Unavailable) (\<lambda>_.
     and_then (ensure (\<not> list_ex (\<lambda>r. le_entry_id (snd r) = le_entry_id e) (log_rows s) \<and>
                       log_seq s < log_max_safe_sequence) Unavailable) (\<lambda>_.
       Inr (s\<lparr>log_rows := log_rows s @ [(principal_as_str owner, e\<lparr>le_sequence := log_seq s + 1\<rparr>)],
              log_seq := log_seq s + 1\<rparr>))))"

record committed_step =
  st_action :: string
  st_step :: string
  st_outcome :: log_outcome
  st_target :: "log_target option"
  st_execution_id :: "string option"
  st_operation_id :: "operation_id option"
  st_details :: "string option"

definition accepted_entry :: "principal_id \<Rightarrow> string option \<Rightarrow> 'a log_state_scheme \<Rightarrow> log_entry option" where
  "accepted_entry owner opid s =
     (case opid of
        None \<Rightarrow> None
      | Some i \<Rightarrow> map_option snd (find (\<lambda>r. fst r = principal_as_str owner \<and>
          le_operation_id (snd r) = Some i \<and> le_step (snd r) = ''accepted'') (log_rows s)))"

definition option_or :: "'a option \<Rightarrow> 'a option \<Rightarrow> 'a option" where
  "option_or x y = (case x of None \<Rightarrow> y | Some _ \<Rightarrow> x)"

text \<open>The execution, actor, target and action of the new entry; \<open>None\<close> where there is no actor to name.\<close>

definition attribution ::
  "log_entry option \<Rightarrow> log_call option \<Rightarrow> committed_step \<Rightarrow>
   (string \<times> string \<times> log_target option \<times> string) option" where
  "attribution existing call cstep =
     (case existing of
        Some e \<Rightarrow> Some (le_execution_id e,
          (if st_step cstep = ''request_cancel'' then (case call of None \<Rightarrow> le_actor e | Some c \<Rightarrow> lc_actor c)
           else le_actor e),
          option_or (st_target cstep) (le_target e), le_action e)
      | None \<Rightarrow>
          (case call of
             Some c \<Rightarrow> Some ((case st_execution_id cstep of None \<Rightarrow> lc_execution_id c | Some x \<Rightarrow> x),
               lc_actor c, st_target cstep, st_action cstep)
           | None \<Rightarrow> None))"

definition step_details :: "(operation_id \<times> string) option \<Rightarrow> committed_step \<Rightarrow> string option" where
  "step_details failure cstep =
     (case failure of
        Some (i, details) \<Rightarrow>
          if Some i = st_operation_id cstep \<and> st_outcome cstep = LogFailed then Some details
          else st_details cstep
      | None \<Rightarrow> st_details cstep)"

definition committed ::
  "store_env \<Rightarrow> principal_id \<Rightarrow> u64 \<Rightarrow> committed_step \<Rightarrow> 'a log_state_scheme \<Rightarrow>
   store_error + 'a log_state_scheme" where
  "committed E owner occurred_at_ms cstep s =
     (let call = (case env_call E of Some c \<Rightarrow> (if lc_owner c = owner then Some c else None) | None \<Rightarrow> None);
          opid = map_option (operation_id_to_string (env_uuid E)) (st_operation_id cstep)
      in case attribution (accepted_entry owner opid s) call cstep of
           None \<Rightarrow> Inr s
         | Some (execution_id, who, target, action) \<Rightarrow>
             let steps = (if call = None then [] else pending_steps s);
                 s1 = (if call = None then s else s\<lparr>pending_steps := []\<rparr>);
                 target' = option_or target (Option.bind (find (\<lambda>e. le_target e \<noteq> None) (List.rev steps)) le_target)
             in and_then (try_fold (\<lambda>e. append_log E owner
                   (e\<lparr>le_execution_id := execution_id, le_operation_id := opid\<rparr>)) steps s1) (\<lambda>s2.
                let (u, s3) = draw E s2 in
                append_log E owner
                  \<lparr>le_sequence = 0, le_entry_id = uuid_to_string (env_uuid E) u,
                   le_execution_id = execution_id, le_actor = who, le_operation_id = opid,
                   le_occurred_at_ms = occurred_at_ms, le_action = action, le_step = st_step cstep,
                   le_outcome = st_outcome cstep, le_target = target',
                   le_details = step_details (operation_failure E) cstep\<rparr> s3))"

section \<open>The log entry of an operation event\<close>

text \<open>The columns of the operation that \<open>operation_edge\<close> selects.\<close>

record operation_view =
  ov_kind :: string
  ov_state :: string
  ov_request :: string
  ov_error :: "string option"
  ov_result :: "string option"

definition progress_outcome :: "string \<Rightarrow> log_outcome" where
  "progress_outcome step =
     (if step \<in> {''inventory_ready'', ''archive_ready'', ''archive_verified'', ''archive_published'',
        ''staging_complete'', ''target_published'', ''state_committed'', ''preflight_complete'',
        ''root_quarantined'', ''preparation_complete'', ''unity_started'', ''unity_exited'',
        ''project_reobserved'', ''packages_replaced'', ''vpm_manifest_committed'',
        ''filesystem_committed'', ''extracted'', ''prepared'', ''cleanup_complete''} then LogSucceeded
      else if step = ''recovery_required'' then LogWaiting else LogStarted)"

definition state_step :: "string \<Rightarrow> (string \<times> log_outcome) option" where
  "state_step st =
     (if st = ''succeeded'' then Some (''completed'', LogSucceeded)
      else if st = ''failed'' then Some (''failed'', LogFailed)
      else if st = ''cancelled'' then Some (''cancelled'', LogCancelled)
      else if st = ''recovering'' then Some (''recover'', LogStarted)
      else if st = ''interrupted'' then Some (''interrupted'', LogWaiting)
      else if st = ''waiting_for_input'' then Some (''waiting_for_input'', LogWaiting)
      else if st = ''running'' then Some (''execute'', LogStarted)
      else if st = ''planning'' then Some (''plan'', LogStarted)
      else if st = ''cancelling'' then Some (''request_cancel'', LogStarted)
      else if st = ''queued'' then Some (''queued'', LogStarted)
      else None)"

text \<open>The step and outcome of an edge, or nothing to log.\<close>

definition edge_step ::
  "log_ops \<Rightarrow> string \<Rightarrow> string \<Rightarrow> string \<Rightarrow> store_error + (string \<times> log_outcome) option" where
  "edge_step L edge phase_payload st =
     (if edge = ''operation.created'' then Inr (Some (''accepted'', LogStarted))
      else if edge = ''operation.cancel_requested'' then Inr (Some (''request_cancel'', LogSucceeded))
      else if edge = ''operation.progress'' then
        and_then (ok_or (json_text_field L phase_payload ''phase'') Unavailable)
          (\<lambda>p. Inr (map_option (\<lambda>step. (step, progress_outcome step)) p))
      else if edge = ''operation.recovered'' then Inr (Some (''recovered'', LogSucceeded))
      else if edge \<in> {''operation.state_changed'', ''operation.completed'', ''operation.succeeded'',
        ''operation.failed'', ''operation.cancelled'', ''operation.interrupted'',
        ''operation.recovering'', ''operation.recovery_failed''} then Inr (state_step st)
      else Inr None)"

record accepted_log =
  al_execution_id :: "string option"
  al_target :: "log_target option"
  al_action :: "string option"

definition no_accepted_log :: accepted_log where
  "no_accepted_log = \<lparr>al_execution_id = None, al_target = None, al_action = None\<rparr>"

definition destination_target :: "log_ops \<Rightarrow> string \<Rightarrow> string \<Rightarrow> log_target" where
  "destination_target L parent leaf =
     (log_path ''project'' (path_join L parent leaf))\<lparr>lt_name := Some leaf\<rparr>"

definition project_target :: "principal_id \<Rightarrow> string \<Rightarrow> 'a log_state_scheme \<Rightarrow> log_target" where
  "project_target owner i s =
     \<lparr>lt_kind = ''project'', lt_id = Some i, lt_name = None,
      lt_path = project_roots (registry s) (principal_as_str owner, i)\<rparr>"

text \<open>The latest planned entry of an execution: \<open>ORDER BY sequence DESC LIMIT 1\<close>.\<close>

definition planned_entry :: "principal_id \<Rightarrow> string \<Rightarrow> 'a log_state_scheme \<Rightarrow> log_entry option" where
  "planned_entry owner i s = map_option snd (find (\<lambda>r. fst r = principal_as_str owner \<and>
     le_execution_id (snd r) = i \<and> le_step (snd r) = ''planned'') (List.rev (log_rows s)))"

definition acceptance_target ::
  "log_ops \<Rightarrow> principal_id \<Rightarrow> string \<Rightarrow> string \<Rightarrow> 'a log_state_scheme \<Rightarrow> store_error + accepted_log" where
  "acceptance_target L owner action request s =
     (case json_text_field L request ''name'' of
        None \<Rightarrow> Inl Unavailable
      | Some name \<Rightarrow>
          let field = (\<lambda>f. Option.bind (json_text_field L request f) (\<lambda>v. v)) in
          if action = ''projects.create'' then
            Inr (no_accepted_log\<lparr>al_target :=
              Option.bind (field ''targetParent'') (\<lambda>parent.
                map_option (destination_target L parent) name)\<rparr>)
          else
            let plan = field ''planId'';
                recorded = Option.bind plan (\<lambda>i. planned_entry owner i s)
            in case Option.bind recorded le_target of
                 Some t \<Rightarrow> Inr \<lparr>al_execution_id = plan, al_target = Some t,
                   al_action = map_option le_action recorded\<rparr>
               | None \<Rightarrow>
                   let project = option_or (field ''projectId'')
                     (if action = ''packages.apply''
                      then Option.bind plan (\<lambda>i. plan_projects (registry s) (principal_as_str owner, i))
                      else None)
                   in Inr \<lparr>al_execution_id = plan,
                        al_target = map_option (\<lambda>i. project_target owner i s) project,
                        al_action = map_option le_action recorded\<rparr>)"

definition completed_backup_target ::
  "log_ops \<Rightarrow> principal_id \<Rightarrow> string option \<Rightarrow> 'a log_state_scheme \<Rightarrow> store_error + log_target option" where
  "completed_backup_target L owner result s =
     (case result of
        None \<Rightarrow> Inr None
      | Some doc \<Rightarrow>
          and_then (ok_or (decode_backup_id L doc) Unavailable) (\<lambda>i.
            Inr (map_option (\<lambda>locator.
                \<lparr>lt_kind = ''backup'', lt_id = Some i, lt_name = path_file_name L locator,
                 lt_path = (if path_is_absolute L locator then Some locator else None)\<rparr>)
              (backup_locators (registry s) (principal_as_str owner, i)))))"

definition operation_edge ::
  "store_env \<Rightarrow> operation_view option \<Rightarrow> principal_id \<Rightarrow> operation_id \<Rightarrow> string \<Rightarrow> string \<Rightarrow> u64 \<Rightarrow>
   'a log_state_scheme \<Rightarrow> store_error + 'a log_state_scheme" where
  "operation_edge E view owner i edge phase_payload occurred_at_ms s =
     (if edge = ''operation.progress'' \<and> phase_payload = ''{}'' then Inr s
      else
        and_then (ok_or view Unavailable) (\<lambda>v.
        and_then (edge_step (env_log E) edge phase_payload (ov_state v)) (\<lambda>so.
          case so of
            None \<Rightarrow> Inr s
          | Some (step, outcome) \<Rightarrow>
              and_then
                (if edge = ''operation.created''
                 then acceptance_target (env_log E) owner (ov_kind v) (ov_request v) s
                 else Inr no_accepted_log) (\<lambda>accepted.
              and_then
                (if ov_kind v = ''backups.create'' \<and> step = ''completed''
                 then completed_backup_target (env_log E) owner (ov_result v) s
                 else Inr (al_target accepted)) (\<lambda>target.
                committed E owner occurred_at_ms
                  \<lparr>st_action = (case al_action accepted of None \<Rightarrow> ov_kind v | Some a \<Rightarrow> a),
                   st_step = step, st_outcome = outcome, st_target = target,
                   st_execution_id = option_or (al_execution_id accepted)
                     (if edge = ''operation.created''
                      then Some (operation_id_to_string (env_uuid E) i) else None),
                   st_operation_id = Some i,
                   st_details = (if outcome = LogFailed then ov_error v else None)\<rparr> s)))))"

section \<open>Reading pages\<close>

record log_query =
  q_before :: "nat option"
  q_after :: "nat option"
  q_limit :: nat
  q_search :: "string option"
  q_actor :: "string option"
  q_outcome :: "log_outcome option"
  q_type :: "log_type option"

text \<open>The number of Unicode characters of a UTF-8 string: its bytes that are no continuation.\<close>

definition char_count :: "string \<Rightarrow> nat" where
  "char_count s = length (filter (\<lambda>c. byte c div 64 \<noteq> (2 :: nat)) s)"

definition query_valid :: "log_query \<Rightarrow> bool" where
  "query_valid q \<longleftrightarrow>
     1 \<le> q_limit q \<and> q_limit q \<le> 200 \<and> \<not> (q_before q \<noteq> None \<and> q_after q \<noteq> None) \<and>
     (case q_search q of None \<Rightarrow> True | Some t \<Rightarrow> char_count t \<le> 256) \<and>
     (case q_actor q of None \<Rightarrow> True | Some a \<Rightarrow> a \<noteq> [] \<and> char_count a \<le> 64) \<and>
     (case q_before q of None \<Rightarrow> True | Some n \<Rightarrow> n \<le> log_max_safe_sequence) \<and>
     (case q_after q of None \<Rightarrow> True | Some n \<Rightarrow> n \<le> log_max_safe_sequence)"

record log_page =
  pg_entries :: "log_entry list"
  pg_actors :: "string list"
  pg_high_watermark :: nat
  pg_has_more :: bool
  pg_next_sequence :: "nat option"

definition page_budget :: nat where
  "page_budget = 4 * 1024 * 1024 - 4096"

definition row_wanted :: "log_ops \<Rightarrow> log_query \<Rightarrow> string \<Rightarrow> log_entry \<Rightarrow> bool" where
  "row_wanted L q search e \<longleftrightarrow>
     (case q_type q of None \<Rightarrow> True | Some t \<Rightarrow> operation_type e = Some t) \<and>
     (search = [] \<or> contains_search L e search)"

text \<open>The loop over the rows; the flag tells that it stopped at a full page.\<close>

fun take_page ::
  "log_ops \<Rightarrow> log_query \<Rightarrow> string \<Rightarrow> log_entry list \<Rightarrow> nat \<Rightarrow> log_entry list \<Rightarrow>
   store_error + (log_entry list \<times> bool)" where
  "take_page L q search [] used acc = Inr (acc, False)"
| "take_page L q search (e # es) used acc =
     (if \<not> row_wanted L q search e then take_page L q search es used acc
      else if \<not> entry_valid L e then Inl CorruptState
      else case entry_size L e of
        None \<Rightarrow> Inl Unavailable
      | Some n \<Rightarrow>
          if length acc = q_limit q \<or> used + n + 1 > page_budget then Inr (acc, True)
          else take_page L q search es (used + n + 1) (acc @ [e]))"

text \<open>The \<open>WHERE\<close> clause and the order of the two queries.\<close>

definition sql_rows :: "principal_id \<Rightarrow> log_query \<Rightarrow> 'a log_state_scheme \<Rightarrow> log_entry list" where
  "sql_rows owner q s =
     (let own = map snd (filter (\<lambda>r. fst r = principal_as_str owner) (log_rows s));
          wanted = (\<lambda>e. (case q_actor q of None \<Rightarrow> True | Some a \<Rightarrow> le_actor e = a) \<and>
                        (case q_outcome q of None \<Rightarrow> True | Some c \<Rightarrow> le_outcome e = c))
      in case q_after q of
           Some n \<Rightarrow> filter (\<lambda>e. le_sequence e > n \<and> wanted e) own
         | None \<Rightarrow> List.rev (filter (\<lambda>e. le_sequence e <
             (case q_before q of None \<Rightarrow> log_max_safe_sequence + 1 | Some n \<Rightarrow> n) \<and> wanted e) own))"

definition log_actors :: "principal_id \<Rightarrow> 'a log_state_scheme \<Rightarrow> string list" where
  "log_actors owner s = take 257 (sort (remdups
     (map (\<lambda>r. le_actor (snd r)) (filter (\<lambda>r. fst r = principal_as_str owner) (log_rows s)))))"

definition read_logs ::
  "log_ops \<Rightarrow> principal_id \<Rightarrow> log_query \<Rightarrow> 'a log_state_scheme \<Rightarrow> store_error + log_page" where
  "read_logs L owner q s =
     and_then (ensure (query_valid q) CorruptState) (\<lambda>_.
     let high = foldr (\<lambda>r m. max (le_sequence (snd r)) m)
           (filter (\<lambda>r. fst r = principal_as_str owner) (log_rows s)) 0;
         actors = log_actors owner s
     in and_then (ensure (length actors \<le> 256) Unavailable) (\<lambda>_.
        let search = to_lowercase L (trim (case q_search q of None \<Rightarrow> [] | Some t \<Rightarrow> t));
            rows = (if search = [] \<and> q_type q = None then take (q_limit q + 1) (sql_rows owner q s)
                    else sql_rows owner q s)
        in and_then (ok_or (actors_size L actors) Unavailable) (\<lambda>used.
           and_then (take_page L q search rows used []) (\<lambda>(es, full).
             Inr \<lparr>pg_entries = (if q_after q = None then List.rev es else es), pg_actors = actors,
               pg_high_watermark = high, pg_has_more = full,
               pg_next_sequence = (if full then Some (le_sequence (last es)) else None)\<rparr>))))"

end
