(* ===== verification/OperationStore.thy ===== *)
theory OperationStore
  imports OperationLogs
begin

text \<open>
  The durable operations of \<open>crates/alcomd-store/src/sqlite.rs\<close>: the tables \<open>operations\<close>,
  \<open>operation_journal\<close>, \<open>events\<close> and \<open>idempotency_records\<close> as lists of rows in insertion order, and
  the functions of the store worker on them.  Columns keep their SQL types (text, 64-bit integers),
  so that reading a row back can fail as it can in the code.  A transaction is a function from the
  ledger to a result: an error means that it was rolled back.  \<open>serde_json\<close> is a parameter; the
  latest phase of an operation in the journals of other modules is the field \<open>phases\<close>.
\<close>

section \<open>Records of the application\<close>

datatype filesystem_phase =
    Accepted | PreflightComplete | QuarantineIntent | RootQuarantined | RegistryCommitIntent
  | InventoryReady | Archiving | ArchiveReady | PublishIntent | ArchivePublished
  | ArchiveVerified | Extracting | Staging | StagingComplete | TargetPublished
  | ProjectRegistryCommitIntent | Extracted | Prepared | PackagesReplaced | VpmManifestCommitted
  | FilesystemCommitted | StateCommitted | Deleting | CleanupComplete | RollingBack
  | RolledBack | RecoveryRequired

fun phase_as_str :: "filesystem_phase \<Rightarrow> string" where
  "phase_as_str Accepted = ''accepted''"
| "phase_as_str PreflightComplete = ''preflight_complete''"
| "phase_as_str QuarantineIntent = ''quarantine_intent''"
| "phase_as_str RootQuarantined = ''root_quarantined''"
| "phase_as_str RegistryCommitIntent = ''registry_commit_intent''"
| "phase_as_str InventoryReady = ''inventory_ready''"
| "phase_as_str Archiving = ''archiving''"
| "phase_as_str ArchiveReady = ''archive_ready''"
| "phase_as_str PublishIntent = ''publish_intent''"
| "phase_as_str ArchivePublished = ''archive_published''"
| "phase_as_str ArchiveVerified = ''archive_verified''"
| "phase_as_str Extracting = ''extracting''"
| "phase_as_str Staging = ''staging''"
| "phase_as_str StagingComplete = ''staging_complete''"
| "phase_as_str TargetPublished = ''target_published''"
| "phase_as_str ProjectRegistryCommitIntent = ''project_registry_commit_intent''"
| "phase_as_str Extracted = ''extracted''"
| "phase_as_str Prepared = ''prepared''"
| "phase_as_str PackagesReplaced = ''packages_replaced''"
| "phase_as_str VpmManifestCommitted = ''vpm_manifest_committed''"
| "phase_as_str FilesystemCommitted = ''filesystem_committed''"
| "phase_as_str StateCommitted = ''state_committed''"
| "phase_as_str Deleting = ''deleting''"
| "phase_as_str CleanupComplete = ''cleanup_complete''"
| "phase_as_str RollingBack = ''rolling_back''"
| "phase_as_str RolledBack = ''rolled_back''"
| "phase_as_str RecoveryRequired = ''recovery_required''"

record operation_record =
  or_operation_id :: operation_id
  or_kind :: string
  or_state :: operation_state
  or_revision :: revision
  or_owner :: principal_id
  or_cancel_requested :: bool
  or_created_at_ms :: u64
  or_updated_at_ms :: u64
  or_started_at_ms :: "u64 option"
  or_completed_at_ms :: "u64 option"
  or_result_json :: "string option"
  or_error_code :: "string option"
  or_diagnostic_id :: "string option"
  or_progress_phase :: "filesystem_phase option"

record operation_cursor =
  oc_created_at_ms :: u64
  oc_operation_id :: operation_id

record operation_page =
  op_active_count :: nat
  op_operations :: "operation_record list"
  op_next_cursor :: "operation_cursor option"

record event_record =
  ev_sequence :: u64
  ev_event_id :: string
  ev_kind :: string
  ev_aggregate_kind :: string
  ev_aggregate_id :: string
  ev_aggregate_revision :: revision
  ev_occurred_at_ms :: u64
  ev_payload_json :: string

record event_page =
  ep_events :: "event_record list"
  ep_next_sequence :: u64

record create_outcome =
  co_operation_id :: operation_id
  co_replayed :: bool
  co_schedule :: bool

datatype check_classification = CheckOk | IssuesDetected | IssuesTruncated

record state_check_result =
  sc_integrity :: check_classification
  sc_foreign_keys :: check_classification

definition state_check_fingerprint :: string where
  "state_check_fingerprint = ''{\"version\":1}''"

definition cancel_fingerprint :: "uuid_ops \<Rightarrow> operation_id \<Rightarrow> revision \<Rightarrow> string" where
  "cancel_fingerprint U i expected =
     ''{\"expectedRevision\":'' @ show_nat (unat (revision_get expected)) @
     '',\"operationId\":\"'' @ operation_id_to_string U i @ ''\",\"version\":1}''"

section \<open>Tables\<close>

record operation_row =
  row_operation_id :: string
  row_kind :: string
  row_state :: string
  row_revision :: int
  row_owner :: string
  row_request :: string
  row_result :: "string option"
  row_error_code :: "string option"
  row_diagnostic_id :: "string option"
  row_cancel_requested :: bool
  row_created_at :: int
  row_updated_at :: int
  row_started_at :: "int option"
  row_completed_at :: "int option"

record journal_row =
  jr_operation_id :: string
  jr_step :: nat
  jr_kind :: string
  jr_state :: string
  jr_payload :: string
  jr_updated_at :: int

record event_row =
  er_sequence :: int
  er_event_id :: string
  er_kind :: string
  er_aggregate_kind :: string
  er_aggregate_id :: string
  er_aggregate_revision :: int
  er_principal_id :: string
  er_occurred_at :: int
  er_payload :: string

record idempotency_row =
  ir_principal_id :: string
  ir_method :: string
  ir_key :: string
  ir_fingerprint :: string
  ir_state :: string
  ir_operation_id :: string
  ir_response :: string
  ir_created_at :: int

record ledger = log_state +
  operations :: "operation_row list"
  journal :: "journal_row list"
  events :: "event_row list"
  event_seq :: int
  idempotency :: "idempotency_row list"
  phases :: "string \<Rightarrow> string option"

record json_codec =
  enc_outcome :: "create_outcome \<Rightarrow> string"
  enc_operation :: "operation_record \<Rightarrow> string"
  dec_operation :: "string \<Rightarrow> operation_record option"
  enc_check :: "state_check_result \<Rightarrow> string"

section \<open>Columns\<close>

definition state_name :: "operation_state \<Rightarrow> string" where
  "state_name st =
     (case st of
        Queued \<Rightarrow> ''queued'' | Planning \<Rightarrow> ''planning'' | WaitingForInput \<Rightarrow> ''waiting_for_input''
      | Running \<Rightarrow> ''running'' | Cancelling \<Rightarrow> ''cancelling'' | Succeeded \<Rightarrow> ''succeeded''
      | Failed \<Rightarrow> ''failed'' | Cancelled \<Rightarrow> ''cancelled'' | Interrupted \<Rightarrow> ''interrupted''
      | Recovering \<Rightarrow> ''recovering'')"

definition parse_state :: "string \<Rightarrow> store_error + operation_state" where
  "parse_state value = ok_or (map_of
     [(''queued'', Queued), (''planning'', Planning), (''waiting_for_input'', WaitingForInput),
      (''running'', Running), (''cancelling'', Cancelling), (''succeeded'', Succeeded),
      (''failed'', Failed), (''cancelled'', Cancelled), (''interrupted'', Interrupted),
      (''recovering'', Recovering)] value) CorruptState"

definition parse_filesystem_phase :: "string \<Rightarrow> filesystem_phase option" where
  "parse_filesystem_phase value = map_of
     [(''accepted'', Accepted), (''preflight_complete'', PreflightComplete),
      (''quarantine_intent'', QuarantineIntent), (''root_quarantined'', RootQuarantined),
      (''registry_commit_intent'', RegistryCommitIntent), (''inventory_ready'', InventoryReady),
      (''archiving'', Archiving), (''archive_ready'', ArchiveReady),
      (''publish_intent'', PublishIntent), (''archive_published'', ArchivePublished),
      (''archive_verified'', ArchiveVerified), (''extracting'', Extracting),
      (''staging'', Staging), (''staging_complete'', StagingComplete),
      (''target_published'', TargetPublished), (''project_registry_commit_intent'', ProjectRegistryCommitIntent),
      (''extracted'', Extracted), (''prepared'', Prepared),
      (''packages_replaced'', PackagesReplaced), (''vpm_manifest_committed'', VpmManifestCommitted),
      (''filesystem_committed'', FilesystemCommitted), (''state_committed'', StateCommitted),
      (''deleting'', Deleting), (''cleanup_complete'', CleanupComplete),
      (''rolling_back'', RollingBack), (''rolled_back'', RolledBack),
      (''recovery_required'', RecoveryRequired)] value"

definition sqlite_integer :: "u64 \<Rightarrow> store_error + int" where
  "sqlite_integer value = (if value \<le> i64_max then Inr (uint value) else Inl CorruptState)"

definition sqlite_revision :: "revision \<Rightarrow> int" where
  "sqlite_revision r = uint (revision_get r)"

text \<open>\<open>u64::try_from\<close> of a column; \<open>InvalidQuery\<close> becomes \<open>Unavailable\<close> in \<open>store_failure\<close>.\<close>

definition positive_or_zero :: "int \<Rightarrow> store_error + u64" where
  "positive_or_zero v = (if v < 0 then Inl Unavailable else Inr (word_of_int v))"

definition positive :: "int \<Rightarrow> store_error + u64" where
  "positive v = (if v \<le> 0 then Inl Unavailable else Inr (word_of_int v))"

fun optional_positive_or_zero :: "int option \<Rightarrow> store_error + u64 option" where
  "optional_positive_or_zero None = Inr None"
| "optional_positive_or_zero (Some v) = and_then (positive_or_zero v) (\<lambda>w. Inr (Some w))"

definition read_revision :: "int \<Rightarrow> store_error + revision" where
  "read_revision v = and_then (positive_or_zero v) (\<lambda>w. ok_or (revision_new w) Unavailable)"

definition read_phase :: "string option \<Rightarrow> store_error + filesystem_phase option" where
  "read_phase v =
     (case v of
        None \<Rightarrow> Inr None
      | Some t \<Rightarrow> and_then (ok_or (parse_filesystem_phase t) Unavailable) (\<lambda>p. Inr (Some p)))"

definition map_operation_row ::
  "uuid_ops \<Rightarrow> (string \<Rightarrow> string option) \<Rightarrow> operation_row \<Rightarrow> store_error + operation_record" where
  "map_operation_row U phase_of row =
     and_then (map_err (\<lambda>_. Unavailable) (operation_id_parse U (row_operation_id row))) (\<lambda>i.
     and_then (map_err (\<lambda>_. Unavailable) (parse_state (row_state row))) (\<lambda>st.
     and_then (read_revision (row_revision row)) (\<lambda>rv.
     and_then (map_err (\<lambda>_. Unavailable) (principal_parse (row_owner row))) (\<lambda>owner.
     and_then (positive_or_zero (row_created_at row)) (\<lambda>created.
     and_then (positive_or_zero (row_updated_at row)) (\<lambda>updated.
     and_then (optional_positive_or_zero (row_started_at row)) (\<lambda>started.
     and_then (optional_positive_or_zero (row_completed_at row)) (\<lambda>completed.
     and_then (read_phase (phase_of (row_operation_id row))) (\<lambda>phase.
       Inr \<lparr>or_operation_id = i, or_kind = row_kind row, or_state = st, or_revision = rv,
            or_owner = owner, or_cancel_requested = row_cancel_requested row,
            or_created_at_ms = created, or_updated_at_ms = updated, or_started_at_ms = started,
            or_completed_at_ms = completed, or_result_json = row_result row,
            or_error_code = row_error_code row, or_diagnostic_id = row_diagnostic_id row,
            or_progress_phase = phase\<rparr>)))))))))"

definition load_operation :: "store_env \<Rightarrow> operation_id \<Rightarrow> ledger \<Rightarrow> store_error + operation_record" where
  "load_operation E i db =
     (case find (\<lambda>r. row_operation_id r = operation_id_to_string (env_uuid E) i) (operations db) of
        None \<Rightarrow> Inl OperationNotFound
      | Some row \<Rightarrow> map_operation_row (env_uuid E) (phases db) row)"

definition load_owned_operation ::
  "store_env \<Rightarrow> principal_id \<Rightarrow> operation_id \<Rightarrow> ledger \<Rightarrow> store_error + operation_record" where
  "load_owned_operation E owner i db =
     (case find (\<lambda>r. row_operation_id r = operation_id_to_string (env_uuid E) i \<and>
          row_owner r = principal_as_str owner) (operations db) of
        None \<Rightarrow> Inl OperationNotFound
      | Some row \<Rightarrow> map_operation_row (env_uuid E) (phases db) row)"

definition update_operation ::
  "store_env \<Rightarrow> operation_id \<Rightarrow> (operation_row \<Rightarrow> operation_row) \<Rightarrow> ledger \<Rightarrow> ledger" where
  "update_operation E i f db = db\<lparr>operations := map (\<lambda>r.
     if row_operation_id r = operation_id_to_string (env_uuid E) i then f r else r) (operations db)\<rparr>"

definition mark_applied :: "store_env \<Rightarrow> operation_id \<Rightarrow> int \<Rightarrow> ledger \<Rightarrow> ledger" where
  "mark_applied E i now db = db\<lparr>journal := map (\<lambda>j.
     if jr_operation_id j = operation_id_to_string (env_uuid E) i \<and> jr_step j = 1
     then j\<lparr>jr_state := ''applied'', jr_updated_at := now\<rparr> else j) (journal db)\<rparr>"

section \<open>Events\<close>

definition operation_view_of :: "store_env \<Rightarrow> principal_id \<Rightarrow> operation_id \<Rightarrow> ledger \<Rightarrow> operation_view option" where
  "operation_view_of E owner i db = map_option (\<lambda>r.
       \<lparr>ov_kind = row_kind r, ov_state = row_state r, ov_request = row_request r,
        ov_error = row_error_code r, ov_result = row_result r\<rparr>)
     (find (\<lambda>r. row_operation_id r = operation_id_to_string (env_uuid E) i \<and>
        row_owner r = principal_as_str owner) (operations db))"

definition insert_event ::
  "store_env \<Rightarrow> principal_id \<Rightarrow> operation_id \<Rightarrow> revision \<Rightarrow> string \<Rightarrow> string \<Rightarrow> int \<Rightarrow> ledger \<Rightarrow>
   store_error + ledger" where
  "insert_event E owner i rv kind payload now db =
     (let (u, db1) = draw E db;
          event_id = uuid_to_string (env_uuid E) u
      in and_then (ensure (\<not> list_ex (\<lambda>e. er_event_id e = event_id) (events db1) \<and>
             event_seq db1 < uint i64_max) Unavailable) (\<lambda>_.
         let db2 = db1\<lparr>events := events db1 @
               [\<lparr>er_sequence = event_seq db1 + 1, er_event_id = event_id, er_kind = kind,
                 er_aggregate_kind = ''operation'',
                 er_aggregate_id = operation_id_to_string (env_uuid E) i,
                 er_aggregate_revision = sqlite_revision rv,
                 er_principal_id = principal_as_str owner, er_occurred_at = now, er_payload = payload\<rparr>],
               event_seq := event_seq db1 + 1\<rparr>
         in and_then (positive_or_zero now) (\<lambda>at.
              operation_edge E (operation_view_of E owner i db2) owner i kind payload at db2)))"

definition state_payload :: "operation_state \<Rightarrow> string" where
  "state_payload st = ''{\"state\":\"'' @ state_name st @ ''\"}''"

section \<open>Creating\<close>

definition find_idempotent ::
  "principal_id \<Rightarrow> string \<Rightarrow> idempotency_key \<Rightarrow> ledger \<Rightarrow> idempotency_row option" where
  "find_idempotent owner method key db =
     find (\<lambda>r. ir_principal_id r = principal_as_str owner \<and> ir_method r = method \<and>
        ir_key r = idempotency_key_as_str key) (idempotency db)"

definition insert_idempotency :: "idempotency_row \<Rightarrow> ledger \<Rightarrow> store_error + ledger" where
  "insert_idempotency row db =
     (if list_ex (\<lambda>r. ir_principal_id r = ir_principal_id row \<and> ir_method r = ir_method row \<and>
           ir_key r = ir_key row) (idempotency db)
      then Inl Unavailable else Inr (db\<lparr>idempotency := idempotency db @ [row]\<rparr>))"

definition insert_operation :: "operation_row \<Rightarrow> ledger \<Rightarrow> store_error + ledger" where
  "insert_operation row db =
     (if list_ex (\<lambda>r. row_operation_id r = row_operation_id row) (operations db)
      then Inl Unavailable else Inr (db\<lparr>operations := operations db @ [row]\<rparr>))"

definition insert_journal :: "journal_row \<Rightarrow> ledger \<Rightarrow> store_error + ledger" where
  "insert_journal row db =
     (if list_ex (\<lambda>j. jr_operation_id j = jr_operation_id row \<and> jr_step j = jr_step row) (journal db)
      then Inl Unavailable else Inr (db\<lparr>journal := journal db @ [row]\<rparr>))"

definition queued_row :: "string \<Rightarrow> principal_id \<Rightarrow> int \<Rightarrow> operation_row" where
  "queued_row text owner now =
     \<lparr>row_operation_id = text, row_kind = ''state.check'', row_state = ''queued'', row_revision = 1,
      row_owner = principal_as_str owner, row_request = state_check_fingerprint, row_result = None,
      row_error_code = None, row_diagnostic_id = None, row_cancel_requested = False,
      row_created_at = now, row_updated_at = now, row_started_at = None, row_completed_at = None\<rparr>"

definition create_state_check ::
  "store_env \<Rightarrow> json_codec \<Rightarrow> principal_id \<Rightarrow> idempotency_key \<Rightarrow> u64 \<Rightarrow> ledger \<Rightarrow>
   store_error + (create_outcome \<times> ledger)" where
  "create_state_check E J owner key created_at_ms db =
     and_then (sqlite_integer created_at_ms) (\<lambda>now.
     case find_idempotent owner ''state.check'' key db of
       Some r \<Rightarrow>
         if ir_fingerprint r \<noteq> state_check_fingerprint then Inl IdempotencyConflict
         else and_then (map_err (\<lambda>_. CorruptState) (operation_id_parse (env_uuid E) (ir_operation_id r)))
           (\<lambda>i. Inr (\<lparr>co_operation_id = i, co_replayed = True, co_schedule = False\<rparr>, db))
     | None \<Rightarrow>
         let (u, db1) = draw E db;
             i = OperationId u;
             text = operation_id_to_string (env_uuid E) i;
             outcome = \<lparr>co_operation_id = i, co_replayed = False, co_schedule = True\<rparr>
         in and_then (insert_operation (queued_row text owner now) db1) (\<lambda>db2.
            and_then (insert_journal
                \<lparr>jr_operation_id = text, jr_step = 1, jr_kind = ''state.check'', jr_state = ''prepared'',
                 jr_payload = ''{}'', jr_updated_at = now\<rparr> db2) (\<lambda>db3.
            and_then (insert_event E owner i revision_initial ''operation.created''
                (state_payload Queued) now db3) (\<lambda>db4.
            and_then (insert_idempotency
                \<lparr>ir_principal_id = principal_as_str owner, ir_method = ''state.check'',
                 ir_key = idempotency_key_as_str key, ir_fingerprint = state_check_fingerprint,
                 ir_state = ''completed'', ir_operation_id = text, ir_response = enc_outcome J outcome,
                 ir_created_at = now\<rparr> db4) (\<lambda>db5.
              Inr (outcome, db5))))))"

section \<open>Cancelling\<close>

text \<open>The phases after which copying, creating or exporting, and deleting, can no longer be cancelled.\<close>

definition publish_phases :: "filesystem_phase list" where
  "publish_phases = [PublishIntent, TargetPublished, ProjectRegistryCommitIntent, StateCommitted,
     CleanupComplete, RecoveryRequired]"

definition delete_phases :: "filesystem_phase list" where
  "delete_phases = [QuarantineIntent, RootQuarantined, RegistryCommitIntent, StateCommitted, Deleting,
     CleanupComplete, RecoveryRequired]"

definition past_cancellation :: "operation_record \<Rightarrow> bool" where
  "past_cancellation r \<longleftrightarrow>
     (or_kind r \<in> {''projects.copy'', ''projects.create'', ''projectTemplates.export''} \<and>
      (case or_progress_phase r of None \<Rightarrow> False | Some p \<Rightarrow> p \<in> set publish_phases)) \<or>
     (or_kind r = ''projects.delete-directory'' \<and>
      (case or_progress_phase r of None \<Rightarrow> False | Some p \<Rightarrow> p \<in> set delete_phases))"

definition cancel_target :: "operation_state \<Rightarrow> store_error + operation_state" where
  "cancel_target st =
     (case st of
        Queued \<Rightarrow> Inr Cancelled
      | Running \<Rightarrow> Inr Cancelling
      | Recovering \<Rightarrow> Inr Cancelling
      | Cancelling \<Rightarrow> Inr st
      | Interrupted \<Rightarrow> Inr st
      | Planning \<Rightarrow> Inl CorruptState
      | WaitingForInput \<Rightarrow> Inl CorruptState
      | Succeeded \<Rightarrow> Inl OperationNotCancellable
      | Failed \<Rightarrow> Inl OperationNotCancellable
      | Cancelled \<Rightarrow> Inl OperationNotCancellable)"

definition apply_cancel ::
  "store_env \<Rightarrow> principal_id \<Rightarrow> operation_record \<Rightarrow> operation_state \<Rightarrow> int \<Rightarrow> ledger \<Rightarrow>
   store_error + (operation_record \<times> ledger)" where
  "apply_cancel E owner r next_state now db =
     (let i = or_operation_id r in
      if or_cancel_requested r \<and> next_state = or_state r then Inr (r, db)
      else
        and_then (ok_or (revision_checked_next (or_revision r)) CorruptState) (\<lambda>rv.
        let db1 = update_operation E i (\<lambda>row. row
              \<lparr>row_state := state_name next_state, row_revision := sqlite_revision rv,
               row_cancel_requested := True, row_updated_at := now,
               row_completed_at := (if next_state = Cancelled then Some now else None)\<rparr>) db;
            db2 = (if next_state = Cancelled then mark_applied E i now db1 else db1)
        in and_then (insert_event E owner i rv ''operation.cancel_requested''
               (state_payload next_state) now db2) (\<lambda>db3.
           and_then (load_owned_operation E owner i db3) (\<lambda>updated. Inr (updated, db3)))))"

definition cancel_operation ::
  "store_env \<Rightarrow> json_codec \<Rightarrow> principal_id \<Rightarrow> operation_id \<Rightarrow> revision \<Rightarrow> idempotency_key \<Rightarrow> u64 \<Rightarrow>
   ledger \<Rightarrow> store_error + ((operation_record \<times> bool) \<times> ledger)" where
  "cancel_operation E J owner i expected key updated_at_ms db =
     and_then (sqlite_integer updated_at_ms) (\<lambda>now.
     let fingerprint = cancel_fingerprint (env_uuid E) i expected in
     case find_idempotent owner ''operations.cancel'' key db of
       Some r \<Rightarrow>
         if ir_fingerprint r \<noteq> fingerprint then Inl IdempotencyConflict
         else and_then (ok_or (dec_operation J (ir_response r)) CorruptState)
           (\<lambda>record. Inr ((record, True), db))
     | None \<Rightarrow>
         and_then (load_owned_operation E owner i db) (\<lambda>r.
         and_then (ensure (or_revision r = expected) RevisionConflict) (\<lambda>_.
         and_then (ensure (\<not> is_terminal (or_state r)) OperationNotCancellable) (\<lambda>_.
         and_then (ensure (\<not> past_cancellation r) OperationNotCancellable) (\<lambda>_.
         and_then (cancel_target (or_state r)) (\<lambda>next_state.
         and_then (apply_cancel E owner r next_state now db) (\<lambda>(updated, db1).
         and_then (insert_idempotency
             \<lparr>ir_principal_id = principal_as_str owner, ir_method = ''operations.cancel'',
              ir_key = idempotency_key_as_str key, ir_fingerprint = fingerprint,
              ir_state = ''completed'', ir_operation_id = operation_id_to_string (env_uuid E) i,
              ir_response = enc_operation J updated, ir_created_at = now\<rparr> db1) (\<lambda>db2.
           Inr ((updated, False), db2)))))))))"

section \<open>Running\<close>

definition begin_target :: "operation_state \<Rightarrow> bool \<Rightarrow> store_error + operation_state" where
  "begin_target st cancelled =
     (if (st = Queued \<or> st = Recovering) \<and> \<not> cancelled then Inr Running
      else if st = Recovering \<and> cancelled then Inr Cancelling
      else Inl CorruptState)"

definition begin_state_check ::
  "store_env \<Rightarrow> operation_id \<Rightarrow> u64 \<Rightarrow> ledger \<Rightarrow> store_error + (operation_record \<times> ledger)" where
  "begin_state_check E i updated_at_ms db =
     and_then (sqlite_integer updated_at_ms) (\<lambda>now.
     and_then (load_operation E i db) (\<lambda>r.
     and_then (begin_target (or_state r) (or_cancel_requested r)) (\<lambda>next_state.
     and_then (ok_or (revision_checked_next (or_revision r)) CorruptState) (\<lambda>rv.
     let db1 = update_operation E i (\<lambda>row. row
           \<lparr>row_state := state_name next_state, row_revision := sqlite_revision rv,
            row_updated_at := now,
            row_started_at := Some (case row_started_at row of None \<Rightarrow> now | Some t \<Rightarrow> t)\<rparr>) db
     in and_then (insert_event E (or_owner r) i rv ''operation.state_changed''
            (state_payload next_state) now db1) (\<lambda>db2.
        and_then (load_operation E i db2) (\<lambda>updated. Inr (updated, db2)))))))"

definition finish_operation ::
  "store_env \<Rightarrow> operation_id \<Rightarrow> operation_state \<Rightarrow> string option \<Rightarrow> string option \<Rightarrow> string option \<Rightarrow>
   u64 \<Rightarrow> ledger \<Rightarrow> store_error + (operation_record \<times> ledger)" where
  "finish_operation E i terminal result error_code diagnostic_id completed_at_ms db =
     and_then (sqlite_integer completed_at_ms) (\<lambda>now.
     and_then (load_operation E i db) (\<lambda>r.
     if is_terminal (or_state r) then Inr (r, db)
     else
       and_then (ensure (can_transition_to (or_state r) terminal) CorruptState) (\<lambda>_.
       and_then (ok_or (revision_checked_next (or_revision r)) CorruptState) (\<lambda>rv.
       let db1 = update_operation E i (\<lambda>row. row
             \<lparr>row_state := state_name terminal, row_revision := sqlite_revision rv,
              row_result := result, row_error_code := error_code, row_diagnostic_id := diagnostic_id,
              row_updated_at := now, row_completed_at := Some now\<rparr>) db;
           db2 = mark_applied E i now db1
       in and_then (insert_event E (or_owner r) i rv ''operation.completed''
              (state_payload terminal) now db2) (\<lambda>db3.
          and_then (load_operation E i db3) (\<lambda>updated. Inr (updated, db3)))))))"

definition finish_state_check ::
  "store_env \<Rightarrow> json_codec \<Rightarrow> operation_id \<Rightarrow> state_check_result \<Rightarrow> u64 \<Rightarrow> ledger \<Rightarrow>
   store_error + (operation_record \<times> ledger)" where
  "finish_state_check E J i result completed_at_ms =
     finish_operation E i Succeeded (Some (enc_check J result)) None None completed_at_ms"

definition finish_cancelled ::
  "store_env \<Rightarrow> operation_id \<Rightarrow> u64 \<Rightarrow> ledger \<Rightarrow> store_error + (operation_record \<times> ledger)" where
  "finish_cancelled E i completed_at_ms = finish_operation E i Cancelled None None None completed_at_ms"

definition finish_failed ::
  "store_env \<Rightarrow> operation_id \<Rightarrow> string \<Rightarrow> string \<Rightarrow> u64 \<Rightarrow> ledger \<Rightarrow>
   store_error + (operation_record \<times> ledger)" where
  "finish_failed E i error_code diagnostic_id completed_at_ms =
     finish_operation E i Failed None (Some error_code) (Some diagnostic_id) completed_at_ms"

definition cancellation_requested :: "store_env \<Rightarrow> operation_id \<Rightarrow> ledger \<Rightarrow> store_error + bool" where
  "cancellation_requested E i db =
     (case find (\<lambda>r. row_operation_id r = operation_id_to_string (env_uuid E) i) (operations db) of
        None \<Rightarrow> Inl OperationNotFound
      | Some r \<Rightarrow> Inr (row_cancel_requested r))"

section \<open>Recovering after a restart\<close>

definition journal_is_recoverable :: "store_env \<Rightarrow> operation_id \<Rightarrow> ledger \<Rightarrow> bool" where
  "journal_is_recoverable E i db \<longleftrightarrow>
     length (filter (\<lambda>j. jr_operation_id j = operation_id_to_string (env_uuid E) i \<and> jr_step j = 1 \<and>
       jr_kind j = ''state.check'' \<and> jr_state j = ''prepared'') (journal db)) = 1"

definition fail_recovery :: "store_env \<Rightarrow> operation_id \<Rightarrow> int \<Rightarrow> ledger \<Rightarrow> store_error + ledger" where
  "fail_recovery E i now db =
     and_then (load_operation E i db) (\<lambda>r.
     and_then (ok_or (revision_checked_next (or_revision r)) CorruptState) (\<lambda>rv.
     let (u, db1) = draw E db;
         db2 = update_operation E i (\<lambda>row. row
           \<lparr>row_state := ''failed'', row_revision := sqlite_revision rv,
            row_error_code := Some ''internal_error'',
            row_diagnostic_id := Some (uuid_to_string (env_uuid E) u),
            row_updated_at := now, row_completed_at := Some now\<rparr>) db1
     in insert_event E (or_owner r) i rv ''operation.recovery_failed''
          ''{\"state\":\"failed\",\"errorCode\":\"internal_error\"}'' now db2))"

definition transition_recovery ::
  "store_env \<Rightarrow> operation_id \<Rightarrow> operation_state \<Rightarrow> int \<Rightarrow> ledger \<Rightarrow> store_error + ledger" where
  "transition_recovery E i next_state now db =
     and_then (load_operation E i db) (\<lambda>r.
     and_then (ensure (can_transition_to (or_state r) next_state) CorruptState) (\<lambda>_.
     and_then (ok_or (revision_checked_next (or_revision r)) CorruptState) (\<lambda>rv.
     let db1 = update_operation E i (\<lambda>row. row
           \<lparr>row_state := state_name next_state, row_revision := sqlite_revision rv,
            row_updated_at := now\<rparr>) db
     in insert_event E (or_owner r) i rv ''operation.recovered'' (state_payload next_state) now db1)))"

definition dedicated_kinds :: "string list" where
  "dedicated_kinds = [''packages.apply'', ''backups.create'', ''backups.restore'',
     ''extensions.install'', ''extensions.uninstall'', ''projects.create'', ''projects.copy'',
     ''projects.delete-directory'', ''projects.unity-migration'', ''projectTemplates.save'',
     ''projectTemplates.export'']"

text \<open>
  Every candidate has its own transactions: an error ends the loop, what came before is committed.
  The result is the ids to schedule so far, or the error, with the ledger.
\<close>

definition recover_steps ::
  "store_env \<Rightarrow> operation_id \<Rightarrow> operation_state list \<Rightarrow> int \<Rightarrow> ledger \<Rightarrow> store_error option \<times> ledger" where
  "recover_steps E i targets now db =
     fold (\<lambda>t (err, db). case err of
         Some e \<Rightarrow> (Some e, db)
       | None \<Rightarrow> (case transition_recovery E i t now db of Inl e \<Rightarrow> (Some e, db) | Inr db' \<Rightarrow> (None, db')))
       targets (None, db)"

definition recovery_targets :: "operation_state \<Rightarrow> operation_state list option" where
  "recovery_targets st =
     (case st of
        Queued \<Rightarrow> Some []
      | Recovering \<Rightarrow> Some []
      | Running \<Rightarrow> Some [Interrupted, Recovering]
      | Cancelling \<Rightarrow> Some [Interrupted, Recovering]
      | Interrupted \<Rightarrow> Some [Recovering]
      | _ \<Rightarrow> None)"

definition recover_one ::
  "store_env \<Rightarrow> int \<Rightarrow> string \<times> string \<times> string \<Rightarrow> ledger \<Rightarrow>
   (store_error + operation_id list) \<times> ledger" where
  "recover_one E now cand db =
     (case cand of (text, st, kind) \<Rightarrow>
       (case operation_id_parse (env_uuid E) text of
          Inl _ \<Rightarrow> (Inl CorruptState, db)
        | Inr i \<Rightarrow>
            if kind \<in> set dedicated_kinds then (Inr [], db)
            else if kind \<noteq> ''state.check'' \<or> \<not> journal_is_recoverable E i db then
              (case fail_recovery E i now db of Inl e \<Rightarrow> (Inl e, db) | Inr db' \<Rightarrow> (Inr [], db'))
            else
              (case parse_state st of
                 Inl e \<Rightarrow> (Inl e, db)
               | Inr s \<Rightarrow>
                   (case recovery_targets s of
                      Some targets \<Rightarrow>
                        (case recover_steps E i targets now db of
                           (Some e, db') \<Rightarrow> (Inl e, db')
                         | (None, db') \<Rightarrow> (Inr [i], db'))
                    | None \<Rightarrow>
                        if is_terminal s then (Inr [], db)
                        else (case fail_recovery E i now db of
                                Inl e \<Rightarrow> (Inl e, db) | Inr db' \<Rightarrow> (Inr [], db'))))))"

fun recover_all ::
  "store_env \<Rightarrow> int \<Rightarrow> (string \<times> string \<times> string) list \<Rightarrow> ledger \<Rightarrow>
   (store_error + operation_id list) \<times> ledger" where
  "recover_all E now [] db = (Inr [], db)"
| "recover_all E now (c # cs) db =
     (case recover_one E now c db of
        (Inl e, db') \<Rightarrow> (Inl e, db')
      | (Inr ids, db') \<Rightarrow>
          (case recover_all E now cs db' of
             (Inl e, db'') \<Rightarrow> (Inl e, db'')
           | (Inr ids2, db'') \<Rightarrow> (Inr (ids @ ids2), db'')))"

definition terminal_names :: "string list" where
  "terminal_names = [''succeeded'', ''failed'', ''cancelled'']"

definition recovery_candidates :: "ledger \<Rightarrow> (string \<times> string \<times> string) list" where
  "recovery_candidates db =
     map (\<lambda>r. (row_operation_id r, row_state r, row_kind r))
       (sort_by (\<lambda>a b. then_with (cmp_of (row_created_at a) (row_created_at b))
            (cmp_of (row_operation_id a) (row_operation_id b)))
         (filter (\<lambda>r. row_state r \<notin> set terminal_names) (operations db)))"

definition recover ::
  "store_env \<Rightarrow> u64 \<Rightarrow> ledger \<Rightarrow> (store_error + operation_id list) \<times> ledger" where
  "recover E recovered_at_ms db =
     (case sqlite_integer recovered_at_ms of
        Inl e \<Rightarrow> (Inl e, db)
      | Inr now \<Rightarrow> recover_all E now (recovery_candidates db) db)"

section \<open>Pages\<close>

definition page_cursor :: "store_env \<Rightarrow> operation_cursor option \<Rightarrow> store_error + (int \<times> string)" where
  "page_cursor E cursor =
     (case cursor of
        Some c \<Rightarrow> and_then (sqlite_integer (oc_created_at_ms c))
          (\<lambda>t. Inr (t, operation_id_to_string (env_uuid E) (oc_operation_id c)))
      | None \<Rightarrow> Inr (uint i64_max, ''ffffffff-ffff-ffff-ffff-ffffffffffff''))"

definition row_before :: "int \<times> string \<Rightarrow> operation_row \<Rightarrow> bool" where
  "row_before c r \<longleftrightarrow>
     row_created_at r < fst c \<or> (row_created_at r = fst c \<and> row_operation_id r < snd c)"

definition newest_first :: "operation_row \<Rightarrow> operation_row \<Rightarrow> ordering" where
  "newest_first a b = then_with (cmp_of (row_created_at b) (row_created_at a))
     (cmp_of (row_operation_id b) (row_operation_id a))"

definition owned_rows :: "principal_id \<Rightarrow> bool \<Rightarrow> ledger \<Rightarrow> operation_row list" where
  "owned_rows owner active_only db = filter (\<lambda>r. row_owner r = principal_as_str owner \<and>
     (active_only \<longrightarrow> row_state r \<notin> set terminal_names)) (operations db)"

definition list_operations ::
  "store_env \<Rightarrow> principal_id \<Rightarrow> operation_cursor option \<Rightarrow> nat \<Rightarrow> bool \<Rightarrow> ledger \<Rightarrow>
   store_error + operation_page" where
  "list_operations E owner cursor limit active_only db =
     and_then (ensure (limit \<noteq> 0 \<and> limit \<le> 1000) CorruptState) (\<lambda>_.
     and_then (page_cursor E cursor) (\<lambda>c.
     and_then (collect (map_operation_row (env_uuid E) (phases db))
         (take limit (sort_by newest_first (filter (row_before c) (owned_rows owner active_only db)))))
       (\<lambda>rs. Inr
         \<lparr>op_active_count = length (owned_rows owner True db), op_operations = rs,
          op_next_cursor = (if rs = [] then None else Some
            \<lparr>oc_created_at_ms = or_created_at_ms (last rs), oc_operation_id = or_operation_id (last rs)\<rparr>)\<rparr>)))"

definition map_event_row :: "event_row \<Rightarrow> store_error + event_record" where
  "map_event_row row =
     and_then (read_revision (er_aggregate_revision row)) (\<lambda>rv.
     and_then (positive (er_sequence row)) (\<lambda>seq.
     and_then (positive_or_zero (er_occurred_at row)) (\<lambda>at.
       Inr \<lparr>ev_sequence = seq, ev_event_id = er_event_id row, ev_kind = er_kind row,
            ev_aggregate_kind = er_aggregate_kind row, ev_aggregate_id = er_aggregate_id row,
            ev_aggregate_revision = rv, ev_occurred_at_ms = at, ev_payload_json = er_payload row\<rparr>)))"

definition saturating_add :: "nat \<Rightarrow> nat \<Rightarrow> nat" where
  "saturating_add a b = min (a + b) (2 ^ 64 - 1)"

definition event_page_bytes :: nat where
  "event_page_bytes = 4 * 1024 * 1024"

definition event_size :: "event_record \<Rightarrow> nat" where
  "event_size e =
     saturating_add (saturating_add (length (ev_payload_json e)) 1024)
       (6 * (length (ev_event_id e) + length (ev_kind e) + length (ev_aggregate_kind e) +
          length (ev_aggregate_id e)))"

fun take_events ::
  "event_row list \<Rightarrow> nat \<Rightarrow> event_record list \<Rightarrow> store_error + event_record list" where
  "take_events [] used acc = Inr acc"
| "take_events (row # rows) used acc =
     and_then (map_event_row row) (\<lambda>e.
       if event_size e > event_page_bytes then Inl CorruptState
       else if saturating_add used (event_size e) > event_page_bytes then Inr acc
       else take_events rows (used + event_size e) (acc @ [e]))"

definition list_events ::
  "principal_id \<Rightarrow> u64 \<Rightarrow> nat \<Rightarrow> ledger \<Rightarrow> store_error + event_page" where
  "list_events owner after_sequence limit db =
     and_then (ensure (limit \<noteq> 0 \<and> limit \<le> 1000) CorruptState) (\<lambda>_.
     and_then (sqlite_integer after_sequence) (\<lambda>after.
     and_then (take_events (take limit (filter (\<lambda>e. er_principal_id e = principal_as_str owner \<and>
         er_sequence e > after) (events db))) 0 []) (\<lambda>es.
       Inr \<lparr>ep_events = es,
         ep_next_sequence = (if es = [] then after_sequence else ev_sequence (last es))\<rparr>)))"

section \<open>Integrity checks\<close>

definition check_row_limit :: nat where
  "check_row_limit = 100"

definition check_byte_limit :: nat where
  "check_byte_limit = 65536"

text \<open>The rows are the first column of the two \<open>PRAGMA\<close> statements.\<close>

fun classify_loop :: "bool \<Rightarrow> string list \<Rightarrow> nat \<Rightarrow> nat \<Rightarrow> bool \<Rightarrow> check_classification" where
  "classify_loop integrity_mode [] rows_seen bytes only_ok =
     (if (integrity_mode \<and> only_ok \<and> rows_seen = 1) \<or> (\<not> integrity_mode \<and> rows_seen = 0)
      then CheckOk else IssuesDetected)"
| "classify_loop integrity_mode (first # rows) rows_seen bytes only_ok =
     (let rows_seen = rows_seen + 1;
          bytes = saturating_add bytes (length first);
          only_ok = (integrity_mode \<and> rows_seen = 1 \<and> first = ''ok'')
      in if rows_seen \<ge> check_row_limit \<or> bytes \<ge> check_byte_limit then IssuesTruncated
         else classify_loop integrity_mode rows rows_seen bytes only_ok)"

definition classify_rows :: "bool \<Rightarrow> string list \<Rightarrow> check_classification" where
  "classify_rows integrity_mode rows = classify_loop integrity_mode rows 0 0 False"

end
