(* ===== verification/OperationLedger.thy ===== *)
theory OperationLedger
  imports OperationStore
begin

text \<open>
  What the operations of the ledger keep: the invariant of the four tables, its preservation by
  every operation, and the abstract operation table that the ledger refines.
\<close>

section \<open>Frames\<close>

text \<open>Logging touches nothing but the log table, the queued steps and the id supply.\<close>

definition log_frame :: "'a log_state_scheme \<Rightarrow> 'a log_state_scheme \<Rightarrow> bool" where
  "log_frame s t \<longleftrightarrow>
     (\<exists>a b c d. t = s\<lparr>log_rows := a, log_seq := b, pending_steps := c, drawn := d\<rparr>)"

lemma log_frame_updates [simp]:
  "log_frame s s"
  "log_frame s (s\<lparr>log_rows := a, log_seq := b\<rparr>)"
  "log_frame s (s\<lparr>pending_steps := c\<rparr>)"
  "log_frame s (s\<lparr>drawn := d\<rparr>)"
proof -
  show "log_frame s s" "log_frame s (s\<lparr>log_rows := a, log_seq := b\<rparr>)"
    unfolding log_frame_def
    by (rule exI [of _ "log_rows s"], rule exI [of _ "log_seq s"], rule exI [of _ "pending_steps s"],
        rule exI [of _ "drawn s"], simp)
      (rule exI [of _ a], rule exI [of _ b], rule exI [of _ "pending_steps s"],
        rule exI [of _ "drawn s"], simp)
  show "log_frame s (s\<lparr>pending_steps := c\<rparr>)" "log_frame s (s\<lparr>drawn := d\<rparr>)"
    unfolding log_frame_def
    by (rule exI [of _ "log_rows s"], rule exI [of _ "log_seq s"], rule exI [of _ c],
        rule exI [of _ "drawn s"], simp)
      (rule exI [of _ "log_rows s"], rule exI [of _ "log_seq s"], rule exI [of _ "pending_steps s"],
        rule exI [of _ d], simp)
qed

lemma log_frame_trans: "log_frame s t \<Longrightarrow> log_frame t u \<Longrightarrow> log_frame s u"
  unfolding log_frame_def by fastforce

lemma append_log_frame: "append_log E owner e s = Inr t \<Longrightarrow> log_frame s t"
  by (auto simp: append_log_def result_simps)

lemma draw_frame: "(u, t) = draw E s \<Longrightarrow> log_frame s t"
  by (auto simp: draw_def)

lemma log_frame_pending: "log_frame (s\<lparr>pending_steps := c\<rparr>) t \<Longrightarrow> log_frame s t"
  by (rule log_frame_trans) simp_all

lemma append_all_frame: "try_fold (\<lambda>e. append_log E owner (g e)) es s = Inr t \<Longrightarrow> log_frame s t"
  by (rule try_fold_invariant) (auto intro: append_log_frame log_frame_trans)

lemma committed_frame: "yields (log_frame s) (committed E owner now c s)"
  unfolding committed_def
  by (intro yields_intros)
    (auto intro!: yields_assumed dest!: append_all_frame append_log_frame draw_frame log_frame_pending
      intro: log_frame_trans split: if_splits)

lemma operation_edge_frame: "yields (log_frame s) (operation_edge E view owner i edge payload now s)"
  unfolding operation_edge_def
  by (intro yields_intros committed_frame) simp_all

section \<open>The event of a change\<close>

definition event_of ::
  "store_env \<Rightarrow> principal_id \<Rightarrow> operation_id \<Rightarrow> revision \<Rightarrow> string \<Rightarrow> string \<Rightarrow> int \<Rightarrow> int \<Rightarrow> string \<Rightarrow>
   event_row" where
  "event_of E owner i rv kind payload now seq eid =
     \<lparr>er_sequence = seq, er_event_id = eid, er_kind = kind, er_aggregate_kind = ''operation'',
      er_aggregate_id = operation_id_to_string (env_uuid E) i,
      er_aggregate_revision = sqlite_revision rv, er_principal_id = principal_as_str owner,
      er_occurred_at = now, er_payload = payload\<rparr>"

definition new_event ::
  "store_env \<Rightarrow> principal_id \<Rightarrow> operation_id \<Rightarrow> revision \<Rightarrow> string \<Rightarrow> string \<Rightarrow> int \<Rightarrow> ledger \<Rightarrow> ledger \<Rightarrow>
   bool" where
  "new_event E owner i rv kind payload now db db' \<longleftrightarrow>
     operations db' = operations db \<and> journal db' = journal db \<and> idempotency db' = idempotency db \<and>
     phases db' = phases db \<and> event_seq db < uint i64_max \<and> event_seq db' = event_seq db + 1 \<and> 0 \<le> now \<and>
     (\<exists>eid. eid \<notin> er_event_id ` set (events db) \<and>
        events db' = events db @ [event_of E owner i rv kind payload now (event_seq db + 1) eid])"

lemma log_frame_ledger:
  assumes "log_frame db (db' :: ledger)"
  shows "operations db' = operations db" "journal db' = journal db" "events db' = events db"
    "event_seq db' = event_seq db" "idempotency db' = idempotency db" "phases db' = phases db"
  using assms by (auto simp: log_frame_def)

lemma insert_event_spec:
  "yields (new_event E owner i rv kind payload now db) (insert_event E owner i rv kind payload now db)"
  unfolding insert_event_def
proof (intro yields_intros)
  fix p u db1 eid chk db2 at
  assume p: "p = draw E db" "p = (u, db1)" and fresh: "ensure (\<not> list_ex (\<lambda>e. er_event_id e = eid) (events db1) \<and>
      event_seq db1 < uint i64_max) Unavailable = Inr chk"
    and db2: "db2 = db1\<lparr>events := events db1 @
      [\<lparr>er_sequence = event_seq db1 + 1, er_event_id = eid, er_kind = kind,
        er_aggregate_kind = ''operation'', er_aggregate_id = operation_id_to_string (env_uuid E) i,
        er_aggregate_revision = sqlite_revision rv, er_principal_id = principal_as_str owner,
        er_occurred_at = now, er_payload = payload\<rparr>], event_seq := event_seq db1 + 1\<rparr>"
    and at: "positive_or_zero now = Inr at"
  note frame = log_frame_ledger [OF draw_frame [OF p(2) [symmetric, unfolded p(1)]]]
  show "yields (new_event E owner i rv kind payload now db)
      (operation_edge E (operation_view_of E owner i db2) owner i kind payload at db2)"
  proof (rule yields_assumed)
    fix db'
    assume "operation_edge E (operation_view_of E owner i db2) owner i kind payload at db2 = Inr db'"
    from log_frame_ledger [OF yieldsD [OF operation_edge_frame this]]
    show "new_event E owner i rv kind payload now db db'"
      using fresh at by (auto simp: new_event_def event_of_def db2 frame result_simps list_ex_iff
          positive_or_zero_def split: if_splits)
  qed
qed

section \<open>The invariant\<close>

definition terminal_row :: "operation_row \<Rightarrow> bool" where
  "terminal_row r \<longleftrightarrow> row_state r \<in> set terminal_names"

definition column_time :: "int \<Rightarrow> bool" where
  "column_time t \<longleftrightarrow> 0 \<le> t \<and> t \<le> uint i64_max"

text \<open>A row that reads back, with the columns that only a finished operation has.\<close>

definition row_ok :: "store_env \<Rightarrow> (string \<Rightarrow> string option) \<Rightarrow> operation_row \<Rightarrow> bool" where
  "row_ok E phase_of r \<longleftrightarrow>
     (\<exists>i. row_operation_id r = operation_id_to_string (env_uuid E) i) \<and>
     (\<exists>st. row_state r = state_name st \<and> (row_kind r = ''state.check'' \<longrightarrow> st \<noteq> Planning \<and> st \<noteq> WaitingForInput)) \<and>
     1 \<le> row_revision r \<and> row_revision r \<le> uint i64_max \<and>
     is_ok (principal_parse (row_owner r)) \<and>
     column_time (row_created_at r) \<and> column_time (row_updated_at r) \<and>
     pred_option column_time (row_started_at r) \<and> pred_option column_time (row_completed_at r) \<and>
     is_ok (read_phase (phase_of (row_operation_id r))) \<and>
     row_kind r \<in> set (''state.check'' # dedicated_kinds) \<and>
     (terminal_row r \<longleftrightarrow> row_completed_at r \<noteq> None)"

definition event_ok :: "event_row \<Rightarrow> bool" where
  "event_ok e \<longleftrightarrow> 1 \<le> er_sequence e \<and> column_time (er_occurred_at e) \<and>
     1 \<le> er_aggregate_revision e \<and> er_aggregate_revision e \<le> uint i64_max"

definition history :: "string \<Rightarrow> ledger \<Rightarrow> int list" where
  "history text db = map er_aggregate_revision
     (filter (\<lambda>e. er_aggregate_kind e = ''operation'' \<and> er_aggregate_id e = text) (events db))"

definition operations_ok :: "store_env \<Rightarrow> ledger \<Rightarrow> bool" where
  "operations_ok E db \<longleftrightarrow> distinct (map row_operation_id (operations db)) \<and>
     (\<forall>r \<in> set (operations db). row_ok E (phases db) r)"

definition events_ok :: "ledger \<Rightarrow> bool" where
  "events_ok db \<longleftrightarrow>
     0 \<le> event_seq db \<and> event_seq db \<le> uint i64_max \<and>
     sorted_wrt (<) (map er_sequence (events db)) \<and>
     (\<forall>e \<in> set (events db). er_sequence e \<le> event_seq db \<and> event_ok e \<and>
        (er_aggregate_kind e = ''operation'' \<longrightarrow> er_aggregate_id e \<in> row_operation_id ` set (operations db))) \<and>
     distinct (map er_event_id (events db)) \<and>
     (\<forall>r \<in> set (operations db). history (row_operation_id r) db = [1..row_revision r])"

definition journal_ok :: "ledger \<Rightarrow> bool" where
  "journal_ok db \<longleftrightarrow>
     distinct (map (\<lambda>j. (jr_operation_id j, jr_step j)) (journal db)) \<and>
     (\<forall>j \<in> set (journal db). jr_operation_id j \<in> row_operation_id ` set (operations db)) \<and>
     (\<forall>r \<in> set (operations db). row_kind r = ''state.check'' \<longrightarrow>
        (\<exists>j \<in> set (journal db). jr_operation_id j = row_operation_id r \<and> jr_step j = 1 \<and>
           jr_kind j = ''state.check'' \<and> jr_state j = (if terminal_row r then ''applied'' else ''prepared'')))"

definition idempotency_ok :: "ledger \<Rightarrow> bool" where
  "idempotency_ok db \<longleftrightarrow>
     distinct (map (\<lambda>r. (ir_principal_id r, ir_method r, ir_key r)) (idempotency db)) \<and>
     (\<forall>r \<in> set (idempotency db). ir_operation_id r \<in> row_operation_id ` set (operations db))"

definition ledger_ok :: "store_env \<Rightarrow> ledger \<Rightarrow> bool" where
  "ledger_ok E db \<longleftrightarrow> operations_ok E db \<and> events_ok db \<and> journal_ok db \<and> idempotency_ok db"

lemma ledger_okD:
  assumes "ledger_ok E db"
  shows "operations_ok E db" "events_ok db" "journal_ok db" "idempotency_ok db"
  using assms by (simp_all add: ledger_ok_def)

lemma ledger_ok_frame: "log_frame db db' \<Longrightarrow> ledger_ok E db' = ledger_ok E (db :: ledger)"
  unfolding ledger_ok_def operations_ok_def events_ok_def journal_ok_def idempotency_ok_def history_def
  by (simp add: log_frame_ledger)

lemma state_name_inject [simp]: "state_name s = state_name t \<longleftrightarrow> s = t"
  by (cases s; cases t) (simp_all add: state_name_def)

lemma parse_state_name [simp]: "parse_state (state_name s) = Inr s"
  by (cases s) (simp_all add: parse_state_def state_name_def)

lemma state_name_terminal [simp]: "state_name s \<in> set terminal_names \<longleftrightarrow> is_terminal s"
  by (cases s) (simp_all add: state_name_def terminal_names_def)

lemma sqlite_integer_time: "sqlite_integer t = Inr now \<Longrightarrow> column_time now"
  by (auto simp: sqlite_integer_def column_time_def word_le_def split: if_splits)

lemma revision_next_column:
  assumes "revision_checked_next r = Some s" and "revision_ok r"
  shows "sqlite_revision s = sqlite_revision r + 1" "sqlite_revision s \<le> uint i64_max" "revision_ok s"
proof -
  have s: "revision_ok s" "unat (revision_get s) = unat (revision_get r) + 1"
    using assms revision_next_iff by auto
  then have "int (unat (revision_get s)) = int (unat (revision_get r)) + 1"
    by linarith
  then show "sqlite_revision s = sqlite_revision r + 1"
    by (simp add: sqlite_revision_def)
  show "sqlite_revision s \<le> uint i64_max" "revision_ok s"
    using s(1) by (simp_all add: sqlite_revision_def revision_ok_def word_le_def)
qed

section \<open>Reading rows\<close>

lemma column_word: "column_time t \<Longrightarrow> uint (word_of_int t :: u64) = t"
  by (simp add: column_time_def uint_word_of_int take_bit_int_eq_self)

lemma read_revision_column:
  "read_revision v = Inr r \<Longrightarrow> v \<le> uint i64_max \<Longrightarrow> sqlite_revision r = v \<and> revision_ok r"
  by (auto simp: read_revision_def positive_or_zero_def result_simps revision_new_Some_iff
      sqlite_revision_def uint_word_of_int take_bit_int_eq_self split: if_splits)

lemma distinct_find:
  "distinct (map f xs) \<Longrightarrow> find (\<lambda>x. f x = k) xs = Some x \<longleftrightarrow> x \<in> set xs \<and> f x = k"
  by (induction xs) (auto simp: rev_image_eqI)

lemma row_reads:
  assumes U: "uuid_laws (env_uuid E)" and ok: "row_ok E phase_of row"
    and map: "map_operation_row (env_uuid E) phase_of row = Inr r"
  shows "row_operation_id row = operation_id_to_string (env_uuid E) (or_operation_id r)"
    "row_kind row = or_kind r" "row_state row = state_name (or_state r)"
    "row_revision row = sqlite_revision (or_revision r)" "revision_ok (or_revision r)"
    "row_owner row = principal_as_str (or_owner r)"
    "row_cancel_requested row = or_cancel_requested r" "terminal_row row = is_terminal (or_state r)"
    "row_created_at row = uint (or_created_at_ms r)"
proof -
  from ok obtain i st where i: "row_operation_id row = operation_id_to_string (env_uuid E) i"
    and st: "row_state row = state_name st"
    and bound: "row_revision row \<le> uint i64_max" "column_time (row_created_at row)"
    unfolding row_ok_def by blast
  from map have parts: "operation_id_parse (env_uuid E) (row_operation_id row) = Inr (or_operation_id r)"
    "parse_state (row_state row) = Inr (or_state r)" "read_revision (row_revision row) = Inr (or_revision r)"
    "principal_parse (row_owner row) = Inr (or_owner r)"
    "positive_or_zero (row_created_at row) = Inr (or_created_at_ms r)"
    "row_kind row = or_kind r" "row_cancel_requested row = or_cancel_requested r"
    by (auto simp: map_operation_row_def result_simps)
  show "row_operation_id row = operation_id_to_string (env_uuid E) (or_operation_id r)"
    "row_state row = state_name (or_state r)"
    using parts(1,2) i st U by simp_all
  then show "terminal_row row = is_terminal (or_state r)"
    by (simp add: terminal_row_def del: is_terminal_iff)
  show "row_revision row = sqlite_revision (or_revision r)" "revision_ok (or_revision r)"
    using read_revision_column [OF parts(3) bound(1)] by simp_all
  show "row_owner row = principal_as_str (or_owner r)"
    using parts(4) by (cases "or_owner r") (auto simp: principal_parse_def split: if_splits)
  show "row_created_at row = uint (or_created_at_ms r)"
    using parts(5) column_word [OF bound(2)] by (auto simp: positive_or_zero_def split: if_splits)
qed (use map in \<open>auto simp: map_operation_row_def result_simps\<close>)

lemma optional_time: "pred_option column_time t \<Longrightarrow> \<exists>w. optional_positive_or_zero t = Inr w"
  by (cases t) (auto simp: column_time_def positive_or_zero_def)

lemma read_revision_ok: "1 \<le> v \<Longrightarrow> v \<le> uint i64_max \<Longrightarrow> \<exists>r. read_revision v = Inr r"
proof -
  assume v: "1 \<le> v" "v \<le> uint i64_max"
  then have "uint (word_of_int v :: u64) = v"
    by (intro column_word) (simp add: column_time_def)
  with v have "revision_new (word_of_int v) = Some (Revision (word_of_int v))"
    by (simp add: revision_new_def word_le_def word_less_def flip: uint_0_iff)
  with v show ?thesis
    by (simp add: read_revision_def positive_or_zero_def)
qed

lemma row_decodes:
  assumes "uuid_laws (env_uuid E)" and "row_ok E phase_of row"
  shows "\<exists>r. map_operation_row (env_uuid E) phase_of row = Inr r"
proof -
  from assms(2) obtain i st where i: "row_operation_id row = operation_id_to_string (env_uuid E) i"
    and st: "row_state row = state_name st"
    unfolding row_ok_def by blast
  obtain rv where "read_revision (row_revision row) = Inr rv"
    using assms(2) read_revision_ok unfolding row_ok_def by blast
  moreover obtain owner where "principal_parse (row_owner row) = Inr owner"
    using assms(2) by (auto simp: row_ok_def is_ok_iff)
  moreover obtain a b where "positive_or_zero (row_created_at row) = Inr a"
    "positive_or_zero (row_updated_at row) = Inr b"
    using assms(2) by (auto simp: row_ok_def column_time_def positive_or_zero_def)
  moreover obtain c d where "optional_positive_or_zero (row_started_at row) = Inr c"
    "optional_positive_or_zero (row_completed_at row) = Inr d"
    using assms(2) optional_time unfolding row_ok_def by blast
  moreover obtain p where "read_phase (phase_of (row_operation_id row)) = Inr p"
    using assms(2) by (auto simp: row_ok_def is_ok_iff)
  ultimately show ?thesis
    using assms(1) i st by (simp add: map_operation_row_def)
qed

text \<open>What a successful read tells about the row it found.\<close>

definition reads_row :: "store_env \<Rightarrow> operation_id \<Rightarrow> ledger \<Rightarrow> operation_row \<Rightarrow> operation_record \<Rightarrow> bool" where
  "reads_row E i db row r \<longleftrightarrow>
     row \<in> set (operations db) \<and> row_operation_id row = operation_id_to_string (env_uuid E) i \<and>
     or_operation_id r = i \<and> row_kind row = or_kind r \<and> row_state row = state_name (or_state r) \<and>
     row_revision row = sqlite_revision (or_revision r) \<and> revision_ok (or_revision r) \<and>
     row_owner row = principal_as_str (or_owner r) \<and> row_cancel_requested row = or_cancel_requested r \<and>
     map_operation_row (env_uuid E) (phases db) row = Inr r"

lemma load_operation_reads:
  assumes U: "uuid_laws (env_uuid E)" and ok: "ledger_ok E db" and load: "load_operation E i db = Inr r"
  shows "\<exists>row. reads_row E i db row r"
proof -
  obtain row where row: "row \<in> set (operations db)"
      "row_operation_id row = operation_id_to_string (env_uuid E) i"
      "map_operation_row (env_uuid E) (phases db) row = Inr r"
    using load by (auto simp: load_operation_def split: option.splits dest!: find_Some_set)
  then have "row_ok E (phases db) row"
    using ok by (simp add: ledger_ok_def operations_ok_def)
  from row row_reads [OF U this row(3)] U show ?thesis
    by (auto simp: reads_row_def)
qed

lemma load_owned_reads:
  assumes U: "uuid_laws (env_uuid E)" and ok: "ledger_ok E db"
    and load: "load_owned_operation E owner i db = Inr r"
  shows "\<exists>row. reads_row E i db row r \<and> principal_as_str owner = row_owner row"
proof -
  obtain row where row: "row \<in> set (operations db)"
      "row_operation_id row = operation_id_to_string (env_uuid E) i" "row_owner row = principal_as_str owner"
      "map_operation_row (env_uuid E) (phases db) row = Inr r"
    using load by (auto simp: load_owned_operation_def split: option.splits dest!: find_Some_set)
  then have "row_ok E (phases db) row"
    using ok by (simp add: ledger_ok_def operations_ok_def)
  from row row_reads [OF U this row(4)] U show ?thesis
    by (auto simp: reads_row_def)
qed

section \<open>One step of one operation\<close>

text \<open>
  The row moves to a new value with the next revision, one event records that revision, and the
  journal of an operation that ends is marked applied.
\<close>

definition advanced :: "store_env \<Rightarrow> operation_row \<Rightarrow> operation_row \<Rightarrow> ledger \<Rightarrow> ledger \<Rightarrow> bool" where
  "advanced E row row' db db' \<longleftrightarrow>
     row \<in> set (operations db) \<and> \<not> terminal_row row \<and> row_ok E (phases db) row' \<and>
     row_operation_id row' = row_operation_id row \<and> row_kind row' = row_kind row \<and>
     row_owner row' = row_owner row \<and> row_created_at row' = row_created_at row \<and>
     row_request row' = row_request row \<and> row_revision row' = row_revision row + 1 \<and>
     operations db' = map (\<lambda>r. if row_operation_id r = row_operation_id row then row' else r) (operations db) \<and>
     (\<exists>now. journal db' = map (\<lambda>j. if jr_operation_id j = row_operation_id row \<and> jr_step j = 1 \<and> terminal_row row'
        then j\<lparr>jr_state := ''applied'', jr_updated_at := now\<rparr> else j) (journal db)) \<and>
     idempotency db' = idempotency db \<and> phases db' = phases db \<and>
     event_seq db < uint i64_max \<and> event_seq db' = event_seq db + 1 \<and>
     (\<exists>e. events db' = events db @ [e] \<and> er_event_id e \<notin> er_event_id ` set (events db) \<and>
        event_ok e \<and> er_sequence e = event_seq db + 1 \<and> er_aggregate_kind e = ''operation'' \<and>
        er_aggregate_id e = row_operation_id row \<and> er_aggregate_revision e = row_revision row' \<and>
        er_principal_id e = row_owner row)"

lemma same_row:
  assumes "operations_ok E db" and "r \<in> set (operations db)" and "row \<in> set (operations db)"
    and "row_operation_id r = row_operation_id row"
  shows "r = row"
  using assms by (auto simp: operations_ok_def dest: inj_onD [of row_operation_id] simp: distinct_map)

lemma advanced_ids:
  "advanced E row row' db db' \<Longrightarrow> map row_operation_id (operations db') = map row_operation_id (operations db)"
  by (auto simp: advanced_def)

lemma advanced_history:
  assumes "advanced E row row' db db'"
  shows "history text db' = history text db @ (if text = row_operation_id row then [row_revision row'] else [])"
  using assms by (auto simp: advanced_def history_def)

lemma advanced_rows:
  assumes "advanced E row row' db db'" and "operations_ok E db"
  shows "set (operations db') = insert row' (set (operations db) - {row})"
proof -
  have row: "row \<in> set (operations db)" and ops: "operations db' =
      map (\<lambda>r. if row_operation_id r = row_operation_id row then row' else r) (operations db)"
    using assms(1) by (simp_all add: advanced_def)
  have "r = row" if "r \<in> set (operations db)" "row_operation_id r = row_operation_id row" for r
    using same_row [OF assms(2) that(1) row that(2)] .
  then show ?thesis
    using row unfolding ops by (auto simp: image_iff split: if_splits)
qed

lemma advanced_operations_ok:
  assumes adv: "advanced E row row' db db'" and ok: "operations_ok E db"
  shows "operations_ok E db'"
proof -
  have "phases db' = phases db" "row_ok E (phases db) row'"
    using adv by (simp_all add: advanced_def)
  then show ?thesis
    using advanced_ids [OF adv] advanced_rows [OF adv ok] ok by (auto simp: operations_ok_def)
qed

lemma advanced_events_ok:
  assumes adv: "advanced E row row' db db'" and ok: "operations_ok E db" and ev: "events_ok db"
  shows "events_ok db'"
proof -
  obtain e where e: "events db' = events db @ [e]" "er_event_id e \<notin> er_event_id ` set (events db)"
      "event_ok e" "er_sequence e = event_seq db + 1" "er_aggregate_kind e = ''operation''"
      "er_aggregate_id e = row_operation_id row"
    using adv unfolding advanced_def by blast
  have row: "row \<in> set (operations db)" "row_operation_id row' = row_operation_id row"
      "row_revision row' = row_revision row + 1" "event_seq db < uint i64_max"
      "event_seq db' = event_seq db + 1"
    using adv by (simp_all add: advanced_def)
  have ids: "row_operation_id ` set (operations db') = row_operation_id ` set (operations db)"
    using advanced_ids [OF adv] by (metis list.set_map)
  have "history (row_operation_id r) db' = [1..row_revision r]" if "r \<in> set (operations db')" for r
  proof (cases "r = row'")
    case True
    have "1 \<le> row_revision row"
      using ok row(1) by (auto simp: operations_ok_def row_ok_def)
    then show ?thesis
      using True ev row by (simp add: advanced_history [OF adv] events_ok_def upto_rec2)
  next
    case False
    then have r: "r \<in> set (operations db)" "r \<noteq> row"
      using that advanced_rows [OF adv ok] by auto
    then have "row_operation_id r \<noteq> row_operation_id row"
      using same_row [OF ok r(1) row(1)] by auto
    then show ?thesis
      using ev r by (simp add: advanced_history [OF adv] events_ok_def)
  qed
  then show ?thesis
    using ev e row unfolding events_ok_def ids
    by (auto simp: sorted_wrt_append image_iff)
qed

lemma advanced_journal_ok:
  assumes adv: "advanced E row row' db db'" and ok: "operations_ok E db" and j: "journal_ok db"
  shows "journal_ok db'"
proof -
  obtain now where journal: "journal db' = map (\<lambda>j. if jr_operation_id j = row_operation_id row \<and>
      jr_step j = 1 \<and> terminal_row row' then j\<lparr>jr_state := ''applied'', jr_updated_at := now\<rparr> else j) (journal db)"
    using adv unfolding advanced_def by blast
  have row: "row \<in> set (operations db)" "row_operation_id row' = row_operation_id row"
      "row_kind row' = row_kind row" "\<not> terminal_row row"
    using adv by (simp_all add: advanced_def)
  have ids: "row_operation_id ` set (operations db') = row_operation_id ` set (operations db)"
    using advanced_ids [OF adv] by (metis list.set_map)
  have keys: "map (\<lambda>j. (jr_operation_id j, jr_step j)) (journal db') =
      map (\<lambda>j. (jr_operation_id j, jr_step j)) (journal db)"
    by (simp add: journal)
  have "\<exists>j \<in> set (journal db'). jr_operation_id j = row_operation_id r \<and> jr_step j = 1 \<and>
      jr_kind j = ''state.check'' \<and> jr_state j = (if terminal_row r then ''applied'' else ''prepared'')"
    if r: "r \<in> set (operations db')" "row_kind r = ''state.check''" for r
  proof (cases "r = row'")
    case True
    then obtain j where "j \<in> set (journal db)" "jr_operation_id j = row_operation_id row" "jr_step j = 1"
      "jr_kind j = ''state.check''" "jr_state j = ''prepared''"
      using j row r by (auto simp: journal_ok_def)
    then show ?thesis
      using True row by (intro bexI [of _ "if terminal_row row' then
          j\<lparr>jr_state := ''applied'', jr_updated_at := now\<rparr> else j"]) (auto simp: journal image_iff)
  next
    case False
    then have old: "r \<in> set (operations db)" "r \<noteq> row"
      using r advanced_rows [OF adv ok] by auto
    then have "row_operation_id r \<noteq> row_operation_id row"
      using same_row [OF ok old(1) row(1)] by auto
    moreover obtain j where "j \<in> set (journal db)" "jr_operation_id j = row_operation_id r" "jr_step j = 1"
      "jr_kind j = ''state.check''" "jr_state j = (if terminal_row r then ''applied'' else ''prepared'')"
      using j old r(2) by (auto simp: journal_ok_def)
    ultimately show ?thesis
      by (intro bexI [of _ j]) (auto simp: journal image_iff)
  qed
  moreover have "jr_operation_id j \<in> row_operation_id ` set (operations db')" if "j \<in> set (journal db')" for j
    using that j imageI [OF row(1), of row_operation_id] unfolding ids
    by (auto simp: journal journal_ok_def split: if_splits)
  ultimately show ?thesis
    using j keys unfolding journal_ok_def by simp
qed

lemma advanced_ok:
  assumes adv: "advanced E row row' db db'" and ok: "ledger_ok E db"
  shows "ledger_ok E db'"
proof -
  have "row_operation_id ` set (operations db') = row_operation_id ` set (operations db)"
    using advanced_ids [OF adv] by (metis list.set_map)
  moreover have "idempotency db' = idempotency db"
    using adv by (simp add: advanced_def)
  ultimately show ?thesis
    using ledger_okD [OF ok] advanced_operations_ok [OF adv] advanced_events_ok [OF adv]
      advanced_journal_ok [OF adv]
    by (simp add: ledger_ok_def idempotency_ok_def)
qed

section \<open>Every operation advances one row\<close>

lemma row_ok_moved:
  assumes "row_ok E phase_of row"
    and "row_operation_id row' = row_operation_id row" "row_kind row' = row_kind row"
    "row_owner row' = row_owner row" "row_created_at row' = row_created_at row"
    and "row_state row' = state_name st" "st \<noteq> Planning" "st \<noteq> WaitingForInput"
    and "1 \<le> row_revision row'" "row_revision row' \<le> uint i64_max"
    and "column_time (row_updated_at row')" "pred_option column_time (row_started_at row')"
    "pred_option column_time (row_completed_at row')"
    and "is_terminal st \<longleftrightarrow> row_completed_at row' \<noteq> None"
  shows "row_ok E phase_of row'"
  using assms unfolding row_ok_def terminal_row_def by (auto simp del: is_terminal_iff)

lemma change_advanced:
  assumes U: "uuid_laws (env_uuid E)" and ok: "ledger_ok E db" and reads: "reads_row E i db row r"
    and active: "\<not> is_terminal (or_state r)"
    and rv: "revision_checked_next (or_revision r) = Some rv"
    and f: "row_operation_id (f row) = row_operation_id row" "row_kind (f row) = row_kind row"
    "row_owner (f row) = row_owner row" "row_created_at (f row) = row_created_at row"
    "row_request (f row) = row_request row" "row_revision (f row) = sqlite_revision rv"
    and st: "row_state (f row) = state_name st" "st \<noteq> Planning" "st \<noteq> WaitingForInput"
    and times: "column_time (row_updated_at (f row))" "pred_option column_time (row_started_at (f row))"
    "pred_option column_time (row_completed_at (f row))"
    "is_terminal st \<longleftrightarrow> row_completed_at (f row) \<noteq> None"
    and now: "column_time now"
    and db1: "operations db1 = operations (update_operation E i f db)"
    "journal db1 = (if is_terminal st then journal (mark_applied E i now db) else journal db)"
    "events db1 = events db" "event_seq db1 = event_seq db" "idempotency db1 = idempotency db"
    "phases db1 = phases db"
    and owner: "principal_as_str owner = row_owner row"
    and event: "new_event E owner i rv kind payload now db1 db'"
  shows "advanced E row (f row) db db'"
proof -
  have row: "row \<in> set (operations db)" "row_operation_id row = operation_id_to_string (env_uuid E) i"
      "row_state row = state_name (or_state r)" "row_revision row = sqlite_revision (or_revision r)"
      "revision_ok (or_revision r)"
    using reads by (simp_all add: reads_row_def)
  note next_rv = revision_next_column [OF rv row(5)]
  have row_ok: "row_ok E (phases db) row"
    using ok row(1) by (simp add: ledger_ok_def operations_ok_def)
  have "1 \<le> row_revision row"
    using row_ok by (simp add: row_ok_def)
  then have fine: "row_ok E (phases db) (f row)"
    using f st times next_rv row(4) by (intro row_ok_moved [OF row_ok]) simp_all
  have ops: "operations db1 = map (\<lambda>x. if row_operation_id x = row_operation_id row then f row else x) (operations db)"
  proof -
    have "x = row" if "x \<in> set (operations db)" "row_operation_id x = row_operation_id row" for x
      using same_row [OF ledger_okD(1) [OF ok] that(1) row(1) that(2)] .
    then show ?thesis
      unfolding db1 update_operation_def by (auto simp: row(2))
  qed
  have terminal: "terminal_row (f row) = is_terminal st" "\<not> terminal_row row"
    using active by (simp_all add: terminal_row_def st row del: is_terminal_iff)
  have journal: "journal db1 = map (\<lambda>j. if jr_operation_id j = row_operation_id row \<and> jr_step j = 1 \<and>
      terminal_row (f row) then j\<lparr>jr_state := ''applied'', jr_updated_at := now\<rparr> else j) (journal db)"
    by (simp add: db1(2) mark_applied_def row(2) terminal del: is_terminal_iff)
  from event obtain eid where e: "eid \<notin> er_event_id ` set (events db)"
      "events db' = events db @ [event_of E owner i rv kind payload now (event_seq db + 1) eid]"
      "operations db' = operations db1" "journal db' = journal db1" "idempotency db' = idempotency db"
      "phases db' = phases db" "event_seq db < uint i64_max" "event_seq db' = event_seq db + 1"
    by (auto simp: new_event_def db1)
  have "0 \<le> event_seq db"
    using ok by (simp add: ledger_ok_def events_ok_def)
  then have "event_ok (event_of E owner i rv kind payload now (event_seq db + 1) eid)"
    using next_rv row \<open>1 \<le> row_revision row\<close> now by (simp add: event_ok_def event_of_def)
  then show ?thesis
    unfolding advanced_def using row e f fine ops journal terminal next_rv owner
    by (auto simp: event_of_def)
qed

text \<open>The operation \<open>i\<close> goes from one state to another, with the cancellation flag it then has.\<close>

definition moves ::
  "store_env \<Rightarrow> operation_id \<Rightarrow> ledger \<Rightarrow> ledger \<Rightarrow> operation_state \<Rightarrow> operation_state \<Rightarrow> bool \<Rightarrow> bool \<Rightarrow>
   bool" where
  "moves E i db db' st st' cancelled cancelled' \<longleftrightarrow>
     (\<exists>row row'. advanced E row row' db db' \<and> row_operation_id row = operation_id_to_string (env_uuid E) i \<and>
        row_state row = state_name st \<and> row_state row' = state_name st' \<and>
        row_cancel_requested row = cancelled \<and> row_cancel_requested row' = cancelled')"

lemma movesI:
  assumes "advanced E row row' db db'" and "reads_row E i db row r"
    and "row_state row' = state_name st'"
  shows "moves E i db db' (or_state r) st' (or_cancel_requested r) (row_cancel_requested row')"
  unfolding moves_def using assms by (auto simp: reads_row_def)

lemma row_times:
  "ledger_ok E db \<Longrightarrow> row \<in> set (operations db) \<Longrightarrow>
    pred_option column_time (row_started_at row) \<and> pred_option column_time (row_completed_at row) \<and>
    (terminal_row row \<longleftrightarrow> row_completed_at row \<noteq> None)"
  by (auto simp: ledger_ok_def operations_ok_def row_ok_def)

lemma begin_moves:
  assumes U: "uuid_laws (env_uuid E)" and ok: "ledger_ok E db"
    and run: "begin_state_check E i at db = Inr (r', db')"
  shows "\<exists>st st' c. begin_target st c = Inr st' \<and> moves E i db db' st st' c c"
proof -
  from run obtain now r st' rv where now: "sqlite_integer at = Inr now"
    and load: "load_operation E i db = Inr r"
    and target: "begin_target (or_state r) (or_cancel_requested r) = Inr st'"
    and rv: "revision_checked_next (or_revision r) = Some rv"
    and event: "insert_event E (or_owner r) i rv ''operation.state_changed'' (state_payload st') now
      (update_operation E i (\<lambda>row. row\<lparr>row_state := state_name st', row_revision := sqlite_revision rv,
         row_updated_at := now,
         row_started_at := Some (case row_started_at row of None \<Rightarrow> now | Some t \<Rightarrow> t)\<rparr>) db) = Inr db'"
    unfolding begin_state_check_def Let_def by (auto simp: result_simps)
  obtain row where row: "reads_row E i db row r"
    using load_operation_reads [OF U ok load] by blast
  then have mem: "row \<in> set (operations db)" "row_state row = state_name (or_state r)"
      "row_cancel_requested row = or_cancel_requested r"
    by (simp_all add: reads_row_def)
  have states: "\<not> is_terminal (or_state r)" "\<not> is_terminal st'" "st' \<noteq> Planning" "st' \<noteq> WaitingForInput"
    using target by (auto simp: begin_target_def split: if_splits)
  have unfinished: "row_completed_at row = None"
    using row_times [OF ok mem(1)] states mem(2) by (simp add: terminal_row_def del: is_terminal_iff)
  let ?f = "\<lambda>row. row\<lparr>row_state := state_name st', row_revision := sqlite_revision rv,
         row_updated_at := now,
         row_started_at := Some (case row_started_at row of None \<Rightarrow> now | Some t \<Rightarrow> t)\<rparr>"
  have "advanced E row (?f row) db db'"
  proof (rule change_advanced [OF U ok row states(1) rv, where st = st'])
    show "new_event E (or_owner r) i rv ''operation.state_changed'' (state_payload st') now
        (update_operation E i ?f db) db'"
      using event by (rule yieldsD [OF insert_event_spec])
  qed (use states unfinished sqlite_integer_time [OF now] row_times [OF ok mem(1)] row in
      \<open>auto simp: update_operation_def reads_row_def split: option.splits\<close>)
  then have "moves E i db db' (or_state r) st' (or_cancel_requested r) (row_cancel_requested (?f row))"
    using row by (rule movesI) simp
  with target mem(3) show ?thesis
    by auto
qed

lemma finish_moves:
  assumes U: "uuid_laws (env_uuid E)" and ok: "ledger_ok E db" and terminal: "is_terminal terminal"
    and run: "finish_operation E i terminal result error_code diagnostic_id at db = Inr (r', db')"
  shows "(db' = db \<and> is_terminal (or_state r')) \<or>
    (\<exists>st c. can_transition_to st terminal \<and> moves E i db db' st terminal c c)"
proof -
  from run obtain now r where now: "sqlite_integer at = Inr now" and load: "load_operation E i db = Inr r"
    and rest: "(if is_terminal (or_state r) then Inr (r, db)
     else
       and_then (ensure (can_transition_to (or_state r) terminal) CorruptState) (\<lambda>_.
       and_then (ok_or (revision_checked_next (or_revision r)) CorruptState) (\<lambda>rv.
       let db1 = update_operation E i (\<lambda>row. row
             \<lparr>row_state := state_name terminal, row_revision := sqlite_revision rv,
              row_result := result, row_error_code := error_code, row_diagnostic_id := diagnostic_id,
              row_updated_at := now, row_completed_at := Some now\<rparr>) db;
           db2 = mark_applied E i now db1
       in and_then (insert_event E (or_owner r) i rv ''operation.completed''
              (state_payload terminal) now db2) (\<lambda>db3.
          and_then (load_operation E i db3) (\<lambda>updated. Inr (updated, db3)))))) = Inr (r', db')"
    unfolding finish_operation_def by (auto simp: result_simps simp del: is_terminal_iff)
  show ?thesis
  proof (cases "is_terminal (or_state r)")
    case True
    with rest show ?thesis by simp
  next
    case False
    let ?f = "\<lambda>rv row. row\<lparr>row_state := state_name terminal, row_revision := sqlite_revision rv,
      row_result := result, row_error_code := error_code, row_diagnostic_id := diagnostic_id,
      row_updated_at := now, row_completed_at := Some now\<rparr>"
    from False rest obtain rv where can: "can_transition_to (or_state r) terminal"
      and rv: "revision_checked_next (or_revision r) = Some rv"
      and event: "insert_event E (or_owner r) i rv ''operation.completed'' (state_payload terminal) now
        (mark_applied E i now (update_operation E i (?f rv) db)) = Inr db'"
      by (auto simp: result_simps Let_def simp del: is_terminal_iff)
    obtain row where row: "reads_row E i db row r"
      using load_operation_reads [OF U ok load] by blast
    then have mem: "row \<in> set (operations db)"
      by (simp add: reads_row_def)
    have "advanced E row (?f rv row) db db'"
    proof (rule change_advanced [OF U ok row False rv, where st = terminal])
      show "new_event E (or_owner r) i rv ''operation.completed'' (state_payload terminal) now
          (mark_applied E i now (update_operation E i (?f rv) db)) db'"
        using event by (rule yieldsD [OF insert_event_spec])
    qed (use terminal sqlite_integer_time [OF now] row_times [OF ok mem] row in
        \<open>auto simp: update_operation_def mark_applied_def reads_row_def\<close>)
    then have "moves E i db db' (or_state r) terminal (or_cancel_requested r) (row_cancel_requested (?f rv row))"
      using row by (rule movesI) simp
    with can row show ?thesis
      by (auto simp: reads_row_def)
  qed
qed

lemma cancel_target_states:
  "cancel_target st = Inr st' \<Longrightarrow> st' \<noteq> Planning \<and> st' \<noteq> WaitingForInput \<and>
     (st' = st \<and> st \<in> {Cancelling, Interrupted} \<or> can_transition_to st st')"
  by (auto simp: cancel_target_def can_transition_to_def split: operation_state.splits)

lemma apply_cancel_moves:
  assumes U: "uuid_laws (env_uuid E)" and ok: "ledger_ok E db" and row: "reads_row E i db row r"
    and owner: "principal_as_str owner = row_owner row"
    and active: "\<not> is_terminal (or_state r)" and target: "cancel_target (or_state r) = Inr st'"
    and now: "column_time now" and run: "apply_cancel E owner r st' now db = Inr (r', db')"
  shows "db' = db \<or> moves E i db db' (or_state r) st' (or_cancel_requested r) True"
proof (cases "or_cancel_requested r \<and> st' = or_state r")
  case True
  with run show ?thesis by (simp add: apply_cancel_def)
next
  case False
  have i: "or_operation_id r = i" and mem: "row \<in> set (operations db)"
    "row_state row = state_name (or_state r)"
    using row by (simp_all add: reads_row_def)
  let ?f = "\<lambda>rv row. row\<lparr>row_state := state_name st', row_revision := sqlite_revision rv,
    row_cancel_requested := True, row_updated_at := now,
    row_completed_at := (if st' = Cancelled then Some now else None)\<rparr>"
  let ?db = "\<lambda>rv. if st' = Cancelled then mark_applied E i now (update_operation E i (?f rv) db)
    else update_operation E i (?f rv) db"
  from False run obtain rv where rv: "revision_checked_next (or_revision r) = Some rv"
    and event: "insert_event E owner i rv ''operation.cancel_requested'' (state_payload st') now (?db rv) = Inr db'"
    unfolding apply_cancel_def Let_def i by (auto simp: result_simps)
  have states: "st' \<noteq> Planning" "st' \<noteq> WaitingForInput" "is_terminal st' \<longleftrightarrow> st' = Cancelled"
    using target by (auto simp: cancel_target_def split: operation_state.splits)
  have "advanced E row (?f rv row) db db'"
  proof (rule change_advanced [OF U ok row active rv, where st = st'])
    show "new_event E owner i rv ''operation.cancel_requested'' (state_payload st') now (?db rv) db'"
      using event by (rule yieldsD [OF insert_event_spec])
  qed (use states now row_times [OF ok mem(1)] row owner in
      \<open>auto simp: update_operation_def mark_applied_def reads_row_def simp del: is_terminal_iff\<close>)
  then have "moves E i db db' (or_state r) st' (or_cancel_requested r) (row_cancel_requested (?f rv row))"
    using row by (rule movesI) simp
  then show ?thesis by simp
qed

lemma moves_ok: "moves E i db db' st st' c c' \<Longrightarrow> ledger_ok E db \<Longrightarrow> ledger_ok E db'"
  using advanced_ok unfolding moves_def by blast

lemma moves_exists:
  "moves E i db db' st st' c c' \<Longrightarrow> operation_id_to_string (env_uuid E) i \<in> row_operation_id ` set (operations db')"
  unfolding moves_def using advanced_ids by (metis (no_types, lifting) advanced_def image_eqI list.set_map)

text \<open>The idempotency record that ends a cancellation.\<close>

definition remembers :: "store_env \<Rightarrow> operation_id \<Rightarrow> idempotency_row \<Rightarrow> ledger \<Rightarrow> ledger \<Rightarrow> bool" where
  "remembers E i row db db' \<longleftrightarrow>
     ir_operation_id row = operation_id_to_string (env_uuid E) i \<and>
     (ir_principal_id row, ir_method row, ir_key row)
       \<notin> set (map (\<lambda>r. (ir_principal_id r, ir_method r, ir_key r)) (idempotency db)) \<and>
     db' = db\<lparr>idempotency := idempotency db @ [row]\<rparr>"

lemma insert_idempotency_spec:
  "ir_operation_id row = operation_id_to_string (env_uuid E) i \<Longrightarrow>
    yields (remembers E i row db) (insert_idempotency row db)"
  unfolding insert_idempotency_def
  by (intro yields_intros) (auto simp: remembers_def list_ex_iff)

lemma remembers_ok:
  assumes "remembers E i row db db'" and "ledger_ok E db"
    and "operation_id_to_string (env_uuid E) i \<in> row_operation_id ` set (operations db)"
  shows "ledger_ok E db'"
  using assms unfolding ledger_ok_def operations_ok_def events_ok_def journal_ok_def idempotency_ok_def
    history_def remembers_def
  by auto

lemma cancel_moves:
  assumes U: "uuid_laws (env_uuid E)" and ok: "ledger_ok E db"
    and run: "cancel_operation E J owner i expected key at db = Inr ((r', replayed), db')"
  shows "(replayed \<and> db' = db) \<or> (\<not> replayed \<and> (\<exists>db1 row.
    (db1 = db \<or> (\<exists>st st' c. cancel_target st = Inr st' \<and> moves E i db db1 st st' c True)) \<and>
    operation_id_to_string (env_uuid E) i \<in> row_operation_id ` set (operations db1) \<and>
    ir_principal_id row = principal_as_str owner \<and> ir_method row = ''operations.cancel'' \<and>
    ir_key row = idempotency_key_as_str key \<and> ir_fingerprint row = cancel_fingerprint (env_uuid E) i expected \<and>
    ir_response row = enc_operation J r' \<and> remembers E i row db1 db'))"
proof -
  from run obtain now where now: "sqlite_integer at = Inr now"
    by (auto simp: cancel_operation_def result_simps)
  show ?thesis
  proof (cases "find_idempotent owner ''operations.cancel'' key db")
    case (Some row)
    with run show ?thesis
      by (auto simp: cancel_operation_def result_simps Let_def split: if_splits)
  next
    case None
    with run now obtain r st' db1 where load: "load_owned_operation E owner i db = Inr r"
      and active: "\<not> is_terminal (or_state r)" and target: "cancel_target (or_state r) = Inr st'"
      and change: "apply_cancel E owner r st' now db = Inr (r', db1)" and fresh: "\<not> replayed"
      and memo: "insert_idempotency
        \<lparr>ir_principal_id = principal_as_str owner, ir_method = ''operations.cancel'',
         ir_key = idempotency_key_as_str key, ir_fingerprint = cancel_fingerprint (env_uuid E) i expected,
         ir_state = ''completed'', ir_operation_id = operation_id_to_string (env_uuid E) i,
         ir_response = enc_operation J r', ir_created_at = now\<rparr> db1 = Inr db'"
      by (auto simp: cancel_operation_def result_simps Let_def split: prod.splits simp del: is_terminal_iff)
    obtain row where row: "reads_row E i db row r" "principal_as_str owner = row_owner row"
      using load_owned_reads [OF U ok load] by blast
    have step: "db1 = db \<or> moves E i db db1 (or_state r) st' (or_cancel_requested r) True"
      by (rule apply_cancel_moves [OF U ok row(1,2) active target sqlite_integer_time [OF now] change])
    have "operation_id_to_string (env_uuid E) i \<in> row_operation_id ` set (operations db1)"
    proof (cases "db1 = db")
      case True
      with row(1) show ?thesis
        by (metis image_eqI reads_row_def)
    next
      case False
      with step show ?thesis by (auto dest: moves_exists)
    qed
    moreover have "remembers E i \<lparr>ir_principal_id = principal_as_str owner, ir_method = ''operations.cancel'',
         ir_key = idempotency_key_as_str key, ir_fingerprint = cancel_fingerprint (env_uuid E) i expected,
         ir_state = ''completed'', ir_operation_id = operation_id_to_string (env_uuid E) i,
         ir_response = enc_operation J r', ir_created_at = now\<rparr> db1 db'" (is "remembers _ _ ?row _ _")
      using memo by (rule yieldsD [OF insert_idempotency_spec, rotated]) simp
    then have "\<exists>row. ir_principal_id row = principal_as_str owner \<and> ir_method row = ''operations.cancel'' \<and>
        ir_key row = idempotency_key_as_str key \<and>
        ir_fingerprint row = cancel_fingerprint (env_uuid E) i expected \<and>
        ir_response row = enc_operation J r' \<and> remembers E i row db1 db'"
      by (intro exI [of _ ?row]) simp
    moreover have "db1 = db \<or> (\<exists>st st' c. cancel_target st = Inr st' \<and> moves E i db db1 st st' c True)"
      using step target by blast
    ultimately show ?thesis
      using fresh by blast
  qed
qed

section \<open>Creating and recovering\<close>

lemma sorted_find_none:
  "find_idempotent owner m key db = None \<longleftrightarrow>
     (principal_as_str owner, m, idempotency_key_as_str key)
       \<notin> set (map (\<lambda>r. (ir_principal_id r, ir_method r, ir_key r)) (idempotency db))"
  by (force simp: find_idempotent_def find_None_iff)

text \<open>A new queued operation with its journal row, its first event and its idempotency record.\<close>

definition created ::
  "store_env \<Rightarrow> json_codec \<Rightarrow> principal_id \<Rightarrow> idempotency_key \<Rightarrow> create_outcome \<Rightarrow> ledger \<Rightarrow> ledger \<Rightarrow>
   bool" where
  "created E J owner key outcome db db' \<longleftrightarrow>
     (\<exists>now oid e.
        column_time now \<and> oid = operation_id_to_string (env_uuid E) (co_operation_id outcome) \<and>
        oid \<notin> row_operation_id ` set (operations db) \<and>
        (oid, 1) \<notin> (\<lambda>j. (jr_operation_id j, jr_step j)) ` set (journal db) \<and>
        find_idempotent owner ''state.check'' key db = None \<and>
        operations db' = operations db @ [queued_row oid owner now] \<and>
        journal db' = journal db @ [\<lparr>jr_operation_id = oid, jr_step = 1, jr_kind = ''state.check'',
          jr_state = ''prepared'', jr_payload = ''{}'', jr_updated_at = now\<rparr>] \<and>
        event_seq db < uint i64_max \<and> event_seq db' = event_seq db + 1 \<and> phases db' = phases db \<and>
        events db' = events db @ [e] \<and> er_event_id e \<notin> er_event_id ` set (events db) \<and>
        er_sequence e = event_seq db + 1 \<and> er_aggregate_kind e = ''operation'' \<and>
        er_aggregate_id e = oid \<and> er_aggregate_revision e = 1 \<and> er_occurred_at e = now \<and>
        idempotency db' = idempotency db @ [\<lparr>ir_principal_id = principal_as_str owner,
          ir_method = ''state.check'', ir_key = idempotency_key_as_str key,
          ir_fingerprint = state_check_fingerprint, ir_state = ''completed'', ir_operation_id = oid,
          ir_response = enc_outcome J outcome, ir_created_at = now\<rparr>])"

lemma create_spec:
  assumes run: "create_state_check E J owner key at db = Inr (outcome, db')"
  shows "(co_replayed outcome \<and> \<not> co_schedule outcome \<and> db' = db \<and>
      (\<exists>r. find_idempotent owner ''state.check'' key db = Some r \<and>
         ir_fingerprint r = state_check_fingerprint \<and>
         operation_id_parse (env_uuid E) (ir_operation_id r) = Inr (co_operation_id outcome))) \<or>
    (\<not> co_replayed outcome \<and> co_schedule outcome \<and> created E J owner key outcome db db')"
proof -
  from run obtain now where now: "sqlite_integer at = Inr now"
    by (auto simp: create_state_check_def result_simps)
  show ?thesis
  proof (cases "find_idempotent owner ''state.check'' key db")
    case (Some r)
    with run now show ?thesis
      by (auto simp: create_state_check_def result_simps split: if_splits)
  next
    case None
    obtain u db1 where d: "draw E db = (u, db1)"
      by fastforce
    note frame = log_frame_ledger [OF draw_frame [OF d [symmetric]]]
    define oid where "oid = operation_id_to_string (env_uuid E) (OperationId u)"
    let ?out = "\<lparr>co_operation_id = OperationId u, co_replayed = False, co_schedule = True\<rparr>"
    from run now None d obtain db2 db3 db4 where
      op: "insert_operation (queued_row oid owner now) db1 = Inr db2" and
      jr: "insert_journal \<lparr>jr_operation_id = oid, jr_step = 1, jr_kind = ''state.check'',
        jr_state = ''prepared'', jr_payload = ''{}'', jr_updated_at = now\<rparr> db2 = Inr db3" and
      ev: "insert_event E owner (OperationId u) revision_initial ''operation.created''
        (state_payload Queued) now db3 = Inr db4" and
      idem: "insert_idempotency \<lparr>ir_principal_id = principal_as_str owner,
          ir_method = ''state.check'', ir_key = idempotency_key_as_str key,
          ir_fingerprint = state_check_fingerprint, ir_state = ''completed'', ir_operation_id = oid,
          ir_response = enc_outcome J ?out, ir_created_at = now\<rparr> db4 = Inr db'" and
      out: "outcome = ?out"
      by (auto simp: create_state_check_def result_simps Let_def oid_def simp del: operation_id_to_string.simps)
    have db2: "db2 = db1\<lparr>operations := operations db @ [queued_row oid owner now]\<rparr>"
      "oid \<notin> row_operation_id ` set (operations db)"
      using op by (auto simp: insert_operation_def list_ex_iff frame queued_row_def split: if_splits)
    have db3: "db3 = db2\<lparr>journal := journal db @ [\<lparr>jr_operation_id = oid, jr_step = 1,
        jr_kind = ''state.check'', jr_state = ''prepared'', jr_payload = ''{}'', jr_updated_at = now\<rparr>]\<rparr>"
      "(oid, 1) \<notin> (\<lambda>j. (jr_operation_id j, jr_step j)) ` set (journal db)"
      using jr by (auto simp: insert_journal_def list_ex_iff frame db2 split: if_splits)
    have new: "new_event E owner (OperationId u) revision_initial ''operation.created''
        (state_payload Queued) now db3 db4"
      using ev by (rule yieldsD [OF insert_event_spec])
    then obtain eid where eid: "eid \<notin> er_event_id ` set (events db)"
      "events db4 = events db @ [event_of E owner (OperationId u) revision_initial ''operation.created''
        (state_payload Queued) now (event_seq db + 1) eid]"
      by (auto simp: new_event_def db2 db3 frame)
    have db': "db' = db4\<lparr>idempotency := idempotency db4 @ [\<lparr>ir_principal_id = principal_as_str owner,
          ir_method = ''state.check'', ir_key = idempotency_key_as_str key,
          ir_fingerprint = state_check_fingerprint, ir_state = ''completed'', ir_operation_id = oid,
          ir_response = enc_outcome J ?out, ir_created_at = now\<rparr>]\<rparr>"
      using idem by (auto simp: insert_idempotency_def split: if_splits)
    have "created E J owner key outcome db db'"
      unfolding created_def
      by (rule exI [of _ now], rule exI [of _ oid], rule exI [of _ "event_of E owner (OperationId u)
          revision_initial ''operation.created'' (state_payload Queued) now (event_seq db + 1) eid"])
        (use new eid None db2 db3 sqlite_integer_time [OF now] in
          \<open>simp add: db' out new_event_def event_of_def frame oid_def sqlite_revision_def
             del: operation_id_to_string.simps\<close>)
    with out show ?thesis by simp
  qed
qed

lemma created_ok:
  assumes U: "uuid_laws (env_uuid E)" and ok: "ledger_ok E db"
    and owner: "is_ok (principal_parse (principal_as_str owner))"
    and phase: "\<And>t. is_ok (read_phase (phases db t))"
    and made: "created E J owner key outcome db db'"
  shows "ledger_ok E db'"
proof -
  from made obtain now oid e where now: "column_time now"
    and oid: "oid = operation_id_to_string (env_uuid E) (co_operation_id outcome)"
      "oid \<notin> row_operation_id ` set (operations db)"
      "(oid, 1) \<notin> (\<lambda>j. (jr_operation_id j, jr_step j)) ` set (journal db)"
    and key: "find_idempotent owner ''state.check'' key db = None"
    and db': "operations db' = operations db @ [queued_row oid owner now]"
      "journal db' = journal db @ [\<lparr>jr_operation_id = oid, jr_step = 1, jr_kind = ''state.check'',
          jr_state = ''prepared'', jr_payload = ''{}'', jr_updated_at = now\<rparr>]"
      "event_seq db' = event_seq db + 1" "phases db' = phases db" "events db' = events db @ [e]"
      "idempotency db' = idempotency db @ [\<lparr>ir_principal_id = principal_as_str owner,
          ir_method = ''state.check'', ir_key = idempotency_key_as_str key,
          ir_fingerprint = state_check_fingerprint, ir_state = ''completed'', ir_operation_id = oid,
          ir_response = enc_outcome J outcome, ir_created_at = now\<rparr>]"
    and e: "event_seq db < uint i64_max" "er_event_id e \<notin> er_event_id ` set (events db)"
      "er_sequence e = event_seq db + 1" "er_aggregate_kind e = ''operation''" "er_aggregate_id e = oid"
      "er_aggregate_revision e = 1" "er_occurred_at e = now"
    unfolding created_def by blast
  note parts = ledger_okD [OF ok]
  have row: "row_ok E (phases db) (queued_row oid owner now)"
    unfolding row_ok_def using owner phase now oid(1)
    by (auto simp: queued_row_def terminal_row_def terminal_names_def state_name_def
        intro!: exI [of _ Queued])
  have "operations_ok E db'"
    using parts(1) row oid(2) by (auto simp: operations_ok_def db' queued_row_def)
  moreover have "history oid db = []"
    using parts(2) oid(2) by (auto simp: history_def events_ok_def filter_empty_conv)
  then have hist: "history (row_operation_id r) db' = [1..row_revision r]" if "r \<in> set (operations db')" for r
    using that parts(2) oid(2) e by (auto simp: history_def events_ok_def db' queued_row_def image_iff)
  have "events_ok db'"
    using parts(2) e now hist
    by (auto simp: events_ok_def db' event_ok_def sorted_wrt_append queued_row_def image_iff)
  moreover have "journal_ok db'"
    using parts(3) oid(2,3)
    by (auto simp: journal_ok_def db' queued_row_def terminal_row_def terminal_names_def image_iff)
  moreover have "idempotency_ok db'"
    using parts(4) key by (auto simp: idempotency_ok_def db' sorted_find_none queued_row_def)
  ultimately show ?thesis by (simp add: ledger_ok_def)
qed

lemma transition_moves:
  assumes U: "uuid_laws (env_uuid E)" and ok: "ledger_ok E db" and now: "column_time now"
    and t: "t \<in> {Interrupted, Recovering}"
    and run: "transition_recovery E i t now db = Inr db'"
  shows "\<exists>st c. can_transition_to st t \<and> moves E i db db' st t c c"
proof -
  let ?f = "\<lambda>rv row. row\<lparr>row_state := state_name t, row_revision := sqlite_revision rv,
    row_updated_at := now\<rparr>"
  from run obtain r rv where load: "load_operation E i db = Inr r" and can: "can_transition_to (or_state r) t"
    and rv: "revision_checked_next (or_revision r) = Some rv"
    and event: "insert_event E (or_owner r) i rv ''operation.recovered'' (state_payload t) now
      (update_operation E i (?f rv) db) = Inr db'"
    unfolding transition_recovery_def Let_def by (auto simp: result_simps)
  obtain row where row: "reads_row E i db row r"
    using load_operation_reads [OF U ok load] by blast
  then have mem: "row \<in> set (operations db)" "row_state row = state_name (or_state r)"
    by (simp_all add: reads_row_def)
  have active: "\<not> is_terminal (or_state r)"
    using can terminal_no_transition by blast
  have unfinished: "row_completed_at row = None"
    using row_times [OF ok mem(1)] active mem(2) by (simp add: terminal_row_def del: is_terminal_iff)
  have "advanced E row (?f rv row) db db'"
  proof (rule change_advanced [OF U ok row active rv, where st = t])
    show "new_event E (or_owner r) i rv ''operation.recovered'' (state_payload t) now
        (update_operation E i (?f rv) db) db'"
      using event by (rule yieldsD [OF insert_event_spec])
  qed (use t now unfinished row_times [OF ok mem(1)] row in \<open>auto simp: update_operation_def reads_row_def\<close>)
  then have "moves E i db db' (or_state r) t (or_cancel_requested r) (row_cancel_requested (?f rv row))"
    using row by (rule movesI) simp
  with can row show ?thesis
    by (auto simp: reads_row_def)
qed

text \<open>The recovery transitions of one operation, one after the other.\<close>

inductive recovering_path :: "store_env \<Rightarrow> operation_id \<Rightarrow> ledger \<Rightarrow> ledger \<Rightarrow> bool" for E i where
  path_start: "recovering_path E i db db"
| path_step: "recovering_path E i db db1 \<Longrightarrow> can_transition_to st t \<Longrightarrow> moves E i db1 db2 st t c c \<Longrightarrow>
    recovering_path E i db db2"

lemma path_ok: "recovering_path E i db db' \<Longrightarrow> ledger_ok E db \<Longrightarrow> ledger_ok E db'"
  by (induction rule: recovering_path.induct) (auto dest: moves_ok)

lemma path_trans: "recovering_path E i db1 db2 \<Longrightarrow> recovering_path E i db db1 \<Longrightarrow> recovering_path E i db db2"
  by (induction rule: recovering_path.induct) (auto intro: recovering_path.intros)

lemma recover_steps_path:
  assumes U: "uuid_laws (env_uuid E)" and now: "column_time now"
  shows "ledger_ok E db \<Longrightarrow> set targets \<subseteq> {Interrupted, Recovering} \<Longrightarrow>
    recover_steps E i targets now db = (err, db') \<Longrightarrow> recovering_path E i db db'"
proof (induction targets arbitrary: db)
  case Nil
  then show ?case by (simp add: recover_steps_def path_start)
next
  case (Cons t ts)
  show ?case
  proof (cases "transition_recovery E i t now db")
    case (Inl e)
    have "fold (\<lambda>t (err, db). case err of Some e \<Rightarrow> (Some e, db) | None \<Rightarrow>
        (case transition_recovery E i t now db of Inl e \<Rightarrow> (Some e, db) | Inr db' \<Rightarrow> (None, db'))) ts (Some e, db) =
        (Some e, db)"
      by (induction ts) simp_all
    with Cons.prems Inl show ?thesis by (simp add: recover_steps_def path_start)
  next
    case (Inr db1)
    then obtain st c where "can_transition_to st t" "moves E i db db1 st t c c"
      using transition_moves [OF U Cons.prems(1) now _ Inr] Cons.prems(2) by auto
    then have "recovering_path E i db db1"
      using path_step [OF path_start] by blast
    moreover have "recovering_path E i db1 db'"
      using Cons Inr path_ok [OF \<open>recovering_path E i db db1\<close>] by (simp add: recover_steps_def)
    ultimately show ?thesis
      by (rule path_trans [rotated])
  qed
qed

text \<open>
  What recovery makes of a row: a queued or recovering operation is left as it is, an interrupted one
  moves once and a running or cancelling one twice, to recovering.
\<close>

definition recovered_to :: "string \<Rightarrow> int \<Rightarrow> string \<times> int" where
  "recovered_to st n =
     (if st \<in> {state_name Queued, state_name Recovering} then (st, n)
      else (state_name Recovering, if st = state_name Interrupted then n + 1 else n + 2))"

definition recovered_row :: "operation_row \<Rightarrow> operation_row \<Rightarrow> bool" where
  "recovered_row r r' \<longleftrightarrow>
     row_operation_id r' = row_operation_id r \<and> row_kind r' = row_kind r \<and> row_owner r' = row_owner r \<and>
     row_created_at r' = row_created_at r \<and> row_request r' = row_request r \<and>
     row_cancel_requested r' = row_cancel_requested r \<and>
     (row_state r', row_revision r') = recovered_to (row_state r) (row_revision r)"

text \<open>The columns that recovery keeps.\<close>

definition same_columns :: "operation_row \<Rightarrow> operation_row \<Rightarrow> bool" where
  "same_columns r r' \<longleftrightarrow>
     row_operation_id r' = row_operation_id r \<and> row_kind r' = row_kind r \<and> row_owner r' = row_owner r \<and>
     row_created_at r' = row_created_at r \<and> row_request r' = row_request r \<and>
     row_cancel_requested r' = row_cancel_requested r"

lemma moves_one:
  assumes mv: "moves E i db db' st st' c c" and ok: "ledger_ok E db" and row: "row \<in> set (operations db)"
    "row_operation_id row = operation_id_to_string (env_uuid E) i"
  shows "\<exists>row' \<in> set (operations db'). same_columns row row' \<and> row_revision row' = row_revision row + 1 \<and>
    row_state row' = state_name st'"
proof -
  from mv obtain r0 r1 where adv: "advanced E r0 r1 db db'"
    and r: "row_operation_id r0 = operation_id_to_string (env_uuid E) i" "row_state r1 = state_name st'"
      "row_cancel_requested r0 = c" "row_cancel_requested r1 = c"
    unfolding moves_def by blast
  have "r0 = row"
    using same_row [OF ledger_okD(1) [OF ok] _ row(1)] adv r(1) row(2) by (simp add: advanced_def)
  moreover have "r1 \<in> set (operations db')"
    using advanced_rows [OF adv ledger_okD(1) [OF ok]] by simp
  ultimately show ?thesis
    using adv r by (intro bexI [of _ r1]) (simp_all add: advanced_def same_columns_def)
qed

lemma recover_steps_row:
  assumes U: "uuid_laws (env_uuid E)" and now: "column_time now"
  shows "ledger_ok E db \<Longrightarrow> set targets \<subseteq> {Interrupted, Recovering} \<Longrightarrow>
    recover_steps E i targets now db = (None, db') \<Longrightarrow> row \<in> set (operations db) \<Longrightarrow>
    row_operation_id row = operation_id_to_string (env_uuid E) i \<Longrightarrow>
    \<exists>row' \<in> set (operations db'). same_columns row row' \<and>
      row_revision row' = row_revision row + int (length targets) \<and>
      row_state row' = last (row_state row # map state_name targets)"
proof (induction targets arbitrary: db row)
  case Nil
  then show ?case by (intro bexI [of _ row]) (simp_all add: recover_steps_def same_columns_def)
next
  case (Cons t ts)
  have stuck: "fold (\<lambda>t (err, db). case err of Some e \<Rightarrow> (Some e, db) | None \<Rightarrow>
      (case transition_recovery E i t now db of Inl e \<Rightarrow> (Some e, db) | Inr db' \<Rightarrow> (None, db'))) ts (Some e, db) =
      (Some e, db)" for e
    by (induction ts) simp_all
  with Cons.prems obtain db1 where step: "transition_recovery E i t now db = Inr db1"
    by (cases "transition_recovery E i t now db") (auto simp: recover_steps_def)
  then obtain st c where mv: "moves E i db db1 st t c c"
    using transition_moves [OF U Cons.prems(1) now _ step] Cons.prems(2) by auto
  obtain row1 where row1: "row1 \<in> set (operations db1)" "same_columns row row1"
    "row_revision row1 = row_revision row + 1" "row_state row1 = state_name t"
    using moves_one [OF mv Cons.prems(1,4,5)] by blast
  have rest: "recover_steps E i ts now db1 = (None, db')"
    using Cons.prems(3) step by (simp add: recover_steps_def)
  have id1: "row_operation_id row1 = operation_id_to_string (env_uuid E) i"
    using row1(2) Cons.prems(5) by (simp add: same_columns_def)
  obtain row' where "row' \<in> set (operations db')" "same_columns row1 row'"
      "row_revision row' = row_revision row1 + int (length ts)"
      "row_state row' = last (row_state row1 # map state_name ts)"
    using Cons.IH [OF moves_ok [OF mv Cons.prems(1)] _ rest row1(1) id1] Cons.prems(2) by auto
  then show ?case
    using row1(2-4) by (intro bexI [of _ row']) (auto simp: same_columns_def)
qed

lemma path_ids: "recovering_path E i db db' \<Longrightarrow> map row_operation_id (operations db') = map row_operation_id (operations db)"
  by (induction rule: recovering_path.induct) (auto simp: moves_def dest: advanced_ids)

lemma moves_kind:
  assumes "moves E i db db' st st' c c'" and ok: "operations_ok E db"
  shows "map (\<lambda>r. (row_operation_id r, row_kind r, row_owner r, row_created_at r)) (operations db') =
    map (\<lambda>r. (row_operation_id r, row_kind r, row_owner r, row_created_at r)) (operations db)"
proof -
  from assms obtain row row' where adv: "advanced E row row' db db'"
    unfolding moves_def by blast
  then have "row \<in> set (operations db)"
    by (simp add: advanced_def)
  then have "r = row" if "r \<in> set (operations db)" "row_operation_id r = row_operation_id row" for r
    using same_row [OF ok that(1) _ that(2)] by blast
  with adv show ?thesis
    by (auto simp: advanced_def)
qed

lemma path_kind:
  "recovering_path E i db db' \<Longrightarrow> ledger_ok E db \<Longrightarrow>
    map (\<lambda>r. (row_operation_id r, row_kind r, row_owner r, row_created_at r)) (operations db') =
    map (\<lambda>r. (row_operation_id r, row_kind r, row_owner r, row_created_at r)) (operations db)"
proof (induction rule: recovering_path.induct)
  case (path_step db db1 st t db2 c)
  then show ?case
    using moves_kind [OF path_step.hyps(3) ledger_okD(1) [OF path_ok [OF path_step.hyps(1) path_step.prems]]]
    by simp
qed simp

lemma path_other_rows:
  "recovering_path E i db db' \<Longrightarrow> ledger_ok E db \<Longrightarrow> row_operation_id r \<noteq> operation_id_to_string (env_uuid E) i \<Longrightarrow>
    r \<in> set (operations db') \<longleftrightarrow> r \<in> set (operations db)"
proof (induction rule: recovering_path.induct)
  case (path_step db db1 st t db2 c)
  have ok1: "ledger_ok E db1"
    using path_ok path_step.hyps(1) path_step.prems(1) .
  obtain row row' where adv: "advanced E row row' db1 db2"
    and i: "row_operation_id row = operation_id_to_string (env_uuid E) i"
    using path_step.hyps(3) unfolding moves_def by blast
  have "row_operation_id row' = row_operation_id row"
    using adv by (simp add: advanced_def)
  then have "r \<in> set (operations db2) \<longleftrightarrow> r \<in> set (operations db1)"
    using advanced_rows [OF adv ledger_okD(1) [OF ok1]] i path_step.prems(2) by auto
  with path_step.IH path_step.prems show ?case by simp
qed simp

lemma count_one:
  assumes d: "distinct (map f xs)" and x: "x \<in> set xs" and "P x" and same: "\<And>y. y \<in> set xs \<Longrightarrow> P y \<Longrightarrow> f y = f x"
  shows "length (filter P xs) = 1"
proof -
  have inj: "inj_on f (set xs)" and dx: "distinct xs"
    using d by (simp_all add: distinct_map)
  have "y = x" if y: "y \<in> set xs" "P y" for y
    using inj same [OF y] y(1) x by (rule inj_onD)
  then have eq: "set (filter P xs) = {x}"
    using x \<open>P x\<close> unfolding set_filter by blast
  have "length (filter P xs) = card (set (filter P xs))"
    by (rule distinct_card [symmetric]) (rule distinct_filter [OF dx])
  also have "\<dots> = 1"
    unfolding eq by simp
  finally show ?thesis .
qed

lemma unfinished_recoverable:
  assumes U: "uuid_laws (env_uuid E)" and ok: "ledger_ok E db" and r: "r \<in> set (operations db)"
    and "row_kind r = ''state.check''" and "\<not> terminal_row r"
    and i: "row_operation_id r = operation_id_to_string (env_uuid E) i"
  shows "journal_is_recoverable E i db"
proof -
  obtain j where "j \<in> set (journal db)" "jr_operation_id j = operation_id_to_string (env_uuid E) i" "jr_step j = 1"
    "jr_kind j = ''state.check''" "jr_state j = ''prepared''"
    using ledger_okD(3) [OF ok] assms by (auto simp: journal_ok_def)
  moreover have "distinct (map (\<lambda>j. (jr_operation_id j, jr_step j)) (journal db))"
    using ledger_okD(3) [OF ok] by (simp add: journal_ok_def)
  ultimately show ?thesis
    unfolding journal_is_recoverable_def by (intro count_one [where x = j and f = "\<lambda>j. (jr_operation_id j, jr_step j)"]) auto
qed

text \<open>A candidate names a row that is not finished.\<close>

definition candidate_of :: "ledger \<Rightarrow> string \<times> string \<times> string \<Rightarrow> bool" where
  "candidate_of db c \<longleftrightarrow> (\<exists>r \<in> set (operations db). c = (row_operation_id r, row_state r, row_kind r) \<and>
     \<not> terminal_row r)"

lemma recover_one_spec:
  assumes U: "uuid_laws (env_uuid E)" and now: "column_time now" and ok: "ledger_ok E db"
    and cand: "candidate_of db (oid, st, kind)"
    and run: "recover_one E now (oid, st, kind) db = (res, db')"
  obtains i where "oid = operation_id_to_string (env_uuid E) i" and "recovering_path E i db db'"
    and "\<And>ids. res = Inr ids \<Longrightarrow> kind = ''state.check'' \<Longrightarrow> ids = [i]"
    and "\<And>ids. res = Inr ids \<Longrightarrow> kind \<noteq> ''state.check'' \<Longrightarrow> ids = []"
    and "\<And>ids r. res = Inr ids \<Longrightarrow> kind = ''state.check'' \<Longrightarrow> r \<in> set (operations db) \<Longrightarrow>
      row_operation_id r = oid \<Longrightarrow> \<exists>r' \<in> set (operations db'). recovered_row r r'"
proof -
  from cand obtain row where row: "row \<in> set (operations db)" "oid = row_operation_id row"
      "st = row_state row" "kind = row_kind row" "\<not> terminal_row row"
    by (auto simp: candidate_of_def)
  have row_ok: "row_ok E (phases db) row"
    using ok row(1) by (simp add: ledger_ok_def operations_ok_def)
  then obtain i s where i: "oid = operation_id_to_string (env_uuid E) i" and s: "st = state_name s"
    and reserved: "kind = ''state.check'' \<Longrightarrow> s \<noteq> Planning \<and> s \<noteq> WaitingForInput"
    and kind: "kind \<in> set (''state.check'' # dedicated_kinds)"
    using row unfolding row_ok_def by blast
  show thesis
  proof (cases "kind = ''state.check''")
    case False
    then have "kind \<in> set dedicated_kinds"
      using kind by simp
    with run i U have "res = Inr [] \<and> db' = db"
      by (simp add: recover_one_def)
    with False show ?thesis
      by (intro that [OF i]) (auto intro: path_start)
  next
    case True
    have "\<not> is_terminal s"
      using row(3,5) s by (metis state_name_terminal terminal_row_def)
    then obtain targets where targets: "recovery_targets s = Some targets"
        "set targets \<subseteq> {Interrupted, Recovering}"
        "(last (state_name s # map state_name targets), n + int (length targets)) = recovered_to (state_name s) n" for n
      using reserved [OF True] by (cases s) (auto simp: recovery_targets_def recovered_to_def state_name_def)
    have "journal_is_recoverable E i db"
      using unfinished_recoverable [OF U ok row(1)] True row i by simp
    moreover have "kind \<notin> set dedicated_kinds"
      using True by (simp add: dedicated_kinds_def)
    ultimately obtain err where err: "recover_steps E i targets now db = (err, db')"
      "res = (case err of Some e \<Rightarrow> Inl e | None \<Rightarrow> Inr [i])"
      using run i s U True targets(1)
      by (auto simp: recover_one_def split: prod.splits option.splits)
    have path: "recovering_path E i db db'"
      using recover_steps_path [OF U now ok targets(2) err(1)] .
    show ?thesis
    proof (rule that [OF i path])
      show "ids = [i]" if "res = Inr ids" for ids
        using that err(2) by (auto split: option.splits)
      show "\<exists>r' \<in> set (operations db'). recovered_row r r'"
        if mem: "res = Inr ids" "r \<in> set (operations db)" "row_operation_id r = oid" for ids r
      proof -
        have "err = None" "r = row"
          using mem err(2) same_row [OF ledger_okD(1) [OF ok] mem(2) row(1)] row(2) by (auto split: option.splits)
        then obtain r' where "r' \<in> set (operations db')" "same_columns r r'"
          "row_revision r' = row_revision r + int (length targets)"
          "row_state r' = last (row_state r # map state_name targets)"
          using recover_steps_row [OF U now ok targets(2) _ mem(2)] err(1) mem(3) i by blast
        moreover have "state_name s = row_state r"
          using \<open>r = row\<close> row(3) s by simp
        ultimately have "recovered_row r r'"
          using targets(3) [of "row_revision r"] by (simp add: same_columns_def recovered_row_def del: last.simps)
        with \<open>r' \<in> set (operations db')\<close> show ?thesis by blast
      qed
    qed (use True in auto)
  qed
qed

end
