(* ===== verification/OperationProperties.thy ===== *)
theory OperationProperties
  imports OperationLedger "HOL-Library.Sublist"
begin

text \<open>
  The ledger as a state machine: one step per command of the store worker, the states reachable by
  them, and what holds in all of them.  The abstract table of operations that every step refines
  follows the transition table of the domain.
\<close>

section \<open>Recovery of all operations\<close>

lemma moves_phases: "moves E i db db' st st' c c' \<Longrightarrow> phases db' = phases db"
  by (auto simp: moves_def advanced_def)

lemma path_phases: "recovering_path E i db db' \<Longrightarrow> phases db' = phases db"
  by (induction rule: recovering_path.induct) (auto dest: moves_phases)

lemma candidates_later:
  assumes path: "recovering_path E i db db1" and ok: "ledger_ok E db"
    and i: "oid = operation_id_to_string (env_uuid E) i"
    and fresh: "distinct (oid # map fst cs)" and cands: "\<forall>c \<in> set cs. candidate_of db c"
  shows "\<forall>c \<in> set cs. candidate_of db1 c"
proof
  fix d
  assume d: "d \<in> set cs"
  then obtain r where r: "r \<in> set (operations db)" "d = (row_operation_id r, row_state r, row_kind r)"
    "\<not> terminal_row r"
    using cands by (auto simp: candidate_of_def)
  have "row_operation_id r \<noteq> oid"
    using d r(2) fresh by (force simp: image_iff)
  with r path_other_rows [OF path ok, of r] i show "candidate_of db1 d"
    by (auto simp: candidate_of_def)
qed

lemma recover_all_spec:
  assumes U: "uuid_laws (env_uuid E)" and now: "column_time now"
  shows "ledger_ok E db \<Longrightarrow> distinct (map fst cs) \<Longrightarrow> \<forall>c \<in> set cs. candidate_of db c \<Longrightarrow>
    recover_all E now cs db = (res, db') \<Longrightarrow>
    ledger_ok E db' \<and> phases db' = phases db \<and>
    map (\<lambda>r. (row_operation_id r, row_kind r, row_owner r, row_created_at r)) (operations db') =
      map (\<lambda>r. (row_operation_id r, row_kind r, row_owner r, row_created_at r)) (operations db) \<and>
    (\<forall>r. row_operation_id r \<notin> fst ` set cs \<longrightarrow> r \<in> set (operations db') \<longleftrightarrow> r \<in> set (operations db)) \<and>
    (\<forall>ids. res = Inr ids \<longrightarrow>
      map (operation_id_to_string (env_uuid E)) ids = map fst (filter (\<lambda>c. snd (snd c) = ''state.check'') cs) \<and>
      (\<forall>r \<in> set (operations db). row_operation_id r \<in> fst ` set cs \<longrightarrow> row_kind r = ''state.check'' \<longrightarrow>
         (\<exists>r' \<in> set (operations db'). recovered_row r r')))"
proof (induction cs arbitrary: db res db')
  case Nil
  then show ?case by auto
next
  case (Cons c cs)
  obtain oid st kind where c: "c = (oid, st, kind)"
    by (cases c) auto
  obtain res1 db1 where one: "recover_one E now c db = (res1, db1)"
    by fastforce
  have cand: "candidate_of db (oid, st, kind)"
    using Cons.prems(3) c by simp
  obtain i where i: "oid = operation_id_to_string (env_uuid E) i" and path: "recovering_path E i db db1"
    and res1: "\<And>ids. res1 = Inr ids \<Longrightarrow> kind = ''state.check'' \<Longrightarrow> ids = [i]"
      "\<And>ids. res1 = Inr ids \<Longrightarrow> kind \<noteq> ''state.check'' \<Longrightarrow> ids = []"
    and settled: "\<And>ids r. res1 = Inr ids \<Longrightarrow> kind = ''state.check'' \<Longrightarrow> r \<in> set (operations db) \<Longrightarrow>
      row_operation_id r = oid \<Longrightarrow> \<exists>r' \<in> set (operations db1). recovered_row r r'"
    by (rule recover_one_spec [OF U now Cons.prems(1) cand one [unfolded c]]) (rule that; assumption)
  note ok1 = path_ok [OF path Cons.prems(1)] and phases1 = path_phases [OF path] and kind1 = path_kind [OF path Cons.prems(1)]
    and other1 = path_other_rows [OF path Cons.prems(1)]
  have later: "\<forall>c \<in> set cs. candidate_of db1 c"
    by (rule candidates_later [OF path Cons.prems(1) i]) (use Cons.prems(2,3) c in auto)
  show ?case
  proof (cases res1)
    case (Inl e)
    with Cons.prems(4) one have "res = Inl e" "db' = db1"
      by simp_all
    then show ?thesis
      using ok1 phases1 kind1 other1 i c by auto
  next
    case (Inr ids1)
    obtain res2 db2 where more: "recover_all E now cs db1 = (res2, db2)"
      by fastforce
    have db2: "db' = db2" "res = (case res2 of Inl e \<Rightarrow> Inl e | Inr ids2 \<Rightarrow> Inr (ids1 @ ids2))"
      using Cons.prems(4) one Inr more by (auto split: sum.splits)
    have fresh: "distinct (map fst cs)" "oid \<notin> fst ` set cs"
      using Cons.prems(2) c by auto
    note IH = Cons.IH [OF ok1 fresh(1) later more]
    have kinds: "row_kind r = kind" if mem: "r \<in> set (operations db)" and id: "row_operation_id r = oid" for r
    proof -
      obtain r1 where "r1 \<in> set (operations db)" "row_operation_id r1 = oid" "row_kind r1 = kind"
        using cand by (auto simp: candidate_of_def)
      with same_row [OF ledger_okD(1) [OF Cons.prems(1)] mem] id show ?thesis by metis
    qed
    have "map (operation_id_to_string (env_uuid E)) ids1 =
        map fst (filter (\<lambda>c. snd (snd c) = ''state.check'') [c])"
      using res1 [OF Inr] c i by (cases "kind = ''state.check''") auto
    moreover have "\<exists>r' \<in> set (operations db2). recovered_row r r'"
      if mem: "r \<in> set (operations db)" and id: "row_operation_id r = oid" "row_kind r = ''state.check''" and "res2 = Inr ids2"
      for r ids2
    proof -
      obtain r' where r': "r' \<in> set (operations db1)" "recovered_row r r'"
        using settled [OF Inr _ mem id(1)] kinds [OF mem id(1)] id(2) by auto
      then have "row_operation_id r' \<notin> fst ` set cs"
        using fresh(2) id(1) by (simp add: recovered_row_def)
      with IH r' show ?thesis by blast
    qed
    moreover have "\<exists>r' \<in> set (operations db2). recovered_row r r'"
      if mem: "r \<in> set (operations db)" and id: "row_operation_id r \<in> fst ` set cs" "row_kind r = ''state.check''"
        and "res2 = Inr ids2" for r ids2
    proof -
      have "row_operation_id r \<noteq> oid"
        using id(1) fresh(2) by blast
      then have "r \<in> set (operations db1)"
        using other1 [of r] mem i by simp
      with IH that show ?thesis by blast
    qed
    ultimately show ?thesis
      using IH phases1 kind1 other1 i c unfolding db2 by (auto split: sum.splits)
  qed
qed

section \<open>The state machine\<close>

definition owner_ok :: "principal_id \<Rightarrow> bool" where
  "owner_ok owner \<longleftrightarrow> is_ok (principal_parse (principal_as_str owner))"

definition phases_ok :: "ledger \<Rightarrow> bool" where
  "phases_ok db \<longleftrightarrow> (\<forall>t. is_ok (read_phase (phases db t)))"

text \<open>One command of the store worker; other log entries may be written in between.\<close>

inductive ledger_step :: "store_env \<Rightarrow> json_codec \<Rightarrow> ledger \<Rightarrow> ledger \<Rightarrow> bool" for E J where
  step_create: "owner_ok owner \<Longrightarrow> create_state_check E J owner key at db = Inr (outcome, db') \<Longrightarrow>
    ledger_step E J db db'"
| step_cancel: "cancel_operation E J owner i expected key at db = Inr (result, db') \<Longrightarrow>
    ledger_step E J db db'"
| step_begin: "begin_state_check E i at db = Inr (r, db') \<Longrightarrow> ledger_step E J db db'"
| step_finish: "finish_state_check E J i result at db = Inr (r, db') \<Longrightarrow> ledger_step E J db db'"
| step_cancelled: "finish_cancelled E i at db = Inr (r, db') \<Longrightarrow> ledger_step E J db db'"
| step_failed: "finish_failed E i code diagnostic at db = Inr (r, db') \<Longrightarrow> ledger_step E J db db'"
| step_recover: "recover E at db = (res, db') \<Longrightarrow> ledger_step E J db db'"
| step_log: "log_frame db db' \<Longrightarrow> ledger_step E J db db'"

definition empty_ledger :: "registry_tables \<Rightarrow> (string \<Rightarrow> string option) \<Rightarrow> ledger" where
  "empty_ledger reg ph =
     \<lparr>log_rows = [], log_seq = 0, pending_steps = [], registry = reg, drawn = 0, operations = [],
      journal = [], events = [], event_seq = 0, idempotency = [], phases = ph\<rparr>"

inductive ledger_reachable :: "store_env \<Rightarrow> json_codec \<Rightarrow> ledger \<Rightarrow> bool" for E J where
  reachable_start: "phases_ok (empty_ledger reg ph) \<Longrightarrow> ledger_reachable E J (empty_ledger reg ph)"
| reachable_step: "ledger_reachable E J db \<Longrightarrow> ledger_step E J db db' \<Longrightarrow> ledger_reachable E J db'"

text \<open>The kinds of change a step can make; every property below is a case analysis over them.\<close>

lemma finish_cases:
  assumes "uuid_laws (env_uuid E)" and "ledger_ok E db" and "is_terminal t"
    and "finish_operation E i t result code diagnostic at db = Inr (r, db')"
  shows "db' = db \<or> (\<exists>st c. can_transition_to st t \<and> moves E i db db' st t c c)"
  using finish_moves [OF assms] by blast

lemma recovery_candidates_of:
  assumes "ledger_ok E db"
  shows "distinct (map fst (recovery_candidates db))" "\<forall>c \<in> set (recovery_candidates db). candidate_of db c"
    "fst ` set (recovery_candidates db) = row_operation_id ` {r \<in> set (operations db). \<not> terminal_row r}"
proof -
  have "mset (map fst (recovery_candidates db)) =
      mset (map row_operation_id (filter (\<lambda>r. \<not> terminal_row r) (operations db)))"
    by (simp add: recovery_candidates_def terminal_row_def image_mset.compositionality comp_def)
  moreover have "distinct (map row_operation_id (filter (\<lambda>r. \<not> terminal_row r) (operations db)))"
    using ledger_okD(1) [OF assms] by (simp add: operations_ok_def distinct_map_filter)
  ultimately show "distinct (map fst (recovery_candidates db))"
    by (metis mset_eq_imp_distinct_iff)
  show "\<forall>c \<in> set (recovery_candidates db). candidate_of db c"
    by (auto simp: recovery_candidates_def candidate_of_def terminal_row_def)
  show "fst ` set (recovery_candidates db) = row_operation_id ` {r \<in> set (operations db). \<not> terminal_row r}"
    by (force simp: recovery_candidates_def terminal_row_def image_iff)
qed

lemma recover_spec:
  assumes U: "uuid_laws (env_uuid E)" and ok: "ledger_ok E db" and run: "recover E at db = (res, db')"
  shows "db' = db \<and> (\<exists>e. res = Inl e) \<or> (\<exists>now. column_time now \<and> recover_all E now (recovery_candidates db) db = (res, db'))"
  using run by (auto simp: recover_def split: sum.splits dest: sqlite_integer_time)

lemma cancel_ok:
  assumes U: "uuid_laws (env_uuid E)" and ok: "ledger_ok E db"
    and run: "cancel_operation E J owner i expected key at db = Inr (result, db')"
  shows "ledger_ok E db' \<and> phases db' = phases db"
proof -
  obtain r replayed where result: "result = (r, replayed)"
    by fastforce
  from cancel_moves [OF U ok run [unfolded result]] show ?thesis
  proof (elim disjE conjE exE)
    fix db1 row st st' c
    assume "moves E i db db1 st st' c True" "remembers E i row db1 db'"
      "operation_id_to_string (env_uuid E) i \<in> row_operation_id ` set (operations db1)"
    moreover from this have "ledger_ok E db1" "phases db1 = phases db"
      using ok moves_ok moves_phases by blast+
    ultimately show ?thesis
      using remembers_ok [of E i row db1 db'] by (auto simp: remembers_def)
  next
    fix db1 row
    assume "db1 = db" "remembers E i row db1 db'"
      "operation_id_to_string (env_uuid E) i \<in> row_operation_id ` set (operations db1)"
    then show ?thesis
      using ok remembers_ok [of E i row db db'] by (auto simp: remembers_def)
  qed (use ok in simp)
qed

lemma finish_ok:
  assumes "uuid_laws (env_uuid E)" and "ledger_ok E db" and "is_terminal t"
    and "finish_operation E i t result code diagnostic at db = Inr (r, db')"
  shows "ledger_ok E db' \<and> phases db' = phases db"
  using finish_cases [OF assms] assms(2) moves_ok moves_phases by blast

lemma step_ok:
  assumes U: "uuid_laws (env_uuid E)"
  shows "ledger_step E J db db' \<Longrightarrow> ledger_ok E db \<and> phases_ok db \<Longrightarrow> ledger_ok E db' \<and> phases_ok db'"
proof (induction rule: ledger_step.induct)
  case (step_create owner key at db outcome db')
  have "phases db' = phases db"
    using create_spec [OF step_create.hyps(2)] by (auto simp: created_def)
  moreover have "ledger_ok E db'"
    using create_spec [OF step_create.hyps(2)] step_create
      created_ok [OF U, of db owner J key outcome db'] by (auto simp: owner_ok_def phases_ok_def)
  ultimately show ?case using step_create.prems by (simp add: phases_ok_def)
next
  case (step_cancel owner i expected key at db result db')
  then show ?case
    using cancel_ok [OF U conjunct1 [OF step_cancel.prems] step_cancel.hyps] by (simp add: phases_ok_def)
next
  case (step_begin i at db r db')
  then show ?case
    using begin_moves [OF U, of db i at r db'] moves_ok moves_phases by (metis phases_ok_def)
next
  case (step_recover at db res db')
  note ok = conjunct1 [OF step_recover.prems]
  from recover_spec [OF U ok step_recover.hyps] show ?case
  proof (elim disjE exE conjE)
    fix now
    assume "column_time now" "recover_all E now (recovery_candidates db) db = (res, db')"
    then have "ledger_ok E db' \<and> phases db' = phases db"
      using recover_all_spec [OF U _ ok recovery_candidates_of(1,2) [OF ok]] by blast
    then show ?case
      using step_recover.prems by (simp add: phases_ok_def)
  qed (use step_recover.prems in simp)
next
  case (step_log db db')
  then show ?case
    using ledger_ok_frame log_frame_ledger(6) by (simp add: phases_ok_def)
next
  case (step_finish i at result db r db')
  then show ?case
    using finish_ok [OF U, where t = Succeeded] by (auto simp: phases_ok_def finish_state_check_def)
next
  case (step_cancelled i at db r db')
  then show ?case
    using finish_ok [OF U, where t = Cancelled] by (auto simp: phases_ok_def finish_cancelled_def)
next
  case (step_failed i code diagnostic at db r db')
  then show ?case
    using finish_ok [OF U, where t = Failed] by (auto simp: phases_ok_def finish_failed_def)
qed

lemma empty_ok: "ledger_ok E (empty_ledger reg ph)"
  by (simp add: empty_ledger_def ledger_ok_def operations_ok_def events_ok_def journal_ok_def
      idempotency_ok_def)

lemma reachable_ok:
  assumes "uuid_laws (env_uuid E)"
  shows "ledger_reachable E J db \<Longrightarrow> ledger_ok E db \<and> phases_ok db"
proof (induction rule: ledger_reachable.induct)
  case (reachable_start reg ph)
  then show ?case by (simp add: empty_ok)
next
  case (reachable_step db db')
  then show ?case using step_ok [OF assms] by blast
qed

section \<open>Elementary changes\<close>

text \<open>What one command does to the four tables, one change after the other.\<close>

inductive change :: "store_env \<Rightarrow> ledger \<Rightarrow> ledger \<Rightarrow> bool" for E where
  change_frame: "log_frame db db' \<Longrightarrow> change E db db'"
| change_create: "created E J owner key outcome db db' \<Longrightarrow> change E db db'"
| change_move: "moves E i db db' st st' c c' \<Longrightarrow> can_transition_to st st' \<or> st' = st \<and> c' \<Longrightarrow>
    c' = c \<or> c' \<and> st' \<in> {Cancelling, Cancelled, st} \<Longrightarrow> change E db db'"
| change_remember: "remembers E i row db db' \<Longrightarrow> change E db db'"

lemma change_same: "change E db db"
  by (rule change_frame) simp

lemma path_changes: "recovering_path E i db db' \<Longrightarrow> (change E)\<^sup>*\<^sup>* db db'"
proof (induction rule: recovering_path.induct)
  case (path_step db db1 st t db2 c)
  have "change E db1 db2"
    using path_step.hyps(2,3) by (intro change_move) auto
  with path_step.IH show ?case by (rule rtranclp.rtrancl_into_rtrancl)
qed simp

lemma recover_all_changes:
  assumes U: "uuid_laws (env_uuid E)" and now: "column_time now"
  shows "ledger_ok E db \<Longrightarrow> distinct (map fst cs) \<Longrightarrow> \<forall>c \<in> set cs. candidate_of db c \<Longrightarrow>
    recover_all E now cs db = (res, db') \<Longrightarrow> (change E)\<^sup>*\<^sup>* db db'"
proof (induction cs arbitrary: db res db')
  case (Cons c cs)
  obtain oid st kind where c: "c = (oid, st, kind)"
    by (cases c) auto
  obtain res1 db1 where one: "recover_one E now c db = (res1, db1)"
    by fastforce
  have cand: "candidate_of db (oid, st, kind)"
    using Cons.prems(3) c by simp
  obtain i where i: "oid = operation_id_to_string (env_uuid E) i" and path: "recovering_path E i db db1"
    by (rule recover_one_spec [OF U now Cons.prems(1) cand one [unfolded c]]) (rule that; assumption)
  have "\<forall>c \<in> set cs. candidate_of db1 c"
    by (rule candidates_later [OF path Cons.prems(1) i]) (use Cons.prems(2,3) c in auto)
  with Cons one path_ok [OF path] path_changes [OF path] show ?case
    by (auto split: sum.splits prod.splits) (metis rtranclp_trans)+
qed simp

lemma finish_changes:
  assumes "uuid_laws (env_uuid E)" and "ledger_ok E db" and "is_terminal t"
    and "finish_operation E i t result code diagnostic at db = Inr (r, db')"
  shows "change E db db'"
  using finish_cases [OF assms] change_same by (auto intro: change_move)

lemma cancel_change:
  assumes "cancel_target st = Inr st'" and "moves E i db db' st st' c True"
  shows "change E db db'"
proof (rule change_move [OF assms(2)])
  show "can_transition_to st st' \<or> st' = st \<and> True" "True = c \<or> True \<and> st' \<in> {Cancelling, Cancelled, st}"
    using assms(1) by (auto simp: cancel_target_def can_transition_to_def split: operation_state.splits)
qed

lemma step_changes:
  assumes U: "uuid_laws (env_uuid E)"
  shows "ledger_step E J db db' \<Longrightarrow> ledger_ok E db \<Longrightarrow> (change E)\<^sup>*\<^sup>* db db'"
proof (induction rule: ledger_step.induct)
  case (step_create owner key at db outcome db')
  then show ?case
    using create_spec [OF step_create.hyps(2)] by (auto intro: change_create)
next
  case (step_cancel owner i expected key at db result db')
  obtain r replayed where result: "result = (r, replayed)"
    by fastforce
  from cancel_moves [OF U step_cancel.prems step_cancel.hyps [unfolded result]] show ?case
  proof (elim disjE conjE exE)
    fix db1 row
    assume "db1 = db" "remembers E i row db1 db'"
    then show ?thesis by (auto intro: change_remember)
  next
    fix db1 row st st' c
    assume "cancel_target st = Inr st'" "moves E i db db1 st st' c True" "remembers E i row db1 db'"
    then have "change E db db1" "change E db1 db'"
      using cancel_change change_remember by blast+
    then show ?thesis by auto
  qed simp
next
  case (step_begin i at db r db')
  obtain st st' c where "begin_target st c = Inr st'" "moves E i db db' st st' c c"
    using begin_moves [OF U step_begin.prems step_begin.hyps] by blast
  then have "change E db db'"
    by (intro change_move) (auto simp: begin_target_def can_transition_to_def split: if_splits)
  then show ?case ..
next
  case (step_finish i at result db r db')
  then show ?case
    using finish_changes [OF U, where t = Succeeded] by (auto simp: finish_state_check_def)
next
  case (step_cancelled i at db r db')
  then show ?case
    using finish_changes [OF U, where t = Cancelled] by (auto simp: finish_cancelled_def)
next
  case (step_failed i code diagnostic at db r db')
  then show ?case
    using finish_changes [OF U, where t = Failed] by (auto simp: finish_failed_def)
next
  case (step_recover at db res db')
  from recover_spec [OF U step_recover.prems step_recover.hyps] show ?case
    using recover_all_changes [OF U _ step_recover.prems recovery_candidates_of(1,2) [OF step_recover.prems]]
    by blast
next
  case (step_log db db')
  then show ?case by (auto intro: change_frame)
qed

subsection \<open>What every change keeps\<close>

definition ids_distinct :: "ledger \<Rightarrow> bool" where
  "ids_distinct db \<longleftrightarrow> distinct (map row_operation_id (operations db))"

lemma ledger_ids: "ledger_ok E db \<Longrightarrow> ids_distinct db"
  by (simp add: ledger_ok_def operations_ok_def ids_distinct_def)

lemma change_ids: "change E db db' \<Longrightarrow> ids_distinct db \<Longrightarrow> ids_distinct db'"
  by (induction rule: change.induct)
    (auto simp: ids_distinct_def log_frame_ledger created_def moves_def advanced_ids remembers_def queued_row_def)

lemma changes_ids: "(change E)\<^sup>*\<^sup>* db db' \<Longrightarrow> ids_distinct db \<Longrightarrow> ids_distinct db'"
  by (induction rule: rtranclp_induct) (auto dest: change_ids)

lemma change_terminal:
  "change E db db' \<Longrightarrow> ids_distinct db \<Longrightarrow> r \<in> set (operations db) \<Longrightarrow> terminal_row r \<Longrightarrow> r \<in> set (operations db')"
proof (induction rule: change.induct)
  case (change_move i db db' st st' c c')
  then obtain row row' where adv: "advanced E row row' db db'"
    unfolding moves_def by blast
  then have row: "row \<in> set (operations db)" "\<not> terminal_row row"
    by (simp_all add: advanced_def)
  have "row_operation_id r \<noteq> row_operation_id row"
    using change_move.prems row by (auto simp: ids_distinct_def distinct_map dest: inj_onD)
  with adv change_move.prems show ?case
    by (auto simp: advanced_def image_iff)
qed (auto simp: log_frame_ledger created_def remembers_def)

lemma changes_terminal:
  "(change E)\<^sup>*\<^sup>* db db' \<Longrightarrow> ids_distinct db \<Longrightarrow> r \<in> set (operations db) \<Longrightarrow> terminal_row r \<Longrightarrow>
    r \<in> set (operations db')"
  by (induction rule: rtranclp_induct) (auto intro: change_terminal changes_ids)

lemma change_appends: "change E db db' \<Longrightarrow> prefix (idempotency db) (idempotency db') \<and> prefix (events db) (events db')"
proof (induction rule: change.induct)
  case (change_create J owner key outcome db db')
  then show ?case
    unfolding created_def by (elim exE conjE) simp
next
  case (change_move i db db' st st' c c')
  then obtain row row' where "advanced E row row' db db'"
    unfolding moves_def by blast
  then show ?case
    unfolding advanced_def by (elim exE conjE) simp
qed (simp_all add: log_frame_ledger remembers_def)

lemma changes_append:
  "(change E)\<^sup>*\<^sup>* db db' \<Longrightarrow> prefix (idempotency db) (idempotency db') \<and> prefix (events db) (events db')"
  by (induction rule: rtranclp_induct) (auto dest!: change_appends intro: prefix_order.trans)

lemma steps_changes:
  assumes U: "uuid_laws (env_uuid E)" and start: "ledger_reachable E J db"
  shows "(ledger_step E J)\<^sup>*\<^sup>* db db' \<Longrightarrow> (change E)\<^sup>*\<^sup>* db db' \<and> ledger_reachable E J db'"
proof (induction rule: rtranclp_induct)
  case base
  then show ?case using start by simp
next
  case (step db1 db2)
  then have "(change E)\<^sup>*\<^sup>* db1 db2"
    using step_changes [OF U] reachable_ok [OF U] by blast
  with step show ?case
    by (auto intro: reachable_step)
qed

section \<open>The abstract table\<close>

record operation_status =
  os_state :: operation_state
  os_revision :: int
  os_cancelled :: bool
  os_owner :: string

type_synonym operation_table = "string \<Rightarrow> operation_status option"

text \<open>
  What the ledger promises: operations appear queued at revision 1, and then move along the
  transition table of the domain one revision at a time; a cancellation request may also only
  set the flag of an operation that has not ended.
\<close>

inductive table_step :: "operation_table \<Rightarrow> operation_table \<Rightarrow> bool" where
  table_create: "A t = None \<Longrightarrow>
    table_step A (A(t \<mapsto> \<lparr>os_state = Queued, os_revision = 1, os_cancelled = False, os_owner = owner\<rparr>))"
| table_move: "A t = Some s \<Longrightarrow> can_transition_to (os_state s) st' \<Longrightarrow>
    c' = os_cancelled s \<or> c' \<and> st' \<in> {Cancelling, Cancelled} \<Longrightarrow>
    table_step A (A(t \<mapsto> s\<lparr>os_state := st', os_revision := os_revision s + 1, os_cancelled := c'\<rparr>))"
| table_request: "A t = Some s \<Longrightarrow> \<not> is_terminal (os_state s) \<Longrightarrow>
    table_step A (A(t \<mapsto> s\<lparr>os_revision := os_revision s + 1, os_cancelled := True\<rparr>))"

definition row_status :: "operation_row \<Rightarrow> operation_status option" where
  "row_status r =
     (case parse_state (row_state r) of
        Inl _ \<Rightarrow> None
      | Inr st \<Rightarrow> Some \<lparr>os_state = st, os_revision = row_revision r,
          os_cancelled = row_cancel_requested r, os_owner = row_owner r\<rparr>)"

definition table_of :: "ledger \<Rightarrow> operation_table" where
  "table_of db t = Option.bind (find (\<lambda>r. row_operation_id r = t) (operations db)) row_status"

lemma find_other: "(\<And>x. x \<in> set xs \<Longrightarrow> P x \<Longrightarrow> f x = x) \<Longrightarrow> (\<And>x. x \<in> set xs \<Longrightarrow> P (f x) = P x) \<Longrightarrow>
    find P (map f xs) = find P xs"
  by (induction xs) auto

lemma moved_table:
  assumes adv: "advanced E row row' db db'" and ids: "ids_distinct db"
    and st': "row_state row' = state_name st'"
  shows "table_of db' = (table_of db)(row_operation_id row \<mapsto>
    \<lparr>os_state = st', os_revision = row_revision row + 1, os_cancelled = row_cancel_requested row',
     os_owner = row_owner row\<rparr>)"
proof
  fix t
  have row: "row \<in> set (operations db)" "row_operation_id row' = row_operation_id row"
      "row_revision row' = row_revision row + 1" "row_owner row' = row_owner row"
    and ops: "operations db' = map (\<lambda>r. if row_operation_id r = row_operation_id row then row' else r) (operations db)"
    using adv by (simp_all add: advanced_def)
  show "table_of db' t = ((table_of db)(row_operation_id row \<mapsto>
    \<lparr>os_state = st', os_revision = row_revision row + 1, os_cancelled = row_cancel_requested row',
     os_owner = row_owner row\<rparr>)) t"
  proof (cases "t = row_operation_id row")
    case True
    have "distinct (map row_operation_id (operations db'))"
      using ids advanced_ids [OF adv] by (simp add: ids_distinct_def)
    moreover have "row' \<in> set (operations db')"
      using row(1) by (auto simp: ops)
    ultimately have "find (\<lambda>r. row_operation_id r = t) (operations db') = Some row'"
      using True row(2) by (simp add: distinct_find)
    with True row st' show ?thesis by (simp add: table_of_def row_status_def)
  next
    case False
    then have "find (\<lambda>r. row_operation_id r = t) (operations db') = find (\<lambda>r. row_operation_id r = t) (operations db)"
      unfolding ops by (intro find_other) (use row(2) in auto)
    with False show ?thesis by (simp add: table_of_def)
  qed
qed

lemma find_append: "find P (xs @ ys) = (case find P xs of None \<Rightarrow> find P ys | Some x \<Rightarrow> Some x)"
  by (induction xs) auto

lemma found_table:
  "ids_distinct db \<Longrightarrow> row \<in> set (operations db) \<Longrightarrow> row_state row = state_name st \<Longrightarrow>
    table_of db (row_operation_id row) = Some \<lparr>os_state = st, os_revision = row_revision row,
      os_cancelled = row_cancel_requested row, os_owner = row_owner row\<rparr>"
  by (simp add: table_of_def ids_distinct_def row_status_def distinct_find [THEN iffD2])

lemma change_refines:
  "change E db db' \<Longrightarrow> ids_distinct db \<Longrightarrow> table_step\<^sup>*\<^sup>* (table_of db) (table_of db')"
proof (induction rule: change.induct)
  case (change_frame db db')
  then have "table_of db' = table_of db"
    by (simp add: table_of_def fun_eq_iff log_frame_ledger)
  then show ?case by simp
next
  case (change_create J owner key outcome db db')
  then obtain now oid where oid: "oid \<notin> row_operation_id ` set (operations db)"
    and ops: "operations db' = operations db @ [queued_row oid owner now]"
    unfolding created_def by blast
  have none: "find (\<lambda>r. row_operation_id r = oid) (operations db) = None"
    using oid by (auto simp: find_None_iff)
  have "table_of db' = (table_of db)(oid \<mapsto>
      \<lparr>os_state = Queued, os_revision = 1, os_cancelled = False, os_owner = principal_as_str owner\<rparr>)"
  proof
    fix t
    have "row_status (queued_row oid owner now) = Some
        \<lparr>os_state = Queued, os_revision = 1, os_cancelled = False, os_owner = principal_as_str owner\<rparr>"
      by (simp add: row_status_def queued_row_def parse_state_def)
    with none show "table_of db' t = ((table_of db)(oid \<mapsto>
      \<lparr>os_state = Queued, os_revision = 1, os_cancelled = False, os_owner = principal_as_str owner\<rparr>)) t"
      by (auto simp: table_of_def ops find_append queued_row_def split: option.splits)
  qed
  moreover have "table_of db oid = None"
    using none by (simp add: table_of_def)
  ultimately have "table_step (table_of db) (table_of db')"
    by (auto intro: table_create)
  then show ?case by (rule r_into_rtranclp [where r = table_step])
next
  case (change_move i db db' st st' c c')
  then obtain row row' where adv: "advanced E row row' db db'" and row: "row_state row = state_name st"
      "row_state row' = state_name st'" "row_cancel_requested row = c" "row_cancel_requested row' = c'"
    unfolding moves_def by blast
  then have mem: "row \<in> set (operations db)" "\<not> is_terminal st"
    by (auto simp: advanced_def terminal_row_def simp del: is_terminal_iff)
  note here = found_table [OF change_move.prems mem(1) row(1)]
  have "table_step (table_of db) (table_of db')"
    unfolding moved_table [OF adv change_move.prems row(2)]
    using change_move.hyps(2,3) table_move [where A = "table_of db", OF here, of st' c']
      table_request [where A = "table_of db", OF here] mem(2) row(3,4)
    by (cases "can_transition_to st st'") auto
  then show ?case by (rule r_into_rtranclp [where r = table_step])
next
  case (change_remember i row db db')
  then have "table_of db' = table_of db"
    by (simp add: table_of_def fun_eq_iff remembers_def)
  then show ?case by simp
qed

lemma changes_refine:
  "(change E)\<^sup>*\<^sup>* db db' \<Longrightarrow> ids_distinct db \<Longrightarrow> table_step\<^sup>*\<^sup>* (table_of db) (table_of db')"
proof (induction rule: rtranclp_induct)
  case (step db1 db2)
  then show ?case
    using change_refines changes_ids by (metis rtranclp_trans)
qed simp

end
