(* ===== verification/OperationClaims.thy ===== *)
theory OperationClaims
  imports OperationProperties
begin

text \<open>
  The properties of the operation ledger as theorems over its reachable states, each with a run of
  the model on concrete commands where its hypotheses hold.
\<close>

section \<open>A concrete run\<close>

definition demo_log :: log_ops where
  "demo_log = \<lparr>entry_size = (\<lambda>_. Some 300), actors_size = (\<lambda>actors. Some (2 + 70 * length actors)),
     json_text_field = (\<lambda>_ _. Some None), decode_backup_id = (\<lambda>_. None),
     path_join = (\<lambda>a b. a @ ''/'' @ b), path_file_name = Some, path_is_absolute = (\<lambda>_. True),
     to_lowercase = (\<lambda>s. s)\<rparr>"

definition demo_owner :: principal_id where
  "demo_owner = PrincipalId ''owner''"

definition demo_env :: store_env where
  "demo_env = \<lparr>env_uuid = demo_uuid, env_log = demo_log, fresh_uuid = of_nat,
     env_call = Some \<lparr>lc_owner = demo_owner, lc_actor = ''CLI'', lc_execution_id = replicate 36 (CHR ''x'')\<rparr>,
     operation_failure = None\<rparr>"

definition demo_tables :: registry_tables where
  "demo_tables = \<lparr>project_roots = (\<lambda>_. None), plan_projects = (\<lambda>_. None), backup_locators = (\<lambda>_. None)\<rparr>"

definition demo_start :: ledger where
  "demo_start = empty_ledger demo_tables (\<lambda>_. None)"

definition demo_record :: operation_record where
  "demo_record = \<lparr>or_operation_id = OperationId 0, or_kind = ''state.check'', or_state = Cancelling,
     or_revision = Revision 3, or_owner = demo_owner, or_cancel_requested = True, or_created_at_ms = 5,
     or_updated_at_ms = 7, or_started_at_ms = Some 6, or_completed_at_ms = None, or_result_json = None,
     or_error_code = None, or_diagnostic_id = None, or_progress_phase = None\<rparr>"

definition demo_codec :: json_codec where
  "demo_codec = \<lparr>enc_outcome = (\<lambda>_. ''{}''), enc_operation = (\<lambda>r. or_kind r), dec_operation = (\<lambda>_. Some demo_record),
     enc_check = (\<lambda>_. ''{}'')\<rparr>"

definition demo_key :: idempotency_key where
  "demo_key = IdempotencyKey ''k''"

definition demo_id :: operation_id where
  "demo_id = OperationId 0"

definition state_list :: "ledger \<Rightarrow> string list" where
  "state_list db = map row_state (operations db)"

definition short_event :: "event_row \<Rightarrow> bool" where
  "short_event e \<longleftrightarrow> length (er_payload e) + length (er_event_id e) + length (er_kind e) +
     length (er_aggregate_kind e) + length (er_aggregate_id e) \<le> 200"

lemma demo_env_laws: "uuid_laws (env_uuid demo_env)"
  by (simp add: demo_env_def demo_uuid_laws)

lemma demo_start_reachable: "ledger_reachable demo_env J demo_start"
  unfolding demo_start_def
  by (rule reachable_start) (simp add: phases_ok_def empty_ledger_def read_phase_def is_ok_def)

lemma demo_owner_ok: "owner_ok demo_owner"
  by code_simp


lemma demo_texts:
  "uuid_to_string demo_uuid 0 = ''00000000-0000-0000-0000-000000000000''"
  "uuid_to_string demo_uuid 1 = ''00000000-0000-0000-0000-000000000001''"
  "uuid_to_string demo_uuid 2 = ''00000000-0000-0000-0000-000000000002''"
  "uuid_to_string demo_uuid 3 = ''00000000-0000-0000-0000-000000000003''"
  "uuid_to_string demo_uuid 4 = ''00000000-0000-0000-0000-000000000004''"
  "uuid_to_string demo_uuid 5 = ''00000000-0000-0000-0000-000000000005''"
  "uuid_to_string demo_uuid 6 = ''00000000-0000-0000-0000-000000000006''"
  "uuid_to_string demo_uuid 7 = ''00000000-0000-0000-0000-000000000007''"
  "uuid_to_string demo_uuid 8 = ''00000000-0000-0000-0000-000000000008''"
  by code_simp+

lemmas demo_run_simps = demo_texts demo_env_def demo_log_def demo_id_def demo_owner_def demo_key_def demo_tables_def
  demo_start_def empty_ledger_def insert_event_def operation_edge_def edge_step_def committed_def attribution_def
  accepted_entry_def acceptance_target_def draw_def insert_operation_def insert_journal_def
  insert_idempotency_def find_idempotent_def queued_row_def sqlite_integer_def sqlite_revision_def
  positive_or_zero_def operation_view_of_def state_payload_def state_name_def Let_def ensure_def
  state_list_def no_accepted_log_def option_or_def state_step_def append_log_def
  entry_valid_def log_max_safe_sequence_def log_max_entry_bytes_def log_max_details_bytes_def
  log_max_path_bytes_def step_details_def

text \<open>A client creates an operation, the worker begins it, the client cancels it and the worker stops.\<close>

definition demo_end :: "store_error + (create_outcome \<times> ledger \<times> (operation_record \<times> bool) \<times> ledger)" where
  "demo_end =
     and_then (create_state_check demo_env demo_codec demo_owner demo_key 5 demo_start) (\<lambda>(out, db1).
     and_then (begin_state_check demo_env demo_id 6 db1) (\<lambda>(r2, db2).
     and_then (cancel_operation demo_env demo_codec demo_owner demo_id (Revision 2) demo_key 7 db2) (\<lambda>(r3, db3).
     and_then (finish_cancelled demo_env demo_id 8 db3) (\<lambda>(r4, db4). Inr (out, db1, r3, db4)))))"

lemma demo_text_parse: "uuid_parse_str demo_uuid ''00000000-0000-0000-0000-000000000000'' = Some 0"
  using uuid_roundtrip [OF demo_uuid_laws, of 0] by (simp add: demo_texts)

lemmas demo_load_simps = load_operation_def load_owned_operation_def map_operation_row_def operation_id_parse_def
  parse_state_def read_revision_def revision_new_def principal_parse_def is_ascii_def read_phase_def
  demo_text_parse begin_target_def update_operation_def cancel_target_def apply_cancel_def
  past_cancellation_def can_transition_to_def mark_applied_def

lemma demo_end:
  "case demo_end of Inl _ \<Rightarrow> False | Inr (out, db1, r3, db) \<Rightarrow> co_operation_id out = demo_id \<and> r3 = (demo_record, False) \<and>
       state_list db1 = [''queued''] \<and> state_list db = [''cancelled''] \<and>
       map er_aggregate_revision (events db) = [1, 2, 3, 4] \<and> length (log_rows db) = 4 \<and>
       list_all (\<lambda>j. jr_state j = ''applied'') (journal db) \<and>
       map (\<lambda>r. (row_operation_id r, row_owner r, row_revision r)) (operations db) =
         [(operation_id_to_string (env_uuid demo_env) demo_id, ''owner'', 4)] \<and>
       map (\<lambda>r. (row_owner r, row_created_at r)) (operations db) = [(''owner'', 5)] \<and>
       map er_payload (events db) = map state_payload [Queued, Running, Cancelling, Cancelled] \<and>
       map er_principal_id (events db) = [''owner'', ''owner'', ''owner'', ''owner''] \<and> list_all short_event (events db) \<and>
       map (\<lambda>r. (ir_principal_id r, ir_key r)) (idempotency db) = [(''owner'', ''k''), (''owner'', ''k'')]"
  by (simp add: demo_end_def demo_record_def short_event_def create_state_check_def begin_state_check_def cancel_operation_def
      finish_cancelled_def finish_operation_def demo_run_simps demo_load_simps)


lemma demo_stages:
  obtains out db1 r2 db2 r3 db3 r4 db4
  where "create_state_check demo_env demo_codec demo_owner demo_key 5 demo_start = Inr (out, db1)"
    and "begin_state_check demo_env demo_id 6 db1 = Inr (r2, db2)"
    and "cancel_operation demo_env demo_codec demo_owner demo_id (Revision 2) demo_key 7 db2 = Inr (r3, db3)"
    and "finish_cancelled demo_env demo_id 8 db3 = Inr (r4, db4)"
    and "map (\<lambda>r. (row_operation_id r, row_owner r, row_revision r)) (operations db4) =
         [(operation_id_to_string (env_uuid demo_env) demo_id, ''owner'', 4)]"
    and "map (\<lambda>r. (ir_principal_id r, ir_key r)) (idempotency db4) = [(''owner'', ''k''), (''owner'', ''k'')]"
    and "map (\<lambda>r. (row_owner r, row_created_at r)) (operations db4) = [(''owner'', 5)]"
    and "map er_payload (events db4) = map state_payload [Queued, Running, Cancelling, Cancelled]"
    and "map er_principal_id (events db4) = [''owner'', ''owner'', ''owner'', ''owner'']" and "list_all short_event (events db4)"
    and "r3 = (demo_record, False)" and "co_operation_id out = demo_id" and "state_list db1 = [''queued'']"
    and "state_list db4 = [''cancelled'']" and "map er_aggregate_revision (events db4) = [1, 2, 3, 4]"
    and "length (log_rows db4) = 4" and "list_all (\<lambda>j. jr_state j = ''applied'') (journal db4)"
proof -
  obtain out db1 r3 db4 where ends: "demo_end = Inr (out, db1, r3, db4)"
  proof (cases demo_end)
    case (Inl e)
    show ?thesis using demo_end [unfolded Inl] by simp
  next
    case (Inr x)
    with that show ?thesis by (cases x) auto
  qed
  note facts = demo_end [unfolded ends sum.case prod.case]
  from ends obtain r2 db2 db3 r4 where
    "create_state_check demo_env demo_codec demo_owner demo_key 5 demo_start = Inr (out, db1)"
    "begin_state_check demo_env demo_id 6 db1 = Inr (r2, db2)"
    "cancel_operation demo_env demo_codec demo_owner demo_id (Revision 2) demo_key 7 db2 = Inr (r3, db3)"
    "finish_cancelled demo_env demo_id 8 db3 = Inr (r4, db4)"
    by (auto simp: demo_end_def result_simps)
  then show thesis
    using facts by (intro that) blast+
qed

lemma demo_steps:
  obtains db1 db4 where "ledger_reachable demo_env demo_codec db1"
    and "(ledger_step demo_env demo_codec)\<^sup>*\<^sup>* db1 db4" and "ledger_reachable demo_env demo_codec db4"
    and "create_state_check demo_env demo_codec demo_owner demo_key 5 demo_start =
      Inr (\<lparr>co_operation_id = demo_id, co_replayed = False, co_schedule = True\<rparr>, db1)"
    and "state_list db4 = [''cancelled'']" and "map er_aggregate_revision (events db4) = [1, 2, 3, 4]"
    and "list_all (\<lambda>j. jr_state j = ''applied'') (journal db4)"
    and "map (\<lambda>r. (row_owner r, row_created_at r)) (operations db4) = [(''owner'', 5)]"
    and "map er_payload (events db4) = map state_payload [Queued, Running, Cancelling, Cancelled]"
    and "map er_principal_id (events db4) = [''owner'', ''owner'', ''owner'', ''owner'']" and "list_all short_event (events db4)"
proof (rule demo_stages)
  fix out db1 r2 db2 r3 db3 r4 db4
  assume run: "create_state_check demo_env demo_codec demo_owner demo_key 5 demo_start = Inr (out, db1)"
    "begin_state_check demo_env demo_id 6 db1 = Inr (r2, db2)"
    "cancel_operation demo_env demo_codec demo_owner demo_id (Revision 2) demo_key 7 db2 = Inr (r3, db3)"
    "finish_cancelled demo_env demo_id 8 db3 = Inr (r4, db4)"
    and out: "co_operation_id out = demo_id" and ends: "state_list db4 = [''cancelled'']" "map er_aggregate_revision (events db4) = [1, 2, 3, 4]"
    "list_all (\<lambda>j. jr_state j = ''applied'') (journal db4)"
    "map (\<lambda>r. (row_owner r, row_created_at r)) (operations db4) = [(''owner'', 5)]"
    "map er_payload (events db4) = map state_payload [Queued, Running, Cancelling, Cancelled]"
    "map er_principal_id (events db4) = [''owner'', ''owner'', ''owner'', ''owner'']" "list_all short_event (events db4)"
  have start: "ledger_reachable demo_env demo_codec db1"
    using reachable_step [OF demo_start_reachable step_create [OF demo_owner_ok run(1)]] .
  have steps: "(ledger_step demo_env demo_codec)\<^sup>*\<^sup>* db1 db4"
    using step_begin [OF run(2)] step_cancel [OF run(3)] step_cancelled [OF run(4)]
    by (meson converse_rtranclp_into_rtranclp rtranclp.rtrancl_refl)
  have "ledger_reachable demo_env demo_codec db4"
    using steps_changes [OF demo_env_laws start steps] by blast
  moreover have "out = \<lparr>co_operation_id = demo_id, co_replayed = False, co_schedule = True\<rparr>"
    using out create_spec [OF run(1)]
    by (cases out) (auto simp: find_idempotent_def demo_start_def empty_ledger_def)
  ultimately show thesis
    using start steps run(1) ends by (intro that) blast+
qed

section \<open>The ledger stays consistent\<close>

text \<open>
  C3: in every ledger that commands of the store worker can produce, operation ids are unique, every
  row reads back as a record, the events of an operation carry exactly the revisions from 1 to the
  current one in order, event sequences ascend, and the journal row of a state check is applied
  exactly when the operation has ended.
\<close>

theorem reachable_ledger_consistent:
  assumes "uuid_laws (env_uuid E)" and "ledger_reachable E J db"
  shows "distinct (map row_operation_id (operations db)) \<and>
    sorted_wrt (<) (map er_sequence (events db)) \<and> distinct (map er_event_id (events db)) \<and>
    (\<forall>r \<in> set (operations db).
       is_ok (map_operation_row (env_uuid E) (phases db) r) \<and>
       map er_aggregate_revision (filter (\<lambda>e. er_aggregate_kind e = ''operation'' \<and>
         er_aggregate_id e = row_operation_id r) (events db)) = [1..row_revision r] \<and>
       (row_kind r = ''state.check'' \<longrightarrow> (\<exists>j \<in> set (journal db). jr_operation_id j = row_operation_id r \<and>
          jr_step j = 1 \<and> jr_state j = (if row_state r \<in> set terminal_names then ''applied'' else ''prepared''))))"
proof -
  have ok: "ledger_ok E db"
    using reachable_ok [OF assms] by simp
  note parts = ledger_okD [OF ok]
  have "is_ok (map_operation_row (env_uuid E) (phases db) r)" if "r \<in> set (operations db)" for r
    using row_decodes [OF assms(1), of "phases db" r] parts(1) that by (auto simp: operations_ok_def is_ok_iff)
  moreover have "\<exists>j \<in> set (journal db). jr_operation_id j = row_operation_id r \<and> jr_step j = 1 \<and>
      jr_state j = (if row_state r \<in> set terminal_names then ''applied'' else ''prepared'')"
    if "r \<in> set (operations db)" "row_kind r = ''state.check''" for r
    using parts(3) that unfolding journal_ok_def terminal_row_def by blast
  ultimately show ?thesis
    using parts(1,2) unfolding operations_ok_def events_ok_def history_def by blast
qed

theorem reachable_ledger_consistent_witness:
  "\<exists>db. state_list db = [''cancelled''] \<and> map er_aggregate_revision (events db) = [1, 2, 3, 4] \<and>
     sorted_wrt (<) (map er_sequence (events db)) \<and> list_all (\<lambda>j. jr_state j = ''applied'') (journal db)"
proof (rule demo_steps)
  fix db1 db4
  assume reach: "ledger_reachable demo_env demo_codec db4" and ends: "state_list db4 = [''cancelled'']"
    "map er_aggregate_revision (events db4) = [1, 2, 3, 4]" "list_all (\<lambda>j. jr_state j = ''applied'') (journal db4)"
  with reachable_ledger_consistent [OF demo_env_laws reach] show ?thesis
    by auto
qed

section \<open>What has ended stays\<close>

text \<open>
  C12: no sequence of commands, restarts included, changes the row of an operation that has ended:
  its state, result, error and times are final.
\<close>

theorem ended_operations_final:
  assumes "uuid_laws (env_uuid E)" and "ledger_reachable E J db" and "(ledger_step E J)\<^sup>*\<^sup>* db db'"
    and "r \<in> set (operations db)" and "row_state r \<in> set terminal_names"
  shows "r \<in> set (operations db') \<and> find (\<lambda>x. row_operation_id x = row_operation_id r) (operations db') = Some r"
proof -
  have steps: "(change E)\<^sup>*\<^sup>* db db'"
    using steps_changes [OF assms(1-3)] by simp
  have ids: "ids_distinct db"
    using reachable_ok [OF assms(1,2)] ledger_ids by blast
  have "r \<in> set (operations db')"
    using changes_terminal [OF steps ids assms(4)] assms(5) by (simp add: terminal_row_def)
  with changes_ids [OF steps ids] show ?thesis
    by (simp add: distinct_find ids_distinct_def)
qed

theorem ended_operations_final_witness:
  "\<exists>db r. state_list db = [''cancelled''] \<and>
     find (\<lambda>x. row_operation_id x = row_operation_id r) (operations db) = Some r"
proof (rule demo_steps)
  fix db1 db4
  assume reach: "ledger_reachable demo_env demo_codec db4" and ends: "state_list db4 = [''cancelled'']"
  then obtain r where r: "r \<in> set (operations db4)" "row_state r \<in> set terminal_names"
    by (auto simp: state_list_def terminal_names_def)
  from ended_operations_final [OF demo_env_laws reach rtranclp.rtrancl_refl r] ends show ?thesis
    by auto
qed

section \<open>Retried requests\<close>

text \<open>
  C17: a request to check the state that is retried with the same key, after any number of other
  commands, returns the operation created first, schedules nothing and changes nothing.
\<close>

theorem create_state_check_idempotent:
  assumes "uuid_laws (env_uuid E)" and "ledger_reachable E J db" and "owner_ok owner"
    and "create_state_check E J owner key at db = Inr (outcome, db1)"
    and "(ledger_step E J)\<^sup>*\<^sup>* db1 db2" and "at' \<le> i64_max"
  shows "create_state_check E J owner key at' db2 =
    Inr (\<lparr>co_operation_id = co_operation_id outcome, co_replayed = True, co_schedule = False\<rparr>, db2)"
proof -
  obtain r where r: "find_idempotent owner ''state.check'' key db1 = Some r"
    "ir_fingerprint r = state_check_fingerprint"
    "operation_id_parse (env_uuid E) (ir_operation_id r) = Inr (co_operation_id outcome)"
    using create_spec [OF assms(4)]
  proof (elim disjE conjE exE)
    assume made: "created E J owner key outcome db db1"
    then obtain now oid where "find_idempotent owner ''state.check'' key db = None"
      "oid = operation_id_to_string (env_uuid E) (co_operation_id outcome)"
      "idempotency db1 = idempotency db @ [\<lparr>ir_principal_id = principal_as_str owner,
          ir_method = ''state.check'', ir_key = idempotency_key_as_str key,
          ir_fingerprint = state_check_fingerprint, ir_state = ''completed'', ir_operation_id = oid,
          ir_response = enc_outcome J outcome, ir_created_at = now\<rparr>]"
      unfolding created_def by blast
    then show thesis
      using assms(1) by (intro that) (auto simp: find_idempotent_def find_append)
  qed (rule that; simp)
  have "ledger_reachable E J db1"
    using assms(2) step_create [OF assms(3,4)] by (rule reachable_step)
  then have "(change E)\<^sup>*\<^sup>* db1 db2"
    using steps_changes [OF assms(1) _ assms(5)] by blast
  then obtain more where "idempotency db2 = idempotency db1 @ more"
    by (auto dest!: changes_append elim: prefixE)
  with r(1) have "find_idempotent owner ''state.check'' key db2 = Some r"
    by (simp add: find_idempotent_def find_append)
  with r(2,3) assms(6) show ?thesis
    by (simp add: create_state_check_def sqlite_integer_def)
qed

theorem create_state_check_idempotent_witness:
  "\<exists>db. state_list db = [''cancelled''] \<and> create_state_check demo_env demo_codec demo_owner demo_key 9 db =
     Inr (\<lparr>co_operation_id = demo_id, co_replayed = True, co_schedule = False\<rparr>, db)"
proof (rule demo_steps)
  fix db1 db4
  assume "(ledger_step demo_env demo_codec)\<^sup>*\<^sup>* db1 db4" "state_list db4 = [''cancelled'']"
    "create_state_check demo_env demo_codec demo_owner demo_key 5 demo_start =
      Inr (\<lparr>co_operation_id = demo_id, co_replayed = False, co_schedule = True\<rparr>, db1)"
  with create_state_check_idempotent [OF demo_env_laws demo_start_reachable demo_owner_ok, of demo_codec demo_key 5 _ db1 db4 9]
  show ?thesis by auto
qed

section \<open>Refinement of the operation table\<close>

text \<open>
  C7: every command of the store worker is a sequence of steps of the abstract operation table, in
  which an operation moves only along the transition table of the domain, one revision at a time,
  and keeps its owner and a cancellation request once made.
\<close>

theorem ledger_refines_table:
  assumes "uuid_laws (env_uuid E)" and "ledger_reachable E J db" and "ledger_step E J db db'"
  shows "table_step\<^sup>*\<^sup>* (table_of db) (table_of db')"
  using changes_refine [OF step_changes [OF assms(1,3)]] reachable_ok [OF assms(1,2)] ledger_ids by blast

theorem ledger_refines_table_witness:
  "\<exists>db. state_list db = [''queued''] \<and> table_step\<^sup>*\<^sup>* (table_of demo_start) (table_of db)"
proof (rule demo_stages)
  fix out db1 r2 db2 r3 db3 r4 db4
  assume "create_state_check demo_env demo_codec demo_owner demo_key 5 demo_start = Inr (out, db1)"
    and one: "state_list db1 = [''queued'']"
  from ledger_refines_table [OF demo_env_laws demo_start_reachable step_create [OF demo_owner_ok this(1)]] one
  show ?thesis by auto
qed

end
