(* ===== verification/OperationRecovery.thy ===== *)
theory OperationRecovery
  imports OperationClaims
begin

text \<open>
  Recovery after a restart, and the answers of a cancellation request: which operations are scheduled
  again, and when a request is replayed or rejected.
\<close>

section \<open>Recovery\<close>

definition created_order :: "operation_row \<Rightarrow> operation_row \<Rightarrow> ordering" where
  "created_order a b = then_with (cmp_of (row_created_at a) (row_created_at b))
     (cmp_of (row_operation_id a) (row_operation_id b))"

lemma created_order_preorder: "cmp_preorder created_order"
  unfolding created_order_def
  by (intro cmp_preorder_then cmp_preorder_on [OF cmp_of_preorder, of row_created_at]
      cmp_preorder_on [OF cmp_of_preorder, of row_operation_id])

definition unfinished_rows :: "ledger \<Rightarrow> operation_row list" where
  "unfinished_rows db = sort_by created_order (filter (\<lambda>r. row_state r \<notin> set terminal_names) (operations db))"

lemma recovery_candidates_rows:
  "recovery_candidates db = map (\<lambda>r. (row_operation_id r, row_state r, row_kind r)) (unfinished_rows db)"
proof -
  have "(\<lambda>a b. then_with (cmp_of (row_created_at a) (row_created_at b))
      (cmp_of (row_operation_id a) (row_operation_id b))) = created_order"
    by (simp add: fun_eq_iff created_order_def)
  then show ?thesis
    by (simp add: recovery_candidates_def unfinished_rows_def)
qed

definition unfinished_checks :: "ledger \<Rightarrow> operation_row list" where
  "unfinished_checks db = filter (\<lambda>r. row_kind r = ''state.check'' \<and> row_state r \<notin> set terminal_names) (operations db)"

text \<open>
  C16: when recovery succeeds, it schedules exactly the state checks that have not ended, each once and
  in the order in which they were created.  Each of them is still there, with its owner, its times of
  creation and its request to cancel: a queued or recovering one is in the state and revision it had, an
  interrupted one is recovering one revision later, a running or cancelling one is recovering two
  revisions later.
\<close>

theorem recover_schedules_unfinished:
  assumes "uuid_laws (env_uuid E)" and "ledger_reachable E J db" and "recover E at db = (Inr ids, db')"
  shows "\<exists>rows. mset rows = mset (unfinished_checks db) \<and>
    map (operation_id_to_string (env_uuid E)) ids = map row_operation_id rows \<and>
    sorted_wrt (\<lambda>a b. row_created_at a \<le> row_created_at b) rows \<and>
    (\<forall>r \<in> set rows. \<exists>r' \<in> set (operations db'). recovered_row r r')"
proof -
  have ok: "ledger_ok E db"
    using reachable_ok [OF assms(1,2)] by simp
  note cands = recovery_candidates_of [OF ok]
  obtain now where now: "column_time now" and run: "recover_all E now (recovery_candidates db) db = (Inr ids, db')"
    using recover_spec [OF assms(1) ok assms(3)] by auto
  note spec = recover_all_spec [OF assms(1) now ok cands(1,2) run]
  let ?rows = "filter (\<lambda>r. row_kind r = ''state.check'') (unfinished_rows db)"
  have mset: "mset ?rows = mset (unfinished_checks db)"
    by (simp add: unfinished_rows_def unfinished_checks_def filter_filter_mset conj_commute)
  moreover have "map (operation_id_to_string (env_uuid E)) ids =
      map fst (filter (\<lambda>c. snd (snd c) = ''state.check'') (recovery_candidates db))"
    using spec by blast
  then have "map (operation_id_to_string (env_uuid E)) ids = map row_operation_id ?rows"
    by (simp add: recovery_candidates_rows filter_map comp_def)
  moreover have "sorted_wrt (\<lambda>a b. created_order a b \<noteq> Greater) ?rows"
    unfolding unfinished_rows_def
    by (intro sorted_wrt_filter cmp_preorder.sort_by_sorted [OF created_order_preorder])
  then have "sorted_wrt (\<lambda>a b. row_created_at a \<le> row_created_at b) ?rows"
    by (rule sorted_wrt_mono_rel [rotated]) (auto simp: created_order_def then_with_iffs)
  moreover have "\<exists>r' \<in> set (operations db'). recovered_row r r'" if r: "r \<in> set ?rows" for r
  proof -
    have "r \<in> set (operations db)" "row_kind r = ''state.check''" "\<not> terminal_row r"
      using r [unfolded mset_eq_setD [OF mset]] by (simp_all add: unfinished_checks_def terminal_row_def)
    moreover from this have "row_operation_id r \<in> fst ` set (recovery_candidates db)"
      unfolding cands(3) by blast
    ultimately show ?thesis
      using spec by blast
  qed
  ultimately show ?thesis by blast
qed

lemma demo_recovery:
  "case create_state_check demo_env demo_codec demo_owner demo_key 5 demo_start of
     Inl _ \<Rightarrow> False | Inr (out, db1) \<Rightarrow>
   (case begin_state_check demo_env demo_id 6 db1 of Inl _ \<Rightarrow> False | Inr (r, db2) \<Rightarrow>
   (case recover demo_env 9 db2 of (Inl _, _) \<Rightarrow> False | (Inr ids, db3) \<Rightarrow>
      ids = [demo_id] \<and> state_list db3 = [''recovering'']))"
  by (simp add: create_state_check_def begin_state_check_def recover_def recovery_candidates_def terminal_names_def
      recover_one_def dedicated_kinds_def journal_is_recoverable_def recovery_targets_def recover_steps_def
      transition_recovery_def demo_run_simps demo_load_simps)

theorem recover_schedules_unfinished_witness:
  "\<exists>db ids db'. recover demo_env 9 db = (Inr ids, db') \<and> ids = [demo_id] \<and> state_list db' = [''recovering''] \<and>
     (\<exists>rows. mset rows = mset (unfinished_checks db) \<and>
        map (operation_id_to_string (env_uuid demo_env)) ids = map row_operation_id rows \<and>
        (\<forall>r \<in> set rows. \<exists>r' \<in> set (operations db'). recovered_row r r'))"
proof (rule demo_stages)
  fix out db1 r2 db2 r3 db3 r4 db4
  assume run: "create_state_check demo_env demo_codec demo_owner demo_key 5 demo_start = Inr (out, db1)"
    "begin_state_check demo_env demo_id 6 db1 = Inr (r2, db2)"
  obtain db' where rec: "recover demo_env 9 db2 = (Inr [demo_id], db')" "state_list db' = [''recovering'']"
    using demo_recovery run by (auto split: prod.splits sum.splits)
  have "ledger_reachable demo_env demo_codec db2"
    using demo_start_reachable step_create [OF demo_owner_ok run(1)] step_begin [OF run(2)]
    by (meson reachable_step)
  from recover_schedules_unfinished [OF demo_env_laws this rec(1)] rec show ?thesis by blast
qed

section \<open>Cancelling\<close>

lemma sqlite_revision_inject [simp]: "sqlite_revision a = sqlite_revision b \<longleftrightarrow> a = b"
  by (cases a; cases b) (simp add: sqlite_revision_def word_uint_eq_iff)

lemma moves_idempotency: "moves E i db db' st st' c c' \<Longrightarrow> idempotency db' = idempotency db"
  unfolding moves_def advanced_def by (elim exE conjE)

lemma accepted_cancel_remembered:
  assumes U: "uuid_laws (env_uuid E)" and ok: "ledger_ok E db"
    and run: "cancel_operation E J owner i expected key at db = Inr ((r, replayed), db1)"
  shows "\<exists>row. find_idempotent owner ''operations.cancel'' key db1 = Some row \<and>
    ir_fingerprint row = cancel_fingerprint (env_uuid E) i expected \<and>
    (if replayed then dec_operation J (ir_response row) = Some r else ir_response row = enc_operation J r)"
proof -
  from run obtain now where now: "sqlite_integer at = Inr now"
    by (auto simp: cancel_operation_def result_simps)
  show ?thesis
  proof (cases "find_idempotent owner ''operations.cancel'' key db")
    case (Some row)
    with run now show ?thesis
      by (auto simp: cancel_operation_def result_simps Let_def split: if_splits)
  next
    case None
    have fresh: "replayed = False"
      using run None now by (auto simp: cancel_operation_def result_simps Let_def split: prod.splits simp del: is_terminal_iff)
    from cancel_moves [OF U ok run, unfolded fresh simp_thms] obtain db0 row where
      step: "db0 = db \<or> (\<exists>st st' c. cancel_target st = Inr st' \<and> moves E i db db0 st st' c True)"
      and row: "ir_principal_id row = principal_as_str owner" "ir_method row = ''operations.cancel''"
        "ir_key row = idempotency_key_as_str key" "ir_fingerprint row = cancel_fingerprint (env_uuid E) i expected"
        "ir_response row = enc_operation J r" and memo: "remembers E i row db0 db1"
      by (elim exE conjE) (rule that)
    have "idempotency db0 = idempotency db"
      using step by (elim disjE exE conjE) (simp, rule moves_idempotency)
    moreover have "idempotency db1 = idempotency db0 @ [row]"
      using memo by (simp add: remembers_def)
    ultimately have new: "idempotency db1 = idempotency db @ [row]"
      by simp
    have "find_idempotent owner ''operations.cancel'' key db1 = Some row"
      unfolding find_idempotent_def new find_append None [unfolded find_idempotent_def] option.case
      by (simp add: row(1-3))
    then show ?thesis
      by (intro exI [of _ row]) (simp only: row fresh if_False simp_thms)
  qed
qed

text \<open>
  C35: a cancellation request that is retried with the same key, after any number of other commands,
  answers with the record of the first answer and changes nothing, provided that the stored answer
  reads back as it was written.
\<close>

theorem cancel_operation_idempotent:
  assumes "uuid_laws (env_uuid E)" and "ledger_reachable E J db"
    and "cancel_operation E J owner i expected key at db = Inr ((r, replayed), db1)"
    and "dec_operation J (enc_operation J r) = Some r"
    and "(ledger_step E J)\<^sup>*\<^sup>* db1 db2" and "at' \<le> i64_max"
  shows "cancel_operation E J owner i expected key at' db2 = Inr ((r, True), db2)"
proof -
  have ok: "ledger_ok E db"
    using reachable_ok [OF assms(1,2)] by simp
  obtain row where row: "find_idempotent owner ''operations.cancel'' key db1 = Some row"
    "ir_fingerprint row = cancel_fingerprint (env_uuid E) i expected" "dec_operation J (ir_response row) = Some r"
    using accepted_cancel_remembered [OF assms(1) ok assms(3)] assms(4) by (auto split: if_splits)
  have "ledger_reachable E J db1"
    using assms(2) step_cancel [OF assms(3)] by (rule reachable_step)
  then have "(change E)\<^sup>*\<^sup>* db1 db2"
    using steps_changes [OF assms(1) _ assms(5)] by blast
  then obtain more where "idempotency db2 = idempotency db1 @ more"
    by (auto dest!: changes_append elim: prefixE)
  with row(1) have "find_idempotent owner ''operations.cancel'' key db2 = Some row"
    by (simp add: find_idempotent_def find_append)
  with row(2,3) assms(6) show ?thesis
    by (simp add: cancel_operation_def sqlite_integer_def)
qed

theorem cancel_operation_idempotent_witness:
  "\<exists>db. state_list db = [''cancelled''] \<and>
     cancel_operation demo_env demo_codec demo_owner demo_id (Revision 2) demo_key 9 db = Inr ((demo_record, True), db)"
proof (rule demo_stages)
  fix out db1 r2 db2 r3 db3 r4 db4
  assume run: "create_state_check demo_env demo_codec demo_owner demo_key 5 demo_start = Inr (out, db1)"
    "begin_state_check demo_env demo_id 6 db1 = Inr (r2, db2)"
    "cancel_operation demo_env demo_codec demo_owner demo_id (Revision 2) demo_key 7 db2 = Inr (r3, db3)"
    "finish_cancelled demo_env demo_id 8 db3 = Inr (r4, db4)"
    and r3: "r3 = (demo_record, False)" and ends: "state_list db4 = [''cancelled'']"
  have "ledger_reachable demo_env demo_codec db2"
    using demo_start_reachable step_create [OF demo_owner_ok run(1)] step_begin [OF run(2)]
    by (meson reachable_step)
  moreover have "dec_operation demo_codec (enc_operation demo_codec demo_record) = Some demo_record"
    by (simp add: demo_codec_def)
  moreover have "(ledger_step demo_env demo_codec)\<^sup>*\<^sup>* db3 db4"
    using step_cancelled [OF run(4)] by blast
  ultimately have "cancel_operation demo_env demo_codec demo_owner demo_id (Revision 2) demo_key 9 db4 =
      Inr ((demo_record, True), db4)"
    using cancel_operation_idempotent [OF demo_env_laws _ run(3) [unfolded r3]] by simp
  with ends show ?thesis by blast
qed

text \<open>
  C36: a fresh cancellation request for an operation that the caller does not own, or that does not
  exist, is answered as not found; with another revision than the current one as a conflict; for an
  operation that has ended as not cancellable.  None of them changes the ledger.
\<close>

theorem cancel_operation_rejections:
  assumes "uuid_laws (env_uuid E)" and "ledger_reachable E J db" and "at \<le> i64_max"
    and "find_idempotent owner ''operations.cancel'' key db = None"
  shows "((\<nexists>row. row \<in> set (operations db) \<and> row_operation_id row = operation_id_to_string (env_uuid E) i \<and>
        row_owner row = principal_as_str owner) \<longrightarrow>
      cancel_operation E J owner i expected key at db = Inl OperationNotFound) \<and>
    (\<forall>row. row \<in> set (operations db) \<longrightarrow> row_operation_id row = operation_id_to_string (env_uuid E) i \<longrightarrow>
       row_owner row = principal_as_str owner \<longrightarrow>
       (row_revision row \<noteq> sqlite_revision expected \<longrightarrow>
          cancel_operation E J owner i expected key at db = Inl RevisionConflict) \<and>
       (row_revision row = sqlite_revision expected \<and> row_state row \<in> set terminal_names \<longrightarrow>
          cancel_operation E J owner i expected key at db = Inl OperationNotCancellable))"
proof -
  have ok: "ledger_ok E db"
    using reachable_ok [OF assms(1,2)] by simp
  have absent: "cancel_operation E J owner i expected key at db = Inl OperationNotFound"
    if none: "\<nexists>row. row \<in> set (operations db) \<and> row_operation_id row = operation_id_to_string (env_uuid E) i \<and>
        row_owner row = principal_as_str owner"
  proof -
    have "load_owned_operation E owner i db = Inl OperationNotFound"
      using none by (auto simp: load_owned_operation_def split: option.splits dest!: find_Some_set)
    then show ?thesis
      using assms(3,4) by (simp add: cancel_operation_def sqlite_integer_def)
  qed
  have present: "\<exists>r. load_owned_operation E owner i db = Inr r \<and> sqlite_revision (or_revision r) = row_revision row \<and>
      (is_terminal (or_state r) \<longleftrightarrow> row_state row \<in> set terminal_names)"
    if row: "row \<in> set (operations db)" "row_operation_id row = operation_id_to_string (env_uuid E) i"
      "row_owner row = principal_as_str owner" for row
  proof -
    have good: "row_ok E (phases db) row" and ids: "distinct (map row_operation_id (operations db))"
      using ledger_okD(1) [OF ok] row(1) by (simp_all add: operations_ok_def)
    obtain r where r: "map_operation_row (env_uuid E) (phases db) row = Inr r"
      using row_decodes [OF assms(1) good] by blast
    have same: "x = row" if "x \<in> set (operations db)" "row_operation_id x = operation_id_to_string (env_uuid E) i" for x
      using same_row [OF ledger_okD(1) [OF ok] that(1) row(1)] that(2) row(2) by simp
    have "find (\<lambda>x. row_operation_id x = operation_id_to_string (env_uuid E) i \<and> row_owner x = principal_as_str owner)
        (operations db) = Some row"
    proof (cases "find (\<lambda>x. row_operation_id x = operation_id_to_string (env_uuid E) i \<and>
        row_owner x = principal_as_str owner) (operations db)")
      case None
      with row show ?thesis by (auto simp: find_None_iff)
    next
      case (Some x)
      with same find_Some_set [OF Some] show ?thesis by simp
    qed
    then have "load_owned_operation E owner i db = Inr r"
      by (simp add: load_owned_operation_def r)
    moreover have "row_revision row = sqlite_revision (or_revision r)" "terminal_row row = is_terminal (or_state r)"
      using row_reads [OF assms(1) good r] by simp_all
    ultimately show ?thesis
      by (intro exI [of _ r]) (simp only: terminal_row_def)
  qed
  have conflict: "cancel_operation E J owner i expected key at db = Inl RevisionConflict"
    if row: "row \<in> set (operations db)" "row_operation_id row = operation_id_to_string (env_uuid E) i"
      "row_owner row = principal_as_str owner" and rev: "row_revision row \<noteq> sqlite_revision expected" for row
  proof -
    obtain r where "load_owned_operation E owner i db = Inr r" "or_revision r \<noteq> expected"
      using present [OF row] by (elim exE conjE) (rule that, assumption, use rev in auto)
    then show ?thesis
      using assms(3,4) by (simp add: cancel_operation_def sqlite_integer_def ensure_def)
  qed
  have ended: "cancel_operation E J owner i expected key at db = Inl OperationNotCancellable"
    if row: "row \<in> set (operations db)" "row_operation_id row = operation_id_to_string (env_uuid E) i"
      "row_owner row = principal_as_str owner" and rev: "row_revision row = sqlite_revision expected"
      and state: "row_state row \<in> set terminal_names" for row
  proof -
    obtain r where r: "load_owned_operation E owner i db = Inr r" "or_revision r = expected" "is_terminal (or_state r)"
      using present [OF row] by (elim exE conjE) (rule that; simp add: rev state del: is_terminal_iff)
    then show ?thesis
      using assms(3,4) by (simp add: cancel_operation_def sqlite_integer_def ensure_def del: is_terminal_iff)
  qed
  show ?thesis
  proof (intro conjI allI impI, goal_cases)
    case 1
    then show ?case by (rule absent)
  next
    case (2 row)
    then show ?case by (rule conflict)
  next
    case (3 row)
    then show ?case by (elim conjE) (rule ended)
  qed
qed


theorem cancel_operation_rejections_witness:
  "\<exists>db. state_list db = [''cancelled''] \<and>
     cancel_operation demo_env demo_codec (PrincipalId ''other'') demo_id (Revision 4) demo_key 9 db =
       Inl OperationNotFound \<and>
     cancel_operation demo_env demo_codec demo_owner demo_id (Revision 4) (IdempotencyKey ''l'') 9 db =
       Inl OperationNotCancellable"
proof (rule demo_stages)
  fix out db1 r2 db2 r3 db3 r4 db4
  assume run: "create_state_check demo_env demo_codec demo_owner demo_key 5 demo_start = Inr (out, db1)"
    "begin_state_check demo_env demo_id 6 db1 = Inr (r2, db2)"
    "cancel_operation demo_env demo_codec demo_owner demo_id (Revision 2) demo_key 7 db2 = Inr (r3, db3)"
    "finish_cancelled demo_env demo_id 8 db3 = Inr (r4, db4)"
    and ends: "state_list db4 = [''cancelled'']"
    "map (\<lambda>r. (row_operation_id r, row_owner r, row_revision r)) (operations db4) =
       [(operation_id_to_string (env_uuid demo_env) demo_id, ''owner'', 4)]"
    "map (\<lambda>r. (ir_principal_id r, ir_key r)) (idempotency db4) = [(''owner'', ''k''), (''owner'', ''k'')]"
  have reach: "ledger_reachable demo_env demo_codec db4"
    using demo_start_reachable step_create [OF demo_owner_ok run(1)] step_begin [OF run(2)]
      step_cancel [OF run(3)] step_cancelled [OF run(4)]
    by (meson reachable_step)
  have rows: "\<And>r. r \<in> set (operations db4) \<Longrightarrow> row_owner r = ''owner'' \<and> row_revision r = 4 \<and>
      row_operation_id r = operation_id_to_string (env_uuid demo_env) demo_id \<and> row_state r \<in> set terminal_names"
    and some: "operations db4 \<noteq> []"
    using ends by (auto simp: state_list_def terminal_names_def map_eq_Cons_conv)
  have none: "find_idempotent (PrincipalId ''other'') m demo_key db4 = None"
    "find_idempotent demo_owner m (IdempotencyKey ''l'') db4 = None" for m
    using ends(3) by (auto simp: find_idempotent_def map_eq_Cons_conv demo_key_def)
  have "cancel_operation demo_env demo_codec (PrincipalId ''other'') demo_id (Revision 4) demo_key 9 db4 =
       Inl OperationNotFound"
    using cancel_operation_rejections [OF demo_env_laws reach _ none(1), of 9] rows by fastforce
  moreover have "cancel_operation demo_env demo_codec demo_owner demo_id (Revision 4) (IdempotencyKey ''l'') 9 db4 =
       Inl OperationNotCancellable"
  proof -
    obtain r where r: "r \<in> set (operations db4)"
      using some by (cases "operations db4") auto
    show ?thesis
      using cancel_operation_rejections [OF demo_env_laws reach _ none(2), of 9] r rows [OF r]
      by (simp add: demo_owner_def sqlite_revision_def)
  qed
  ultimately show ?thesis
    using ends(1) by blast
qed

end
