(* ===== verification/OperationColumns.thy ===== *)
theory OperationColumns
  imports OperationLedger
begin

text \<open>
  The columns of the operation tables as texts, and the summary of the two integrity \<open>PRAGMA\<close>s.
\<close>

text \<open>
  the texts stored for states and for filesystem phases read back as the value they were written
  for, and no other text reads as that value.
\<close>

theorem column_texts_roundtrip:
  "(parse_state v = Inr s \<longleftrightarrow> v = state_name s) \<and>
   (parse_filesystem_phase w = Some p \<longleftrightarrow> w = phase_as_str p)"
proof -
  have "parse_state v = Inr s \<Longrightarrow> v = state_name s"
    by (auto simp: parse_state_def ok_or_iffs state_name_def split: if_splits)
  moreover have "parse_filesystem_phase w = Some p \<Longrightarrow> w = phase_as_str p"
    by (auto simp: parse_filesystem_phase_def split: if_splits)
  moreover have "parse_filesystem_phase (phase_as_str p) = Some p"
    by (cases p) (simp_all add: parse_filesystem_phase_def)
  ultimately show ?thesis by auto
qed

lemma saturating_bytes: "check_byte_limit \<le> saturating_add a b \<longleftrightarrow> check_byte_limit \<le> a + b"
  by (auto simp: saturating_add_def check_byte_limit_def)

lemma classify_loop_spec:
  assumes "n < check_row_limit" and "bytes < check_byte_limit" and "only_ok \<longrightarrow> n = 1 \<and> m"
  shows "classify_loop m rows n bytes only_ok =
    (if check_row_limit \<le> n + length rows \<or> check_byte_limit \<le> bytes + sum_list (map length rows)
     then IssuesTruncated
     else if (if rows = [] then (if m then only_ok else n = 0) else m \<and> n = 0 \<and> rows = [''ok''])
     then CheckOk else IssuesDetected)"
  using assms
proof (induction rows arbitrary: n bytes only_ok)
  case (Cons row rows)
  let ?stop = "check_row_limit \<le> n + 1 \<or> check_byte_limit \<le> bytes + length row"
  show ?case
  proof (cases ?stop)
    case True
    then have "check_row_limit \<le> n + length (row # rows) \<or>
        check_byte_limit \<le> bytes + sum_list (map length (row # rows))"
      by auto
    moreover have "classify_loop m (row # rows) n bytes only_ok = IssuesTruncated"
      using True by (auto simp: Let_def saturating_bytes)
    ultimately show ?thesis by simp
  next
    case False
    have exact: "saturating_add bytes (length row) = bytes + length row"
      using False by (simp add: saturating_add_def check_byte_limit_def)
    have "classify_loop m (row # rows) n bytes only_ok =
        classify_loop m rows (n + 1) (bytes + length row) (m \<and> n + 1 = 1 \<and> row = ''ok'')"
      using False by (simp add: Let_def exact)
    also have "\<dots> = (if check_row_limit \<le> n + 1 + length rows \<or>
          check_byte_limit \<le> bytes + length row + sum_list (map length rows) then IssuesTruncated
        else if (if rows = [] then (if m then m \<and> n + 1 = 1 \<and> row = ''ok'' else n + 1 = 0)
          else m \<and> n + 1 = 0 \<and> rows = [''ok'']) then CheckOk else IssuesDetected)"
      using False by (intro Cons.IH) auto
    finally show ?thesis
      by (auto simp: add_ac)
  qed
qed (auto simp: not_le)

text \<open>
  C38: the summary of an integrity check is truncated exactly when 100 rows or 65536 bytes were seen;
  otherwise it is fine exactly for the single row \<open>ok\<close> of \<open>integrity_check\<close>, or for no row of
  \<open>foreign_key_check\<close>, and reports issues for anything else.
\<close>

theorem classify_rows_exact:
  "classify_rows integrity rows =
     (if 100 \<le> length rows \<or> 65536 \<le> sum_list (map length rows) then IssuesTruncated
      else if rows = (if integrity then [''ok''] else []) then CheckOk
      else IssuesDetected)"
  unfolding classify_rows_def
  by (subst classify_loop_spec) (auto simp: check_row_limit_def check_byte_limit_def)

end
