(* ===== verification/Pages.thy ===== *)
theory Pages
  imports Prelude
begin

text \<open>
  The contract of a paged query, as the clients of the store rely on it: following the cursors from
  one page to the next returns everything that was left to read, once and in order.
\<close>

section \<open>Following pages\<close>

text \<open>
  What a client does: read a page, and go on with the cursor it returned until there is none.  The
  fuel bounds the number of pages.
\<close>

fun follow_pages :: "('c \<Rightarrow> 'e + ('a list \<times> 'c option)) \<Rightarrow> nat \<Rightarrow> 'c \<Rightarrow> 'e + 'a list" where
  "follow_pages page 0 c = Inr []"
| "follow_pages page (Suc fuel) c =
     and_then (page c) (\<lambda>(xs, follow).
       case follow of
         None \<Rightarrow> Inr xs
       | Some c' \<Rightarrow> and_then (follow_pages page fuel c') (\<lambda>ys. Inr (xs @ ys)))"

locale pager =
  fixes page :: "'c \<Rightarrow> 'e + ('a list \<times> 'c option)"
    and remaining :: "'c \<Rightarrow> 'a list"
    and valid :: "'c \<Rightarrow> bool"
  assumes page_takes: "valid c \<Longrightarrow> \<exists>n follow. page c = Inr (take n (remaining c), follow) \<and>
    (case follow of
       None \<Rightarrow> length (remaining c) \<le> n
     | Some c' \<Rightarrow> 0 < n \<and> valid c' \<and> remaining c' = drop n (remaining c))"
begin

lemma follow_complete:
  "valid c \<Longrightarrow> length (remaining c) < fuel \<Longrightarrow> follow_pages page fuel c = Inr (remaining c)"
proof (induction fuel arbitrary: c)
  case (Suc fuel)
  from page_takes [OF Suc.prems(1)] obtain n follow where page: "page c = Inr (take n (remaining c), follow)"
    and follow: "case follow of None \<Rightarrow> length (remaining c) \<le> n
      | Some c' \<Rightarrow> 0 < n \<and> valid c' \<and> remaining c' = drop n (remaining c)"
    by blast
  show ?case
  proof (cases follow)
    case None
    with page follow show ?thesis by simp
  next
    case (Some c')
    show ?thesis
    proof (cases "remaining c = []")
      case True
      with Suc.prems have "fuel = 0 \<or> 0 < fuel" by auto
      with True Some page follow Suc.IH [of c'] show ?thesis
        by (cases fuel) auto
    next
      case False
      then have "0 < length (remaining c)"
        by simp
      moreover have "0 < n" "length (remaining c') = length (remaining c) - n"
        using Some follow by simp_all
      ultimately have "length (remaining c') < fuel"
        using Suc.prems(2) by linarith
      with Some page follow Suc.IH [of c'] show ?thesis by simp
    qed
  qed
qed simp

end

end
