(* ===== verification/OperationPages.thy ===== *)
theory OperationPages
  imports OperationClaims Pages
begin

text \<open>
  The paged queries of the ledger, \<open>list_operations\<close> and \<open>list_events\<close>, meet the contract of a pager:
  a client that follows the cursors sees every row of its owner once and in order.
\<close>

section \<open>Listing operations\<close>

definition operations_page ::
  "store_env \<Rightarrow> principal_id \<Rightarrow> nat \<Rightarrow> bool \<Rightarrow> ledger \<Rightarrow> operation_cursor option \<Rightarrow>
   store_error + (operation_record list \<times> operation_cursor option option)" where
  "operations_page E owner limit active db cursor =
     and_then (list_operations E owner cursor limit active db)
       (\<lambda>p. Inr (op_operations p, map_option Some (op_next_cursor p)))"

definition listed_rows :: "principal_id \<Rightarrow> bool \<Rightarrow> ledger \<Rightarrow> operation_row list" where
  "listed_rows owner active db = sort_by newest_first (owned_rows owner active db)"

definition record_of :: "store_env \<Rightarrow> ledger \<Rightarrow> operation_row \<Rightarrow> operation_record" where
  "record_of E db row = projr (map_operation_row (env_uuid E) (phases db) row)"

definition rows_left ::
  "store_env \<Rightarrow> principal_id \<Rightarrow> bool \<Rightarrow> ledger \<Rightarrow> operation_cursor option \<Rightarrow> operation_row list" where
  "rows_left E owner active db cursor =
     (case page_cursor E cursor of Inl _ \<Rightarrow> [] | Inr c \<Rightarrow> filter (row_before c) (listed_rows owner active db))"

definition operations_left ::
  "store_env \<Rightarrow> principal_id \<Rightarrow> bool \<Rightarrow> ledger \<Rightarrow> operation_cursor option \<Rightarrow> operation_record list" where
  "operations_left E owner active db cursor = map (record_of E db) (rows_left E owner active db cursor)"

definition operations_cursor_ok :: "store_env \<Rightarrow> nat \<Rightarrow> ledger \<Rightarrow> operation_cursor option \<Rightarrow> bool" where
  "operations_cursor_ok E limit db cursor \<longleftrightarrow>
     uuid_laws (env_uuid E) \<and> ledger_ok E db \<and> 0 < limit \<and> limit \<le> 1000 \<and>
     (case cursor of None \<Rightarrow> True | Some c \<Rightarrow> oc_created_at_ms c \<le> i64_max)"

definition row_key :: "operation_row \<Rightarrow> int \<times> string" where
  "row_key r = (row_created_at r, row_operation_id r)"

lemma newest_first_preorder: "cmp_preorder newest_first"
  unfolding newest_first_def
  by (intro cmp_preorder_then cmp_preorder_flip [OF cmp_preorder_on [OF cmp_of_preorder, of row_created_at]]
      cmp_preorder_flip [OF cmp_preorder_on [OF cmp_of_preorder, of row_operation_id]])

lemma row_before_trans: "row_before c r \<Longrightarrow> row_before (row_key r) s \<Longrightarrow> row_before c s"
  by (auto simp: row_before_def row_key_def)

lemma row_before_irrefl: "\<not> row_before (row_key r) r"
  by (simp add: row_before_def row_key_def)

lemma newest_first_before:
  "newest_first a b \<noteq> Greater \<longleftrightarrow> row_before (row_key a) b \<or> row_key a = row_key b"
  by (auto simp: newest_first_def then_with_iffs row_before_def row_key_def)

lemma sorted_before:
  assumes "distinct (map row_operation_id rows)"
  shows "sorted_wrt (\<lambda>a b. row_before (row_key a) b) (sort_by newest_first rows)"
proof -
  let ?xs = "sort_by newest_first rows"
  have "distinct (map row_operation_id ?xs)"
    using assms by (metis mset_eq_imp_distinct_iff mset_map mset_sort_by)
  then have "row_key a \<noteq> row_key b" if "i < j" "j < length ?xs" "a = ?xs ! i" "b = ?xs ! j" for i j a b
    using that by (auto simp: row_key_def distinct_conv_nth)
  moreover have "sorted_wrt (\<lambda>a b. newest_first a b \<noteq> Greater) ?xs"
    by (rule cmp_preorder.sort_by_sorted [OF newest_first_preorder])
  ultimately show ?thesis
    by (auto simp: sorted_wrt_iff_nth_less newest_first_before)
qed

lemma sort_filter_rows:
  assumes "distinct (map row_operation_id rows)"
  shows "sort_by newest_first (filter P rows) = filter P (sort_by newest_first rows)"
proof (rule cmp_preorder.sorted_perm_unique [OF newest_first_preorder])
  show "sorted_wrt (\<lambda>a b. newest_first a b \<noteq> Greater) (filter P (sort_by newest_first rows))"
    by (intro sorted_wrt_filter cmp_preorder.sort_by_sorted [OF newest_first_preorder])
  show "a = b" if "a \<in> set (sort_by newest_first (filter P rows))"
    "b \<in> set (sort_by newest_first (filter P rows))" "newest_first a b = Equal" for a b
    using assms that by (auto simp: newest_first_def then_with_iffs distinct_map dest: inj_onD)
qed (simp_all add: cmp_preorder.sort_by_sorted [OF newest_first_preorder])

text \<open>What comes before an element of a sorted list is what follows it.\<close>

lemma filter_after:
  assumes "sorted_wrt (\<lambda>a b. row_before (row_key a) b) xs" and "0 < n" and "n \<le> length xs"
  shows "filter (row_before (row_key (xs ! (n - 1)))) xs = drop n xs"
proof -
  have split: "xs = take n xs @ drop n xs"
    by simp
  have "\<not> row_before (row_key (xs ! (n - 1))) x" if mem: "x \<in> set (take n xs)" for x
  proof -
    obtain i where i: "i < n" "x = xs ! i"
      using mem assms(3) by (auto simp: in_set_conv_nth)
    show ?thesis
    proof (cases "i = n - 1")
      case True
      with i show ?thesis by (simp add: row_before_irrefl)
    next
      case False
      then have "row_before (row_key x) (xs ! (n - 1))"
        using assms i by (auto simp: sorted_wrt_iff_nth_less)
      then show ?thesis
        using row_before_trans row_before_irrefl by blast
    qed
  qed
  moreover have "row_before (row_key (xs ! (n - 1))) x" if mem: "x \<in> set (drop n xs)" for x
  proof -
    obtain i where i: "i < length xs - n" "x = xs ! (n + i)"
      using mem by (auto simp: in_set_conv_nth)
    then show ?thesis
      using assms by (auto simp: sorted_wrt_iff_nth_less)
  qed
  ultimately have "filter (row_before (row_key (xs ! (n - 1)))) (take n xs) = []"
    "filter (row_before (row_key (xs ! (n - 1)))) (drop n xs) = drop n xs"
    by (auto simp: filter_empty_conv filter_id_conv)
  then show ?thesis
    by (metis append_Nil filter_append split)
qed

lemma owned_rows_ok:
  assumes "ledger_ok E db" and "r \<in> set (owned_rows owner active db)"
  shows "row_ok E (phases db) r"
  using assms by (auto simp: owned_rows_def ledger_ok_def operations_ok_def)

lemma owned_distinct: "ledger_ok E db \<Longrightarrow> distinct (map row_operation_id (owned_rows owner active db))"
  by (simp add: owned_rows_def ledger_ok_def operations_ok_def distinct_map_filter)

lemma collect_projr: "(\<And>x. x \<in> set xs \<Longrightarrow> \<exists>y. f x = Inr y) \<Longrightarrow> collect f xs = Inr (map (\<lambda>x. projr (f x)) xs)"
  by (induction xs) fastforce+

lemma listed_page:
  assumes U: "uuid_laws (env_uuid E)" and ok: "ledger_ok E db" and c: "page_cursor E cursor = Inr c"
    and limit: "0 < limit" "limit \<le> 1000"
  shows "\<exists>p. list_operations E owner cursor limit active db = Inr p \<and>
    op_operations p = take limit (operations_left E owner active db cursor) \<and>
    op_next_cursor p = (if op_operations p = [] then None else Some
      \<lparr>oc_created_at_ms = or_created_at_ms (last (op_operations p)),
       oc_operation_id = or_operation_id (last (op_operations p))\<rparr>)"
proof -
  let ?rows = "take limit (filter (row_before c) (listed_rows owner active db))"
  have rows: "take limit (sort_by newest_first (filter (row_before c) (owned_rows owner active db))) = ?rows"
    using sort_filter_rows [OF owned_distinct [OF ok]] by (simp add: listed_rows_def)
  have "\<exists>r. map_operation_row (env_uuid E) (phases db) row = Inr r" if "row \<in> set ?rows" for row
  proof (rule row_decodes [OF U])
    show "row_ok E (phases db) row"
      using that by (auto simp: listed_rows_def dest!: in_set_takeD intro: owned_rows_ok [OF ok])
  qed
  then have "collect (map_operation_row (env_uuid E) (phases db)) ?rows =
      Inr (take limit (operations_left E owner active db cursor))"
    using c by (simp add: collect_projr operations_left_def rows_left_def record_of_def take_map)
  then show ?thesis
    using limit c by (simp add: list_operations_def rows ensure_def split del: if_split) simp
qed

lemma last_row_cursor:
  assumes U: "uuid_laws (env_uuid E)" and ok: "row_ok E (phases db) row"
  shows "page_cursor E (Some \<lparr>oc_created_at_ms = or_created_at_ms (record_of E db row),
      oc_operation_id = or_operation_id (record_of E db row)\<rparr>) = Inr (row_key row)"
    and "or_created_at_ms (record_of E db row) \<le> i64_max"
proof -
  obtain r where r: "map_operation_row (env_uuid E) (phases db) row = Inr r"
    using row_decodes [OF U ok] by blast
  have time: "row_created_at row \<le> uint i64_max"
    using ok by (simp add: row_ok_def column_time_def)
  have rec: "record_of E db row = r"
    by (simp add: record_of_def r)
  show "or_created_at_ms (record_of E db row) \<le> i64_max"
    using row_reads(9) [OF U ok r] time by (simp add: rec word_le_def)
  then show "page_cursor E (Some \<lparr>oc_created_at_ms = or_created_at_ms (record_of E db row),
      oc_operation_id = or_operation_id (record_of E db row)\<rparr>) = Inr (row_key row)"
    using row_reads(1,9) [OF U ok r] by (simp add: rec page_cursor_def sqlite_integer_def row_key_def)
qed

interpretation operation_pages: pager "operations_page E owner limit active db"
  "operations_left E owner active db" "operations_cursor_ok E limit db" for E owner limit active db
proof
  fix cursor
  assume valid: "operations_cursor_ok E limit db cursor"
  then have hyps: "uuid_laws (env_uuid E)" "ledger_ok E db" "0 < limit" "limit \<le> 1000"
    by (simp_all add: operations_cursor_ok_def)
  obtain c where c: "page_cursor E cursor = Inr c"
    using valid by (auto simp: operations_cursor_ok_def page_cursor_def sqlite_integer_def split: option.splits)
  obtain p where p: "list_operations E owner cursor limit active db = Inr p"
    "op_operations p = take limit (operations_left E owner active db cursor)"
    "op_next_cursor p = (if op_operations p = [] then None else Some
      \<lparr>oc_created_at_ms = or_created_at_ms (last (op_operations p)),
       oc_operation_id = or_operation_id (last (op_operations p))\<rparr>)"
    using listed_page [OF hyps(1,2) c hyps(3,4)] by blast
  let ?rows = "rows_left E owner active db cursor"
  show "\<exists>n follow. operations_page E owner limit active db cursor =
      Inr (take n (operations_left E owner active db cursor), follow) \<and>
    (case follow of
       None \<Rightarrow> length (operations_left E owner active db cursor) \<le> n
     | Some c' \<Rightarrow> 0 < n \<and> operations_cursor_ok E limit db c' \<and>
         operations_left E owner active db c' = drop n (operations_left E owner active db cursor))"
  proof (cases "?rows = []")
    case True
    then have "operations_left E owner active db cursor = []"
      by (simp add: operations_left_def)
    with p show ?thesis
      by (simp add: operations_page_def)
  next
    case False
    define n where "n = min limit (length ?rows)"
    have n: "0 < n" "n \<le> length ?rows" "take limit ?rows = take n ?rows"
      using False hyps(3) by (auto simp: n_def min_def)
    define row where "row = ?rows ! (n - 1)"
    have row: "row \<in> set ?rows"
      unfolding row_def using n by (intro nth_mem) simp
    then have row_listed: "row_ok E (phases db) row" "row_before c row"
      using c hyps(2) by (auto simp: rows_left_def listed_rows_def intro: owned_rows_ok)
    have ops: "op_operations p = map (record_of E db) (take n ?rows)"
      using n(3) by (simp add: p(2) operations_left_def take_map)
    then have some: "op_operations p \<noteq> []"
      using n(1) False by simp
    have "last (take n ?rows) = row"
      using n(1,2) False by (simp add: last_conv_nth row_def)
    then have last: "last (op_operations p) = record_of E db row"
      using n(1) False by (simp add: ops last_map)
    let ?c = "Some \<lparr>oc_created_at_ms = or_created_at_ms (record_of E db row),
       oc_operation_id = or_operation_id (record_of E db row)\<rparr>"
    note cur = last_row_cursor [OF hyps(1) row_listed(1)]
    have sorted: "sorted_wrt (\<lambda>a b. row_before (row_key a) b) ?rows"
      using c sorted_before [OF owned_distinct [OF hyps(2)]]
      by (simp add: rows_left_def listed_rows_def sorted_wrt_filter)
    have "rows_left E owner active db ?c = filter (row_before (row_key row)) ?rows"
    proof -
      have "row_before (row_key row) x = (row_before c x \<and> row_before (row_key row) x)" for x
        using row_before_trans [OF row_listed(2)] by blast
      then show ?thesis
        using c by (simp add: rows_left_def cur(1) filter_filter)
    qed
    also have "\<dots> = drop n ?rows"
      unfolding row_def by (rule filter_after [OF sorted n(1,2)])
    finally have "operations_left E owner active db ?c = drop n (operations_left E owner active db cursor)"
      by (simp add: operations_left_def drop_map)
    moreover have "operations_cursor_ok E limit db ?c"
      using hyps cur(2) by (simp add: operations_cursor_ok_def)
    moreover have "operations_page E owner limit active db cursor =
        Inr (take n (operations_left E owner active db cursor), Some ?c)"
      using p(1,3) some last ops by (simp add: operations_page_def operations_left_def take_map)
    ultimately show ?thesis
      using n(1) by (intro exI [of _ n] exI [of _ "Some ?c"]) simp
  qed
qed

text \<open>
  C18: a client that lists its operations page by page, with any page size from 1 to 1000, gets every
  operation it owns (every unfinished one, if it asked for those) exactly once, newest first.
\<close>

theorem operation_pages_complete:
  assumes "uuid_laws (env_uuid E)" and "ledger_reachable E J db" and "0 < limit" and "limit \<le> 1000"
    and "\<forall>r \<in> set (owned_rows owner active db). row_created_at r < uint i64_max"
    and "length (operations db) < fuel"
  shows "\<exists>rs. follow_pages (operations_page E owner limit active db) fuel None = Inr rs \<and>
    map (\<lambda>r. operation_id_to_string (env_uuid E) (or_operation_id r)) rs =
    map row_operation_id (sort_by newest_first (owned_rows owner active db))"
proof -
  have ok: "ledger_ok E db"
    using reachable_ok [OF assms(1,2)] by simp
  have rows: "rows_left E owner active db None = listed_rows owner active db"
    using assms(5) by (auto simp: rows_left_def page_cursor_def filter_id_conv row_before_def listed_rows_def)
  have "length (operations_left E owner active db None) \<le> length (operations db)"
    by (simp add: operations_left_def rows listed_rows_def owned_rows_def)
  moreover have "operations_cursor_ok E limit db None"
    using assms ok by (simp add: operations_cursor_ok_def)
  ultimately have "follow_pages (operations_page E owner limit active db) fuel None =
      Inr (operations_left E owner active db None)"
    using assms(6) by (intro operation_pages.follow_complete) simp_all
  moreover have "operation_id_to_string (env_uuid E) (or_operation_id (record_of E db row)) = row_operation_id row"
    if mem: "row \<in> set (listed_rows owner active db)" for row
  proof -
    have fine: "row_ok E (phases db) row"
      using mem owned_rows_ok [OF ok] by (simp add: listed_rows_def)
    obtain r where r: "map_operation_row (env_uuid E) (phases db) row = Inr r"
      using row_decodes [OF assms(1) fine] by blast
    then show ?thesis
      using row_reads(1) [OF assms(1) fine r] by (simp add: record_of_def)
  qed
  ultimately show ?thesis
    by (simp add: operations_left_def rows listed_rows_def)
qed

theorem operation_pages_complete_witness:
  "\<exists>db rs. state_list db = [''cancelled''] \<and>
     follow_pages (operations_page demo_env demo_owner 1 False db) 2 None = Inr rs \<and> length rs = 1"
proof (rule demo_steps)
  fix db1 db4
  assume reach: "ledger_reachable demo_env demo_codec db4" and ends: "state_list db4 = [''cancelled'']"
    "map (\<lambda>r. (row_owner r, row_created_at r)) (operations db4) = [(''owner'', 5)]"
  then obtain row where rows: "operations db4 = [row]" "row_owner row = ''owner''" "row_created_at row = 5"
    by (auto simp: map_eq_Cons_conv)
  then obtain rs where "follow_pages (operations_page demo_env demo_owner 1 False db4) 2 None = Inr rs"
    "map (\<lambda>r. operation_id_to_string (env_uuid demo_env) (or_operation_id r)) rs = [row_operation_id row]"
    using operation_pages_complete [OF demo_env_laws reach, of 1 demo_owner False 2]
    by (auto simp: owned_rows_def demo_owner_def)
  moreover from this(2) have "length rs = 1"
    by (metis One_nat_def length_map list.size(3,4) add_0)
  ultimately show ?thesis
    using ends(1) by blast
qed

section \<open>Listing events\<close>

lemma filter_later:
  assumes "sorted_wrt (\<lambda>a b. f a < (f b :: int)) xs" and "0 < n" and "n \<le> length xs"
  shows "filter (\<lambda>x. f (xs ! (n - 1)) < f x) xs = drop n xs"
proof -
  have early: "f x \<le> f (xs ! (n - 1))" if mem: "x \<in> set (take n xs)" for x
  proof -
    obtain i where i: "i < n" "x = xs ! i"
      using mem assms(3) by (auto simp: in_set_conv_nth)
    then show ?thesis
      using assms by (cases "i = n - 1") (auto simp: sorted_wrt_iff_nth_less intro: less_imp_le)
  qed
  have late: "f (xs ! (n - 1)) < f x" if mem: "x \<in> set (drop n xs)" for x
  proof -
    obtain i where i: "i < length xs - n" "x = xs ! (n + i)"
      using mem by (auto simp: in_set_conv_nth)
    then show ?thesis
      using assms by (auto simp: sorted_wrt_iff_nth_less)
  qed
  have "filter (\<lambda>x. f (xs ! (n - 1)) < f x) (take n xs @ drop n xs) = drop n xs"
    using early late unfolding filter_append by (auto simp: filter_empty_conv filter_id_conv not_less)
  then show ?thesis by simp
qed

definition events_page ::
  "principal_id \<Rightarrow> nat \<Rightarrow> ledger \<Rightarrow> u64 \<Rightarrow> store_error + (event_record list \<times> u64 option)" where
  "events_page owner limit db after =
     and_then (list_events owner after limit db)
       (\<lambda>p. Inr (ep_events p, if ep_events p = [] then None else Some (ep_next_sequence p)))"

definition event_rows_left :: "principal_id \<Rightarrow> ledger \<Rightarrow> int \<Rightarrow> event_row list" where
  "event_rows_left owner db after =
     filter (\<lambda>e. er_principal_id e = principal_as_str owner \<and> er_sequence e > after) (events db)"

definition event_of_row :: "event_row \<Rightarrow> event_record" where
  "event_of_row row = projr (map_event_row row)"

definition events_left :: "principal_id \<Rightarrow> ledger \<Rightarrow> u64 \<Rightarrow> event_record list" where
  "events_left owner db after = map event_of_row (event_rows_left owner db (uint after))"

definition events_cursor_ok :: "principal_id \<Rightarrow> nat \<Rightarrow> ledger \<Rightarrow> u64 \<Rightarrow> bool" where
  "events_cursor_ok owner limit db after \<longleftrightarrow>
     events_ok db \<and> 0 < limit \<and> limit \<le> 1000 \<and> after \<le> i64_max \<and>
     (\<forall>e \<in> set (events db). event_size (event_of_row e) \<le> event_page_bytes)"

lemma event_row_reads:
  assumes "event_ok row" and "er_sequence row \<le> uint i64_max"
  shows "map_event_row row = Inr (event_of_row row)" and "uint (ev_sequence (event_of_row row)) = er_sequence row"
    and "ev_payload_json (event_of_row row) = er_payload row"
    and "ev_sequence (event_of_row row) \<le> i64_max" and "ev_event_id (event_of_row row) = er_event_id row"
proof -
  obtain rv where rv: "read_revision (er_aggregate_revision row) = Inr rv"
    using assms read_revision_ok by (auto simp: event_ok_def)
  have "positive (er_sequence row) = Inr (word_of_int (er_sequence row))"
    using assms by (simp add: positive_def event_ok_def)
  moreover obtain at where "positive_or_zero (er_occurred_at row) = Inr at"
    using assms by (auto simp: event_ok_def column_time_def positive_or_zero_def)
  ultimately obtain e where e: "map_event_row row = Inr e" "ev_sequence e = word_of_int (er_sequence row)"
    "ev_payload_json e = er_payload row" "ev_event_id e = er_event_id row"
    using rv by (simp add: map_event_row_def)
  then show "map_event_row row = Inr (event_of_row row)" "ev_payload_json (event_of_row row) = er_payload row"
    "ev_event_id (event_of_row row) = er_event_id row"
    by (simp_all add: event_of_row_def)
  have "uint (word_of_int (er_sequence row) :: u64) = er_sequence row"
    using assms by (intro column_word) (simp add: column_time_def event_ok_def)
  then show "uint (ev_sequence (event_of_row row)) = er_sequence row" "ev_sequence (event_of_row row) \<le> i64_max"
    using e assms(2) by (simp_all add: event_of_row_def word_le_def)
qed

lemma event_row_texts:
  assumes "event_ok row" and "er_sequence row \<le> uint i64_max"
  shows "ev_payload_json (event_of_row row) = er_payload row \<and> ev_event_id (event_of_row row) = er_event_id row \<and>
    ev_kind (event_of_row row) = er_kind row \<and> ev_aggregate_kind (event_of_row row) = er_aggregate_kind row \<and>
    ev_aggregate_id (event_of_row row) = er_aggregate_id row"
proof -
  obtain seq rv at where "\<lparr>ev_sequence = seq, ev_event_id = er_event_id row, ev_kind = er_kind row,
      ev_aggregate_kind = er_aggregate_kind row, ev_aggregate_id = er_aggregate_id row,
      ev_aggregate_revision = rv, ev_occurred_at_ms = at, ev_payload_json = er_payload row\<rparr> = event_of_row row"
    using event_row_reads(1) [OF assms] by (auto simp: map_event_row_def result_simps)
  from this [symmetric] show ?thesis by simp
qed

lemma take_events_prefix:
  assumes "\<forall>row \<in> set rows. map_event_row row = Inr (event_of_row row) \<and>
      event_size (event_of_row row) \<le> event_page_bytes"
  shows "\<exists>k \<le> length rows. take_events rows used acc = Inr (acc @ map event_of_row (take k rows)) \<and>
    (used = 0 \<and> rows \<noteq> [] \<longrightarrow> 0 < k)"
  using assms
proof (induction rows arbitrary: used acc)
  case (Cons row rows)
  let ?e = "event_of_row row"
  have row: "map_event_row row = Inr ?e" "event_size ?e \<le> event_page_bytes"
    using Cons.prems by simp_all
  show ?case
  proof (cases "saturating_add used (event_size ?e) > event_page_bytes")
    case True
    moreover have "used \<noteq> 0"
      using True row(2) by (auto simp: saturating_add_def)
    ultimately show ?thesis
      using row by (intro exI [of _ 0]) simp
  next
    case False
    obtain k where "k \<le> length rows" "take_events rows (used + event_size ?e) (acc @ [?e]) =
        Inr ((acc @ [?e]) @ map event_of_row (take k rows))"
      using Cons.IH [of "used + event_size ?e" "acc @ [?e]"] Cons.prems by auto
    with False row show ?thesis
      by (intro exI [of _ "Suc k"]) simp
  qed
qed simp

interpretation event_pages: pager "events_page owner limit db" "events_left owner db"
  "events_cursor_ok owner limit db" for owner limit db
proof
  fix after
  assume valid: "events_cursor_ok owner limit db after"
  then have hyps: "events_ok db" "0 < limit" "limit \<le> 1000" "after \<le> i64_max"
    by (simp_all add: events_cursor_ok_def)
  let ?rows = "event_rows_left owner db (uint after)"
  have rows: "map_event_row row = Inr (event_of_row row)" "uint (ev_sequence (event_of_row row)) = er_sequence row"
    "ev_sequence (event_of_row row) \<le> i64_max" "event_size (event_of_row row) \<le> event_page_bytes"
    "uint after < er_sequence row"
    if mem: "row \<in> set ?rows" for row
  proof -
    have row: "row \<in> set (events db)" "event_ok row" "er_sequence row \<le> uint i64_max"
      using mem hyps(1) by (force simp: event_rows_left_def events_ok_def)+
    note reads = event_row_reads [OF row(2,3)]
    show "map_event_row row = Inr (event_of_row row)" "uint (ev_sequence (event_of_row row)) = er_sequence row"
      "ev_sequence (event_of_row row) \<le> i64_max"
      by (fact reads(1), fact reads(2), fact reads(4))
    show "event_size (event_of_row row) \<le> event_page_bytes" "uint after < er_sequence row"
      using valid row(1) mem by (simp_all add: events_cursor_ok_def event_rows_left_def)
  qed
  have "\<forall>row \<in> set (take limit ?rows). map_event_row row = Inr (event_of_row row) \<and>
      event_size (event_of_row row) \<le> event_page_bytes"
    using rows(1,4) by (auto dest: in_set_takeD)
  from take_events_prefix [OF this, of 0 "[]"] obtain k where k: "k \<le> length (take limit ?rows)"
    "take_events (take limit ?rows) 0 [] = Inr (map event_of_row (take k (take limit ?rows)))"
    "take limit ?rows \<noteq> [] \<longrightarrow> 0 < k"
    using hyps(2) by auto
  have short: "take k (take limit ?rows) = take k ?rows" "k \<le> length ?rows" "?rows \<noteq> [] \<longrightarrow> 0 < k"
    using k(1,3) hyps(2) by auto
  have run: "list_events owner after limit db = Inr \<lparr>ep_events = take k (events_left owner db after),
      ep_next_sequence = (if take k (events_left owner db after) = [] then after
        else ev_sequence (last (take k (events_left owner db after))))\<rparr>"
    using k(2) hyps(2-4) unfolding short(1)
    by (simp add: list_events_def ensure_def sqlite_integer_def event_rows_left_def events_left_def take_map)
  show "\<exists>n follow. events_page owner limit db after = Inr (take n (events_left owner db after), follow) \<and>
    (case follow of
       None \<Rightarrow> length (events_left owner db after) \<le> n
     | Some c' \<Rightarrow> 0 < n \<and> events_cursor_ok owner limit db c' \<and>
         events_left owner db c' = drop n (events_left owner db after))"
  proof (cases "?rows = []")
    case True
    then have "events_left owner db after = []"
      by (simp add: events_left_def)
    with run show ?thesis
      by (simp add: events_page_def)
  next
    case False
    define row where "row = ?rows ! (k - 1)"
    have row: "row \<in> set ?rows"
      unfolding row_def using False short by (intro nth_mem) auto
    have last: "last (take k (events_left owner db after)) = event_of_row row" "take k (events_left owner db after) \<noteq> []"
      using False short by (auto simp: events_left_def take_map last_map last_conv_nth row_def)
    have sorted: "sorted_wrt (\<lambda>a b. er_sequence a < er_sequence b) ?rows"
      using hyps(1) by (simp add: events_ok_def sorted_wrt_map event_rows_left_def sorted_wrt_filter)
    have "event_rows_left owner db (er_sequence row) = filter (\<lambda>e. er_sequence e > er_sequence row) ?rows"
      using rows(5) [OF row] by (auto simp: event_rows_left_def intro!: filter_cong)
    also have "\<dots> = drop k ?rows"
      unfolding row_def using filter_later [OF sorted] False short by auto
    finally have "events_left owner db (ev_sequence (event_of_row row)) = drop k (events_left owner db after)"
      by (simp add: events_left_def rows(2) [OF row] drop_map)
    moreover have "events_cursor_ok owner limit db (ev_sequence (event_of_row row))"
      using valid rows(3) [OF row] by (simp add: events_cursor_ok_def)
    ultimately show ?thesis
      using run last False short
      by (intro exI [of _ k] exI [of _ "Some (ev_sequence (event_of_row row))"]) (simp add: events_page_def)
  qed
qed

text \<open>
  C37: a client that reads its events page by page, from the beginning and with any page size from 1
  to 1000, gets every event of its operations exactly once and in the order of their sequence numbers,
  although a page also ends at the limit of its size, provided that each event fits into a page.
\<close>

theorem event_pages_complete:
  assumes "uuid_laws (env_uuid E)" and "ledger_reachable E J db" and "0 < limit" and "limit \<le> 1000"
    and "\<forall>e \<in> set (events db). event_size (event_of_row e) \<le> event_page_bytes"
    and "length (events db) < fuel"
  shows "\<exists>es. follow_pages (events_page owner limit db) fuel 0 = Inr es \<and>
    map (\<lambda>e. (uint (ev_sequence e), ev_event_id e, ev_payload_json e)) es =
    map (\<lambda>r. (er_sequence r, er_event_id r, er_payload r))
      (filter (\<lambda>r. er_principal_id r = principal_as_str owner) (events db))"
proof -
  have ok: "events_ok db"
    using reachable_ok [OF assms(1,2)] by (simp add: ledger_ok_def)
  then have rows: "event_ok r" "er_sequence r \<le> uint i64_max" "0 < er_sequence r" if "r \<in> set (events db)" for r
    using that by (force simp: events_ok_def event_ok_def)+
  have left: "event_rows_left owner db 0 = filter (\<lambda>r. er_principal_id r = principal_as_str owner) (events db)"
    using rows(3) by (auto simp: event_rows_left_def intro!: filter_cong)
  have "events_cursor_ok owner limit db 0"
    using assms ok by (simp add: events_cursor_ok_def)
  moreover have "length (events_left owner db 0) < fuel"
    using assms(6) le_less_trans [OF length_filter_le] by (simp add: events_left_def left)
  ultimately have "follow_pages (events_page owner limit db) fuel 0 = Inr (events_left owner db 0)"
    by (rule event_pages.follow_complete)
  then show ?thesis
    using event_row_reads rows by (simp add: events_left_def left)
qed


theorem event_pages_complete_witness:
  "\<exists>db es. state_list db = [''cancelled''] \<and> follow_pages (events_page demo_owner 3 db) 5 0 = Inr es \<and>
     map ev_payload_json es = map state_payload [Queued, Running, Cancelling, Cancelled]"
proof (rule demo_steps)
  fix db1 db4
  assume reach: "ledger_reachable demo_env demo_codec db4" and ends: "state_list db4 = [''cancelled'']"
    "map er_payload (events db4) = map state_payload [Queued, Running, Cancelling, Cancelled]"
    "map er_principal_id (events db4) = [''owner'', ''owner'', ''owner'', ''owner'']"
    "list_all short_event (events db4)"
  have own: "filter (\<lambda>r. er_principal_id r = principal_as_str demo_owner) (events db4) = events db4"
    and len: "length (events db4) < 5"
    using ends(3) by (auto simp: map_eq_Cons_conv demo_owner_def)
  have small: "\<forall>e \<in> set (events db4). event_size (event_of_row e) \<le> event_page_bytes"
  proof
    fix e
    assume e: "e \<in> set (events db4)"
    have "events_ok db4"
      using reachable_ok [OF demo_env_laws reach] by (simp add: ledger_ok_def)
    with e have "event_ok e" "er_sequence e \<le> uint i64_max"
      by (force simp: events_ok_def)+
    from event_row_texts [OF this] show "event_size (event_of_row e) \<le> event_page_bytes"
      using ends(4) e by (auto simp: event_size_def saturating_add_def event_page_bytes_def short_event_def list_all_iff)
  qed
  obtain es where "follow_pages (events_page demo_owner 3 db4) 5 0 = Inr es"
    "map (\<lambda>e. (uint (ev_sequence e), ev_event_id e, ev_payload_json e)) es =
     map (\<lambda>r. (er_sequence r, er_event_id r, er_payload r)) (events db4)"
    using event_pages_complete [OF demo_env_laws reach _ _ small len, of 3 demo_owner] own by auto
  moreover from arg_cong [OF this(2), of "map (\<lambda>(_, _, p). p)"] have "map ev_payload_json es = map er_payload (events db4)"
    by (simp add: comp_def)
  ultimately show ?thesis
    using ends(1,2) by metis
qed

end
