(* ===== verification/Worker.thy ===== *)
theory Worker
  imports OperationPages
begin

text \<open>
  The service of \<open>crates/alcomd-application/src/lib.rs\<close> over the operation store: the use cases with
  their access checks, and the worker of a state check as a step function, one store call per step,
  so that other commands can come in between.  The trait \<open>StateStore\<close> is a record of functions; the
  locale \<open>state_store\<close> states what the worker relies on, and the ledger interprets it.
\<close>

section \<open>The persistence port\<close>

record 's state_store =
  ss_create_state_check :: "principal_id \<Rightarrow> idempotency_key \<Rightarrow> u64 \<Rightarrow> 's \<Rightarrow> store_error + (create_outcome \<times> 's)"
  ss_get_operation :: "principal_id \<Rightarrow> operation_id \<Rightarrow> 's \<Rightarrow> store_error + operation_record"
  ss_list_operations ::
    "principal_id \<Rightarrow> operation_cursor option \<Rightarrow> nat \<Rightarrow> bool \<Rightarrow> 's \<Rightarrow> store_error + operation_page"
  ss_cancel_operation ::
    "principal_id \<Rightarrow> operation_id \<Rightarrow> revision \<Rightarrow> idempotency_key \<Rightarrow> u64 \<Rightarrow> 's \<Rightarrow>
     store_error + ((operation_record \<times> bool) \<times> 's)"
  ss_list_events :: "principal_id \<Rightarrow> u64 \<Rightarrow> nat \<Rightarrow> 's \<Rightarrow> store_error + event_page"
  ss_begin_state_check :: "operation_id \<Rightarrow> u64 \<Rightarrow> 's \<Rightarrow> store_error + (operation_record \<times> 's)"
  ss_check_integrity :: "'s \<Rightarrow> store_error + check_classification"
  ss_check_foreign_keys :: "'s \<Rightarrow> store_error + check_classification"
  ss_cancellation_requested :: "operation_id \<Rightarrow> 's \<Rightarrow> store_error + bool"
  ss_finish_state_check ::
    "operation_id \<Rightarrow> state_check_result \<Rightarrow> u64 \<Rightarrow> 's \<Rightarrow> store_error + (operation_record \<times> 's)"
  ss_finish_cancelled :: "operation_id \<Rightarrow> u64 \<Rightarrow> 's \<Rightarrow> store_error + (operation_record \<times> 's)"
  ss_finish_failed ::
    "operation_id \<Rightarrow> string \<Rightarrow> string \<Rightarrow> u64 \<Rightarrow> 's \<Rightarrow> store_error + (operation_record \<times> 's)"
  ss_recover :: "u64 \<Rightarrow> 's \<Rightarrow> (store_error + operation_id list) \<times> 's"

text \<open>\<open>?\<close> on a store call in the application: \<open>From<StoreError>\<close>.\<close>

definition store_call :: "store_error + 'a \<Rightarrow> application_error + 'a" where
  "store_call = map_err StoreErr"

section \<open>Use cases\<close>

text \<open>The clock is an input: \<open>unix_time_ms\<close> fails before the epoch and beyond 64 bits.\<close>

type_synonym clock = "application_error + u64"

definition validate_limit :: "nat \<Rightarrow> application_error + unit" where
  "validate_limit limit = ensure (1 \<le> limit \<and> limit \<le> 1000) InvalidInput"

text \<open>The second component of a result is the list of operations that were scheduled.\<close>

definition app_state_check ::
  "'s state_store \<Rightarrow> access_context \<Rightarrow> idempotency_key \<Rightarrow> clock \<Rightarrow> 's \<Rightarrow>
   application_error + (create_outcome \<times> operation_id list \<times> 's)" where
  "app_state_check S ctx key clk s =
     and_then (require ctx StateCheck) (\<lambda>_.
     and_then clk (\<lambda>at.
     and_then (store_call (ss_create_state_check S (principal ctx) key at s)) (\<lambda>(outcome, s').
       Inr (outcome, if co_schedule outcome then [co_operation_id outcome] else [], s'))))"

definition app_recover ::
  "'s state_store \<Rightarrow> clock \<Rightarrow> 's \<Rightarrow> (application_error + operation_id list) \<times> 's" where
  "app_recover S clk s =
     (case clk of
        Inl e \<Rightarrow> (Inl e, s)
      | Inr at \<Rightarrow> (case ss_recover S at s of (res, s') \<Rightarrow> (store_call res, s')))"

definition app_get_operation ::
  "'s state_store \<Rightarrow> access_context \<Rightarrow> operation_id \<Rightarrow> 's \<Rightarrow> application_error + operation_record" where
  "app_get_operation S ctx i s =
     and_then (require ctx OperationsRead) (\<lambda>_. store_call (ss_get_operation S (principal ctx) i s))"

definition app_list_operations ::
  "'s state_store \<Rightarrow> access_context \<Rightarrow> operation_cursor option \<Rightarrow> nat \<Rightarrow> bool \<Rightarrow> 's \<Rightarrow>
   application_error + operation_page" where
  "app_list_operations S ctx cursor limit active_only s =
     and_then (require ctx OperationsRead) (\<lambda>_.
     and_then (validate_limit limit) (\<lambda>_.
     and_then (ensure (\<not> (case cursor of None \<Rightarrow> False | Some c \<Rightarrow> oc_created_at_ms c > i64_max)) InvalidInput) (\<lambda>_.
       store_call (ss_list_operations S (principal ctx) cursor limit active_only s))))"

definition app_cancel_operation ::
  "'s state_store \<Rightarrow> access_context \<Rightarrow> operation_id \<Rightarrow> revision \<Rightarrow> idempotency_key \<Rightarrow> clock \<Rightarrow> 's \<Rightarrow>
   application_error + ((operation_record \<times> bool) \<times> 's)" where
  "app_cancel_operation S ctx i expected key clk s =
     and_then (require ctx OperationsCancel) (\<lambda>_.
     and_then clk (\<lambda>at. store_call (ss_cancel_operation S (principal ctx) i expected key at s)))"

definition app_list_events ::
  "'s state_store \<Rightarrow> access_context \<Rightarrow> u64 \<Rightarrow> nat \<Rightarrow> 's \<Rightarrow> application_error + event_page" where
  "app_list_events S ctx after limit s =
     and_then (require ctx EventsRead) (\<lambda>_.
     and_then (validate_limit limit) (\<lambda>_.
     and_then (ensure (after \<le> i64_max) InvalidInput) (\<lambda>_.
       store_call (ss_list_events S (principal ctx) after limit s))))"

section \<open>The worker\<close>

text \<open>Where the worker of one operation is in \<open>run_state_check\<close>.\<close>

datatype worker_pc =
    FirstCheck | BeginCheck | Integrity | SecondCheck check_classification
  | ForeignKeys check_classification | ThirdCheck check_classification check_classification
  | FinishCheck check_classification check_classification | FinishCancelled | FinishFailed store_error
  | WorkerDone | WorkerError application_error

definition worker_error_code :: "store_error \<Rightarrow> string" where
  "worker_error_code e = (case e of Unavailable \<Rightarrow> ''store_unavailable'' | _ \<Rightarrow> ''internal_error'')"

text \<open>A store call that ends in \<open>?\<close>: the error ends the worker.\<close>

definition or_stop ::
  "application_error + 'a \<Rightarrow> 's \<Rightarrow> ('a \<Rightarrow> worker_pc \<times> 's) \<Rightarrow> worker_pc \<times> 's" where
  "or_stop m s f = (case m of Inl e \<Rightarrow> (WorkerError e, s) | Inr x \<Rightarrow> f x)"

definition cancel_point ::
  "'s state_store \<Rightarrow> operation_id \<Rightarrow> worker_pc \<Rightarrow> 's \<Rightarrow> worker_pc \<times> 's" where
  "cancel_point S i pc s =
     or_stop (store_call (ss_cancellation_requested S i s)) s
       (\<lambda>requested. (if requested then FinishCancelled else pc, s))"

definition finish_step ::
  "clock \<Rightarrow> (u64 \<Rightarrow> 's \<Rightarrow> store_error + (operation_record \<times> 's)) \<Rightarrow> 's \<Rightarrow> worker_pc \<times> 's" where
  "finish_step clk finish s =
     or_stop (and_then clk (\<lambda>at. store_call (finish at s))) s (\<lambda>(_, s'). (WorkerDone, s'))"

definition worker_step ::
  "'s state_store \<Rightarrow> operation_id \<Rightarrow> clock \<Rightarrow> string \<Rightarrow> worker_pc \<Rightarrow> 's \<Rightarrow> worker_pc \<times> 's" where
  "worker_step S i clk diagnostic_id pc s =
     (case pc of
        FirstCheck \<Rightarrow> cancel_point S i BeginCheck s
      | BeginCheck \<Rightarrow>
          or_stop (and_then clk (\<lambda>at. store_call (ss_begin_state_check S i at s))) s (\<lambda>(_, s'). (Integrity, s'))
      | Integrity \<Rightarrow>
          (case ss_check_integrity S s of Inr c \<Rightarrow> (SecondCheck c, s) | Inl e \<Rightarrow> (FinishFailed e, s))
      | SecondCheck c \<Rightarrow> cancel_point S i (ForeignKeys c) s
      | ForeignKeys c \<Rightarrow>
          (case ss_check_foreign_keys S s of Inr d \<Rightarrow> (ThirdCheck c d, s) | Inl e \<Rightarrow> (FinishFailed e, s))
      | ThirdCheck c d \<Rightarrow> cancel_point S i (FinishCheck c d) s
      | FinishCheck c d \<Rightarrow>
          finish_step clk (ss_finish_state_check S i \<lparr>sc_integrity = c, sc_foreign_keys = d\<rparr>) s
      | FinishCancelled \<Rightarrow> finish_step clk (ss_finish_cancelled S i) s
      | FinishFailed e \<Rightarrow> finish_step clk (ss_finish_failed S i (worker_error_code e) diagnostic_id) s
      | WorkerDone \<Rightarrow> (pc, s)
      | WorkerError e \<Rightarrow> (pc, s))"

text \<open>The worker among the other commands of the store.\<close>

inductive worker_run ::
  "'s state_store \<Rightarrow> ('s \<Rightarrow> 's \<Rightarrow> bool) \<Rightarrow> operation_id \<Rightarrow> worker_pc \<times> 's \<Rightarrow> worker_pc \<times> 's \<Rightarrow> bool"
  for S other i where
  run_start: "worker_run S other i x x"
| run_step: "worker_run S other i x (pc, s) \<Longrightarrow> worker_step S i clk diagnostic_id pc s = (pc', s') \<Longrightarrow>
    worker_run S other i x (pc', s')"
| run_other: "worker_run S other i x (pc, s) \<Longrightarrow> other s s' \<Longrightarrow> worker_run S other i x (pc, s')"

text \<open>The worker alone: one step for each pair of a time and a diagnostic id.\<close>

definition worker_alone ::
  "'s state_store \<Rightarrow> operation_id \<Rightarrow> (clock \<times> string) list \<Rightarrow> worker_pc \<times> 's \<Rightarrow> worker_pc \<times> 's" where
  "worker_alone S i inputs start = fold (\<lambda>(clk, d) (pc, s). worker_step S i clk d pc s) inputs start"

section \<open>What the worker relies on\<close>

locale state_store =
  fixes S :: "'s state_store" and good :: "'s \<Rightarrow> bool" and ended :: "operation_id \<Rightarrow> 's \<Rightarrow> bool"
    and other :: "'s \<Rightarrow> 's \<Rightarrow> bool"
  assumes begin_good: "good s \<Longrightarrow> ss_begin_state_check S i at s = Inr (r, s') \<Longrightarrow> good s'"
    and finish_check_ends: "good s \<Longrightarrow> ss_finish_state_check S i res at s = Inr (r, s') \<Longrightarrow> good s' \<and> ended i s'"
    and finish_cancelled_ends: "good s \<Longrightarrow> ss_finish_cancelled S i at s = Inr (r, s') \<Longrightarrow> good s' \<and> ended i s'"
    and finish_failed_ends: "good s \<Longrightarrow> ss_finish_failed S i code d at s = Inr (r, s') \<Longrightarrow> good s' \<and> ended i s'"
    and other_good: "good s \<Longrightarrow> other s s' \<Longrightarrow> good s'"
    and other_ended: "good s \<Longrightarrow> other s s' \<Longrightarrow> ended i s \<Longrightarrow> ended i s'"
begin

lemma finish_step_ends:
  assumes "finish_step clk finish s = (pc', s')" and "good s"
    and "\<And>at r s'. finish at s = Inr (r, s') \<Longrightarrow> good s' \<and> ended i s'"
  shows "good s' \<and> (pc' = WorkerDone \<longrightarrow> ended i s') \<and> (pc' = WorkerDone \<or> (\<exists>e. pc' = WorkerError e))"
  using assms by (auto simp: finish_step_def or_stop_def store_call_def result_simps split: sum.splits)

lemma worker_step_good:
  assumes "worker_step S i clk d pc s = (pc', s')" and "good s" and "pc = WorkerDone \<longrightarrow> ended i s"
  shows "good s' \<and> (pc' = WorkerDone \<longrightarrow> ended i s')"
proof (cases pc)
  case (FinishCheck a b)
  then have "finish_step clk (ss_finish_state_check S i \<lparr>sc_integrity = a, sc_foreign_keys = b\<rparr>) s = (pc', s')"
    using assms(1) by (simp add: worker_step_def)
  from finish_step_ends [OF this assms(2)] show ?thesis
    using finish_check_ends [OF assms(2)] by blast
next
  case FinishCancelled
  then have "finish_step clk (ss_finish_cancelled S i) s = (pc', s')"
    using assms(1) by (simp add: worker_step_def)
  from finish_step_ends [OF this assms(2)] show ?thesis
    using finish_cancelled_ends [OF assms(2)] by blast
next
  case (FinishFailed e)
  then have "finish_step clk (ss_finish_failed S i (worker_error_code e) d) s = (pc', s')"
    using assms(1) by (simp add: worker_step_def)
  from finish_step_ends [OF this assms(2)] show ?thesis
    using finish_failed_ends [OF assms(2)] by blast
next
  case BeginCheck
  then have "(case and_then clk (\<lambda>at. store_call (ss_begin_state_check S i at s)) of
      Inl e \<Rightarrow> (WorkerError e, s) | Inr (_, s') \<Rightarrow> (Integrity, s')) = (pc', s')"
    using assms(1) by (simp add: worker_step_def or_stop_def)
  then show ?thesis
    using begin_good [OF assms(2)] assms(2)
    by (auto simp: store_call_def result_simps split: sum.splits)
qed (use assms in \<open>auto simp: worker_step_def cancel_point_def or_stop_def split: sum.splits if_splits\<close>)

lemma worker_run_ends:
  "worker_run S other i x y \<Longrightarrow> good (snd x) \<Longrightarrow> fst x \<noteq> WorkerDone \<Longrightarrow>
    good (snd y) \<and> (fst y = WorkerDone \<longrightarrow> ended i (snd y))"
proof (induction rule: worker_run.induct)
  case (run_step x pc s clk d pc' s')
  then show ?case using worker_step_good [OF run_step.hyps(2)] by simp
next
  case (run_other x pc s s')
  then show ?case using other_good other_ended by auto
qed simp

end

section \<open>The ledger as a state store\<close>

text \<open>
  The rows of the two \<open>PRAGMA\<close>s are parameters, and so is the error of reading them.  The channel to
  the thread of the database is left out: a request is the call of its function.
\<close>

definition check_integrity ::
  "(ledger \<Rightarrow> store_error + string list) \<Rightarrow> ledger \<Rightarrow> store_error + check_classification" where
  "check_integrity integrity_rows db = and_then (integrity_rows db) (\<lambda>rows. Inr (classify_rows True rows))"

definition check_foreign_keys ::
  "(ledger \<Rightarrow> store_error + string list) \<Rightarrow> ledger \<Rightarrow> store_error + check_classification" where
  "check_foreign_keys foreign_rows db = and_then (foreign_rows db) (\<lambda>rows. Inr (classify_rows False rows))"

definition ledger_store ::
  "store_env \<Rightarrow> json_codec \<Rightarrow> (ledger \<Rightarrow> store_error + string list) \<Rightarrow> (ledger \<Rightarrow> store_error + string list) \<Rightarrow>
   ledger state_store" where
  "ledger_store E J integrity_rows foreign_rows =
     \<lparr>ss_create_state_check = create_state_check E J,
      ss_get_operation = load_owned_operation E,
      ss_list_operations = list_operations E,
      ss_cancel_operation = cancel_operation E J,
      ss_list_events = list_events,
      ss_begin_state_check = begin_state_check E,
      ss_check_integrity = check_integrity integrity_rows,
      ss_check_foreign_keys = check_foreign_keys foreign_rows,
      ss_cancellation_requested = cancellation_requested E,
      ss_finish_state_check = finish_state_check E J,
      ss_finish_cancelled = finish_cancelled E,
      ss_finish_failed = finish_failed E,
      ss_recover = recover E\<rparr>"

lemmas ledger_store_simps = ledger_store_def check_integrity_def check_foreign_keys_def

definition ledger_good :: "store_env \<Rightarrow> json_codec \<Rightarrow> ledger \<Rightarrow> bool" where
  "ledger_good E J db \<longleftrightarrow> uuid_laws (env_uuid E) \<and> ledger_reachable E J db"

definition ledger_ended :: "store_env \<Rightarrow> operation_id \<Rightarrow> ledger \<Rightarrow> bool" where
  "ledger_ended E i db \<longleftrightarrow> (\<exists>r \<in> set (operations db).
     row_operation_id r = operation_id_to_string (env_uuid E) i \<and> row_state r \<in> set terminal_names)"

lemma finish_loads:
  "finish_operation E i t result code diagnostic at db = Inr (r, db') \<Longrightarrow> load_operation E i db' = Inr r"
  by (auto simp: finish_operation_def result_simps Let_def split: if_splits simp del: is_terminal_iff)

lemma finish_ends:
  assumes U: "uuid_laws (env_uuid E)" and ok: "ledger_ok E db" and t: "is_terminal t"
    and run: "finish_operation E i t result code diagnostic at db = Inr (r, db')"
  shows "ledger_ended E i db'"
  using finish_moves [OF U ok t run]
proof (elim disjE conjE exE)
  assume same: "db' = db" and ended: "is_terminal (or_state r)"
  have "load_operation E i db = Inr r"
    using finish_loads [OF run] same by simp
  then obtain row where "reads_row E i db row r"
    using load_operation_reads [OF U ok] by blast
  with same ended show ?thesis
    by (auto simp: ledger_ended_def reads_row_def simp del: is_terminal_iff)
next
  fix st c
  assume "moves E i db db' st t c c"
  then obtain row row' where adv: "advanced E row row' db db'"
    and row: "row_operation_id row = operation_id_to_string (env_uuid E) i" "row_state row' = state_name t"
    unfolding moves_def by blast
  then have "row' \<in> set (operations db')"
    using advanced_rows [OF adv ledger_okD(1) [OF ok]] by simp
  moreover have "row_operation_id row' = row_operation_id row"
    using adv by (simp add: advanced_def)
  ultimately show ?thesis
    using row t unfolding ledger_ended_def by (intro bexI [of _ row']) (simp_all del: is_terminal_iff)
qed

lemma finish_store:
  assumes "uuid_laws (env_uuid E)" and "ledger_reachable E J db" and "is_terminal t"
    and "finish_operation E i t result code diagnostic at db = Inr (r, db')"
    and "ledger_step E J db db'"
  shows "ledger_good E J db' \<and> ledger_ended E i db'"
  using finish_ends [OF assms(1) _ assms(3,4)] reachable_ok [OF assms(1,2)] reachable_step [OF assms(2,5)] assms(1)
  by (simp add: ledger_good_def del: is_terminal_iff)

interpretation ledger_worker: state_store "ledger_store E J integrity_rows foreign_rows" "ledger_good E J"
  "ledger_ended E" "ledger_step E J" for E J integrity_rows foreign_rows
proof
  fix s s' :: ledger and i at r
  assume good: "ledger_good E J s"
  then have U: "uuid_laws (env_uuid E)" and reach: "ledger_reachable E J s"
    by (simp_all add: ledger_good_def)
  show "ledger_good E J s'" if "ss_begin_state_check (ledger_store E J integrity_rows foreign_rows) i at s = Inr (r, s')"
    using that U reachable_step [OF reach step_begin] by (simp add: ledger_good_def ledger_store_simps)
  show "ledger_good E J s' \<and> ledger_ended E i s'"
    if "ss_finish_state_check (ledger_store E J integrity_rows foreign_rows) i res at s = Inr (r, s')" for res
    using that finish_store [OF U reach, of Succeeded] step_finish
    by (auto simp: ledger_store_simps finish_state_check_def)
  show "ledger_good E J s' \<and> ledger_ended E i s'"
    if "ss_finish_cancelled (ledger_store E J integrity_rows foreign_rows) i at s = Inr (r, s')"
    using that finish_store [OF U reach, of Cancelled] step_cancelled
    by (auto simp: ledger_store_simps finish_cancelled_def)
  show "ledger_good E J s' \<and> ledger_ended E i s'"
    if "ss_finish_failed (ledger_store E J integrity_rows foreign_rows) i code d at s = Inr (r, s')" for code d
    using that finish_store [OF U reach, of Failed] step_failed
    by (auto simp: ledger_store_simps finish_failed_def)
  show "ledger_good E J s'" if "ledger_step E J s s'"
    using that U reachable_step [OF reach] by (simp add: ledger_good_def)
  show "ledger_ended E i s'" if step: "ledger_step E J s s'" and ended: "ledger_ended E i s"
  proof -
    have "(change E)\<^sup>*\<^sup>* s s'" "ids_distinct s"
      using step_changes [OF U step] reachable_ok [OF U reach] ledger_ids by blast+
    with ended show ?thesis
      using changes_terminal unfolding ledger_ended_def terminal_row_def by blast
  qed
qed

section \<open>Properties\<close>

text \<open>
  C14: when the worker of an operation ends without an error, the operation has ended, whatever other
  commands of the store came between its steps.
\<close>

theorem worker_ends_operation:
  assumes "uuid_laws (env_uuid E)" and "ledger_reachable E J db"
    and "worker_run (ledger_store E J integrity_rows foreign_rows) (ledger_step E J) i
      (FirstCheck, db) (WorkerDone, db')"
  shows "\<exists>r \<in> set (operations db'). row_operation_id r = operation_id_to_string (env_uuid E) i \<and>
    row_state r \<in> set terminal_names"
  using ledger_worker.worker_run_ends [OF assms(3)] assms(1,2) by (simp add: ledger_good_def ledger_ended_def)

lemma alone_run: "worker_run S other i x (worker_alone S i inputs x)"
proof (induction inputs rule: rev_induct)
  case Nil
  then show ?case by (simp add: worker_alone_def run_start)
next
  case (snoc y inputs)
  obtain clk d where y: "y = (clk, d)"
    by fastforce
  obtain pc s where at: "worker_alone S i inputs x = (pc, s)"
    by fastforce
  have "worker_alone S i (inputs @ [y]) x = worker_step S i clk d pc s"
    using at by (simp add: worker_alone_def y)
  with snoc at show ?case
    by (metis run_step surj_pair)
qed

lemma alone_stopped [simp]:
  "worker_alone S i inputs (WorkerDone, s) = (WorkerDone, s)"
  "worker_alone S i inputs (WorkerError e, s) = (WorkerError e, s)"
  by (induction inputs) (auto simp: worker_alone_def worker_step_def)

lemma alone_step [simp]:
  "worker_alone S i [] x = x"
  "worker_alone S i ((clk, d) # inputs) (pc, s) = worker_alone S i inputs (worker_step S i clk d pc s)"
  by (simp_all add: worker_alone_def)

subsection \<open>The outcome that is recorded\<close>

lemma found_row:
  "ledger_ok E db \<Longrightarrow> row \<in> set (operations db) \<Longrightarrow> row_operation_id row = text \<Longrightarrow>
    find (\<lambda>r. row_operation_id r = text) (operations db) = Some row"
  using ledger_ids by (fastforce simp: ids_distinct_def distinct_find)

lemma load_found:
  assumes "uuid_laws (env_uuid E)" and "ledger_ok E db" and "load_operation E i db = Inr r"
    and "row \<in> set (operations db)" and "row_operation_id row = operation_id_to_string (env_uuid E) i"
  shows "reads_row E i db row r"
proof -
  obtain row0 where "reads_row E i db row0 r"
    using load_operation_reads [OF assms(1-3)] by blast
  moreover from this have "row0 = row"
    using same_row [OF ledger_okD(1) [OF assms(2)] _ assms(4)] assms(5) by (simp add: reads_row_def)
  ultimately show ?thesis by simp
qed

text \<open>The row of an operation that was not over before it was finished.\<close>

lemma finish_row:
  assumes U: "uuid_laws (env_uuid E)" and ok: "ledger_ok E db"
    and row: "row \<in> set (operations db)" "row_operation_id row = operation_id_to_string (env_uuid E) i"
    and active: "row_state row \<notin> set terminal_names"
    and run: "finish_operation E i t result code diagnostic at db = Inr (r, db')"
  shows "\<exists>row' \<in> set (operations db'). row_operation_id row' = row_operation_id row \<and>
    row_state row' = state_name t \<and> row_result row' = result \<and> row_error_code row' = code"
proof -
  obtain r0 where load: "load_operation E i db = Inr r0"
    using run by (auto simp: finish_operation_def result_simps)
  have "\<not> is_terminal (or_state r0)"
    using load_found [OF U ok load row] active by (auto simp: reads_row_def simp del: is_terminal_iff)
  with run load obtain now rv db1 where
    event: "insert_event E (or_owner r0) i rv ''operation.completed'' (state_payload t) now db1 = Inr db'"
    and db1: "db1 = mark_applied E i now (update_operation E i (\<lambda>row. row
      \<lparr>row_state := state_name t, row_revision := sqlite_revision rv, row_result := result,
       row_error_code := code, row_diagnostic_id := diagnostic, row_updated_at := now,
       row_completed_at := Some now\<rparr>) db)"
    by (auto simp: finish_operation_def result_simps Let_def simp del: is_terminal_iff)
  have "operations db' = operations db1"
    using yieldsD [OF insert_event_spec event] by (simp add: new_event_def)
  then have ops: "operations db' = map (\<lambda>r. if row_operation_id r = operation_id_to_string (env_uuid E) i then r
      \<lparr>row_state := state_name t, row_revision := sqlite_revision rv, row_result := result,
       row_error_code := code, row_diagnostic_id := diagnostic, row_updated_at := now,
       row_completed_at := Some now\<rparr> else r) (operations db)"
    by (simp add: db1 mark_applied_def update_operation_def)
  show ?thesis
    by (rule bexI [of _ "row\<lparr>row_state := state_name t, row_revision := sqlite_revision rv, row_result := result,
       row_error_code := code, row_diagnostic_id := diagnostic, row_updated_at := now, row_completed_at := Some now\<rparr>"])
      (use row in \<open>auto simp: ops image_iff\<close>)
qed

definition check_outcome ::
  "json_codec \<Rightarrow> store_error + string list \<Rightarrow> store_error + string list \<Rightarrow> string \<times> string option \<times> string option" where
  "check_outcome J integrity_rows foreign_rows =
     (case integrity_rows of
        Inl e \<Rightarrow> (state_name Failed, None, Some (worker_error_code e))
      | Inr rows \<Rightarrow>
          (case foreign_rows of
             Inl e \<Rightarrow> (state_name Failed, None, Some (worker_error_code e))
           | Inr rows' \<Rightarrow> (state_name Succeeded, Some (enc_check J
               \<lparr>sc_integrity = classify_rows True rows, sc_foreign_keys = classify_rows False rows'\<rparr>), None)))"

text \<open>The worker after it began, when nobody asks it to stop.\<close>

lemma begun_alone:
  assumes U: "uuid_laws (env_uuid E)" and ok: "ledger_ok E db"
    and row: "row \<in> set (operations db)" "row_operation_id row = operation_id_to_string (env_uuid E) i"
    and running: "row_state row \<notin> set terminal_names" "\<not> row_cancel_requested row"
    and run: "worker_alone (ledger_store E J (\<lambda>_. I) (\<lambda>_. F)) i inputs (Integrity, db) = (WorkerDone, db')"
  shows "\<exists>row' \<in> set (operations db'). row_operation_id row' = row_operation_id row \<and>
    (row_state row', row_result row', row_error_code row') = check_outcome J I F"
proof -
  let ?S = "ledger_store E J (\<lambda>_. I) (\<lambda>_. F)"
  let ?goal = "\<lambda>db'. \<exists>row' \<in> set (operations db'). row_operation_id row' = row_operation_id row \<and>
    (row_state row', row_result row', row_error_code row') = check_outcome J I F"
  have asked: "cancellation_requested E i db = Inr False"
    using found_row [OF ok row] running(2) by (simp add: cancellation_requested_def)
  define at_pc where "at_pc pc \<longleftrightarrow> (case pc of
      Integrity \<Rightarrow> True
    | SecondCheck c \<Rightarrow> (\<exists>rows. I = Inr rows \<and> c = classify_rows True rows)
    | ForeignKeys c \<Rightarrow> (\<exists>rows. I = Inr rows \<and> c = classify_rows True rows)
    | ThirdCheck c d \<Rightarrow> (\<exists>rows rows'. I = Inr rows \<and> F = Inr rows' \<and> c = classify_rows True rows \<and> d = classify_rows False rows')
    | FinishCheck c d \<Rightarrow> (\<exists>rows rows'. I = Inr rows \<and> F = Inr rows' \<and> c = classify_rows True rows \<and> d = classify_rows False rows')
    | FinishFailed e \<Rightarrow> (case I of Inl e' \<Rightarrow> e = e' | Inr _ \<Rightarrow> F = Inl e)
    | _ \<Rightarrow> False)" for pc
  have step: "(s' = db \<and> at_pc pc') \<or> (pc' = WorkerDone \<and> ?goal s') \<or> (\<exists>e. pc' = WorkerError e)"
    if at: "at_pc pc" and run1: "worker_step ?S i clk d pc db = (pc', s')" for pc clk d pc' s'
  proof (cases pc)
    case (FinishCheck a b)
    with at run1 show ?thesis
      using finish_row [OF U ok row running(1), where t = Succeeded]
      by (auto simp: worker_step_def finish_step_def or_stop_def store_call_def ledger_store_simps at_pc_def
          finish_state_check_def check_outcome_def result_simps split: sum.splits)
  next
    case (FinishFailed e)
    with at run1 show ?thesis
      using finish_row [OF U ok row running(1), where t = Failed]
      by (auto simp: worker_step_def finish_step_def or_stop_def store_call_def ledger_store_simps at_pc_def
          finish_failed_def check_outcome_def result_simps split: sum.splits)
  qed (use at run1 asked in \<open>auto simp: worker_step_def cancel_point_def or_stop_def store_call_def
      ledger_store_simps at_pc_def result_simps split: sum.splits\<close>)
  have "at_pc pc \<Longrightarrow> worker_alone ?S i xs (pc, db) = (WorkerDone, db') \<Longrightarrow> ?goal db'" for xs pc
  proof (induction xs arbitrary: pc)
    case Nil
    then show ?case by (simp add: worker_alone_def at_pc_def)
  next
    case (Cons x xs)
    obtain clk d where x: "x = (clk, d)"
      by fastforce
    obtain pc' s' where one: "worker_step ?S i clk d pc db = (pc', s')"
      by fastforce
    have rest: "worker_alone ?S i xs (pc', s') = (WorkerDone, db')"
      using Cons.prems(2) one by (simp add: worker_alone_def x)
    from step [OF Cons.prems(1) one] show ?case
    proof (elim disjE conjE exE)
      assume "s' = db" "at_pc pc'"
      with Cons.IH rest show ?thesis by blast
    next
      assume "pc' = WorkerDone" "?goal s'"
      with rest show ?thesis by (simp add: alone_stopped)
    next
      fix e
      assume "pc' = WorkerError e"
      with rest show ?thesis by (simp add: alone_stopped)
    qed
  qed
  from this [of Integrity] run show ?thesis
    by (simp add: at_pc_def)
qed

text \<open>Beginning keeps the request to cancel, and does not end the operation.\<close>

lemma begin_row:
  assumes U: "uuid_laws (env_uuid E)" and ok: "ledger_ok E db"
    and row: "row \<in> set (operations db)" "row_operation_id row = operation_id_to_string (env_uuid E) i"
    and run: "begin_state_check E i at db = Inr (r, db')"
  shows "\<exists>row' \<in> set (operations db'). row_operation_id row' = row_operation_id row \<and>
    row_cancel_requested row' = row_cancel_requested row \<and> row_state row' \<notin> set terminal_names"
proof -
  obtain st st' c where target: "begin_target st c = Inr st'" and mv: "moves E i db db' st st' c c"
    using begin_moves [OF U ok run] by blast
  have "state_name st' \<notin> set terminal_names"
    using target by (auto simp: begin_target_def split: if_splits)
  with moves_one [OF mv ok row] show ?thesis
    by (auto simp: same_columns_def)
qed

text \<open>
  C40: a worker that is not disturbed and ends without an error records what the two integrity checks
  found: the classification of their rows as the result of a succeeded operation, or a failure with
  the code of the first check that could not be carried out.
\<close>

theorem worker_records_outcome:
  assumes "uuid_laws (env_uuid E)" and "ledger_reachable E J db" and "row \<in> set (operations db)"
    and "row_operation_id row = operation_id_to_string (env_uuid E) i" and "\<not> row_cancel_requested row"
    and "worker_alone (ledger_store E J (\<lambda>_. I) (\<lambda>_. F)) i inputs (FirstCheck, db) = (WorkerDone, db')"
  shows "\<exists>row' \<in> set (operations db'). row_operation_id row' = row_operation_id row \<and>
    (row_state row', row_result row', row_error_code row') = check_outcome J I F"
proof -
  let ?S = "ledger_store E J (\<lambda>_. I) (\<lambda>_. F)"
  have ok: "ledger_ok E db"
    using reachable_ok [OF assms(1,2)] by simp
  have asked: "cancellation_requested E i db = Inr False"
    using found_row [OF ok assms(3,4)] assms(5) by (simp add: cancellation_requested_def)
  obtain x1 rest where inputs: "inputs = x1 # rest"
    using assms(6) by (cases inputs) (auto simp: worker_alone_def)
  have first: "worker_alone ?S i rest (BeginCheck, db) = (WorkerDone, db')"
    using assms(6) asked by (cases x1) (simp add: inputs worker_alone_def worker_step_def cancel_point_def
        or_stop_def store_call_def ledger_store_simps)
  then obtain clk d more where rest: "rest = (clk, d) # more"
    by (cases rest) (auto simp: worker_alone_def)
  obtain at r db1 where began: "begin_state_check E i at db = Inr (r, db1)"
    and after: "worker_alone ?S i more (Integrity, db1) = (WorkerDone, db')"
    using first
    by (auto simp: rest worker_step_def or_stop_def store_call_def ledger_store_simps
        result_simps split: sum.splits)
  have ok1: "ledger_ok E db1"
    using reachable_ok [OF assms(1) reachable_step [OF assms(2) step_begin [OF began]]] by simp
  obtain r1 where "r1 \<in> set (operations db1)" "row_operation_id r1 = row_operation_id row"
    "row_state r1 \<notin> set terminal_names" "\<not> row_cancel_requested r1"
    using begin_row [OF assms(1) ok assms(3,4) began] assms(5) by auto
  then show ?thesis
    using begun_alone [OF assms(1) ok1 _ _ _ _ after, of r1] assms(4) by simp
qed

subsection \<open>Undisturbed workers end\<close>

text \<open>The points at which the worker asks whether to stop.\<close>

fun asks :: "worker_pc \<Rightarrow> bool" where
  "asks FirstCheck = True"
| "asks (SecondCheck c) = True"
| "asks (ThirdCheck c d) = True"
| "asks _ = False"

text \<open>The store call with which a check that was begun ends, for the answers of the two \<open>PRAGMA\<close>s.\<close>

definition ending_call ::
  "store_env \<Rightarrow> json_codec \<Rightarrow> store_error + string list \<Rightarrow> store_error + string list \<Rightarrow> operation_id \<Rightarrow>
   string \<Rightarrow> u64 \<Rightarrow> ledger \<Rightarrow> store_error + (operation_record \<times> ledger)" where
  "ending_call E J I F i diagnostic_id =
     (case I of
        Inl e \<Rightarrow> finish_failed E i (worker_error_code e) diagnostic_id
      | Inr rows \<Rightarrow>
          (case F of
             Inl e \<Rightarrow> finish_failed E i (worker_error_code e) diagnostic_id
           | Inr rows' \<Rightarrow> finish_state_check E J i
               \<lparr>sc_integrity = classify_rows True rows, sc_foreign_keys = classify_rows False rows'\<rparr>))"

text \<open>
  The store refuses, with error \<open>e\<close> and leaving \<open>db'\<close>, a call the worker needs: to record the
  cancellation, or to begin, or to end after it began.
\<close>

definition store_refuses ::
  "store_env \<Rightarrow> json_codec \<Rightarrow> store_error + string list \<Rightarrow> store_error + string list \<Rightarrow> operation_id \<Rightarrow>
   (u64 \<times> string) list \<Rightarrow> bool \<Rightarrow> ledger \<Rightarrow> store_error \<Rightarrow> ledger \<Rightarrow> bool" where
  "store_refuses E J I F i ticks requested db e db' \<longleftrightarrow>
     (if requested then db' = db \<and> (\<exists>(at, d) \<in> set ticks. finish_cancelled E i at db = Inl e)
      else (\<exists>(at, d) \<in> set ticks.
        (db' = db \<and> begin_state_check E i at db = Inl e) \<or>
        ((\<exists>r. begin_state_check E i at db = Inr (r, db')) \<and>
         (\<exists>(at', d') \<in> set ticks. ending_call E J I F i d' at' db' = Inl e))))"

lemma cancelled_alone:
  assumes asked: "cancellation_requested E i db = Inr True" and pc: "asks pc" and len: "2 \<le> length ticks"
  shows "\<exists>(at, d) \<in> set ticks.
    worker_alone (ledger_store E J R R') i (map (\<lambda>(at, d). (Inr at, d)) ticks) (pc, db) =
    (case finish_cancelled E i at db of
       Inl e \<Rightarrow> (WorkerError (StoreErr e), db) | Inr (r, db') \<Rightarrow> (WorkerDone, db'))"
proof -
  obtain at1 d1 at2 d2 rest where ticks: "ticks = (at1, d1) # (at2, d2) # rest"
    using len by (auto simp: numeral_2_eq_2 Suc_le_length_iff)
  have first: "worker_step (ledger_store E J R R') i (Inr at1) d1 pc db = (FinishCancelled, db)"
    using pc asked by (cases pc) (simp_all add: worker_step_def cancel_point_def or_stop_def store_call_def ledger_store_simps)
  show ?thesis
    unfolding ticks
    by (rule bexI [of _ "(at2, d2)"])
      (simp_all add: first, simp add: worker_step_def finish_step_def or_stop_def store_call_def ledger_store_simps
        split: sum.splits prod.splits)
qed

lemma checked_alone:
  assumes asked: "cancellation_requested E i db = Inr False" and len: "5 \<le> length ticks"
  shows "\<exists>(at, d) \<in> set ticks.
    worker_alone (ledger_store E J (\<lambda>_. I) (\<lambda>_. F)) i (map (\<lambda>(at, d). (Inr at, d)) ticks) (Integrity, db) =
    (case ending_call E J I F i d at db of
       Inl e \<Rightarrow> (WorkerError (StoreErr e), db) | Inr (r, db') \<Rightarrow> (WorkerDone, db'))"
proof -
  obtain at1 d1 at2 d2 at3 d3 at4 d4 at5 d5 rest where
    ticks: "ticks = (at1, d1) # (at2, d2) # (at3, d3) # (at4, d4) # (at5, d5) # rest"
    using len by (auto simp: eval_nat_numeral Suc_le_length_iff)
  note steps = worker_step_def cancel_point_def finish_step_def or_stop_def store_call_def ledger_store_simps
    ending_call_def asked
  consider e where "I = Inl e" | rows e where "I = Inr rows" "F = Inl e"
    | rows rows' where "I = Inr rows" "F = Inr rows'"
    by (cases I; cases F) blast+
  then show ?thesis
  proof cases
    case 1
    then show ?thesis
      unfolding ticks by (intro bexI [of _ "(at2, d2)"]) (simp_all add: steps split: sum.splits prod.splits)
  next
    case 2
    then show ?thesis
      unfolding ticks by (intro bexI [of _ "(at4, d4)"]) (simp_all add: steps split: sum.splits prod.splits)
  next
    case 3
    then show ?thesis
      unfolding ticks by (intro bexI [of _ "(at5, d5)"]) (simp_all add: steps split: sum.splits prod.splits)
  qed
qed

text \<open>
  Where a worker that started from \<open>db\<close> with the row \<open>row\<close> may end: with the outcome recorded, or with
  the error of a call that was refused.
\<close>

definition settles ::
  "store_env \<Rightarrow> json_codec \<Rightarrow> store_error + string list \<Rightarrow> store_error + string list \<Rightarrow> operation_id \<Rightarrow>
   (u64 \<times> string) list \<Rightarrow> operation_row \<Rightarrow> ledger \<Rightarrow> worker_pc \<times> ledger \<Rightarrow> bool" where
  "settles E J I F i ticks row db ending \<longleftrightarrow>
     (case ending of
        (WorkerDone, db') \<Rightarrow> (\<exists>row' \<in> set (operations db'). row_operation_id row' = row_operation_id row \<and>
          (row_state row', row_result row', row_error_code row') =
            (if row_cancel_requested row then (''cancelled'', None, None) else check_outcome J I F))
      | (WorkerError e, db') \<Rightarrow> (\<exists>refused. e = StoreErr refused \<and>
          store_refuses E J I F i ticks (row_cancel_requested row) db refused db')
      | _ \<Rightarrow> False)"

lemma cancelled_settles:
  assumes U: "uuid_laws (env_uuid E)" and ok: "ledger_ok E db" and row: "row \<in> set (operations db)"
    "row_operation_id row = operation_id_to_string (env_uuid E) i" and active: "row_state row \<notin> set terminal_names"
    and requested: "row_cancel_requested row" and pc: "asks pc" "2 \<le> length ticks"
  shows "settles E J I F i ticks row db
    (worker_alone (ledger_store E J (\<lambda>_. I) (\<lambda>_. F)) i (map (\<lambda>(at, d). (Inr at, d)) ticks) (pc, db))"
proof -
  have asked: "cancellation_requested E i db = Inr True"
    using requested found_row [OF ok row] by (simp add: cancellation_requested_def)
  obtain at d where tick: "(at, d) \<in> set ticks"
    and run: "worker_alone (ledger_store E J (\<lambda>_. I) (\<lambda>_. F)) i (map (\<lambda>(at, d). (Inr at, d)) ticks) (pc, db) =
      (case finish_cancelled E i at db of
         Inl e \<Rightarrow> (WorkerError (StoreErr e), db) | Inr (r, db') \<Rightarrow> (WorkerDone, db'))"
    using cancelled_alone [OF asked pc] by fast
  show ?thesis
  proof (cases "finish_cancelled E i at db")
    case (Inl e)
    with run tick requested show ?thesis by (auto simp: settles_def store_refuses_def)
  next
    case (Inr x)
    obtain r db' where x: "x = (r, db')"
      by fastforce
    from finish_row [OF U ok row active Inr [unfolded x finish_cancelled_def]] run requested Inr x
    show ?thesis by (simp add: settles_def state_name_def)
  qed
qed

lemma begun_settles:
  assumes U: "uuid_laws (env_uuid E)" and ok: "ledger_ok E db1" and row: "row1 \<in> set (operations db1)"
    "row_operation_id row1 = row_operation_id row" "row_operation_id row = operation_id_to_string (env_uuid E) i"
    and running: "row_state row1 \<notin> set terminal_names" "\<not> row_cancel_requested row1" "\<not> row_cancel_requested row"
    and began: "begin_state_check E i at1 db = Inr (r1, db1)"
    and ticks: "(at1, d1) \<in> set ticks" "set later \<subseteq> set ticks" "5 \<le> length later"
  shows "settles E J I F i ticks row db
    (worker_alone (ledger_store E J (\<lambda>_. I) (\<lambda>_. F)) i (map (\<lambda>(at, d). (Inr at, d)) later) (Integrity, db1))"
proof -
  let ?run = "worker_alone (ledger_store E J (\<lambda>_. I) (\<lambda>_. F)) i (map (\<lambda>(at, d). (Inr at, d)) later) (Integrity, db1)"
  have id1: "row_operation_id row1 = operation_id_to_string (env_uuid E) i"
    using row by simp
  have "cancellation_requested E i db1 = Inr False"
    using found_row [OF ok row(1) id1] running(2) by (simp add: cancellation_requested_def)
  from checked_alone [OF this ticks(3)] obtain at d where tick: "(at, d) \<in> set later"
    and run: "?run = (case ending_call E J I F i d at db1 of
      Inl e \<Rightarrow> (WorkerError (StoreErr e), db1) | Inr (r, db') \<Rightarrow> (WorkerDone, db'))"
    by fast
  show ?thesis
  proof (cases "ending_call E J I F i d at db1")
    case (Inl e)
    have "\<exists>(at', d') \<in> set ticks. ending_call E J I F i d' at' db1 = Inl e"
      using Inl tick ticks(2) by blast
    with Inl run began ticks(1) running(3) show ?thesis
      by (auto simp: settles_def store_refuses_def)
  next
    case (Inr x)
    then have ended: "?run = (WorkerDone, snd x)"
      using run by (cases x) simp
    from begun_alone [OF U ok row(1) id1 running(1,2) ended] ended row(2) running(3) show ?thesis
      by (simp add: settles_def)
  qed
qed

text \<open>
  C39: a worker that nobody disturbs comes to an end, after two store calls where it sees a request to
  cancel, and after at most seven otherwise.  A request that is there when the worker asks, at any of the
  three points where it does, is recorded as cancelled.  Without one the worker begins, and
  records what the two integrity checks found.  It ends with an error only if the store refuses to
  record that, or to begin.
\<close>

theorem worker_settles:
  assumes "uuid_laws (env_uuid E)" and "ledger_reachable E J db" and "row \<in> set (operations db)"
    and "row_operation_id row = operation_id_to_string (env_uuid E) i" and "row_state row \<notin> set terminal_names"
    and "if row_cancel_requested row then asks pc \<and> 2 \<le> length ticks else pc = FirstCheck \<and> 7 \<le> length ticks"
  shows "settles E J I F i ticks row db
    (worker_alone (ledger_store E J (\<lambda>_. I) (\<lambda>_. F)) i (map (\<lambda>(at, d). (Inr at, d)) ticks) (pc, db))"
proof (cases "row_cancel_requested row")
  case True
  have "ledger_ok E db"
    using reachable_ok [OF assms(1,2)] by simp
  with True assms show ?thesis by (intro cancelled_settles) simp_all
next
  case False
  let ?S = "ledger_store E J (\<lambda>_. I) (\<lambda>_. F)" and ?in = "map (\<lambda>(at, d). (Inr at, d))"
  have ok: "ledger_ok E db"
    using reachable_ok [OF assms(1,2)] by simp
  have pc: "pc = FirstCheck" "7 \<le> length ticks" and asked: "cancellation_requested E i db = Inr False"
    using assms(6) found_row [OF ok assms(3,4)] False by (simp_all add: cancellation_requested_def)
  obtain at1 d1 at2 d2 more where ticks: "ticks = (at1, d1) # (at2, d2) # more" and more: "5 \<le> length more"
    using pc(2) by (auto simp: eval_nat_numeral Suc_le_length_iff)
  have start: "worker_alone ?S i (?in ticks) (pc, db) =
      (case begin_state_check E i at2 db of
         Inl e \<Rightarrow> (WorkerError (StoreErr e), db) | Inr (r, db1) \<Rightarrow> worker_alone ?S i (?in more) (Integrity, db1))"
    by (simp add: ticks pc asked worker_step_def cancel_point_def or_stop_def store_call_def ledger_store_simps
        split: sum.splits prod.splits)
  show ?thesis
  proof (cases "begin_state_check E i at2 db")
    case (Inl e)
    with start False show ?thesis by (auto simp: settles_def store_refuses_def ticks)
  next
    case (Inr x)
    obtain r db1 where x: "x = (r, db1)"
      by fastforce
    note began = Inr [unfolded x]
    have ok1: "ledger_ok E db1"
      using reachable_ok [OF assms(1) reachable_step [OF assms(2) step_begin [OF began]]] by simp
    obtain row1 where "row1 \<in> set (operations db1)" "row_operation_id row1 = row_operation_id row"
      "row_state row1 \<notin> set terminal_names" "\<not> row_cancel_requested row1"
      using begin_row [OF assms(1) ok assms(3,4) began] False by auto
    then have "settles E J I F i ticks row db (worker_alone ?S i (?in more) (Integrity, db1))"
      by (intro begun_settles [OF assms(1) ok1 _ _ assms(4) _ _ False began _ _ more, of row1 d2])
        (auto simp: ticks)
    then show ?thesis
      using start began by simp
  qed
qed

end
