(* ===== verification/WorkerRuns.thy ===== *)
theory WorkerRuns
  imports Worker
begin

text \<open>
  Concrete runs of the worker of a state check, the race between its first check and a cancellation,
  and the answers of the use cases over the ledger.
\<close>

lemmas worker_simps = worker_alone_def worker_step_def cancel_point_def finish_step_def or_stop_def
  store_call_def ledger_store_simps cancellation_requested_def finish_state_check_def finish_cancelled_def
  finish_operation_def classify_rows_def check_row_limit_def check_byte_limit_def saturating_add_def

definition demo_check :: "ledger state_store" where
  "demo_check = ledger_store demo_env demo_codec (\<lambda>_. Inr [''ok'']) (\<lambda>_. Inr [])"

definition seven_ticks :: "(clock \<times> string) list" where
  "seven_ticks = [(Inr 6, ''d''), (Inr 6, ''d''), (Inr 6, ''d''), (Inr 6, ''d''), (Inr 6, ''d''),
     (Inr 6, ''d''), (Inr 6, ''d'')]"

lemma demo_worker:
  "case create_state_check demo_env demo_codec demo_owner demo_key 5 demo_start of
     Inl _ \<Rightarrow> False | Inr (out, db1) \<Rightarrow>
   (case worker_alone demo_check demo_id seven_ticks (FirstCheck, db1) of
      (pc, db2) \<Rightarrow> pc = WorkerDone \<and> state_list db2 = [''succeeded''] \<and>
        map (\<lambda>r. (row_operation_id r, row_cancel_requested r)) (operations db1) =
          [(operation_id_to_string (env_uuid demo_env) demo_id, False)])"
  by (simp add: create_state_check_def begin_state_check_def demo_check_def seven_ticks_def worker_simps
      demo_run_simps demo_load_simps)

theorem worker_ends_operation_witness:
  "\<exists>db1 db2. worker_run demo_check (ledger_step demo_env demo_codec) demo_id (FirstCheck, db1) (WorkerDone, db2) \<and>
     (\<exists>r. r \<in> set (operations db2) \<and> row_operation_id r = operation_id_to_string (env_uuid demo_env) demo_id \<and>
        row_state r \<in> set terminal_names)"
proof (rule demo_stages)
  fix out db1 r2 db2 r3 db3 r4 db4
  assume run: "create_state_check demo_env demo_codec demo_owner demo_key 5 demo_start = Inr (out, db1)"
  obtain db' where "worker_alone demo_check demo_id seven_ticks (FirstCheck, db1) = (WorkerDone, db')"
    using demo_worker run by (auto split: prod.splits)
  then have steps: "worker_run demo_check (ledger_step demo_env demo_codec) demo_id (FirstCheck, db1) (WorkerDone, db')"
    using alone_run by metis
  have reach: "ledger_reachable demo_env demo_codec db1"
    using reachable_step [OF demo_start_reachable step_create [OF demo_owner_ok run]] .
  from worker_ends_operation [OF demo_env_laws reach steps [unfolded demo_check_def]] steps
  show ?thesis by blast
qed

theorem worker_records_outcome_witness:
  "\<exists>db1 db2 row'. worker_alone demo_check demo_id seven_ticks (FirstCheck, db1) = (WorkerDone, db2) \<and>
     row' \<in> set (operations db2) \<and>
     (row_state row', row_result row', row_error_code row') = (''succeeded'', Some ''{}'', None)"
proof (rule demo_stages)
  fix out db1 r2 db2 r3 db3 r4 db4
  assume run: "create_state_check demo_env demo_codec demo_owner demo_key 5 demo_start = Inr (out, db1)"
  obtain db' where done': "worker_alone demo_check demo_id seven_ticks (FirstCheck, db1) = (WorkerDone, db')"
    and rows: "map (\<lambda>r. (row_operation_id r, row_cancel_requested r)) (operations db1) =
      [(operation_id_to_string (env_uuid demo_env) demo_id, False)]"
    using demo_worker run by (auto split: prod.splits)
  obtain row where row: "row \<in> set (operations db1)"
    "row_operation_id row = operation_id_to_string (env_uuid demo_env) demo_id" "\<not> row_cancel_requested row"
    using rows by (auto simp: map_eq_Cons_conv)
  have reach: "ledger_reachable demo_env demo_codec db1"
    using reachable_step [OF demo_start_reachable step_create [OF demo_owner_ok run]] .
  have outcome: "check_outcome demo_codec (Inr [''ok'']) (Inr []) = (''succeeded'', Some ''{}'', None)"
    by (simp add: check_outcome_def demo_codec_def state_name_def)
  from worker_records_outcome [OF demo_env_laws reach row done' [unfolded demo_check_def], unfolded outcome] done'
  show ?thesis by blast
qed

section \<open>A cancellation between the first check and the begin\<close>

text \<open>An accepted cancellation of a recovering operation leaves its row cancelling.\<close>

lemma cancelled_recovering:
  assumes U: "uuid_laws (env_uuid E)" and ok: "ledger_ok E db" and row: "row \<in> set (operations db)"
    "row_operation_id row = operation_id_to_string (env_uuid E) i"
    and recovering: "row_state row = ''recovering''" "\<not> row_cancel_requested row"
    and run: "cancel_operation E J owner i expected key at db = Inr ((r, False), db')"
  shows "\<exists>row' \<in> set (operations db'). row_operation_id row' = row_operation_id row \<and>
    row_state row' = state_name Cancelling"
proof -
  from run obtain now r0 st' db1 memo where load: "load_owned_operation E owner i db = Inr r0"
    and target: "cancel_target (or_state r0) = Inr st'"
    and change: "apply_cancel E owner r0 st' now db = Inr (r, db1)"
    and memo: "insert_idempotency memo db1 = Inr db'"
    by (auto simp: cancel_operation_def result_simps Let_def split: option.splits prod.splits if_splits
        simp del: is_terminal_iff)
  obtain row0 where reads: "reads_row E i db row0 r0"
    using load_owned_reads [OF U ok load] by blast
  have "row0 = row"
    using same_row [OF ledger_okD(1) [OF ok] _ row(1)] reads row(2) by (simp add: reads_row_def)
  then have r0: "or_operation_id r0 = i" "or_state r0 = Recovering" "\<not> or_cancel_requested r0"
    using reads recovering by (auto simp: reads_row_def state_name_def split: operation_state.splits)
  have st': "st' = Cancelling"
    using target r0(2) by (simp add: cancel_target_def)
  from change obtain rv where "insert_event E owner i rv ''operation.cancel_requested'' (state_payload Cancelling) now
      (update_operation E i (\<lambda>row. row\<lparr>row_state := state_name Cancelling, row_revision := sqlite_revision rv,
         row_cancel_requested := True, row_updated_at := now, row_completed_at := None\<rparr>) db) = Inr db1"
    by (auto simp: apply_cancel_def Let_def r0 st' result_simps)
  then have "operations db1 = map (\<lambda>r. if row_operation_id r = operation_id_to_string (env_uuid E) i then r
      \<lparr>row_state := state_name Cancelling, row_revision := sqlite_revision rv, row_cancel_requested := True,
       row_updated_at := now, row_completed_at := None\<rparr> else r) (operations db)"
    by (auto dest!: yieldsD [OF insert_event_spec] simp: new_event_def update_operation_def)
  moreover have "operations db' = operations db1"
    using memo by (auto simp: insert_idempotency_def result_simps split: if_splits)
  ultimately show ?thesis
    using row by (intro bexI [of _ "row\<lparr>row_state := state_name Cancelling, row_revision := sqlite_revision rv,
      row_cancel_requested := True, row_updated_at := now, row_completed_at := None\<rparr>"])
      (auto simp: image_iff intro!: exI [of _ row] bexI [of _ row])
qed

lemma begin_cancelling:
  assumes U: "uuid_laws (env_uuid E)" and ok: "ledger_ok E db" and row: "row \<in> set (operations db)"
    "row_operation_id row = operation_id_to_string (env_uuid E) i" "row_state row = state_name Cancelling"
    and at: "at \<le> i64_max"
  shows "begin_state_check E i at db = Inl CorruptState"
proof -
  have good: "row_ok E (phases db) row"
    using ledger_okD(1) [OF ok] row(1) by (simp add: operations_ok_def)
  obtain r where r: "map_operation_row (env_uuid E) (phases db) row = Inr r"
    using row_decodes [OF U good] by blast
  have load: "load_operation E i db = Inr r"
    using found_row [OF ok row(1,2)] r by (simp add: load_operation_def)
  have "or_state r = Cancelling"
    using load_found [OF U ok load row(1,2)] row(3)
    by (auto simp: reads_row_def state_name_def split: operation_state.splits)
  with load at show ?thesis
    by (simp add: begin_state_check_def sqlite_integer_def begin_target_def)
qed

text \<open>
  C19: when a recovered operation is cancelled after the worker asked for the first time whether to stop
  and before it begins, the worker ends with an error and leaves the operation cancelling: nothing
  finishes it until the next restart.
\<close>

theorem cancelled_recovery_stalls:
  assumes "uuid_laws (env_uuid E)" and "ledger_reachable E J db"
    and "row \<in> set (operations db)" and "row_operation_id row = operation_id_to_string (env_uuid E) i"
    and "row_state row = ''recovering''" and "\<not> row_cancel_requested row"
    and "cancel_operation E J owner i expected key at db = Inr ((r, False), db')" and "begin_at \<le> i64_max"
  shows "worker_step (ledger_store E J integrity_rows foreign_rows) i clk d FirstCheck db = (BeginCheck, db) \<and>
    worker_step (ledger_store E J integrity_rows foreign_rows) i (Inr begin_at) d BeginCheck db' =
      (WorkerError (StoreErr CorruptState), db') \<and>
    (\<exists>row' \<in> set (operations db'). row_operation_id row' = row_operation_id row \<and> row_state row' = ''cancelling'')"
proof -
  have ok: "ledger_ok E db" and ok': "ledger_ok E db'"
    using reachable_ok [OF assms(1)] assms(2) reachable_step [OF assms(2) step_cancel [OF assms(7)]] by blast+
  have asked: "cancellation_requested E i db = Inr False"
    using found_row [OF ok assms(3,4)] assms(6) by (simp add: cancellation_requested_def)
  obtain row' where row': "row' \<in> set (operations db')" "row_operation_id row' = row_operation_id row"
    "row_state row' = state_name Cancelling"
    using cancelled_recovering [OF assms(1) ok assms(3-7)] by blast
  have "begin_state_check E i begin_at db' = Inl CorruptState"
    using begin_cancelling [OF assms(1) ok' row'(1) _ row'(3) assms(8)] row'(2) assms(4) by simp
  with asked row' show ?thesis
    by (auto simp: worker_step_def cancel_point_def or_stop_def store_call_def ledger_store_simps state_name_def)
qed

text \<open>A check that was running when the daemon stopped, is recovered, and cancelled before it begins again.\<close>

definition demo_race :: "store_error + (ledger \<times> operation_record \<times> bool \<times> ledger)" where
  "demo_race =
     and_then (create_state_check demo_env demo_codec demo_owner demo_key 5 demo_start) (\<lambda>(_, db1).
     and_then (begin_state_check demo_env demo_id 6 db1) (\<lambda>(_, db2).
     case recover demo_env 9 db2 of (_, db3) \<Rightarrow>
     and_then (cancel_operation demo_env demo_codec demo_owner demo_id (Revision 4) demo_key 10 db3)
       (\<lambda>((r, replayed), db4). Inr (db3, r, replayed, db4))))"

lemma demo_race_texts:
  "uuid_to_string demo_uuid 9 = ''00000000-0000-0000-0000-000000000009''"
  "uuid_to_string demo_uuid 10 = ''00000000-0000-0000-0000-00000000000a''"
  "uuid_to_string demo_uuid 11 = ''00000000-0000-0000-0000-00000000000b''"
  "uuid_to_string demo_uuid 12 = ''00000000-0000-0000-0000-00000000000c''"
  by code_simp+

lemma demo_race:
  "case demo_race of Inl _ \<Rightarrow> False | Inr (db3, r, replayed, db4) \<Rightarrow> \<not> replayed \<and>
     map (\<lambda>r. (row_operation_id r, row_state r, row_cancel_requested r)) (operations db3) =
       [(operation_id_to_string (env_uuid demo_env) demo_id, ''recovering'', False)]"
  by (simp add: demo_race_def create_state_check_def begin_state_check_def cancel_operation_def recover_def
      recovery_candidates_def terminal_names_def recover_one_def dedicated_kinds_def journal_is_recoverable_def
      recovery_targets_def recover_steps_def transition_recovery_def demo_race_texts demo_run_simps demo_load_simps)

lemma demo_race_reachable:
  assumes "demo_race = Inr (db3, r, False, db4)"
  shows "ledger_reachable demo_env demo_codec db3"
    and "cancel_operation demo_env demo_codec demo_owner demo_id (Revision 4) demo_key 10 db3 = Inr ((r, False), db4)"
    and "ledger_reachable demo_env demo_codec db4"
proof -
  obtain out db1 r2 db2 where run: "create_state_check demo_env demo_codec demo_owner demo_key 5 demo_start = Inr (out, db1)"
    "begin_state_check demo_env demo_id 6 db1 = Inr (r2, db2)" "snd (recover demo_env 9 db2) = db3"
    "cancel_operation demo_env demo_codec demo_owner demo_id (Revision 4) demo_key 10 db3 = Inr ((r, False), db4)"
    using assms by (auto simp: demo_race_def result_simps case_prod_unfold)
  have "ledger_step demo_env demo_codec db2 db3"
    using step_recover [OF surjective_pairing [of "recover demo_env 9 db2"]] by (simp add: run(3))
  then show reach: "ledger_reachable demo_env demo_codec db3"
    using demo_start_reachable step_create [OF demo_owner_ok run(1)] step_begin [OF run(2)]
    by (meson reachable_step)
  show "cancel_operation demo_env demo_codec demo_owner demo_id (Revision 4) demo_key 10 db3 = Inr ((r, False), db4)"
    by (fact run(4))
  show "ledger_reachable demo_env demo_codec db4"
    using reach step_cancel [OF run(4)] by (rule reachable_step)
qed

theorem cancelled_recovery_stalls_witness:
  "\<exists>db3 r db4. demo_race = Inr (db3, r, False, db4) \<and>
     worker_step demo_check demo_id (Inr 11) ''d'' BeginCheck db4 = (WorkerError (StoreErr CorruptState), db4)"
proof -
  obtain db3 r db4 where race: "demo_race = Inr (db3, r, False, db4)"
    and rows: "map (\<lambda>r. (row_operation_id r, row_state r, row_cancel_requested r)) (operations db3) =
       [(operation_id_to_string (env_uuid demo_env) demo_id, ''recovering'', False)]"
    using demo_race by (auto split: sum.splits prod.splits)
  note reach = demo_race_reachable(1) [OF race] and run = demo_race_reachable(2) [OF race]
  obtain row where row: "row \<in> set (operations db3)" "row_state row = ''recovering''" "\<not> row_cancel_requested row"
    "row_operation_id row = operation_id_to_string (env_uuid demo_env) demo_id"
    using rows by (auto simp: map_eq_Cons_conv)
  have "worker_step demo_check demo_id (Inr 11) ''d'' BeginCheck db4 = (WorkerError (StoreErr CorruptState), db4)"
    using cancelled_recovery_stalls [OF demo_env_laws reach row(1,4,2,3) run, of 11] by (simp add: demo_check_def)
  with race show ?thesis by blast
qed

text \<open>The same check, when its worker is started after the cancellation.\<close>

lemma demo_cancelled:
  "case demo_race of Inl _ \<Rightarrow> False | Inr (db3, r, replayed, db4) \<Rightarrow>
     map (\<lambda>r. (row_operation_id r, row_state r, row_cancel_requested r)) (operations db4) =
       [(operation_id_to_string (env_uuid demo_env) demo_id, ''cancelling'', True)] \<and>
     fst (worker_alone demo_check demo_id [(Inr 11, ''d''), (Inr 12, ''d'')] (FirstCheck, db4)) = WorkerDone"
  by (simp add: demo_race_def create_state_check_def begin_state_check_def cancel_operation_def recover_def
      recovery_candidates_def terminal_names_def recover_one_def dedicated_kinds_def journal_is_recoverable_def
      recovery_targets_def recover_steps_def transition_recovery_def demo_race_texts demo_run_simps demo_load_simps
      demo_check_def worker_simps)

theorem worker_settles_witness:
  "\<exists>db1 db2 db3 db4.
     worker_alone demo_check demo_id seven_ticks (FirstCheck, db1) = (WorkerDone, db2) \<and>
     (\<exists>row' \<in> set (operations db2). row_state row' = ''succeeded'' \<and> row_result row' = Some ''{}'') \<and>
     worker_alone demo_check demo_id [(Inr 11, ''d''), (Inr 12, ''d'')] (FirstCheck, db3) = (WorkerDone, db4) \<and>
     (\<exists>row' \<in> set (operations db4). row_state row' = ''cancelled'')"
proof (rule demo_stages)
  fix out db1 r2 db2' r3 db3' r4 db4'
  assume run: "create_state_check demo_env demo_codec demo_owner demo_key 5 demo_start = Inr (out, db1)"
  have ticks: "seven_ticks = map (\<lambda>(at, d). (Inr at, d)) (replicate 7 (6, ''d''))"
    by (simp add: seven_ticks_def eval_nat_numeral)
  obtain db2 where done': "worker_alone demo_check demo_id seven_ticks (FirstCheck, db1) = (WorkerDone, db2)"
    and rows: "map (\<lambda>r. (row_operation_id r, row_cancel_requested r)) (operations db1) =
      [(operation_id_to_string (env_uuid demo_env) demo_id, False)]"
    using demo_worker run by (auto split: prod.splits)
  obtain row where row: "row \<in> set (operations db1)"
    "row_operation_id row = operation_id_to_string (env_uuid demo_env) demo_id" "\<not> row_cancel_requested row"
    using rows by (auto simp: map_eq_Cons_conv)
  have reach: "ledger_reachable demo_env demo_codec db1"
    using reachable_step [OF demo_start_reachable step_create [OF demo_owner_ok run]] .
  have queued: "row_state row \<notin> set terminal_names"
    using run row(1)
    by (auto simp: create_state_check_def demo_run_simps demo_load_simps terminal_names_def)
  have outcome: "check_outcome demo_codec (Inr [''ok'']) (Inr []) = (''succeeded'', Some ''{}'', None)"
    by (simp add: check_outcome_def demo_codec_def state_name_def)
  from worker_settles [OF demo_env_laws reach row(1,2) queued, of FirstCheck "replicate 7 (6, ''d'')"
      "Inr [''ok'']" "Inr []"]
  have one: "\<exists>row' \<in> set (operations db2). row_state row' = ''succeeded'' \<and> row_result row' = Some ''{}''"
    using done' row(3) by (auto simp: settles_def outcome demo_check_def ticks simp del: map_replicate alone_step)
  obtain db3 r db4a where race: "demo_race = Inr (db3, r, False, db4a)"
    using demo_race by (auto split: sum.splits prod.splits)
  define db4 where "db4 = snd (worker_alone demo_check demo_id [(Inr 11, ''d''), (Inr 12, ''d'')] (FirstCheck, db4a))"
  have rows': "map (\<lambda>r. (row_operation_id r, row_state r, row_cancel_requested r)) (operations db4a) =
       [(operation_id_to_string (env_uuid demo_env) demo_id, ''cancelling'', True)]"
    using demo_cancelled by (simp add: race)
  have stopped: "worker_alone demo_check demo_id [(Inr 11, ''d''), (Inr 12, ''d'')] (FirstCheck, db4a) = (WorkerDone, db4)"
    using demo_cancelled by (simp add: race prod_eq_iff db4_def del: alone_step)
  obtain row' where row': "row' \<in> set (operations db4a)" "row_state row' = ''cancelling''" "row_cancel_requested row'"
    "row_operation_id row' = operation_id_to_string (env_uuid demo_env) demo_id"
    using rows' by (auto simp: map_eq_Cons_conv)
  from worker_settles [OF demo_env_laws demo_race_reachable(3) [OF race] row'(1,4), of FirstCheck
      "[(11, ''d''), (12, ''d'')]" "Inr [''ok'']" "Inr []"]
  have "\<exists>row' \<in> set (operations db4). row_state row' = ''cancelled''"
    using stopped row'(2,3) by (auto simp: settles_def demo_check_def terminal_names_def simp del: alone_step)
  with done' one stopped show ?thesis by blast
qed

end
