(* ===== verification/ProjectFiles.thy ===== *)
theory ProjectFiles
  imports RustStrings "HOL-Library.Sublist"
begin

text \<open>
  The part of \<open>std::fs\<close> that the package transactions use: a file tree, calls on it that can be
  refused or during which the process can stop, and rules for what holds after a sequence of calls,
  however it ends.  A path is its list of components; the tree is a list of entries, looked up by the
  first entry of a path.  Renaming follows POSIX.  A call that returned is not undone by a stop; the
  loss of directory updates that were not synchronized is not modelled.  A lookup below something that
  is not a directory finds nothing.
\<close>

section \<open>The tree\<close>

type_synonym path = "string list"

text \<open>A symbolic link is opaque; its flag says whether its target exists.\<close>

datatype node = File string | Directory | Link bool

type_synonym files = "(path \<times> node) list"

abbreviation entry_at :: "files \<Rightarrow> path \<Rightarrow> node option" where
  "entry_at \<equiv> map_of"

definition put_entry :: "path \<Rightarrow> node \<Rightarrow> files \<Rightarrow> files" where
  "put_entry p n d = (p, n) # d"

definition drop_entry :: "path \<Rightarrow> files \<Rightarrow> files" where
  "drop_entry p d = filter (\<lambda>e. fst e \<noteq> p) d"

definition move_tree :: "path \<Rightarrow> path \<Rightarrow> files \<Rightarrow> files" where
  "move_tree a b d =
     map (\<lambda>e. if prefix a (fst e) then (b @ drop (length a) (fst e), snd e) else e)
       (filter (\<lambda>e. \<not> prefix b (fst e)) d)"

definition has_parent :: "files \<Rightarrow> path \<Rightarrow> bool" where
  "has_parent d p \<longleftrightarrow> p \<noteq> [] \<and> entry_at d (butlast p) = Some Directory"

definition no_children :: "files \<Rightarrow> path \<Rightarrow> bool" where
  "no_children d p \<longleftrightarrow> list_all (\<lambda>e. \<not> strict_prefix p (fst e)) d"

text \<open>The names in a directory.\<close>

definition names_in :: "files \<Rightarrow> path \<Rightarrow> string list" where
  "names_in d p = remdups (map (\<lambda>e. last (fst e)) (filter (\<lambda>e. fst e \<noteq> [] \<and> butlast (fst e) = p) d))"

datatype io_error = NotFound | OtherIo

section \<open>Calls\<close>

text \<open>The effect of a call that is carried out.\<close>

definition do_rename :: "path \<Rightarrow> path \<Rightarrow> files \<Rightarrow> io_error + files" where
  "do_rename a b d =
     (case entry_at d a of
        None \<Rightarrow> Inl NotFound
      | Some n \<Rightarrow>
          if a = b then Inr d
          else if prefix a b \<or> \<not> has_parent d b then Inl OtherIo
          else case entry_at d b of
            None \<Rightarrow> Inr (move_tree a b d)
          | Some m \<Rightarrow>
              if (n = Directory) = (m = Directory) \<and> (m = Directory \<longrightarrow> no_children d b)
              then Inr (move_tree a b d) else Inl OtherIo)"

definition do_rename_no_replace :: "path \<Rightarrow> path \<Rightarrow> files \<Rightarrow> io_error + files" where
  "do_rename_no_replace a b d =
     (if entry_at d b \<noteq> None then Inl OtherIo else do_rename a b d)"

definition do_create :: "node \<Rightarrow> path \<Rightarrow> files \<Rightarrow> io_error + files" where
  "do_create n p d =
     (if entry_at d p \<noteq> None \<or> \<not> has_parent d p then Inl OtherIo else Inr (put_entry p n d))"

definition do_remove_file :: "path \<Rightarrow> files \<Rightarrow> io_error + files" where
  "do_remove_file p d =
     (case entry_at d p of
        None \<Rightarrow> Inl NotFound
      | Some n \<Rightarrow> if n = Directory then Inl OtherIo else Inr (drop_entry p d))"

definition do_remove_dir :: "path \<Rightarrow> files \<Rightarrow> io_error + files" where
  "do_remove_dir p d =
     (case entry_at d p of
        None \<Rightarrow> Inl NotFound
      | Some n \<Rightarrow> if n = Directory \<and> no_children d p then Inr (drop_entry p d) else Inl OtherIo)"

text \<open>Recursive removal, deepest entries first; when it is interrupted only some are gone.\<close>

definition below :: "path \<Rightarrow> files \<Rightarrow> path list" where
  "below p d = rev (sort_key length (filter (prefix p) (map fst d)))"

definition remove_some :: "nat \<Rightarrow> path \<Rightarrow> files \<Rightarrow> files" where
  "remove_some n p d = filter (\<lambda>e. fst e \<notin> set (take n (below p d))) d"

section \<open>Running calls\<close>

text \<open>
  What happens to a call: it is carried out, it is refused, or the process stops.  The number says how
  far a call that is not atomic (writing, recursive removal) came.
\<close>

datatype fate = Proceeds | Refused nat | Stops nat

record world =
  disk :: files
  unreadable :: "path list"
  fates :: "fate list"

datatype 'e ending = Raised 'e | Stopped

type_synonym ('a, 'e, 'w) io = "'w \<Rightarrow> ('e ending + 'a) \<times> 'w"

definition io_return :: "'a \<Rightarrow> ('a, 'e, 'w) io" where
  "io_return x w = (Inr x, w)"

definition io_raise :: "'e \<Rightarrow> ('a, 'e, 'w) io" where
  "io_raise e w = (Inl (Raised e), w)"

definition io_then :: "('a, 'e, 'w) io \<Rightarrow> ('a \<Rightarrow> ('b, 'e, 'w) io) \<Rightarrow> ('b, 'e, 'w) io" where
  "io_then m f w = (case m w of (Inl s, w') \<Rightarrow> (Inl s, w') | (Inr x, w') \<Rightarrow> f x w')"

text \<open>\<open>match m { Ok(x) => f(x), Err(e) => g(e) }\<close>\<close>

definition io_match ::
  "('a, 'd, 'w) io \<Rightarrow> ('a \<Rightarrow> ('b, 'e, 'w) io) \<Rightarrow> ('d \<Rightarrow> ('b, 'e, 'w) io) \<Rightarrow> ('b, 'e, 'w) io" where
  "io_match m f g w =
     (case m w of
        (Inl Stopped, w') \<Rightarrow> (Inl Stopped, w')
      | (Inl (Raised e), w') \<Rightarrow> g e w'
      | (Inr x, w') \<Rightarrow> f x w')"

definition io_map_err :: "('d \<Rightarrow> 'e) \<Rightarrow> ('a, 'd, 'w) io \<Rightarrow> ('a, 'e, 'w) io" where
  "io_map_err g m = io_match m io_return (\<lambda>e. io_raise (g e))"

text \<open>A pure computation on what is there.\<close>

definition io_reads :: "('w \<Rightarrow> 'e + 'a) \<Rightarrow> ('a, 'e, 'w) io" where
  "io_reads f w = (case f w of Inl e \<Rightarrow> (Inl (Raised e), w) | Inr x \<Rightarrow> (Inr x, w))"

definition io_ensure :: "bool \<Rightarrow> 'e \<Rightarrow> (unit, 'e, 'w) io" where
  "io_ensure c e = (if c then io_return () else io_raise e)"

primrec io_each :: "('a \<Rightarrow> (unit, 'e, 'w) io) \<Rightarrow> 'a list \<Rightarrow> (unit, 'e, 'w) io" where
  "io_each f [] = io_return ()"
| "io_each f (x # xs) = io_then (f x) (\<lambda>_. io_each f xs)"

definition next_fate :: "'a world_scheme \<Rightarrow> fate \<times> 'a world_scheme" where
  "next_fate w = (case fates w of [] \<Rightarrow> (Proceeds, w) | x # xs \<Rightarrow> (x, w\<lparr>fates := xs\<rparr>))"

text \<open>An atomic call, and one that leaves a partial effect when it does not come to its end.\<close>

definition call_partial ::
  "(nat \<Rightarrow> files \<Rightarrow> files) \<Rightarrow> (files \<Rightarrow> io_error + files) \<Rightarrow> (unit, io_error, 'a world_scheme) io" where
  "call_partial part f w =
     (case next_fate w of
        (Proceeds, w') \<Rightarrow>
          (case f (disk w') of
             Inl e \<Rightarrow> (Inl (Raised e), w')
           | Inr d \<Rightarrow> (Inr (), w'\<lparr>disk := d\<rparr>))
      | (Refused n, w') \<Rightarrow> (Inl (Raised OtherIo), w'\<lparr>disk := part n (disk w')\<rparr>)
      | (Stops n, w') \<Rightarrow> (Inl Stopped, w'\<lparr>disk := part n (disk w')\<rparr>))"

abbreviation call_atomic :: "(files \<Rightarrow> io_error + files) \<Rightarrow> (unit, io_error, 'a world_scheme) io" where
  "call_atomic \<equiv> call_partial (\<lambda>_ d. d)"

definition fs_rename :: "path \<Rightarrow> path \<Rightarrow> (unit, io_error, 'a world_scheme) io" where
  "fs_rename a b = call_atomic (do_rename a b)"

definition fs_create_dir :: "path \<Rightarrow> (unit, io_error, 'a world_scheme) io" where
  "fs_create_dir p = call_atomic (do_create Directory p)"

definition fs_remove_file :: "path \<Rightarrow> (unit, io_error, 'a world_scheme) io" where
  "fs_remove_file p = call_atomic (do_remove_file p)"

definition fs_remove_dir :: "path \<Rightarrow> (unit, io_error, 'a world_scheme) io" where
  "fs_remove_dir p = call_atomic (do_remove_dir p)"

definition fs_remove_tree :: "path \<Rightarrow> (unit, io_error, 'a world_scheme) io" where
  "fs_remove_tree p = call_partial (\<lambda>n. remove_some n p) (\<lambda>d. Inr (remove_some (length d) p d))"

definition fs_write :: "path \<Rightarrow> string \<Rightarrow> (unit, io_error, 'a world_scheme) io" where
  "fs_write p bytes = call_partial (\<lambda>n. put_entry p (File (take n bytes))) (\<lambda>d. Inr (put_entry p (File bytes) d))"

text \<open>Opening a file or a directory and synchronizing it changes nothing that is modelled.\<close>

definition fs_sync :: "path \<Rightarrow> (unit, io_error, 'a world_scheme) io" where
  "fs_sync p = call_atomic (\<lambda>d. if entry_at d p = None then Inl NotFound else Inr d)"

text \<open>\<open>std::fs::symlink_metadata\<close> and \<open>Path::exists\<close>, which follows a link and takes errors for absence.\<close>

definition symlink_metadata :: "path \<Rightarrow> 'a world_scheme \<Rightarrow> io_error + node" where
  "symlink_metadata p w =
     (if p \<in> set (unreadable w) then Inl OtherIo
      else case entry_at (disk w) p of None \<Rightarrow> Inl NotFound | Some n \<Rightarrow> Inr n)"

definition path_exists :: "path \<Rightarrow> 'a world_scheme \<Rightarrow> bool" where
  "path_exists p w =
     (case symlink_metadata p w of Inl _ \<Rightarrow> False | Inr (Link target) \<Rightarrow> target | Inr _ \<Rightarrow> True)"

section \<open>What holds after a sequence of calls\<close>

text \<open>
  When \<open>P\<close> holds before \<open>m\<close>, \<open>Q\<close> holds when it succeeds, and \<open>R\<close> holds when it fails or the process
  stops.
\<close>

definition ensures ::
  "('w \<Rightarrow> bool) \<Rightarrow> ('a, 'e, 'w) io \<Rightarrow> ('a \<Rightarrow> 'w \<Rightarrow> bool) \<Rightarrow> ('w \<Rightarrow> bool) \<Rightarrow> bool" where
  "ensures P m Q R \<longleftrightarrow>
     (\<forall>w. P w \<longrightarrow> (case m w of (Inl _, w') \<Rightarrow> R w' | (Inr x, w') \<Rightarrow> Q x w'))"

named_theorems io_intros \<open>rules for what holds after a sequence of calls\<close>

lemma ensuresI:
  "(\<And>w s w'. P w \<Longrightarrow> m w = (Inl s, w') \<Longrightarrow> R w') \<Longrightarrow>
    (\<And>w x w'. P w \<Longrightarrow> m w = (Inr x, w') \<Longrightarrow> Q x w') \<Longrightarrow> ensures P m Q R"
  by (auto simp: ensures_def split: prod.split sum.split)

lemma ensures_ok: "ensures P m Q R \<Longrightarrow> P w \<Longrightarrow> m w = (Inr x, w') \<Longrightarrow> Q x w'"
  by (fastforce simp: ensures_def)

lemma ensures_stop: "ensures P m Q R \<Longrightarrow> P w \<Longrightarrow> m w = (Inl s, w') \<Longrightarrow> R w'"
  by (fastforce simp: ensures_def)

lemma ensures_weaken:
  assumes "ensures P' m Q' R'" and "\<And>w. P w \<Longrightarrow> P' w" and "\<And>x w. Q' x w \<Longrightarrow> Q x w" and "\<And>w. R' w \<Longrightarrow> R w"
  shows "ensures P m Q R"
  by (rule ensuresI) (use assms ensures_ok [OF assms(1)] ensures_stop [OF assms(1)] in blast)+

lemma ensures_return [io_intros]: "(\<And>w. P w \<Longrightarrow> Q x w) \<Longrightarrow> ensures P (io_return x) Q R"
  by (auto simp: ensures_def io_return_def)

lemma ensures_raise [io_intros]: "(\<And>w. P w \<Longrightarrow> R w) \<Longrightarrow> ensures P (io_raise e) Q R"
  by (auto simp: ensures_def io_raise_def)

lemma ensures_reads [io_intros]:
  "(\<And>w x. P w \<Longrightarrow> f w = Inr x \<Longrightarrow> Q x w) \<Longrightarrow> (\<And>w. P w \<Longrightarrow> R w) \<Longrightarrow> ensures P (io_reads f) Q R"
  by (auto simp: ensures_def io_reads_def split: sum.splits)

lemma ensures_then:
  "ensures P m Q R \<Longrightarrow> (\<And>x. ensures (Q x) (f x) Q' R) \<Longrightarrow> ensures P (io_then m f) Q' R"
  by (fastforce simp: ensures_def io_then_def split: prod.splits sum.splits)

lemma ensures_match:
  "ensures P m Q R \<Longrightarrow> (\<And>x. ensures (Q x) (f x) Q' R) \<Longrightarrow> (\<And>e. ensures R (g e) Q' R) \<Longrightarrow>
    ensures P (io_match m f g) Q' R"
  by (fastforce simp: ensures_def io_match_def split: prod.splits sum.splits ending.splits)

lemma ensures_map_err [io_intros]: "ensures P m Q R \<Longrightarrow> ensures P (io_map_err g m) Q R"
  unfolding io_map_err_def by (erule ensures_match) (auto intro: io_intros)

lemma ensures_ensure [io_intros]:
  "(\<And>w. P w \<Longrightarrow> c \<Longrightarrow> Q () w) \<Longrightarrow> (\<And>w. P w \<Longrightarrow> R w) \<Longrightarrow> ensures P (io_ensure c e) Q R"
  by (auto simp: io_ensure_def intro: io_intros)

lemma ensures_if [io_intros]:
  "(c \<Longrightarrow> ensures P m Q R) \<Longrightarrow> (\<not> c \<Longrightarrow> ensures P n Q R) \<Longrightarrow> ensures P (if c then m else n) Q R"
  by simp

text \<open>A loop, with an invariant that may mention what is left.\<close>

lemma ensures_each:
  assumes "\<And>x xs. I (x # xs) w \<Longrightarrow> True"
    and "\<And>ys x xs. all = ys @ x # xs \<Longrightarrow> ensures (I (x # xs)) (f x) (\<lambda>_. I xs) R"
  shows "ensures (I all) (io_each f all) (\<lambda>_. I []) R"
proof -
  have "all = ys @ xs \<Longrightarrow> ensures (I xs) (io_each f xs) (\<lambda>_. I []) R" for ys xs
  proof (induction xs arbitrary: ys)
    case Nil
    then show ?case by (simp add: ensures_return)
  next
    case (Cons x xs)
    show ?case
      unfolding io_each.simps
    proof (rule ensures_then)
      show "ensures (I (x # xs)) (f x) (\<lambda>_. I xs) R"
        using assms(2) Cons.prems by blast
      show "\<And>y. ensures (I xs) (io_each f xs) (\<lambda>_. I []) R"
        using Cons.IH [of "ys @ [x]"] Cons.prems by simp
    qed
  qed
  then show ?thesis by simp
qed

text \<open>Properties of the disk only.\<close>

abbreviation on_disk :: "(files \<Rightarrow> bool) \<Rightarrow> 'a world_scheme \<Rightarrow> bool" where
  "on_disk P w \<equiv> P (disk w)"

end
