(* ===== verification/PackageTransaction.thy ===== *)
theory PackageTransaction
  imports ProjectFiles OperationStore
begin

text \<open>
  The package transaction of \<open>crates/alcomd-vpm/src/engine.rs\<close>: how \<open>PackageEngine::execute\<close> replaces
  packages and the manifest of a project, how it rolls back, and how \<open>recover_attempts\<close> treats the
  attempts that an earlier process left behind.  The store, the clock, the cache and the checks that
  other files implement are parameters; \<open>with_source\<close> and \<open>with_path\<close> only decorate errors.
\<close>

section \<open>Errors and plans\<close>

datatype m4_error_code =
    InvalidInputE | PermissionDeniedE | ProjectNotRegisteredE | RepositoryRefreshRequiredE | PackageNotFoundE
  | PackageVersionInvalidE | PackageRangeInvalidE | PackageDependencyMissingE | PackageDependencyConflictE
  | PackageUnityIncompatibleE | PackageSourceAmbiguousE | PackageNotInstalledE | PackageIntentConflictE
  | PackageManifestInvalidE | PackageHashRequiredE | PackageLegacyCleanupRequiredE | PackageVersionYankedE
  | PlanNotFoundE | PlanStaleE | PlanTooLargeE | IdempotencyConflictE | RevisionConflictE
  | ProjectChangedDuringApplyE | PackageIntegrityMismatchE | PackageDownloadTooLargeE | OfflineCacheMissE
  | PackageCacheCorruptE | PackageCacheQuotaExceededE | PackageArchiveInvalidE | PackageArchiveUnsafePathE
  | PackagePathCollisionE | PackageArchiveUnsupportedCompressionE | PackageArchiveLimitExceededE
  | RecoveryRequiredE | OperationCancelledE | StoreUnavailableE | InternalE

record m4_error =
  me_code :: m4_error_code
  me_subreason :: "string option"

definition m4_new :: "m4_error_code \<Rightarrow> m4_error" where
  "m4_new code = \<lparr>me_code = code, me_subreason = None\<rparr>"

definition m4_with_subreason :: "m4_error_code \<Rightarrow> string \<Rightarrow> m4_error" where
  "m4_with_subreason code reason = \<lparr>me_code = code, me_subreason = Some reason\<rparr>"

datatype plan_action =
    PlanInstall | PlanRemove | PlanUpgrade | PlanDowngrade | PlanResolve | PlanReinstall | PlanBulk

datatype plan_state = Unapplied | Applied

record package_download_headers =
  dh_local_path :: "string option"

record repository_source_pin =
  sp_repository_id :: string
  sp_repository_revision :: u64
  sp_source_identity :: string
  sp_manifest_fingerprint :: string
  sp_package_id :: string
  sp_version :: string
  sp_artifact_url :: string
  sp_credential_reference :: "string option"
  sp_download_headers :: "package_download_headers option"
  sp_archive_sha256 :: string

record user_package_pin =
  up_user_package_id :: user_package_id
  up_source_revision :: u64
  up_source_identity :: string
  up_manifest_fingerprint :: string
  up_package_id :: string
  up_version :: string
  up_archive_sha256 :: string

datatype package_source_pin = PinRepository repository_source_pin | PinUserPackage user_package_pin

datatype mutation_kind = InstallPackage | RemovePackage | ReplacePackage

record package_mutation =
  pm_kind :: mutation_kind
  pm_package_id :: string
  pm_from_version :: "string option"
  pm_to_version :: "string option"
  pm_source :: "package_source_pin option"

record package_dependency_edge =
  de_from_package_id :: string
  de_to_package_id :: string
  de_range :: string
  de_direct :: bool

datatype legacy_removal_kind = LegacyFile | LegacyDirectory

record legacy_removal =
  lr_path :: string
  lr_kind :: legacy_removal_kind
  lr_package_id :: string
  lr_identity :: string
  lr_fingerprint :: string

record package_change_set =
  cs_format_version :: nat
  cs_mutations :: "package_mutation list"
  cs_dependency_edges :: "package_dependency_edge list"
  cs_legacy_removals :: "legacy_removal list"
  cs_legacy_packages :: "string list"
  cs_vpm_manifest_sha256 :: string

record package_plan =
  pl_plan_id :: plan_id
  pl_owner :: principal_id
  pl_project_id :: project_id
  pl_action :: plan_action
  pl_state :: plan_state
  pl_project_revision :: revision
  pl_project_snapshot_fingerprint :: string
  pl_change_set_fingerprint :: string
  pl_change_set :: package_change_set
  pl_source_set :: "package_source_pin list"
  pl_apply_operation_id :: "operation_id option"
  pl_created_at_ms :: u64

datatype journal_state = Intent | Completed

record filesystem_journal_entry =
  fj_operation_id :: operation_id
  fj_step :: u64
  fj_plan_id :: plan_id
  fj_project_id :: project_id
  fj_phase :: filesystem_phase
  fj_state :: journal_state
  fj_project_identity_key :: string
  fj_change_set_fingerprint :: string
  fj_evidence_json :: string
  fj_updated_at_ms :: u64

record attempt_marker =
  am_version :: nat
  am_plan_id :: string
  am_change_set_fingerprint :: string
  am_phase :: filesystem_phase
  am_state :: journal_state

section \<open>The world of a transaction\<close>

record 's package_world = world +
  store_state :: 's

type_synonym ('a, 's) engine_io = "('a, m4_error, 's package_world) io"

text \<open>
  What the engine calls: the store port, the clock, \<open>serde_json\<close> on markers, SHA-256, the platform's
  identities, and the parts of the crate that only read the project or fill the staging directory.
\<close>

record ('s, 'c) engine =
  en_uuid :: uuid_ops
  en_sha256 :: "string \<Rightarrow> string"
  en_marker_text :: "attempt_marker \<Rightarrow> string"
  en_marker_read :: "string \<Rightarrow> attempt_marker option"
  en_resolve_identity :: "path \<Rightarrow> (string, 's) engine_io"
  en_next_step :: "operation_id \<Rightarrow> (u64, 's) engine_io"
  en_append_journal :: "filesystem_journal_entry \<Rightarrow> (unit, 's) engine_io"
  en_cancellation_requested :: "operation_id \<Rightarrow> (bool, 's) engine_io"
  en_time_ms :: "(u64, 's) engine_io"
  en_fetch :: "package_plan \<Rightarrow> (string list, 's) engine_io"
  en_extract :: "path \<Rightarrow> package_change_set \<Rightarrow> string list \<Rightarrow> (unit, 's) engine_io"
  en_verify_extracted_legacy :: "path \<Rightarrow> path \<Rightarrow> (unit, 's) engine_io"
  en_revalidate :: "package_plan \<Rightarrow> (unit, 's) engine_io"
  en_materialize :: "string \<Rightarrow> package_plan \<Rightarrow> m4_error + string"
  en_verify_plan_legacy :: "path \<Rightarrow> package_plan \<Rightarrow> bool \<Rightarrow> (unit, 's) engine_io"
  en_verify_removal :: "path \<Rightarrow> legacy_removal \<Rightarrow> (unit, 's) engine_io"
  en_file_identity :: "path \<Rightarrow> (string, 's) engine_io"
  en_validate_package :: "path \<Rightarrow> string \<Rightarrow> string \<Rightarrow> (unit, 's) engine_io"
  en_inspect :: "path \<Rightarrow> package_plan \<Rightarrow> ('c, 's) engine_io"

section \<open>Calls with the engine's errors\<close>

definition or_code :: "('a, io_error, 'w) io \<Rightarrow> m4_error_code \<Rightarrow> ('a, m4_error, 'w) io" where
  "or_code m code = io_map_err (\<lambda>_. m4_new code) m"

definition io_chain :: "(unit, 'e, 'w) io \<Rightarrow> ('a, 'e, 'w) io \<Rightarrow> ('a, 'e, 'w) io" where
  "io_chain m n = io_then m (\<lambda>_. n)"

definition sync_directories :: "path list \<Rightarrow> (unit, 's) engine_io" where
  "sync_directories = io_each (\<lambda>p. or_code (fs_sync p) RecoveryRequiredE)"

definition write_new_file :: "path \<Rightarrow> string \<Rightarrow> (unit, 's) engine_io" where
  "write_new_file p bytes = or_code
     (io_chain (call_atomic (do_create (File []) p)) (io_chain (fs_write p bytes) (fs_sync p))) RecoveryRequiredE"

definition read_regular_file :: "path \<Rightarrow> nat \<Rightarrow> (string, 's) engine_io" where
  "read_regular_file p limit = io_reads (\<lambda>w.
     case symlink_metadata p w of
       Inr (File bytes) \<Rightarrow>
         if length bytes > limit then Inl (m4_new ProjectChangedDuringApplyE) else Inr bytes
     | _ \<Rightarrow> Inl (m4_new ProjectChangedDuringApplyE))"

definition project_manifest_limit :: nat where
  "project_manifest_limit = 4 * 1024 * 1024"

definition hash_file :: "('s, 'c) engine \<Rightarrow> path \<Rightarrow> (string, 's) engine_io" where
  "hash_file G p = io_then (read_regular_file p project_manifest_limit) (\<lambda>bytes. io_return (en_sha256 G bytes))"

definition hex_text :: "string \<Rightarrow> string" where
  "hex_text bytes =
     concat (map (\<lambda>b. [''0123456789abcdef'' ! (of_char b div 16), ''0123456789abcdef'' ! (of_char b mod 16)]) bytes)"

definition require_absent :: "path \<Rightarrow> 's package_world \<Rightarrow> m4_error + unit" where
  "require_absent p w =
     (case symlink_metadata p w of
        Inl NotFound \<Rightarrow> Inr ()
      | _ \<Rightarrow> Inl (m4_new ProjectChangedDuringApplyE))"

text \<open>Every component on the way exists and is not a link; those before the last are directories.\<close>

definition checked_boundary :: "path \<Rightarrow> path \<Rightarrow> m4_error_code option \<Rightarrow> (unit, 's) engine_io" where
  "checked_boundary root p code = io_reads (\<lambda>w.
     if p = root then Inr ()
     else if \<not> strict_prefix root p then Inl (m4_new RecoveryRequiredE)
     else if list_all (\<lambda>n. case symlink_metadata (take n p) w of
                 Inr Directory \<Rightarrow> True | Inr (File _) \<Rightarrow> n = length p | _ \<Rightarrow> False)
               [Suc (length root)..<Suc (length p)]
          then Inr ()
          else Inl (m4_new (case code of None \<Rightarrow> PackageLegacyCleanupRequiredE | Some c \<Rightarrow> c)))"

definition stale :: "string \<Rightarrow> ('a, 's) engine_io" where
  "stale reason = io_raise (m4_with_subreason PlanStaleE reason)"

text \<open>The places of an attempt.\<close>

definition packages_dir :: "path \<Rightarrow> path" where
  "packages_dir root = root @ [''Packages'']"

definition vpm_manifest_path :: "path \<Rightarrow> path" where
  "vpm_manifest_path root = packages_dir root @ [''vpm-manifest.json'']"

definition transaction_dir :: "uuid_ops \<Rightarrow> path \<Rightarrow> operation_id \<Rightarrow> path" where
  "transaction_dir U root i = root @ [''Library'', ''ALCOMD'', ''transactions'', operation_id_to_string U i]"

definition legacy_vault :: "path \<Rightarrow> path" where
  "legacy_vault attempt = attempt @ [''legacy-backup'']"

fun ensure_directories :: "path \<Rightarrow> string list \<Rightarrow> (unit, 's) engine_io" where
  "ensure_directories current [] = io_return ()"
| "ensure_directories current (c # cs) =
     (let p = current @ [c] in
      io_chain
        (\<lambda>w. case symlink_metadata p w of
               Inr Directory \<Rightarrow> io_return () w
             | Inl NotFound \<Rightarrow> io_chain (or_code (fs_create_dir p) RecoveryRequiredE)
                 (io_reads (\<lambda>w. if symlink_metadata p w = Inr Directory then Inr ()
                                 else Inl (m4_new RecoveryRequiredE))) w
             | _ \<Rightarrow> io_raise (m4_new RecoveryRequiredE) w)
        (ensure_directories p cs))"

definition prepare_transaction_root :: "uuid_ops \<Rightarrow> path \<Rightarrow> operation_id \<Rightarrow> (path, 's) engine_io" where
  "prepare_transaction_root U root i =
     io_then (ensure_directories root (drop (length root) (transaction_dir U root i)))
       (\<lambda>_. io_return (transaction_dir U root i))"

section \<open>Legacy assets\<close>

definition to_ascii_lowercase :: "string \<Rightarrow> string" where
  "to_ascii_lowercase = map (\<lambda>c. if CHR ''A'' \<le> c \<and> c \<le> CHR ''Z'' then char_of (of_char c + (32 :: nat)) else c)"

definition to_ascii_uppercase :: "string \<Rightarrow> string" where
  "to_ascii_uppercase = map (\<lambda>c. if CHR ''a'' \<le> c \<and> c \<le> CHR ''z'' then char_of (of_char c - (32 :: nat)) else c)"

definition ends_with_char :: "string \<Rightarrow> char \<Rightarrow> bool" where
  "ends_with_char s c \<longleftrightarrow> s \<noteq> [] \<and> last s = c"

definition reserved_stem :: "string \<Rightarrow> bool" where
  "reserved_stem stem \<longleftrightarrow>
     stem \<in> {''CON'', ''PRN'', ''AUX'', ''NUL''} \<or>
     (case strip_prefix ''COM'' stem of
        Some n \<Rightarrow> length n = 1 \<and> n ! 0 \<in> set ''123456789''
      | None \<Rightarrow>
          (case strip_prefix ''LPT'' stem of
             Some n \<Rightarrow> length n = 1 \<and> n ! 0 \<in> set ''123456789''
           | None \<Rightarrow> False))"

definition segment_ok :: "string \<Rightarrow> bool" where
  "segment_ok segment \<longleftrightarrow>
     segment \<noteq> ''.'' \<and> segment \<noteq> ''..'' \<and> CHR '':'' \<notin> set segment \<and>
     \<not> ends_with_char segment (CHR ''.'') \<and> \<not> ends_with_char segment (CHR '' '') \<and>
     \<not> reserved_stem (to_ascii_uppercase (hd (split_on (CHR ''.'') segment)))"

definition legacy_roots :: "string list" where
  "legacy_roots = [''library'', ''.git'', ''.hg'', ''.svn'', ''temp'', ''obj'', ''logs'', ''usersettings'']"

definition legacy_kept :: "string list" where
  "legacy_kept = [''assets'', ''packages'', ''projectsettings'', ''packages/manifest.json'',
     ''packages/vpm-manifest.json'', ''projectsettings/projectversion.txt'']"

definition part_ok :: "string \<Rightarrow> bool" where
  "part_ok part \<longleftrightarrow> part \<noteq> [] \<and> \<not> any_control part \<and> set part \<inter> set ''<>\"|?*'' = {} \<and> segment_ok part"

definition removal_path :: "string \<Rightarrow> m4_error + string" where
  "removal_path value =
     (let normalized = map (\<lambda>c. if c = CHR 92 then CHR ''/'' else c) value;
          unsupported = Inl (m4_new PackageLegacyCleanupRequiredE);
          lower = to_ascii_lowercase normalized
      in if length normalized > 1024 then unsupported
         else if \<not> list_all part_ok (split_on (CHR ''/'') normalized) then unsupported
         else if hd (split_on (CHR ''/'') lower) \<in> set legacy_roots \<or> lower \<in> set legacy_kept then unsupported
         else Inr normalized)"

definition removal_target :: "path \<Rightarrow> legacy_removal \<Rightarrow> m4_error + path" where
  "removal_target root r = and_then (removal_path (lr_path r)) (\<lambda>p. Inr (root @ split_on (CHR ''/'') p))"

definition removal_slot :: "path \<Rightarrow> nat \<Rightarrow> path" where
  "removal_slot attempt i = legacy_vault attempt @ [show_nat i]"

definition publish_no_replace :: "path \<Rightarrow> path \<Rightarrow> (unit, 's) engine_io" where
  "publish_no_replace a b = or_code (call_atomic (do_rename_no_replace a b)) RecoveryRequiredE"

definition io_sum :: "'e + 'a \<Rightarrow> ('a, 'e, 'w) io" where
  "io_sum r = io_reads (\<lambda>_. r)"

definition quarantine_at ::
  "('s, 'c) engine \<Rightarrow> path \<Rightarrow> path \<Rightarrow> path \<Rightarrow> legacy_removal \<Rightarrow> path \<Rightarrow> (unit, 's) engine_io" where
  "quarantine_at G root attempt slot r source =
     (let parent = butlast source; vault = legacy_vault attempt in
     io_chain (checked_boundary root source None)
     (io_chain (en_verify_removal G source r)
     (io_chain (publish_no_replace source slot)
     (io_chain (sync_directories [parent, vault])
     (io_match (en_verify_removal G slot r) io_return (\<lambda>_.
        io_chain (checked_boundary root slot (Some RecoveryRequiredE))
        (io_chain (checked_boundary root parent (Some RecoveryRequiredE))
        (io_chain (publish_no_replace slot source)
        (io_chain (sync_directories [parent, vault])
        (stale ''project_snapshot_changed''))))))))))"

definition quarantine_one ::
  "('s, 'c) engine \<Rightarrow> path \<Rightarrow> path \<Rightarrow> nat \<times> legacy_removal \<Rightarrow> (unit, 's) engine_io" where
  "quarantine_one G root attempt = (\<lambda>(i, r).
     io_then (io_sum (removal_target root r)) (quarantine_at G root attempt (removal_slot attempt i) r))"

definition quarantine_legacy ::
  "('s, 'c) engine \<Rightarrow> path \<Rightarrow> path \<Rightarrow> package_plan \<Rightarrow> (unit, 's) engine_io" where
  "quarantine_legacy G root attempt plan =
     (let removals = cs_legacy_removals (pl_change_set plan) in
      if removals = [] then io_return ()
      else io_chain (checked_boundary root attempt None)
        (io_chain (or_code (fs_create_dir (legacy_vault attempt)) RecoveryRequiredE)
        (io_chain (sync_directories [attempt])
        (io_each (quarantine_one G root attempt) (enumerate 0 removals)))))"

definition restore_one ::
  "('s, 'c) engine \<Rightarrow> path \<Rightarrow> path \<Rightarrow> nat \<times> legacy_removal \<Rightarrow> (unit, 's) engine_io" where
  "restore_one G root attempt = (\<lambda>(i, r) w.
     let slot = removal_slot attempt i in
     if require_absent slot w = Inr () then io_return () w
     else io_chain (checked_boundary root slot (Some RecoveryRequiredE))
       (io_chain (io_map_err (\<lambda>_. m4_new RecoveryRequiredE) (en_verify_removal G slot r))
       (io_then (io_map_err (\<lambda>_. m4_new RecoveryRequiredE) (io_sum (removal_target root r))) (\<lambda>target.
        io_chain (checked_boundary root (butlast target) (Some RecoveryRequiredE))
        (io_chain (publish_no_replace slot target)
        (sync_directories [butlast target, legacy_vault attempt]))))) w)"

definition restore_legacy ::
  "('s, 'c) engine \<Rightarrow> path \<Rightarrow> path \<Rightarrow> package_plan \<Rightarrow> (unit, 's) engine_io" where
  "restore_legacy G root attempt plan w =
     (let removals = cs_legacy_removals (pl_change_set plan) in
      if removals = [] \<or> require_absent (legacy_vault attempt) w = Inr () then io_return () w
      else io_chain (checked_boundary root (legacy_vault attempt) (Some RecoveryRequiredE))
        (io_each (restore_one G root attempt) (List.rev (enumerate 0 removals))) w)"

definition cleanup_one ::
  "('s, 'c) engine \<Rightarrow> path \<Rightarrow> path \<Rightarrow> nat \<times> legacy_removal \<Rightarrow> (unit, 's) engine_io" where
  "cleanup_one G root attempt = (\<lambda>(i, r) w.
     let slot = removal_slot attempt i in
     if require_absent slot w = Inr () then io_return () w
     else io_chain (checked_boundary root slot (Some RecoveryRequiredE))
       (io_then (io_map_err (\<lambda>_. m4_new RecoveryRequiredE) (en_file_identity G slot)) (\<lambda>identity.
        io_chain (io_ensure (identity = lr_identity r) (m4_new RecoveryRequiredE))
        (io_chain (case lr_kind r of
            LegacyFile \<Rightarrow> or_code (fs_remove_file slot) RecoveryRequiredE
          | LegacyDirectory \<Rightarrow> or_code (fs_remove_tree slot) RecoveryRequiredE)
        (sync_directories [legacy_vault attempt])))) w)"

definition cleanup_legacy ::
  "('s, 'c) engine \<Rightarrow> path \<Rightarrow> path \<Rightarrow> package_plan \<Rightarrow> (unit, 's) engine_io" where
  "cleanup_legacy G root attempt plan w =
     (let removals = cs_legacy_removals (pl_change_set plan) in
      if removals = [] \<or> require_absent (legacy_vault attempt) w = Inr () then io_return () w
      else io_chain (checked_boundary root (legacy_vault attempt) (Some RecoveryRequiredE))
        (io_chain (io_each (cleanup_one G root attempt) (enumerate 0 removals))
        (io_chain (or_code (fs_remove_dir (legacy_vault attempt)) RecoveryRequiredE)
        (sync_directories [attempt]))) w)"

section \<open>Replacing packages and the manifest\<close>

definition legacy_handled :: "package_plan \<Rightarrow> package_mutation \<Rightarrow> bool" where
  "legacy_handled plan m \<longleftrightarrow>
     pm_kind m = RemovePackage \<and> pm_package_id m \<in> set (cs_legacy_packages (pl_change_set plan))"

definition move_aside :: "path \<Rightarrow> path \<Rightarrow> path \<Rightarrow> package_mutation \<Rightarrow> (unit, 's) engine_io" where
  "move_aside packages_root backup target m w =
     (case symlink_metadata target w of
        Inr n \<Rightarrow>
          if pm_kind m = InstallPackage then io_raise (m4_new ProjectChangedDuringApplyE) w
          else if n = Directory
          then io_chain (or_code (fs_rename target (backup @ [pm_package_id m])) RecoveryRequiredE)
                 (sync_directories [packages_root, backup]) w
          else io_raise (m4_new ProjectChangedDuringApplyE) w
      | Inl NotFound \<Rightarrow>
          if pm_kind m \<noteq> InstallPackage then io_raise (m4_new ProjectChangedDuringApplyE) w
          else io_return () w
      | Inl OtherIo \<Rightarrow> io_raise (m4_new ProjectChangedDuringApplyE) w)"

definition replace_one ::
  "path \<Rightarrow> path \<Rightarrow> path \<Rightarrow> package_plan \<Rightarrow> package_mutation \<Rightarrow> (unit, 's) engine_io" where
  "replace_one packages_root staging backup plan m =
     (let target = packages_root @ [pm_package_id m] in
      if legacy_handled plan m then io_reads (require_absent target)
      else io_chain (move_aside packages_root backup target m)
        (io_chain
          (if pm_kind m = RemovePackage then io_return ()
           else io_chain (or_code (fs_rename (staging @ [pm_package_id m]) target) RecoveryRequiredE)
             (sync_directories [packages_root, staging]))
          (or_code (fs_sync packages_root) RecoveryRequiredE)))"

definition replace_packages :: "path \<Rightarrow> path \<Rightarrow> path \<Rightarrow> package_plan \<Rightarrow> (unit, 's) engine_io" where
  "replace_packages packages_root staging backup plan =
     io_each (replace_one packages_root staging backup plan) (cs_mutations (pl_change_set plan))"

definition commit_manifest :: "path \<Rightarrow> path \<Rightarrow> (unit, 's) engine_io" where
  "commit_manifest manifest attempt =
     (let committed_old = attempt @ [''vpm-manifest.commit-old'']; failed = io_raise (m4_new RecoveryRequiredE) in
      io_chain (or_code (fs_rename manifest committed_old) RecoveryRequiredE)
        (io_match (fs_rename (attempt @ [''vpm-manifest.new'']) manifest)
           (\<lambda>_. or_code (fs_sync (butlast manifest)) RecoveryRequiredE)
           (\<lambda>_. io_match (fs_rename committed_old manifest) (\<lambda>_. failed) (\<lambda>_. failed))))"

definition verify_mutation ::
  "('s, 'c) engine \<Rightarrow> path \<Rightarrow> package_mutation \<Rightarrow> (unit, 's) engine_io" where
  "verify_mutation G packages_root m w =
     (let target = packages_root @ [pm_package_id m]; failed = io_raise (m4_new RecoveryRequiredE) in
      if pm_kind m = RemovePackage
      then io_ensure (\<not> is_ok (symlink_metadata target w)) (m4_new RecoveryRequiredE) w
      else if symlink_metadata target w \<noteq> Inr Directory then failed w
      else case pm_to_version m of
          None \<Rightarrow> io_raise (m4_new InternalE) w
        | Some v \<Rightarrow> io_map_err (\<lambda>_. m4_new RecoveryRequiredE) (en_validate_package G target (pm_package_id m) v) w)"

definition verify_final_state ::
  "('s, 'c) engine \<Rightarrow> path \<Rightarrow> path \<Rightarrow> package_plan \<Rightarrow> (unit, 's) engine_io" where
  "verify_final_state G root attempt plan =
     (let change = pl_change_set plan; failed = m4_new RecoveryRequiredE in
      io_then (hash_file G (vpm_manifest_path root)) (\<lambda>h.
      io_chain (io_ensure (h = cs_vpm_manifest_sha256 change) failed)
      (io_then (read_regular_file (attempt @ [''upm-manifest.sha256'']) 64) (\<lambda>expected.
       io_then (hash_file G (packages_dir root @ [''manifest.json''])) (\<lambda>h.
       io_chain (io_ensure (expected = hex_text h) failed)
       (io_chain (io_each (\<lambda>r. io_then (io_sum (removal_target root r)) (\<lambda>p. io_reads (require_absent p)))
          (cs_legacy_removals change))
       (io_each (verify_mutation G (packages_dir root)) (cs_mutations change))))))))"

section \<open>Rolling back\<close>

text \<open>Moves what was published out of the way and puts the old content back.\<close>

definition put_back :: "path \<Rightarrow> path \<Rightarrow> path \<Rightarrow> (unit, 's) engine_io" where
  "put_back target old rolled_target w =
     (if \<not> path_exists old w then io_return () w
      else io_chain
        (\<lambda>w. if path_exists target w \<and> \<not> path_exists rolled_target w
              then or_code (fs_rename target rolled_target) RecoveryRequiredE w else io_return () w)
        (io_chain
          (\<lambda>w. if path_exists target w then io_raise (m4_new RecoveryRequiredE) w else io_return () w)
          (or_code (fs_rename old target) RecoveryRequiredE)) w)"

definition rolled_dir :: "path \<Rightarrow> path" where
  "rolled_dir attempt = attempt @ [''rolled-forward-content'']"

definition rollback_one :: "path \<Rightarrow> path \<Rightarrow> package_mutation \<Rightarrow> (unit, 's) engine_io" where
  "rollback_one packages_root attempt m w =
     (let target = packages_root @ [pm_package_id m];
          staged = attempt @ [''staging'', pm_package_id m];
          old = attempt @ [''backup'', pm_package_id m];
          rolled_target = rolled_dir attempt @ [pm_package_id m]
      in if pm_kind m = InstallPackage
         then if \<not> path_exists staged w \<and> path_exists target w \<and> \<not> path_exists rolled_target w
              then or_code (fs_rename target rolled_target) RecoveryRequiredE w else io_return () w
         else put_back target old rolled_target w)"

definition rollback_attempt ::
  "('s, 'c) engine \<Rightarrow> path \<Rightarrow> path \<Rightarrow> package_plan \<Rightarrow> (unit, 's) engine_io" where
  "rollback_attempt G root attempt plan =
     (let packages_root = packages_dir root in
      io_chain (\<lambda>w. if path_exists (rolled_dir attempt) w then io_return () w
                     else or_code (fs_create_dir (rolled_dir attempt)) RecoveryRequiredE w)
      (io_chain (put_back (vpm_manifest_path root) (attempt @ [''vpm-manifest.commit-old''])
          (rolled_dir attempt @ [''vpm-manifest.new'']))
      (io_chain (io_each (rollback_one packages_root attempt) (List.rev (cs_mutations (pl_change_set plan))))
      (io_chain (restore_legacy G root attempt plan)
      (sync_directories [packages_root, attempt])))))"

end
