(* ===== verification/PackageAttempts.thy ===== *)
theory PackageAttempts
  imports PackageTransaction
begin

text \<open>
  The attempts of a package transaction (\<open>PackageEngine::execute\<close>, \<open>recover_attempts\<close>): the journal of
  the store and the markers in the attempt directory announce each change of the project before it is
  made, and tell a later process what an attempt may have changed.  Locks are in \<open>Locks\<close>.
\<close>

section \<open>Markers\<close>

definition pad20 :: "nat \<Rightarrow> string" where
  "pad20 n = replicate (20 - length (show_nat n)) (CHR ''0'') @ show_nat n"

definition marker_name :: "u64 \<Rightarrow> string" where
  "marker_name step = ''marker-'' @ pad20 (unat step) @ ''.json''"

definition marker_of :: "uuid_ops \<Rightarrow> package_plan \<Rightarrow> filesystem_phase \<Rightarrow> journal_state \<Rightarrow> attempt_marker" where
  "marker_of U plan phase st =
     \<lparr>am_version = 1,
      am_plan_id = (case pl_plan_id plan of PlanId u \<Rightarrow> uuid_to_string U u),
      am_change_set_fingerprint = hex_text (pl_change_set_fingerprint plan),
      am_phase = phase, am_state = st\<rparr>"

definition write_marker ::
  "('s, 'c) engine \<Rightarrow> path \<Rightarrow> attempt_marker \<Rightarrow> u64 \<Rightarrow> (unit, 's) engine_io" where
  "write_marker G attempt marker step =
     io_chain (write_new_file (attempt @ [marker_name step]) (en_marker_text G marker))
       (or_code (fs_sync attempt) RecoveryRequiredE)"

definition starts_with :: "string \<Rightarrow> string \<Rightarrow> bool" where
  "starts_with p s \<longleftrightarrow> prefix p s"

definition is_marker_name :: "string \<Rightarrow> bool" where
  "is_marker_name s \<longleftrightarrow> starts_with ''marker-'' s \<and> suffix ''.json'' s"

definition read_dir :: "path \<Rightarrow> 's package_world \<Rightarrow> m4_error + string list" where
  "read_dir p w =
     (if symlink_metadata p w = Inr Directory then Inr (names_in (disk w) p) else Inl (m4_new RecoveryRequiredE))"

definition latest :: "string list \<Rightarrow> string option" where
  "latest names = (case names of [] \<Rightarrow> None | n # ns \<Rightarrow> Some (fold max ns n))"

definition read_marker :: "('s, 'c) engine \<Rightarrow> path \<Rightarrow> (attempt_marker, 's) engine_io" where
  "read_marker G attempt =
     io_then (io_reads (read_dir attempt)) (\<lambda>names.
     io_then (io_sum (ok_or (latest (filter is_marker_name names)) (m4_new RecoveryRequiredE))) (\<lambda>name.
     io_then (read_regular_file (attempt @ [name]) 65536) (\<lambda>bytes.
     io_then (io_sum (ok_or (en_marker_read G bytes) (m4_new RecoveryRequiredE))) (\<lambda>marker.
       io_chain (io_ensure (am_version marker = 1) (m4_new RecoveryRequiredE)) (io_return marker)))))"

section \<open>The journal of the store\<close>

definition append_phase ::
  "('s, 'c) engine \<Rightarrow> package_plan \<Rightarrow> operation_id \<Rightarrow> string \<Rightarrow> u64 \<Rightarrow> filesystem_phase \<Rightarrow> journal_state \<Rightarrow>
   string \<Rightarrow> (u64, 's) engine_io" where
  "append_phase G plan i identity_key next_step phase st evidence =
     io_then (en_time_ms G) (\<lambda>now.
     io_chain (en_append_journal G
         \<lparr>fj_operation_id = i, fj_step = next_step, fj_plan_id = pl_plan_id plan,
          fj_project_id = pl_project_id plan, fj_phase = phase, fj_state = st,
          fj_project_identity_key = identity_key,
          fj_change_set_fingerprint = pl_change_set_fingerprint plan,
          fj_evidence_json = evidence, fj_updated_at_ms = now\<rparr>)
       (io_sum (ok_or (checked_inc next_step) (m4_new InternalE))))"

abbreviation needs_recovery :: "('a, 's) engine_io \<Rightarrow> ('a, 's) engine_io" where
  "needs_recovery \<equiv> io_map_err (\<lambda>_. m4_new RecoveryRequiredE)"

text \<open>A phase is journaled, and then marked under the step it was journaled with.\<close>

definition enter_phase ::
  "('s, 'c) engine \<Rightarrow> package_plan \<Rightarrow> operation_id \<Rightarrow> string \<Rightarrow> path \<Rightarrow> bool \<Rightarrow> filesystem_phase \<Rightarrow>
   journal_state \<Rightarrow> string \<Rightarrow> u64 \<Rightarrow> (u64, 's) engine_io" where
  "enter_phase G plan i key attempt raw phase st evidence next_step =
     io_then ((if raw then (\<lambda>m. m) else needs_recovery) (append_phase G plan i key next_step phase st evidence))
       (\<lambda>next'. io_chain (write_marker G attempt (marker_of (en_uuid G) plan phase st) (next' - 1))
         (io_return next'))"

section \<open>Executing a plan\<close>

definition attempt_name :: "u64 \<Rightarrow> string" where
  "attempt_name step = ''attempt-'' @ pad20 (unat step)"

definition make_attempt :: "path \<Rightarrow> path \<Rightarrow> (unit, 's) engine_io" where
  "make_attempt transaction_root attempt =
     io_chain (or_code (fs_create_dir attempt) RecoveryRequiredE)
     (io_chain (or_code (fs_create_dir (attempt @ [''staging''])) RecoveryRequiredE)
     (io_chain (or_code (fs_create_dir (attempt @ [''backup''])) RecoveryRequiredE)
     (sync_directories [attempt, transaction_root])))"

definition stop_if_cancelled :: "('s, 'c) engine \<Rightarrow> operation_id \<Rightarrow> (unit, 's) engine_io" where
  "stop_if_cancelled G i =
     io_then (en_cancellation_requested G i) (\<lambda>requested. io_ensure (\<not> requested) (m4_new OperationCancelledE))"

definition no_evidence :: string where
  "no_evidence = ''{}''"

text \<open>The packages are fetched and extracted into the attempt.\<close>

definition stage_packages ::
  "('s, 'c) engine \<Rightarrow> path \<Rightarrow> string \<Rightarrow> operation_id \<Rightarrow> package_plan \<Rightarrow> path \<Rightarrow> u64 \<Rightarrow> (u64, 's) engine_io" where
  "stage_packages G root key i plan attempt step =
     io_then (en_fetch G plan) (\<lambda>archives.
     io_then (enter_phase G plan i key attempt False ArchiveReady Completed
         (''{\"objects\":'' @ show_nat (length archives) @ ''}'') step) (\<lambda>step.
     io_chain (en_extract G (attempt @ [''staging'']) (pl_change_set plan) archives)
     (io_chain (if cs_format_version (pl_change_set plan) = 3
         then io_each (\<lambda>p. en_verify_extracted_legacy G root (attempt @ [''staging'', p])) archives
         else io_return ())
     (enter_phase G plan i key attempt False Extracted Completed
         (''{\"packages\":'' @ show_nat (length (filter (\<lambda>m. pm_source m \<noteq> None)
            (cs_mutations (pl_change_set plan)))) @ ''}'') step))))"

text \<open>The new manifest is written into the attempt.\<close>

definition prepare_manifest ::
  "('s, 'c) engine \<Rightarrow> path \<Rightarrow> string \<Rightarrow> operation_id \<Rightarrow> package_plan \<Rightarrow> path \<Rightarrow> u64 \<Rightarrow> (u64, 's) engine_io" where
  "prepare_manifest G root key i plan attempt step =
     io_then (hash_file G (packages_dir root @ [''manifest.json''])) (\<lambda>upm_before.
     io_then (read_regular_file (vpm_manifest_path root) project_manifest_limit) (\<lambda>current.
     io_then (io_sum (en_materialize G current plan)) (\<lambda>new_manifest.
     io_chain
       (if en_sha256 G new_manifest \<noteq> cs_vpm_manifest_sha256 (pl_change_set plan)
        then if cs_format_version (pl_change_set plan) < 3 then io_raise (m4_new RecoveryRequiredE)
             else stale ''project_snapshot_changed''
        else io_return ())
     (io_chain (write_new_file (attempt @ [''vpm-manifest.new'']) new_manifest)
     (io_chain (write_new_file (attempt @ [''vpm-manifest.old'']) current)
     (io_chain (write_new_file (attempt @ [''upm-manifest.sha256'']) (hex_text upm_before))
     (enter_phase G plan i key attempt False Prepared Completed no_evidence step)))))))"

text \<open>A failed change is rolled back before its error is returned.\<close>

definition or_roll_back ::
  "('s, 'c) engine \<Rightarrow> path \<Rightarrow> string \<Rightarrow> operation_id \<Rightarrow> package_plan \<Rightarrow> path \<Rightarrow> u64 \<Rightarrow>
   (m4_error \<Rightarrow> m4_error) \<Rightarrow> (unit, 's) engine_io \<Rightarrow> (unit, 's) engine_io" where
  "or_roll_back G root key i plan attempt step reported m =
     io_match m io_return (\<lambda>error.
       io_chain (rollback_attempt G root attempt plan)
       (io_then (needs_recovery (append_phase G plan i key step RolledBack Completed no_evidence))
         (\<lambda>_. io_raise (reported error))))"

definition change_project ::
  "('s, 'c) engine \<Rightarrow> path \<Rightarrow> string \<Rightarrow> operation_id \<Rightarrow> package_plan \<Rightarrow> path \<Rightarrow> u64 \<Rightarrow> (u64, 's) engine_io" where
  "change_project G root key i plan attempt step =
     (let staging = attempt @ [''staging'']; packages_root = packages_dir root in
      io_then (enter_phase G plan i key attempt True PackagesReplaced Intent no_evidence step) (\<lambda>step.
      io_chain (en_verify_plan_legacy G staging plan False)
      (io_chain (or_roll_back G root key i plan attempt step (\<lambda>e. e)
         (io_chain (quarantine_legacy G root attempt plan)
           (replace_packages packages_root staging (attempt @ [''backup'']) plan)))
      (io_then (enter_phase G plan i key attempt False PackagesReplaced Completed no_evidence step) (\<lambda>step.
       io_then (enter_phase G plan i key attempt False VpmManifestCommitted Intent no_evidence step) (\<lambda>step.
       io_chain (or_roll_back G root key i plan attempt step (\<lambda>e. e)
          (io_chain (en_verify_plan_legacy G packages_root plan True)
            (commit_manifest (vpm_manifest_path root) attempt)))
       (io_then (enter_phase G plan i key attempt False VpmManifestCommitted Completed no_evidence step) (\<lambda>step.
        io_chain (or_roll_back G root key i plan attempt step (\<lambda>_. m4_new ProjectChangedDuringApplyE)
          (verify_final_state G root attempt plan))
        (enter_phase G plan i key attempt False FilesystemCommitted Completed no_evidence step)))))))))"

definition run_attempt ::
  "('s, 'c) engine \<Rightarrow> path \<Rightarrow> string \<Rightarrow> operation_id \<Rightarrow> package_plan \<Rightarrow> path \<Rightarrow> u64 \<Rightarrow> ('c, 's) engine_io" where
  "run_attempt G root key i plan attempt step =
     io_then (stage_packages G root key i plan attempt step) (\<lambda>step.
     io_chain (stop_if_cancelled G i)
     (io_chain (en_revalidate G plan)
     (io_chain (stop_if_cancelled G i)
     (io_then (prepare_manifest G root key i plan attempt step) (\<lambda>step.
      io_then (change_project G root key i plan attempt step) (\<lambda>step.
      io_chain (cleanup_legacy G root attempt plan)
      (io_then (needs_recovery (append_phase G plan i key step StateCommitted Intent no_evidence)) (\<lambda>_.
       en_inspect G root plan))))))))"

definition recover_attempt ::
  "('s, 'c) engine \<Rightarrow> path \<Rightarrow> package_plan \<Rightarrow> path \<Rightarrow> ('c option, 's) engine_io" where
  "recover_attempt G root plan attempt =
     io_then (needs_recovery (read_marker G attempt)) (\<lambda>marker.
     io_chain (io_ensure (am_plan_id marker = am_plan_id (marker_of (en_uuid G) plan RolledBack Completed) \<and>
         am_change_set_fingerprint marker = hex_text (pl_change_set_fingerprint plan)) (m4_new RecoveryRequiredE))
       (if am_phase marker = FilesystemCommitted
        then io_chain (verify_final_state G root attempt plan)
          (io_chain (cleanup_legacy G root attempt plan)
          (io_then (en_inspect G root plan) (\<lambda>c. io_return (Some c))))
        else if am_phase marker \<in> {PackagesReplaced, VpmManifestCommitted}
        then io_chain (rollback_attempt G root attempt plan)
          (io_chain (write_marker G attempt (marker_of (en_uuid G) plan RolledBack Completed) (- 1))
          (io_return None))
        else io_return None))"

fun first_completed ::
  "(path \<Rightarrow> ('c option, 's) engine_io) \<Rightarrow> path list \<Rightarrow> ('c option, 's) engine_io" where
  "first_completed f [] = io_return None"
| "first_completed f (a # as) =
     io_then (f a) (\<lambda>r. case r of Some c \<Rightarrow> io_return (Some c) | None \<Rightarrow> first_completed f as)"

definition recover_attempts ::
  "('s, 'c) engine \<Rightarrow> path \<Rightarrow> package_plan \<Rightarrow> path \<Rightarrow> ('c option, 's) engine_io" where
  "recover_attempts G root plan transaction_root =
     io_then (io_reads (read_dir transaction_root)) (\<lambda>names.
       first_completed (recover_attempt G root plan)
         (map (\<lambda>n. transaction_root @ [n]) (sort (filter (starts_with ''attempt-'') names))))"

definition execute ::
  "('s, 'c) engine \<Rightarrow> path \<Rightarrow> string \<Rightarrow> operation_id \<Rightarrow> package_plan \<Rightarrow> ('c, 's) engine_io" where
  "execute G root identity_key i plan =
     io_then (needs_recovery (en_resolve_identity G root)) (\<lambda>identity.
     io_chain (io_ensure (identity = identity_key) (m4_new RecoveryRequiredE))
     (io_then (prepare_transaction_root (en_uuid G) root i) (\<lambda>transaction_root.
      io_then (recover_attempts G root plan transaction_root) (\<lambda>completion.
      case completion of
        Some c \<Rightarrow> io_return c
      | None \<Rightarrow>
          io_then (en_next_step G i) (\<lambda>step.
          let attempt = transaction_root @ [attempt_name step] in
          io_chain (make_attempt transaction_root attempt)
            (run_attempt G root identity_key i plan attempt step))))))"

end
