(* ===== verification/TransactionRollback.thy ===== *)
theory TransactionRollback
  imports PackageAttempts
begin

text \<open>
  Why a rollback restores the project.  Every package, the manifest and every legacy asset is a group
  of places between which its old and its new content move; an invariant says for each group where
  the old content is.  It holds between any two calls of the change and of the rollback, so it holds
  wherever a process fails or stops.
\<close>

section \<open>Trees that move\<close>

definition tree :: "files \<Rightarrow> path \<Rightarrow> path \<Rightarrow> node option" where
  "tree d p = (\<lambda>r. entry_at d (p @ r))"

definition solid :: "files \<Rightarrow> path \<Rightarrow> bool" where
  "solid d p \<longleftrightarrow> (\<exists>n. entry_at d p = Some n \<and> (\<forall>t. n \<noteq> Link t))"

lemma tree_root: "tree d p [] = entry_at d p"
  by (simp add: tree_def)

lemma tree_eq_root: "tree d p = tree d' p \<Longrightarrow> entry_at d p = entry_at d' p"
  by (metis tree_root)

lemma parallel_prefixes: "parallel p q \<Longrightarrow> prefix q s \<Longrightarrow> \<not> prefix p s"
  using prefix_same_cases by blast

lemma parallel_below: "parallel p q \<Longrightarrow> \<not> prefix q (p @ r)"
  by (meson parallel_prefixes prefixI)

lemma entry_at_map_other:
  assumes "\<And>e. e \<in> set d \<Longrightarrow> fst (f e) = p \<longleftrightarrow> fst e = q" and "\<And>e. e \<in> set d \<Longrightarrow> snd (f e) = snd e"
  shows "entry_at (map f d) p = entry_at d q"
  using assms
proof (induction d)
  case (Cons e d)
  then have "entry_at (map f d) p = entry_at d q" by simp
  moreover have "fst (f e) = p \<longleftrightarrow> fst e = q" "snd (f e) = snd e"
    using Cons.prems by simp_all
  ultimately show ?case by (cases e; cases "f e") auto
qed simp

lemma entry_at_filter:
  "entry_at (filter (\<lambda>e. P (fst e)) d) p = (if P p then entry_at d p else None)"
  by (induction d) auto

lemma entry_at_move:
  assumes "parallel a b"
  shows "entry_at (move_tree a b d) p =
    (if prefix b p then entry_at d (a @ drop (length b) p) else if prefix a p then None else entry_at d p)"
proof -
  let ?f = "\<lambda>e :: path \<times> node. if prefix a (fst e) then (b @ drop (length a) (fst e), snd e) else e"
  let ?d = "filter (\<lambda>e. \<not> prefix b (fst e)) d"
  consider (moved) r where "p = b @ r" | (gone) "\<not> prefix b p" "prefix a p" | (other) "\<not> prefix b p" "\<not> prefix a p"
    by (auto simp: prefix_def)
  then show ?thesis
  proof cases
    case moved
    have "entry_at (map ?f ?d) p = entry_at ?d (a @ r)"
    proof (rule entry_at_map_other)
      fix e assume "e \<in> set ?d"
      then have "\<not> prefix b (fst e)" by simp
      then show "fst (?f e) = p \<longleftrightarrow> fst e = a @ r"
        using moved by (auto simp: prefix_def)
    qed simp
    also have "\<dots> = entry_at d (a @ r)"
      using parallel_below [OF assms, of r] by (simp add: entry_at_filter [where P = "\<lambda>q. \<not> prefix b q"])
    finally show ?thesis
      by (simp add: move_tree_def moved)
  next
    case gone
    have ne: "fst (?f e) \<noteq> p" if "e \<in> set ?d" for e
      using that gone by (cases "prefix a (fst e)") auto
    have "p \<notin> fst ` set (map ?f ?d)"
    proof
      assume "p \<in> fst ` set (map ?f ?d)"
      then obtain e where "e \<in> set ?d" "p = fst (?f e)"
        by (elim imageE) (simp only: set_map, elim imageE, blast)
      with ne show False by metis
    qed
    then have "entry_at (map ?f ?d) p = None"
      by (simp only: map_of_eq_None_iff not_False_eq_True)
    with gone show ?thesis by (simp add: move_tree_def)
  next
    case other
    have "entry_at (map ?f ?d) p = entry_at ?d p"
      by (rule entry_at_map_other) (use other in \<open>auto simp: prefix_def\<close>)
    with other show ?thesis
      by (simp add: move_tree_def entry_at_filter [where P = "\<lambda>q. \<not> prefix b q"])
  qed
qed

lemma tree_move:
  assumes "parallel a b"
  shows "tree (move_tree a b d) b = tree d a" and "tree (move_tree a b d) a = (\<lambda>_. None)"
    and "parallel p a \<Longrightarrow> parallel p b \<Longrightarrow> tree (move_tree a b d) p = tree d p"
  using assms by (auto simp: tree_def entry_at_move fun_eq_iff parallel_below)

lemma do_rename_moves:
  assumes "do_rename a b d = Inr d'" and "parallel a b"
  shows "d' = move_tree a b d" and "entry_at d a \<noteq> None"
  using assms by (auto simp: do_rename_def split: option.splits if_splits)

lemma do_rename_no_replace_moves:
  assumes "do_rename_no_replace a b d = Inr d'" and "parallel a b"
  shows "d' = move_tree a b d" and "entry_at d a \<noteq> None" and "entry_at d b = None" and "has_parent d b"
proof -
  have run: "do_rename a b d = Inr d'" and free: "entry_at d b = None"
    using assms(1) by (simp_all add: do_rename_no_replace_def split: if_splits)
  from do_rename_moves [OF run assms(2)] free
  show "d' = move_tree a b d" and "entry_at d a \<noteq> None" and "entry_at d b = None" by simp_all
  have "a \<noteq> b"
    using assms(2) by blast
  with run show "has_parent d b"
    by (simp add: do_rename_def split: option.splits if_splits)
qed

section \<open>Groups of places\<close>

text \<open>
  \<open>Swapped target old rolled staged\<close>: content that is replaced or removed, with the place of the old
  content, of what a rollback takes away and of the new content.  \<open>Fresh target rolled staged\<close>: a
  package that was not there.  \<open>Vaulted target slot\<close>: a legacy asset.  \<open>Idle old\<close>: a removal that the
  legacy assets cover.
\<close>

datatype group = Swapped path path path path | Fresh path path path | Vaulted path path | Idle path

fun places :: "group \<Rightarrow> path list" where
  "places (Swapped t b r s) = [t, b, r, s]"
| "places (Fresh t r s) = [t, r, s]"
| "places (Vaulted t v) = [t, v]"
| "places (Idle b) = [b]"

fun home :: "group \<Rightarrow> path option" where
  "home (Swapped t b r s) = Some t"
| "home (Fresh t r s) = Some t"
| "home (Vaulted t v) = Some t"
| "home (Idle b) = None"

text \<open>A slot of the vault is only found while the vault is there.\<close>

fun anchors :: "group \<Rightarrow> path list" where
  "anchors (Vaulted t v) = [butlast v]"
| "anchors _ = []"

text \<open>Where the old content is, with \<open>d0\<close> the files before the change.\<close>

fun group_ok :: "files \<Rightarrow> files \<Rightarrow> group \<Rightarrow> bool" where
  "group_ok d0 d (Swapped t b r s) \<longleftrightarrow>
     (tree d t = tree d0 t \<and> entry_at d b = None) \<or>
     (tree d b = tree d0 t \<and> solid d b \<and> (tree d t = (\<lambda>_. None) \<or> (solid d t \<and> entry_at d r = None)))"
| "group_ok d0 d (Fresh t r s) \<longleftrightarrow>
     (tree d t = tree d0 t \<and> (entry_at d0 t \<noteq> None \<longrightarrow> solid d s)) \<or>
     (tree d0 t = (\<lambda>_. None) \<and> entry_at d s = None \<and> solid d t \<and> entry_at d r = None)"
| "group_ok d0 d (Vaulted t v) \<longleftrightarrow>
     (tree d t = tree d0 t \<and> entry_at d v = None) \<or>
     (tree d t = (\<lambda>_. None) \<and> tree d v = tree d0 t \<and> entry_at d v \<noteq> None \<and>
        entry_at d (butlast v) = Some Directory)"
| "group_ok d0 d (Idle b) \<longleftrightarrow> entry_at d b = None"

definition at_home :: "files \<Rightarrow> files \<Rightarrow> group \<Rightarrow> bool" where
  "at_home d0 d g \<longleftrightarrow> (case home g of None \<Rightarrow> True | Some t \<Rightarrow> tree d t = tree d0 t)"

text \<open>The places of all groups lie apart; all but the homes are in the attempt.\<close>

definition laid_out :: "path \<Rightarrow> group list \<Rightarrow> bool" where
  "laid_out attempt gs \<longleftrightarrow>
     (\<forall>g \<in> set gs. distinct (places g) \<and> (\<forall>p \<in> set (places g). \<forall>q \<in> set (places g). p \<noteq> q \<longrightarrow> parallel p q) \<and>
        (\<forall>p \<in> set (places g). Some p \<noteq> home g \<longrightarrow> prefix attempt p) \<and>
        (\<forall>t. home g = Some t \<longrightarrow> parallel attempt t)) \<and>
     (\<forall>g \<in> set gs. \<forall>q \<in> set (anchors g). \<forall>g' \<in> set gs. \<forall>p \<in> set (places g'). \<not> prefix p q) \<and>
     (\<forall>g \<in> set gs. \<forall>g' \<in> set gs. g \<noteq> g' \<longrightarrow>
        (\<forall>p \<in> set (places g). \<forall>q \<in> set (places g'). parallel p q))"

definition recoverable :: "files \<Rightarrow> path \<Rightarrow> group list \<Rightarrow> group set \<Rightarrow> files \<Rightarrow> bool" where
  "recoverable d0 attempt gs H d \<longleftrightarrow>
     (\<forall>g \<in> set gs. group_ok d0 d g) \<and> (\<forall>g \<in> H. at_home d0 d g) \<and>
     (\<forall>p. \<not> prefix attempt p \<longrightarrow> (\<forall>g \<in> set gs. \<forall>t. home g = Some t \<longrightarrow> \<not> prefix t p) \<longrightarrow>
        entry_at d p = entry_at d0 p)"

lemma home_place: "home g = Some t \<Longrightarrow> t \<in> set (places g)"
  by (cases g) auto

lemma same_tree:
  "tree d' p = tree d p \<Longrightarrow> entry_at d' p = entry_at d p \<and> solid d' p = solid d p"
  by (metis solid_def tree_root)

lemma group_ok_same:
  assumes "group_ok d0 d g" and "\<forall>p \<in> set (places g). tree d' p = tree d p"
    and "\<forall>q \<in> set (anchors g). entry_at d' q = entry_at d q"
  shows "group_ok d0 d' g"
proof -
  have "\<forall>p \<in> set (places g). tree d' p = tree d p \<and> entry_at d' p = entry_at d p \<and> solid d' p = solid d p"
    using assms(2) same_tree by blast
  then have "group_ok d0 d' g = group_ok d0 d g"
    using assms(3) by (cases g) simp_all
  with assms(1) show ?thesis by simp
qed

lemma at_home_same:
  "at_home d0 d g \<Longrightarrow> \<forall>p \<in> set (places g). tree d' p = tree d p \<Longrightarrow> at_home d0 d' g"
  by (cases "home g") (simp_all add: at_home_def home_place)

lemma laid_out_apart:
  assumes "laid_out attempt gs" and "g \<in> set gs" and "p \<in> set (places g)"
  shows "g' \<in> set gs \<Longrightarrow> g' \<noteq> g \<Longrightarrow> q \<in> set (places g') \<Longrightarrow> parallel q p"
    and "q \<in> set (places g) \<Longrightarrow> q \<noteq> p \<Longrightarrow> parallel q p"
    and "Some p \<noteq> home g \<Longrightarrow> prefix attempt p"
    and "Some p = home g \<Longrightarrow> parallel attempt p"
    and "g' \<in> set gs \<Longrightarrow> q \<in> set (anchors g') \<Longrightarrow> \<not> prefix p q"
  using assms unfolding laid_out_def by metis+

text \<open>A rename inside one group leaves the others alone.\<close>

lemma move_in_group:
  assumes lay: "laid_out attempt gs" and g: "g \<in> set gs" "a \<in> set (places g)" "b \<in> set (places g)" "a \<noteq> b"
    and rec: "recoverable d0 attempt gs H d" and H: "H \<subseteq> set gs"
    and ok: "group_ok d0 (move_tree a b d) g"
  shows "recoverable d0 attempt gs (H - {g}) (move_tree a b d)"
proof -
  have ab: "parallel a b"
    using laid_out_apart(2) [OF lay g(1,3,2,4)] .
  have others: "tree (move_tree a b d) p = tree d p" if "g' \<in> set gs" "g' \<noteq> g" "p \<in> set (places g')" for g' p
    using tree_move(3) [OF ab] laid_out_apart(1) [OF lay g(1,2) that] laid_out_apart(1) [OF lay g(1,3) that] by blast
  have anchored: "entry_at (move_tree a b d) q = entry_at d q" if "g' \<in> set gs" "q \<in> set (anchors g')" for g' q
    using laid_out_apart(5) [OF lay g(1,2) that] laid_out_apart(5) [OF lay g(1,3) that]
    by (simp add: entry_at_move [OF ab])
  have frame: "entry_at (move_tree a b d) p = entry_at d p"
    if "\<not> prefix attempt p" "\<forall>g \<in> set gs. \<forall>t. home g = Some t \<longrightarrow> \<not> prefix t p" for p
  proof -
    have "\<not> prefix c p" if c: "c \<in> set (places g)" for c
    proof (cases "Some c = home g")
      case True
      then show ?thesis using \<open>\<forall>g \<in> set gs. _\<close> g(1) by metis
    next
      case False
      then have "prefix attempt c"
        using laid_out_apart(3) [OF lay g(1) c] by blast
      with \<open>\<not> prefix attempt p\<close> show ?thesis by (meson prefix_order.order_trans)
    qed
    with g show ?thesis by (simp add: entry_at_move [OF ab])
  qed
  have "group_ok d0 (move_tree a b d) g'" if "g' \<in> set gs" for g'
    using that ok rec group_ok_same [of d0 d g'] others anchored by (cases "g' = g") (simp_all add: recoverable_def)
  moreover have "at_home d0 (move_tree a b d) g'" if "g' \<in> H - {g}" for g'
    using that H rec at_home_same [of d0 d g'] others by (auto simp: recoverable_def)
  ultimately show ?thesis
    using rec frame unfolding recoverable_def by simp
qed

lemma recoverable_home:
  "recoverable d0 attempt gs H d \<Longrightarrow> at_home d0 d g \<Longrightarrow> recoverable d0 attempt gs (insert g H) d"
  by (simp add: recoverable_def)

lemma recoverable_less: "recoverable d0 attempt gs H d \<Longrightarrow> H' \<subseteq> H \<Longrightarrow> recoverable d0 attempt gs H' d"
  by (auto simp: recoverable_def)

text \<open>When everything is at home, only the attempt differs.\<close>

lemma restored:
  assumes "recoverable d0 attempt gs (set gs) d" and "\<not> prefix attempt p"
  shows "entry_at d p = entry_at d0 p"
proof (cases "\<exists>g \<in> set gs. \<exists>t. home g = Some t \<and> prefix t p")
  case True
  then obtain g t r where g: "g \<in> set gs" "home g = Some t" "p = t @ r"
    by (auto simp: prefix_def)
  then have "tree d t = tree d0 t"
    using assms(1) by (auto simp: recoverable_def at_home_def)
  then show ?thesis
    using g(3) by (metis tree_def)
next
  case False
  then show ?thesis using assms unfolding recoverable_def by blast
qed

section \<open>Calls and what they keep\<close>

text \<open>Nothing is unreadable, and the files satisfy \<open>P\<close>.\<close>

definition seen :: "(files \<Rightarrow> bool) \<Rightarrow> 'a world_scheme \<Rightarrow> bool" where
  "seen P w \<longleftrightarrow> unreadable w = [] \<and> P (disk w)"

definition reads_only :: "('a, 'e, 'b world_scheme) io \<Rightarrow> bool" where
  "reads_only m \<longleftrightarrow> (\<forall>w. disk (snd (m w)) = disk w \<and> unreadable (snd (m w)) = unreadable w)"

lemma seen_mono: "seen P w \<Longrightarrow> (\<And>d. P d \<Longrightarrow> Q d) \<Longrightarrow> seen Q w"
  by (simp add: seen_def)

lemma ensures_seen:
  assumes "ensures (seen P') m (\<lambda>x. seen (Q' x)) (seen R')"
    and "\<And>d. P d \<Longrightarrow> P' d" and "\<And>x d. Q' x d \<Longrightarrow> Q x d" and "\<And>d. R' d \<Longrightarrow> R d"
  shows "ensures (seen P) m (\<lambda>x. seen (Q x)) (seen R)"
  by (rule ensures_weaken [OF assms(1)]) (use assms(2-4) in \<open>auto simp: seen_def\<close>)

lemma seen_reads_only:
  "reads_only m \<Longrightarrow> (\<And>d. P d \<Longrightarrow> R d) \<Longrightarrow> ensures (seen P) m (\<lambda>_. seen P) (seen R)"
  by (rule ensuresI) (metis (no_types, lifting) reads_only_def seen_def snd_conv)+

lemma seen_call:
  assumes "\<And>d d'. P d \<Longrightarrow> f d = Inr d' \<Longrightarrow> Q d'" and "\<And>d n. P d \<Longrightarrow> R (part n d)" and "\<And>d. P d \<Longrightarrow> R d"
  shows "ensures (seen P) (call_partial part f) (\<lambda>_. seen Q) (seen R)"
  using assms
  by (auto simp: ensures_def seen_def call_partial_def next_fate_def split: prod.split sum.split fate.split list.split)

lemma seen_code: "ensures P m Q R \<Longrightarrow> ensures P (or_code m code) Q R"
  unfolding or_code_def by (rule ensures_map_err)

lemma seen_chain: "ensures P m (\<lambda>_. Q) R \<Longrightarrow> ensures Q n Q' R \<Longrightarrow> ensures P (io_chain m n) Q' R"
  unfolding io_chain_def by (rule ensures_then)

lemma seen_branch:
  "ensures (\<lambda>w. P w \<and> c w) m Q R \<Longrightarrow> ensures (\<lambda>w. P w \<and> \<not> c w) n Q R \<Longrightarrow>
    ensures P (\<lambda>w. if c w then m w else n w) Q R"
  by (fastforce simp: ensures_def)

lemma seen_fs_sync: "(\<And>d. P d \<Longrightarrow> R d) \<Longrightarrow> ensures (seen P) (fs_sync p) (\<lambda>_. seen P) (seen R)"
  unfolding fs_sync_def by (rule seen_call) (auto split: if_splits)

lemma seen_sync: "(\<And>d. P d \<Longrightarrow> R d) \<Longrightarrow> ensures (seen P) (sync_directories ps) (\<lambda>_. seen P) (seen R)"
proof -
  assume PR: "\<And>d. P d \<Longrightarrow> R d"
  have "ensures ((\<lambda>_. seen P) ps) (sync_directories ps) (\<lambda>_. (\<lambda>_. seen P) []) (seen R)"
    unfolding sync_directories_def by (rule ensures_each) (auto intro: seen_code seen_fs_sync PR)
  then show ?thesis by simp
qed

lemma seen_exists: "unreadable w = [] \<Longrightarrow>
    path_exists p w = (case entry_at (disk w) p of None \<Rightarrow> False | Some (Link t) \<Rightarrow> t | Some _ \<Rightarrow> True)"
  by (auto simp: path_exists_def symlink_metadata_def split: option.splits node.splits)

lemma solid_exists: "unreadable w = [] \<Longrightarrow> solid (disk w) p \<Longrightarrow> path_exists p w"
  by (auto simp: seen_exists solid_def split: node.splits)

lemma absent_exists: "unreadable w = [] \<Longrightarrow> entry_at (disk w) p = None \<Longrightarrow> \<not> path_exists p w"
  by (simp add: seen_exists)

lemma exists_some: "path_exists p w \<Longrightarrow> entry_at (disk w) p \<noteq> None"
  by (auto simp: path_exists_def symlink_metadata_def split: if_splits option.splits)

lemma seen_absent: "unreadable w = [] \<Longrightarrow> require_absent p w = Inr () \<longleftrightarrow> entry_at (disk w) p = None"
  by (auto simp: require_absent_def symlink_metadata_def split: option.splits)

lemma seen_metadata: "unreadable w = [] \<Longrightarrow>
    symlink_metadata p w = (case entry_at (disk w) p of None \<Rightarrow> Inl NotFound | Some n \<Rightarrow> Inr n)"
  by (simp add: symlink_metadata_def)

lemma seen_boundary: "(\<And>d. P d \<Longrightarrow> R d) \<Longrightarrow> ensures (seen P) (checked_boundary root p c) (\<lambda>_. seen P) (seen R)"
  unfolding checked_boundary_def by (auto intro!: ensures_reads simp: seen_def)

lemma seen_sum: "(\<And>x d. r = Inr x \<Longrightarrow> P d \<Longrightarrow> Q x d) \<Longrightarrow> (\<And>d. P d \<Longrightarrow> R d) \<Longrightarrow>
    ensures (seen P) (io_sum r) (\<lambda>x. seen (Q x)) (seen R)"
  unfolding io_sum_def by (auto intro!: ensures_reads simp: seen_def)

section \<open>Putting the old content back\<close>

lemma seen_rename:
  assumes lay: "laid_out attempt gs" and g: "g \<in> set gs" "a \<in> set (places g)" "b \<in> set (places g)" "a \<noteq> b"
    and H: "H \<subseteq> set gs"
    and ok: "\<And>d. recoverable d0 attempt gs H d \<Longrightarrow> K d \<Longrightarrow> entry_at d a \<noteq> None \<Longrightarrow>
      group_ok d0 (move_tree a b d) g \<and> K' (move_tree a b d)"
  shows "ensures (seen (\<lambda>d. recoverable d0 attempt gs H d \<and> K d)) (fs_rename a b)
    (\<lambda>_. seen (\<lambda>d. recoverable d0 attempt gs (H - {g}) d \<and> K' d))
    (seen (\<lambda>d. recoverable d0 attempt gs H d \<and> K d))"
  unfolding fs_rename_def
proof (rule seen_call)
  fix d d'
  assume d: "recoverable d0 attempt gs H d \<and> K d" and run: "do_rename a b d = Inr d'"
  have "parallel a b"
    using laid_out_apart(2) [OF lay g(1,3,2,4)] .
  from do_rename_moves [OF run this] have d': "d' = move_tree a b d" "entry_at d a \<noteq> None" .
  with ok d show "recoverable d0 attempt gs (H - {g}) d' \<and> K' d'"
    using move_in_group [OF lay g _ H] by blast
qed auto

lemma seen_rename_code:
  assumes "laid_out attempt gs" and "g \<in> set gs" "a \<in> set (places g)" "b \<in> set (places g)" "a \<noteq> b"
    and "H \<subseteq> set gs"
    and "\<And>d. recoverable d0 attempt gs H d \<Longrightarrow> K d \<Longrightarrow> entry_at d a \<noteq> None \<Longrightarrow>
      group_ok d0 (move_tree a b d) g \<and> K' (move_tree a b d)"
  shows "ensures (seen (\<lambda>d. recoverable d0 attempt gs H d \<and> K d)) (or_code (fs_rename a b) code)
    (\<lambda>_. seen (\<lambda>d. recoverable d0 attempt gs (H - {g}) d \<and> K' d)) (seen (recoverable d0 attempt gs {}))"
  by (rule seen_code, rule ensures_seen [OF seen_rename [where K = K and K' = K', OF assms]])
    (auto intro: recoverable_less)

lemma solid_move:
  assumes "parallel a b"
  shows "solid (move_tree a b d) b = solid d a" and "parallel p a \<Longrightarrow> parallel p b \<Longrightarrow> solid (move_tree a b d) p = solid d p"
    and "entry_at (move_tree a b d) b = entry_at d a" and "entry_at (move_tree a b d) a = None"
    and "parallel p a \<Longrightarrow> parallel p b \<Longrightarrow> entry_at (move_tree a b d) p = entry_at d p"
  using tree_move [OF assms] by (metis solid_def tree_root)+

text \<open>The part of the old content is found wherever it is.\<close>

lemma put_back_restores:
  assumes lay: "laid_out attempt gs" and g: "g \<in> set gs" "g = Swapped t b r s" and H: "H \<subseteq> set gs"
  shows "ensures (seen (recoverable d0 attempt gs H)) (put_back t b r)
    (\<lambda>_. seen (recoverable d0 attempt gs (insert g H))) (seen (recoverable d0 attempt gs {}))"
proof -
  have par: "parallel t b" "parallel b t" "parallel t r" "parallel r t" "parallel b r" "parallel r b"
    and ne: "t \<noteq> b" "t \<noteq> r" "b \<noteq> t"
    using lay g unfolding laid_out_def by (auto simp: g(2))
  let ?old = "\<lambda>d. tree d b = tree d0 t \<and> solid d b"
  let ?R = "seen (recoverable d0 attempt gs {})"
  have home: "recoverable d0 attempt gs (insert g H) d" if "recoverable d0 attempt gs H d" "entry_at d b = None" for d
    using that g by (intro recoverable_home) (auto simp: recoverable_def at_home_def solid_def)
  have away: "?old d \<and> (tree d t = (\<lambda>_. None) \<or> (solid d t \<and> entry_at d r = None))"
    if "recoverable d0 attempt gs H d" "entry_at d b \<noteq> None" for d
    using that g by (auto simp: recoverable_def)
  let ?mid = "\<lambda>d. recoverable d0 attempt gs H d \<and> ?old d \<and> (tree d t = (\<lambda>_. None) \<or> (solid d t \<and> entry_at d r = None))"
  let ?cleared = "\<lambda>d. recoverable d0 attempt gs (H - {g}) d \<and> ?old d \<and> tree d t = (\<lambda>_. None)"
  have first: "ensures (seen ?mid) (\<lambda>w. if path_exists t w \<and> \<not> path_exists r w
      then or_code (fs_rename t r) RecoveryRequiredE w else io_return () w) (\<lambda>_. seen ?cleared) ?R"
  proof (rule seen_branch)
    have "ensures (seen (\<lambda>d. recoverable d0 attempt gs H d \<and> ?old d)) (or_code (fs_rename t r) RecoveryRequiredE)
        (\<lambda>_. seen ?cleared) ?R"
      by (rule seen_rename_code [OF lay g(1) _ _ ne(2) H]) (auto simp: g(2) tree_move par solid_move)
    then show "ensures (\<lambda>w. seen ?mid w \<and> path_exists t w \<and> \<not> path_exists r w) (or_code (fs_rename t r) RecoveryRequiredE)
        (\<lambda>_. seen ?cleared) ?R"
      by (rule ensures_weaken) (auto simp: seen_def)
    show "ensures (\<lambda>w. seen ?mid w \<and> \<not> (path_exists t w \<and> \<not> path_exists r w)) (io_return ()) (\<lambda>_. seen ?cleared) ?R"
      by (rule ensures_return)
        (auto simp: seen_def dest: solid_exists absent_exists intro: recoverable_less)
  qed
  have check: "ensures (seen ?cleared) (\<lambda>w. if path_exists t w then io_raise (m4_new RecoveryRequiredE) w else io_return () w)
      (\<lambda>_. seen ?cleared) ?R"
    by (rule seen_branch) (auto intro!: ensures_raise ensures_return intro: recoverable_less simp: seen_def)
  have last: "ensures (seen ?cleared) (or_code (fs_rename b t) RecoveryRequiredE)
      (\<lambda>_. seen (recoverable d0 attempt gs (insert g H))) ?R"
  proof -
    have "ensures (seen (\<lambda>d. recoverable d0 attempt gs (H - {g}) d \<and> ?old d)) (or_code (fs_rename b t) RecoveryRequiredE)
        (\<lambda>_. seen (\<lambda>d. recoverable d0 attempt gs (H - {g} - {g}) d \<and> entry_at d b = None \<and> tree d t = tree d0 t)) ?R"
      by (rule seen_rename_code [OF lay g(1) _ _ ne(3)]) (use H in \<open>auto simp: g(2) tree_move par solid_move\<close>)
    then show ?thesis
    proof (rule ensures_seen)
      fix d
      assume "recoverable d0 attempt gs (H - {g} - {g}) d \<and> entry_at d b = None \<and> tree d t = tree d0 t"
      then show "recoverable d0 attempt gs (insert g H) d"
        by (auto simp: recoverable_def at_home_def g(2))
    qed auto
  qed
  show ?thesis
    unfolding put_back_def
  proof (rule seen_branch)
    show "ensures (\<lambda>w. seen (recoverable d0 attempt gs H) w \<and> \<not> path_exists b w) (io_return ())
        (\<lambda>_. seen (recoverable d0 attempt gs (insert g H))) ?R"
    proof (rule ensures_return, elim conjE)
      fix w
      assume w: "seen (recoverable d0 attempt gs H) w" and "\<not> path_exists b w"
      then have "entry_at (disk w) b = None"
        using away [of "disk w"] solid_exists [of w b] by (cases "entry_at (disk w) b") (auto simp: seen_def)
      with w home show "seen (recoverable d0 attempt gs (insert g H)) w"
        by (simp add: seen_def)
    qed
    show "ensures (\<lambda>w. seen (recoverable d0 attempt gs H) w \<and> \<not> \<not> path_exists b w)
       (io_chain (\<lambda>w. if path_exists t w \<and> \<not> path_exists r w
           then or_code (fs_rename t r) RecoveryRequiredE w else io_return () w)
         (io_chain (\<lambda>w. if path_exists t w then io_raise (m4_new RecoveryRequiredE) w else io_return () w)
           (or_code (fs_rename b t) RecoveryRequiredE)))
        (\<lambda>_. seen (recoverable d0 attempt gs (insert g H))) ?R"
    proof (rule ensures_weaken [OF seen_chain [OF first seen_chain [OF check last]]])
      fix w
      assume "seen (recoverable d0 attempt gs H) w \<and> \<not> \<not> path_exists b w"
      with away [of "disk w"] exists_some [of b w] show "seen ?mid w"
        by (simp add: seen_def)
    qed auto
  qed
qed

lemma remove_fresh:
  assumes lay: "laid_out attempt gs" and g: "g \<in> set gs" "g = Fresh t r s" and H: "H \<subseteq> set gs"
  shows "ensures (seen (recoverable d0 attempt gs H))
    (\<lambda>w. if \<not> path_exists s w \<and> path_exists t w \<and> \<not> path_exists r w
      then or_code (fs_rename t r) RecoveryRequiredE w else io_return () w)
    (\<lambda>_. seen (recoverable d0 attempt gs (insert g H))) (seen (recoverable d0 attempt gs {}))"
proof -
  have par: "parallel t r" "parallel r t" "parallel s t" "parallel s r" and ne: "t \<noteq> r"
    using lay g unfolding laid_out_def by (auto simp: g(2))
  let ?R = "seen (recoverable d0 attempt gs {})"
  let ?new = "\<lambda>d. tree d0 t = (\<lambda>_. None) \<and> entry_at d s = None"
  have home: "recoverable d0 attempt gs (insert g H) d" if "recoverable d0 attempt gs H d" "tree d t = tree d0 t" for d
    using that by (intro recoverable_home) (auto simp: at_home_def g(2))
  have cases: "(tree d t = tree d0 t \<and> (entry_at d0 t \<noteq> None \<longrightarrow> solid d s)) \<or>
      (?new d \<and> solid d t \<and> entry_at d r = None)" if "recoverable d0 attempt gs H d" for d
    using that g by (auto simp: recoverable_def)
  have gone: "?new (disk w)" if w: "seen (recoverable d0 attempt gs H) w" "\<not> path_exists s w" "path_exists t w" for w
  proof (rule ccontr)
    assume "\<not> ?new (disk w)"
    then have "tree (disk w) t = tree d0 t" "entry_at d0 t \<noteq> None \<longrightarrow> solid (disk w) s"
      using cases [of "disk w"] w(1) by (auto simp: seen_def)
    moreover have "entry_at (disk w) t \<noteq> None"
      using exists_some [OF w(3)] .
    ultimately have "solid (disk w) s"
      using tree_eq_root by metis
    with w show False
      using solid_exists by (auto simp: seen_def)
  qed
  have kept: "tree (disk w) t = tree d0 t" if w: "seen (recoverable d0 attempt gs H) w"
    "\<not> (\<not> path_exists s w \<and> path_exists t w \<and> \<not> path_exists r w)" for w
    using cases [of "disk w"] w exists_some [of s w] exists_some [of r w] solid_exists [of w t]
    by (auto simp: seen_def)
  show ?thesis
  proof (rule seen_branch)
    have "ensures (seen (\<lambda>d. recoverable d0 attempt gs H d \<and> ?new d)) (or_code (fs_rename t r) RecoveryRequiredE)
        (\<lambda>_. seen (\<lambda>d. recoverable d0 attempt gs (H - {g}) d \<and> tree d t = tree d0 t)) ?R"
      by (rule seen_rename_code [OF lay g(1) _ _ ne H])
        (auto simp: g(2) tree_move par solid_move tree_root [of d0 t, symmetric])
    then show "ensures (\<lambda>w. seen (recoverable d0 attempt gs H) w \<and> \<not> path_exists s w \<and> path_exists t w \<and> \<not> path_exists r w)
        (or_code (fs_rename t r) RecoveryRequiredE) (\<lambda>_. seen (recoverable d0 attempt gs (insert g H))) ?R"
    proof (rule ensures_weaken)
      fix w
      assume "seen (recoverable d0 attempt gs H) w \<and> \<not> path_exists s w \<and> path_exists t w \<and> \<not> path_exists r w"
      with gone [of w] show "seen (\<lambda>d. recoverable d0 attempt gs H d \<and> ?new d) w"
        by (simp add: seen_def)
    next
      fix w
      assume "seen (\<lambda>d. recoverable d0 attempt gs (H - {g}) d \<and> tree d t = tree d0 t) w"
      then show "seen (recoverable d0 attempt gs (insert g H)) w"
        by (auto simp: seen_def recoverable_def at_home_def g(2))
    qed auto
    show "ensures (\<lambda>w. seen (recoverable d0 attempt gs H) w \<and>
          \<not> (\<not> path_exists s w \<and> path_exists t w \<and> \<not> path_exists r w)) (io_return ())
        (\<lambda>_. seen (recoverable d0 attempt gs (insert g H))) ?R"
    proof (rule ensures_return, elim conjE)
      fix w
      assume "seen (recoverable d0 attempt gs H) w" "\<not> (\<not> path_exists s w \<and> path_exists t w \<and> \<not> path_exists r w)"
      with kept [of w] home show "seen (recoverable d0 attempt gs (insert g H)) w"
        by (simp add: seen_def)
    qed
  qed
qed

lemma seen_publish:
  assumes lay: "laid_out attempt gs" and g: "g \<in> set gs" "a \<in> set (places g)" "b \<in> set (places g)" "a \<noteq> b"
    and H: "H \<subseteq> set gs"
    and ok: "\<And>d. recoverable d0 attempt gs H d \<Longrightarrow> K d \<Longrightarrow> entry_at d a \<noteq> None \<Longrightarrow> entry_at d b = None \<Longrightarrow>
      has_parent d b \<Longrightarrow> group_ok d0 (move_tree a b d) g \<and> K' (move_tree a b d)"
  shows "ensures (seen (\<lambda>d. recoverable d0 attempt gs H d \<and> K d)) (publish_no_replace a b)
    (\<lambda>_. seen (\<lambda>d. recoverable d0 attempt gs (H - {g}) d \<and> K' d)) (seen (recoverable d0 attempt gs {}))"
  unfolding publish_no_replace_def
proof (rule seen_code, rule seen_call)
  fix d d'
  assume d: "recoverable d0 attempt gs H d \<and> K d" and run: "do_rename_no_replace a b d = Inr d'"
  have "parallel a b"
    using laid_out_apart(2) [OF lay g(1,3,2,4)] .
  from do_rename_no_replace_moves [OF run this] have "d' = move_tree a b d" "entry_at d a \<noteq> None" "entry_at d b = None"
    "has_parent d b" .
  with ok d show "recoverable d0 attempt gs (H - {g}) d' \<and> K' d'"
    using move_in_group [OF lay g _ H] by blast
qed (auto intro: recoverable_less)

definition removal_groups :: "path \<Rightarrow> path \<Rightarrow> nat \<times> legacy_removal \<Rightarrow> group list" where
  "removal_groups root attempt = (\<lambda>(i, r).
     case removal_target root r of Inl _ \<Rightarrow> [] | Inr t \<Rightarrow> [Vaulted t (removal_slot attempt i)])"

lemma removal_groups_member:
  "g \<in> set (removal_groups root attempt x) \<longleftrightarrow>
    (\<exists>t. removal_target root (snd x) = Inr t \<and> g = Vaulted t (removal_slot attempt (fst x)))"
  by (auto simp: removal_groups_def split_def split: sum.splits)

lemma restore_one_restores:
  assumes lay: "laid_out attempt gs" and H: "H \<subseteq> set gs"
    and g: "\<And>t. removal_target root r = Inr t \<Longrightarrow> Vaulted t (removal_slot attempt i) \<in> set gs"
    and verify: "\<And>p r. reads_only (en_verify_removal G p r)"
  shows "ensures (seen (recoverable d0 attempt gs H)) (restore_one G root attempt (i, r))
    (\<lambda>_. seen (recoverable d0 attempt gs (set (removal_groups root attempt (i, r)) \<union> H)))
    (seen (recoverable d0 attempt gs {}))"
proof -
  let ?slot = "removal_slot attempt i"
  let ?done = "recoverable d0 attempt gs (set (removal_groups root attempt (i, r)) \<union> H)"
  let ?R = "seen (recoverable d0 attempt gs {})"
  let ?held = "\<lambda>d. recoverable d0 attempt gs H d \<and> entry_at d ?slot \<noteq> None"
  have less: "recoverable d0 attempt gs {} d" if "?held d" for d
    using that recoverable_less by blast
  have absent: "?done d" if "recoverable d0 attempt gs H d" "entry_at d ?slot = None" for d
  proof -
    have "at_home d0 d y" if y: "y \<in> set (removal_groups root attempt (i, r))" for y
    proof -
      obtain t where t: "removal_target root r = Inr t" "y = Vaulted t ?slot"
        using y by (auto simp: removal_groups_member)
      have "group_ok d0 d y"
        using g t \<open>recoverable d0 attempt gs H d\<close> unfolding recoverable_def by blast
      with \<open>entry_at d ?slot = None\<close> show ?thesis
        by (simp add: at_home_def t)
    qed
    with \<open>recoverable d0 attempt gs H d\<close> show ?thesis
      unfolding recoverable_def by blast
  qed
  have moved: "ensures (seen ?held) (publish_no_replace ?slot t) (\<lambda>_. seen ?done) ?R"
    if t: "removal_target root r = Inr t" for t
  proof -
    have par: "parallel t ?slot" "t \<noteq> ?slot" "parallel ?slot t"
      using lay g [OF t] unfolding laid_out_def by fastforce+
    have "ensures (seen ?held) (publish_no_replace ?slot t)
        (\<lambda>_. seen (\<lambda>d. recoverable d0 attempt gs (H - {Vaulted t ?slot}) d \<and> tree d t = tree d0 t)) ?R"
      by (rule seen_publish [OF lay g [OF t] _ _ _ H])
        (use g [OF t] par in \<open>auto simp: tree_move solid_move recoverable_def\<close>)
    then show ?thesis
      by (rule ensures_seen) (auto simp: recoverable_def at_home_def t removal_groups_def)
  qed
  have put: "ensures (seen ?held) (io_then (io_map_err (\<lambda>_. m4_new RecoveryRequiredE) (io_sum (removal_target root r)))
      (\<lambda>target. io_chain (checked_boundary root (butlast target) (Some RecoveryRequiredE))
        (io_chain (publish_no_replace ?slot target)
        (sync_directories [butlast target, legacy_vault attempt])))) (\<lambda>_. seen ?done) ?R"
  proof (rule ensures_then)
    show "ensures (seen ?held) (io_map_err (\<lambda>_. m4_new RecoveryRequiredE) (io_sum (removal_target root r)))
        (\<lambda>t. seen (\<lambda>d. ?held d \<and> removal_target root r = Inr t)) ?R"
      by (rule ensures_map_err, rule seen_sum) (use less in auto)
    show "ensures (seen (\<lambda>d. ?held d \<and> removal_target root r = Inr t))
        (io_chain (checked_boundary root (butlast t) (Some RecoveryRequiredE))
          (io_chain (publish_no_replace ?slot t) (sync_directories [butlast t, legacy_vault attempt])))
        (\<lambda>_. seen ?done) ?R" for t
    proof (cases "removal_target root r = Inr t")
      case True
      have "ensures (seen ?held) (io_chain (checked_boundary root (butlast t) (Some RecoveryRequiredE))
          (io_chain (publish_no_replace ?slot t) (sync_directories [butlast t, legacy_vault attempt])))
          (\<lambda>_. seen ?done) ?R"
        by (rule seen_chain [OF seen_boundary seen_chain [OF moved [OF True] seen_sync]])
          (use less True recoverable_less in blast)+
      then show ?thesis
        by (rule ensures_seen) auto
    qed (auto simp: ensures_def seen_def)
  qed
  have restore: "ensures (seen ?held) (io_chain (checked_boundary root ?slot (Some RecoveryRequiredE))
      (io_chain (io_map_err (\<lambda>_. m4_new RecoveryRequiredE) (en_verify_removal G ?slot r))
      (io_then (io_map_err (\<lambda>_. m4_new RecoveryRequiredE) (io_sum (removal_target root r)))
      (\<lambda>target. io_chain (checked_boundary root (butlast target) (Some RecoveryRequiredE))
        (io_chain (publish_no_replace ?slot target)
        (sync_directories [butlast target, legacy_vault attempt])))))) (\<lambda>_. seen ?done) ?R"
    by (rule seen_chain [OF seen_boundary seen_chain [OF ensures_map_err [OF seen_reads_only [OF verify]] put]])
      (use less in blast)+
  show ?thesis
    unfolding restore_one_def Let_def split_def prod.case
  proof (rule seen_branch)
    show "ensures (\<lambda>w. seen (recoverable d0 attempt gs H) w \<and> require_absent (removal_slot attempt (fst (i, r))) w = Inr ())
        (io_return ()) (\<lambda>_. seen ?done) ?R"
      by (rule ensures_return) (use absent in \<open>auto simp: seen_def seen_absent\<close>)
  next
    show "ensures (\<lambda>w. seen (recoverable d0 attempt gs H) w \<and> require_absent (removal_slot attempt (fst (i, r))) w \<noteq> Inr ())
      (io_chain (checked_boundary root (removal_slot attempt (fst (i, r))) (Some RecoveryRequiredE))
      (io_chain (io_map_err (\<lambda>_. m4_new RecoveryRequiredE) (en_verify_removal G (removal_slot attempt (fst (i, r))) (snd (i, r))))
      (io_then (io_map_err (\<lambda>_. m4_new RecoveryRequiredE) (io_sum (removal_target root (snd (i, r)))))
      (\<lambda>target. io_chain (checked_boundary root (butlast target) (Some RecoveryRequiredE))
        (io_chain (publish_no_replace (removal_slot attempt (fst (i, r))) target)
        (sync_directories [butlast target, legacy_vault attempt])))))) (\<lambda>_. seen ?done) ?R"
      unfolding fst_conv snd_conv by (rule ensures_weaken [OF restore]) (auto simp: seen_def seen_absent)
  qed
qed

section \<open>The groups of a plan\<close>

definition mutation_group :: "path \<Rightarrow> path \<Rightarrow> package_plan \<Rightarrow> package_mutation \<Rightarrow> group" where
  "mutation_group root attempt plan m =
     (let target = packages_dir root @ [pm_package_id m];
          staged = attempt @ [''staging'', pm_package_id m];
          old = attempt @ [''backup'', pm_package_id m];
          rolled = rolled_dir attempt @ [pm_package_id m]
      in if legacy_handled plan m then Idle old
         else if pm_kind m = InstallPackage then Fresh target rolled staged
         else Swapped target old rolled staged)"

definition manifest_group :: "path \<Rightarrow> path \<Rightarrow> group" where
  "manifest_group root attempt = Swapped (vpm_manifest_path root) (attempt @ [''vpm-manifest.commit-old''])
     (rolled_dir attempt @ [''vpm-manifest.new'']) (attempt @ [''vpm-manifest.new''])"

definition plan_groups :: "path \<Rightarrow> path \<Rightarrow> package_plan \<Rightarrow> group list" where
  "plan_groups root attempt plan = manifest_group root attempt #
     map (mutation_group root attempt plan) (cs_mutations (pl_change_set plan)) @
     concat (map (removal_groups root attempt) (enumerate 0 (cs_legacy_removals (pl_change_set plan))))"

lemma plan_groups_member:
  "g \<in> set (plan_groups root attempt plan) \<longleftrightarrow>
     g = manifest_group root attempt \<or>
     (\<exists>m \<in> set (cs_mutations (pl_change_set plan)). g = mutation_group root attempt plan m) \<or>
     (\<exists>x \<in> set (enumerate 0 (cs_legacy_removals (pl_change_set plan))). g \<in> set (removal_groups root attempt x))"
  unfolding plan_groups_def by (simp only: set_append list.set set_map set_concat Un_iff UN_iff image_iff insert_iff) blast

lemma idle_put_back:
  assumes g: "Idle b \<in> set gs"
  shows "ensures (seen (recoverable d0 attempt gs H)) (put_back t b r)
    (\<lambda>_. seen (recoverable d0 attempt gs (insert (Idle b) H))) (seen (recoverable d0 attempt gs {}))"
proof -
  have absent: "\<not> path_exists b w" if "seen (recoverable d0 attempt gs H) w" for w
    using that g absent_exists [of w b] by (auto simp: seen_def recoverable_def)
  show ?thesis
    unfolding put_back_def
  proof (rule seen_branch)
    show "ensures (\<lambda>w. seen (recoverable d0 attempt gs H) w \<and> \<not> path_exists b w) (io_return ())
        (\<lambda>_. seen (recoverable d0 attempt gs (insert (Idle b) H))) (seen (recoverable d0 attempt gs {}))"
      by (rule ensures_return) (auto simp: seen_def intro: recoverable_home simp: at_home_def)
  qed (use absent in \<open>auto simp: ensures_def\<close>)
qed

lemma rollback_one_restores:
  assumes lay: "laid_out attempt gs" and g: "mutation_group root attempt plan m \<in> set gs" and H: "H \<subseteq> set gs"
  shows "ensures (seen (recoverable d0 attempt gs H)) (rollback_one (packages_dir root) attempt m)
    (\<lambda>_. seen (recoverable d0 attempt gs (insert (mutation_group root attempt plan m) H)))
    (seen (recoverable d0 attempt gs {}))"
proof (cases "pm_kind m = InstallPackage")
  case True
  with g have g': "mutation_group root attempt plan m = Fresh (packages_dir root @ [pm_package_id m])
      (rolled_dir attempt @ [pm_package_id m]) (attempt @ [''staging'', pm_package_id m])"
    by (simp add: mutation_group_def legacy_handled_def)
  have run: "rollback_one (packages_dir root) attempt m = (\<lambda>w. if \<not> path_exists (attempt @ [''staging'', pm_package_id m]) w \<and>
        path_exists (packages_dir root @ [pm_package_id m]) w \<and> \<not> path_exists (rolled_dir attempt @ [pm_package_id m]) w
      then or_code (fs_rename (packages_dir root @ [pm_package_id m]) (rolled_dir attempt @ [pm_package_id m])) RecoveryRequiredE w
      else io_return () w)"
    by (simp add: rollback_one_def Let_def fun_eq_iff True)
  show ?thesis
    unfolding run using remove_fresh [OF lay g g' H] .
next
  case False
  then have run: "rollback_one (packages_dir root) attempt m = put_back (packages_dir root @ [pm_package_id m])
      (attempt @ [''backup'', pm_package_id m]) (rolled_dir attempt @ [pm_package_id m])"
    by (simp add: rollback_one_def Let_def fun_eq_iff)
  show ?thesis
  proof (cases "legacy_handled plan m")
    case True
    with g idle_put_back show ?thesis
      by (simp add: run mutation_group_def)
  next
    case False
    with \<open>pm_kind m \<noteq> InstallPackage\<close> have g': "mutation_group root attempt plan m =
        Swapped (packages_dir root @ [pm_package_id m]) (attempt @ [''backup'', pm_package_id m])
          (rolled_dir attempt @ [pm_package_id m]) (attempt @ [''staging'', pm_package_id m])"
      by (simp add: mutation_group_def)
    show ?thesis
      unfolding run using put_back_restores [OF lay g g' H] .
  qed
qed

lemma each_restores:
  assumes step: "\<And>x H. x \<in> set xs \<Longrightarrow> H \<subseteq> set gs \<Longrightarrow> ensures (seen (recoverable d0 attempt gs H)) (f x)
      (\<lambda>_. seen (recoverable d0 attempt gs (h x \<union> H))) (seen (recoverable d0 attempt gs {}))"
    and h: "\<And>x. x \<in> set xs \<Longrightarrow> h x \<subseteq> set gs" and H: "H \<subseteq> set gs"
  shows "ensures (seen (recoverable d0 attempt gs H)) (io_each f xs)
    (\<lambda>_. seen (recoverable d0 attempt gs (\<Union> (h ` set xs) \<union> H))) (seen (recoverable d0 attempt gs {}))"
  using assms
proof (induction xs arbitrary: H)
  case Nil
  then show ?case by (simp add: ensures_return)
next
  case (Cons x xs)
  have "ensures (seen (recoverable d0 attempt gs (h x \<union> H))) (io_each f xs)
      (\<lambda>_. seen (recoverable d0 attempt gs (\<Union> (h ` set xs) \<union> (h x \<union> H)))) (seen (recoverable d0 attempt gs {}))"
    by (rule Cons.IH) (use Cons.prems in auto)
  then have rest: "ensures (seen (recoverable d0 attempt gs (h x \<union> H))) (io_each f xs)
      (\<lambda>_. seen (recoverable d0 attempt gs (\<Union> (h ` set (x # xs)) \<union> H))) (seen (recoverable d0 attempt gs {}))"
    by (simp add: Un_ac)
  show ?case
    unfolding io_each.simps by (rule ensures_then [OF Cons.prems(1) rest]) (use Cons.prems in auto)
qed

text \<open>The layout of a plan: package ids and legacy assets do not get in each other's way.\<close>

lemma restore_legacy_restores:
  assumes lay: "laid_out attempt gs" and H: "H \<subseteq> set gs"
    and g: "\<And>x. x \<in> set (enumerate 0 (cs_legacy_removals (pl_change_set plan))) \<Longrightarrow>
      set (removal_groups root attempt x) \<subseteq> set gs"
    and verify: "\<And>p r. reads_only (en_verify_removal G p r)"
  shows "ensures (seen (recoverable d0 attempt gs H)) (restore_legacy G root attempt plan)
    (\<lambda>_. seen (recoverable d0 attempt gs
       ((\<Union>x \<in> set (enumerate 0 (cs_legacy_removals (pl_change_set plan))). set (removal_groups root attempt x)) \<union> H)))
    (seen (recoverable d0 attempt gs {}))"
proof -
  let ?rs = "cs_legacy_removals (pl_change_set plan)"
  let ?all = "(\<Union>x \<in> set (enumerate 0 ?rs). set (removal_groups root attempt x)) \<union> H"
  let ?R = "seen (recoverable d0 attempt gs {})"
  have step: "ensures (seen (recoverable d0 attempt gs H)) (restore_one G root attempt x)
      (\<lambda>_. seen (recoverable d0 attempt gs (set (removal_groups root attempt x) \<union> H))) ?R"
    if x: "x \<in> set (List.rev (enumerate 0 ?rs))" and H: "H \<subseteq> set gs" for x H
  proof -
    obtain i r where i: "x = (i, r)"
      by fastforce
    have mem: "Vaulted t (removal_slot attempt i) \<in> set gs" if "removal_target root r = Inr t" for t
      using g [of x] x i that by (auto simp: removal_groups_member)
    show ?thesis
      unfolding i
      by (rule restore_one_restores [OF lay H mem verify])
  qed
  have each: "ensures (seen (recoverable d0 attempt gs H)) (io_each (restore_one G root attempt) (List.rev (enumerate 0 ?rs)))
      (\<lambda>_. seen (recoverable d0 attempt gs ?all)) ?R"
    using each_restores [where xs = "List.rev (enumerate 0 ?rs)" and f = "restore_one G root attempt" and
        h = "\<lambda>x. set (removal_groups root attempt x)", OF step _ H] g by simp
  have gone: "recoverable d0 attempt gs ?all d"
    if d: "recoverable d0 attempt gs H d" "?rs = [] \<or> entry_at d (legacy_vault attempt) = None" for d
  proof -
    have "at_home d0 d y" if y: "y \<in> set (removal_groups root attempt x)" "x \<in> set (enumerate 0 ?rs)" for x y
    proof -
      obtain t where t: "y = Vaulted t (removal_slot attempt (fst x))"
        using y(1) by (auto simp: removal_groups_member)
      have "group_ok d0 d y"
        using d(1) g y unfolding recoverable_def by blast
      moreover have "entry_at d (butlast (removal_slot attempt (fst x))) = None"
        using d(2) y(2) by (auto simp: removal_slot_def butlast_append)
      ultimately show ?thesis
        by (simp add: t at_home_def)
    qed
    with d(1) show ?thesis
      unfolding recoverable_def by blast
  qed
  show ?thesis
    unfolding restore_legacy_def Let_def
  proof (rule seen_branch)
    show "ensures (\<lambda>w. seen (recoverable d0 attempt gs H) w \<and>
          (?rs = [] \<or> require_absent (legacy_vault attempt) w = Inr ())) (io_return ())
        (\<lambda>_. seen (recoverable d0 attempt gs ?all)) ?R"
    proof (rule ensures_return, elim conjE)
      fix w
      assume w: "seen (recoverable d0 attempt gs H) w" "?rs = [] \<or> require_absent (legacy_vault attempt) w = Inr ()"
      then have "?rs = [] \<or> entry_at (disk w) (legacy_vault attempt) = None"
        by (simp add: seen_def seen_absent)
      with w(1) gone [of "disk w"] show "seen (recoverable d0 attempt gs ?all) w"
        unfolding seen_def by blast
    qed
    have "ensures (seen (recoverable d0 attempt gs H)) (io_chain (checked_boundary root (legacy_vault attempt) (Some RecoveryRequiredE))
        (io_each (restore_one G root attempt) (List.rev (enumerate 0 ?rs)))) (\<lambda>_. seen (recoverable d0 attempt gs ?all)) ?R"
      by (rule seen_chain [OF seen_boundary each]) (auto intro: recoverable_less)
    then show "ensures (\<lambda>w. seen (recoverable d0 attempt gs H) w \<and>
          \<not> (?rs = [] \<or> require_absent (legacy_vault attempt) w = Inr ()))
        (io_chain (checked_boundary root (legacy_vault attempt) (Some RecoveryRequiredE))
          (io_each (restore_one G root attempt) (List.rev (enumerate 0 ?rs))))
        (\<lambda>_. seen (recoverable d0 attempt gs ?all)) ?R"
      by (rule ensures_weaken) auto
  qed
qed

lemma put_entry_recoverable:
  assumes rec: "recoverable d0 attempt gs H d" and H: "H \<subseteq> set gs" and p: "prefix attempt p"
    and clear: "\<And>g q. g \<in> set gs \<Longrightarrow> q \<in> set (places g) \<Longrightarrow> \<not> prefix q p"
    and anchor: "\<And>g. g \<in> set gs \<Longrightarrow> p \<notin> set (anchors g) \<or> n = Directory"
  shows "recoverable d0 attempt gs H (put_entry p n d)"
proof -
  have same: "tree (put_entry p n d) q = tree d q" if "g \<in> set gs" "q \<in> set (places g)" for g q
    using clear [OF that] by (auto simp: tree_def put_entry_def fun_eq_iff)
  have "group_ok d0 (put_entry p n d) g" if g: "g \<in> set gs" for g
  proof -
    have "\<forall>q \<in> set (places g). tree (put_entry p n d) q = tree d q \<and> entry_at (put_entry p n d) q = entry_at d q \<and>
        solid (put_entry p n d) q = solid d q"
      using same [OF g] same_tree by blast
    moreover have "entry_at d q = Some Directory \<longrightarrow> entry_at (put_entry p n d) q = Some Directory" if "q \<in> set (anchors g)" for q
      using anchor [OF g] that by (auto simp: put_entry_def)
    ultimately show ?thesis
      using rec g unfolding recoverable_def by (cases g) (fastforce simp del: map_of.simps)+
  qed
  moreover have "at_home d0 (put_entry p n d) g" if "g \<in> H" for g
    using that H rec same at_home_same [of d0 d g] by (auto simp: recoverable_def)
  ultimately show ?thesis
    using rec p by (auto simp: recoverable_def put_entry_def)
qed

section \<open>The layout of a plan\<close>

lemma parallel_iffs [simp]:
  "parallel (p @ a) (p @ b) \<longleftrightarrow> parallel a b"
  "parallel (x # a) (y # b) \<longleftrightarrow> x \<noteq> y \<or> parallel a b"
  "\<not> parallel [] b" "\<not> parallel a []"
  by (auto simp: parallel_def)

text \<open>
  Package ids are unique and not the manifest's names, and no legacy asset is above, below or equal to
  another one or to a package or manifest that the plan changes.
\<close>

definition plan_places_ok :: "path \<Rightarrow> package_plan \<Rightarrow> bool" where
  "plan_places_ok root plan \<longleftrightarrow>
     (let ms = cs_mutations (pl_change_set plan); rs = cs_legacy_removals (pl_change_set plan) in
      distinct (map pm_package_id ms) \<and>
      (\<forall>m \<in> set ms. pm_package_id m \<noteq> ''vpm-manifest.json'' \<and> pm_package_id m \<noteq> ''vpm-manifest.new'') \<and>
      (\<forall>i < length rs. \<forall>t. removal_target root (rs ! i) = Inr t \<longrightarrow>
         parallel t (vpm_manifest_path root) \<and>
         (\<forall>m \<in> set ms. \<not> legacy_handled plan m \<longrightarrow> parallel t (packages_dir root @ [pm_package_id m])) \<and>
         (\<forall>j < length rs. \<forall>t'. i \<noteq> j \<longrightarrow> removal_target root (rs ! j) = Inr t' \<longrightarrow> parallel t t')))"

definition attempt_under :: "path \<Rightarrow> path \<Rightarrow> bool" where
  "attempt_under root attempt \<longleftrightarrow> (\<exists>rest. attempt = root @ ''Library'' # rest)"

lemma split_on_map:
  assumes "\<And>c. f c = d \<longleftrightarrow> c = d"
  shows "split_on d (map f s) = map (map f) (split_on d s)"
proof (induction s)
  case (Cons c s)
  then show ?case
    using assms split_on_nonempty [of d s] by (cases "split_on d s") auto
qed auto

lemma lowercase_library: "to_ascii_lowercase ''Library'' = ''library''"
  by code_simp

lemma removal_outside:
  assumes "removal_target root r = Inr t" and "attempt_under root attempt"
  shows "parallel attempt t"
proof -
  obtain p where p: "removal_path (lr_path r) = Inr p" and t: "t = root @ split_on (CHR ''/'') p"
    using assms(1) by (auto simp: removal_target_def result_simps)
  have lower: "hd (split_on (CHR ''/'') (to_ascii_lowercase p)) \<noteq> ''library''"
    using p by (auto simp: removal_path_def Let_def legacy_roots_def split: if_splits)
  have "to_ascii_lowercase (hd (split_on (CHR ''/'') p)) \<noteq> ''library''"
  proof -
    have "split_on (CHR ''/'') (to_ascii_lowercase p) = map to_ascii_lowercase (split_on (CHR ''/'') p)"
      unfolding to_ascii_lowercase_def
      by (rule split_on_map)
        (auto simp: less_eq_char_def dest!: arg_cong [where f = "of_char :: char \<Rightarrow> nat"])
    with lower split_on_nonempty show ?thesis
      by (metis list.map_sel(1))
  qed
  then have "hd (split_on (CHR ''/'') p) \<noteq> ''Library''"
    using lowercase_library by metis
  moreover obtain x xs where "split_on (CHR ''/'') p = x # xs"
    using split_on_nonempty by (cases "split_on (CHR ''/'') p") auto
  ultimately show ?thesis
    using assms(2) by (auto simp: t attempt_under_def)
qed

lemma attempt_branch:
  "attempt_under root attempt \<Longrightarrow> parallel (root @ ''Packages'' # p) (attempt @ q) \<and> parallel (attempt @ q) (root @ ''Packages'' # p)"
  "attempt_under root attempt \<Longrightarrow> parallel attempt (root @ ''Packages'' # p)"
  by (auto simp: attempt_under_def)

lemma outside_below: "parallel attempt t \<Longrightarrow> parallel (attempt @ q) t \<and> parallel t (attempt @ q)"
  by (meson parallel_def prefix_same_cases prefixI prefix_order.order_trans)

lemmas place_defs = packages_dir_def vpm_manifest_path_def rolled_dir_def legacy_vault_def removal_slot_def

text \<open>The places of a group of the plan.\<close>

lemma mutation_places:
  assumes "p \<in> set (places (mutation_group root attempt plan m))"
  shows "(p = packages_dir root @ [pm_package_id m] \<and> \<not> legacy_handled plan m) \<or>
    p \<in> {attempt @ [''staging'', pm_package_id m], attempt @ [''backup'', pm_package_id m],
      attempt @ [''rolled-forward-content'', pm_package_id m]}"
  using assms by (auto simp: mutation_group_def Let_def rolled_dir_def split: if_splits)

lemma manifest_places:
  "p \<in> set (places (manifest_group root attempt)) \<longleftrightarrow> p = vpm_manifest_path root \<or>
    p \<in> {attempt @ [''vpm-manifest.commit-old''], attempt @ [''rolled-forward-content'', ''vpm-manifest.new''],
      attempt @ [''vpm-manifest.new'']}"
  by (auto simp: manifest_group_def rolled_dir_def)

lemma plan_clear:
  assumes under: "attempt_under root attempt" and g: "g \<in> set (plan_groups root attempt plan)" "p \<in> set (places g)"
    and x: "x \<noteq> ''vpm-manifest.commit-old''" "x \<noteq> ''vpm-manifest.new''"
  shows "\<not> prefix p (attempt @ [x])"
proof -
  obtain rest where rest: "attempt = root @ ''Library'' # rest"
    using under by (auto simp: attempt_under_def)
  from g(1) show ?thesis
    unfolding plan_groups_member
  proof (elim disjE bexE)
    assume "g = manifest_group root attempt"
    then show ?thesis
      using g(2) x by (auto simp: manifest_group_def place_defs rest)
  next
    fix m
    assume "g = mutation_group root attempt plan m"
    then show ?thesis
      using g(2) by (auto dest!: mutation_places simp: place_defs rest)
  next
    fix y
    assume "g \<in> set (removal_groups root attempt y)"
    then obtain t where t: "removal_target root (snd y) = Inr t" "g = Vaulted t (removal_slot attempt (fst y))"
      by (auto simp: removal_groups_member)
    then have "p = removal_slot attempt (fst y) \<or> parallel p (attempt @ [x])"
      using g(2) outside_below [OF removal_outside [OF t(1) under]] by auto
    then show ?thesis
      by (auto simp: place_defs)
  qed
qed

lemma plan_laid_out:
  assumes under: "attempt_under root attempt" and ok: "plan_places_ok root plan"
  shows "laid_out attempt (plan_groups root attempt plan)"
proof -
  let ?ms = "cs_mutations (pl_change_set plan)" and ?rs = "cs_legacy_removals (pl_change_set plan)"
  have ids: "m = m'" if "m \<in> set ?ms" "m' \<in> set ?ms" "pm_package_id m = pm_package_id m'" for m m'
    using ok that by (auto simp: plan_places_ok_def Let_def distinct_map inj_on_def)
  have names: "pm_package_id m \<noteq> ''vpm-manifest.json''" "pm_package_id m \<noteq> ''vpm-manifest.new''" if "m \<in> set ?ms" for m
    using ok that by (auto simp: plan_places_ok_def Let_def)
  have slots: "show_nat i = show_nat j \<longleftrightarrow> i = j" for i j
    using show_nat_inject by blast
  have vault: "\<exists>i t. i < length ?rs \<and> removal_target root (?rs ! i) = Inr t \<and> g = Vaulted t (removal_slot attempt i)"
    if "x \<in> set (enumerate 0 ?rs)" "g \<in> set (removal_groups root attempt x)" for x g
  proof -
    have "fst x < length ?rs" "?rs ! fst x = snd x"
      using that(1) by (simp_all add: in_set_enumerate_eq)
    with that(2) show ?thesis
      by (auto simp: removal_groups_member)
  qed
  have legacy: "parallel t (vpm_manifest_path root)" "parallel (vpm_manifest_path root) t"
    "\<And>m. m \<in> set ?ms \<Longrightarrow> \<not> legacy_handled plan m \<Longrightarrow>
       parallel t (packages_dir root @ [pm_package_id m]) \<and> parallel (packages_dir root @ [pm_package_id m]) t"
    "\<And>j t'. j < length ?rs \<Longrightarrow> i \<noteq> j \<Longrightarrow> removal_target root (?rs ! j) = Inr t' \<Longrightarrow> parallel t t'"
    "\<And>q. parallel (attempt @ q) t \<and> parallel t (attempt @ q)" "parallel attempt t"
    if "i < length ?rs" "removal_target root (?rs ! i) = Inr t" for i t
    using ok that removal_outside [OF that(2) under] outside_below
    by (auto simp: plan_places_ok_def Let_def parallel_commute)
  note places_simps = place_defs attempt_branch [OF under] slots
  let ?mg = "mutation_group root attempt plan" and ?M = "manifest_group root attempt"
  have manifest_mutation: "parallel p q" if "m \<in> set ?ms" "p \<in> set (places ?M)" "q \<in> set (places (?mg m))" for p q m
    using that(2,3) names [OF that(1)] unfolding manifest_places by (auto dest!: mutation_places simp: places_simps)
  have mutation_mutation: "parallel p q"
    if "pm_package_id m \<noteq> pm_package_id m'" "p \<in> set (places (?mg m))" "q \<in> set (places (?mg m'))" for p q m m'
    using that by (auto dest!: mutation_places simp: places_simps)
  have manifest_vault: "parallel p q" if "i < length ?rs" "removal_target root (?rs ! i) = Inr t"
    "p \<in> set (places ?M)" "q \<in> {t, removal_slot attempt i}" for p q i t
    using that(3,4) legacy [OF that(1,2)] unfolding manifest_places by (auto simp: places_simps)
  have mutation_vault: "parallel p q" if "i < length ?rs" "removal_target root (?rs ! i) = Inr t" "m \<in> set ?ms"
    "p \<in> set (places (?mg m))" "q \<in> {t, removal_slot attempt i}" for p q m i t
    using mutation_places [OF that(4)] legacy(3) [OF that(1,2,3)] legacy(5) [OF that(1,2)] that(5)
    by (auto simp: places_simps)
  have vault_vault: "parallel p q" if "i < length ?rs" "removal_target root (?rs ! i) = Inr t"
    "j < length ?rs" "removal_target root (?rs ! j) = Inr t'" "i \<noteq> j"
    "p \<in> {t, removal_slot attempt i}" "q \<in> {t', removal_slot attempt j}" for p q i j t t'
    using legacy(4) [OF that(1,2,3,5,4)] legacy(5) [OF that(1,2)] legacy(5) [OF that(3,4)] that(5-7)
    by (auto simp: places_simps)
  have kinds: "g = ?M \<or> (\<exists>m \<in> set ?ms. g = ?mg m) \<or>
      (\<exists>i t. i < length ?rs \<and> removal_target root (?rs ! i) = Inr t \<and> g = Vaulted t (removal_slot attempt i))"
    if "g \<in> set (plan_groups root attempt plan)" for g
    using that vault unfolding plan_groups_member by blast
  have apart: "parallel p q"
    if g: "g \<in> set (plan_groups root attempt plan)" "g' \<in> set (plan_groups root attempt plan)" "g \<noteq> g'"
      "p \<in> set (places g)" "q \<in> set (places g')" for g g' p q
    using kinds [OF g(1)]
  proof (elim disjE bexE exE conjE)
    assume g1: "g = ?M"
    show ?thesis
      using kinds [OF g(2)] g(3-5) manifest_mutation manifest_vault unfolding g1
      by (elim disjE bexE exE conjE) simp_all
  next
    fix m
    assume m: "m \<in> set ?ms" "g = ?mg m"
    show ?thesis
      using kinds [OF g(2)]
    proof (elim disjE bexE exE conjE)
      assume "g' = ?M"
      with g(4,5) m manifest_mutation [OF m(1), of q p] show ?thesis
        by (simp add: parallel_commute)
    next
      fix m'
      assume m': "m' \<in> set ?ms" "g' = ?mg m'"
      then have "pm_package_id m \<noteq> pm_package_id m'"
        using ids g(3) m by metis
      with g(4,5) m m' show ?thesis
        using mutation_mutation by simp
    next
      fix i t
      assume "i < length ?rs" "removal_target root (?rs ! i) = Inr t" "g' = Vaulted t (removal_slot attempt i)"
      with g(4,5) m mutation_vault show ?thesis by simp
    qed
  next
    fix i t
    assume i: "i < length ?rs" "removal_target root (?rs ! i) = Inr t" "g = Vaulted t (removal_slot attempt i)"
    show ?thesis
      using kinds [OF g(2)]
    proof (elim disjE bexE exE conjE)
      assume "g' = ?M"
      with g(4,5) i manifest_vault [OF i(1,2), of q p] show ?thesis
        by (simp add: parallel_commute)
    next
      fix m'
      assume "m' \<in> set ?ms" "g' = ?mg m'"
      with g(4,5) i mutation_vault [OF i(1,2), of m' q p] show ?thesis
        by (simp add: parallel_commute)
    next
      fix j t'
      assume j: "j < length ?rs" "removal_target root (?rs ! j) = Inr t'" "g' = Vaulted t' (removal_slot attempt j)"
      with i g(3) have "i \<noteq> j" by auto
      with g(4,5) i j show ?thesis
        using vault_vault by simp
    qed
  qed
  have inside: "distinct (places g) \<and> (\<forall>p \<in> set (places g). \<forall>q \<in> set (places g). p \<noteq> q \<longrightarrow> parallel p q) \<and>
      (\<forall>p \<in> set (places g). Some p \<noteq> home g \<longrightarrow> prefix attempt p) \<and> (\<forall>t. home g = Some t \<longrightarrow> parallel attempt t)"
    if g: "g \<in> set (plan_groups root attempt plan)" for g
    using kinds [OF g]
  proof (elim disjE bexE exE conjE, goal_cases)
    case 1
    show ?case
      using attempt_branch [OF under] unfolding 1 by (auto simp: manifest_group_def place_defs)
  next
    case (2 m)
    show ?case
      using attempt_branch [OF under] unfolding 2 by (auto simp: mutation_group_def Let_def place_defs)
  next
    case (3 i t)
    show ?case
      using legacy(5,6) [OF 3(1,2)] parallel_def unfolding 3(3) by (auto simp: place_defs)
  qed
  have anchored: "\<not> prefix p q"
    if g: "g \<in> set (plan_groups root attempt plan)" "q \<in> set (anchors g)"
      "g' \<in> set (plan_groups root attempt plan)" "p \<in> set (places g')" for g g' p q
  proof -
    have q: "q = attempt @ [''legacy-backup'']"
      using kinds [OF g(1)] g(2)
      by (elim disjE bexE exE conjE) (auto simp: manifest_group_def mutation_group_def place_defs Let_def
          butlast_append split: if_splits)
    show ?thesis
      unfolding q by (rule plan_clear [OF under g(3,4)]) simp_all
  qed
  show ?thesis
    unfolding laid_out_def using inside anchored apart by blast
qed

lemma put_plan_entry:
  assumes under: "attempt_under root attempt" and rec: "recoverable d0 attempt (plan_groups root attempt plan) {} d"
    and x: "x \<noteq> ''vpm-manifest.commit-old''" "x \<noteq> ''vpm-manifest.new''" "x \<noteq> ''legacy-backup'' \<or> n = Directory"
  shows "recoverable d0 attempt (plan_groups root attempt plan) {} (put_entry (attempt @ [x]) n d)"
proof (rule put_entry_recoverable [OF rec])
  show "\<not> prefix q (attempt @ [x])" if "g \<in> set (plan_groups root attempt plan)" "q \<in> set (places g)" for g q
    using plan_clear [OF under that x(1,2)] .
  show "attempt @ [x] \<notin> set (anchors g) \<or> n = Directory" if g: "g \<in> set (plan_groups root attempt plan)" for g
  proof -
    have "q = legacy_vault attempt" if "q \<in> set (anchors g)" for q
      using g that unfolding plan_groups_member
      by (auto simp: manifest_group_def mutation_group_def removal_groups_member place_defs Let_def butlast_append
          split: if_splits)
    then show ?thesis
      using x(3) by (auto simp: legacy_vault_def)
  qed
qed auto

section \<open>Rolling back\<close>

lemma rollback_restores:
  assumes under: "attempt_under root attempt" and ok: "plan_places_ok root plan"
    and verify: "\<And>p r. reads_only (en_verify_removal G p r)"
  defines "gs \<equiv> plan_groups root attempt plan"
  shows "ensures (seen (recoverable d0 attempt gs {})) (rollback_attempt G root attempt plan)
    (\<lambda>_. seen (recoverable d0 attempt gs (set gs))) (seen (recoverable d0 attempt gs {}))"
proof -
  let ?ms = "cs_mutations (pl_change_set plan)" and ?rs = "cs_legacy_removals (pl_change_set plan)"
  let ?M = "manifest_group root attempt" and ?R = "seen (recoverable d0 attempt gs {})"
  let ?all = "(\<Union>m \<in> set ?ms. {mutation_group root attempt plan m}) \<union> {?M}"
  have lay: "laid_out attempt gs"
    unfolding gs_def by (rule plan_laid_out [OF under ok])
  have mem: "?M \<in> set gs" "\<And>m. m \<in> set ?ms \<Longrightarrow> mutation_group root attempt plan m \<in> set gs"
    "\<And>x. x \<in> set (enumerate 0 ?rs) \<Longrightarrow> set (removal_groups root attempt x) \<subseteq> set gs"
    unfolding gs_def plan_groups_member subset_iff by blast+
  have rolled: "ensures ?R (\<lambda>w. if path_exists (rolled_dir attempt) w then io_return () w
      else or_code (fs_create_dir (rolled_dir attempt)) RecoveryRequiredE w) (\<lambda>_. ?R) ?R"
  proof (rule seen_branch)
    have "ensures ?R (or_code (fs_create_dir (rolled_dir attempt)) RecoveryRequiredE) (\<lambda>_. ?R) ?R"
      unfolding fs_create_dir_def
    proof (rule seen_code, rule seen_call)
      fix d d'
      assume "recoverable d0 attempt gs {} d" and "do_create Directory (rolled_dir attempt) d = Inr d'"
      then show "recoverable d0 attempt gs {} d'"
        using put_plan_entry [OF under, where x = "''rolled-forward-content''" and n = Directory]
        by (auto simp: gs_def do_create_def rolled_dir_def split: if_splits)
    qed auto
    then show "ensures (\<lambda>w. ?R w \<and> \<not> path_exists (rolled_dir attempt) w)
        (or_code (fs_create_dir (rolled_dir attempt)) RecoveryRequiredE) (\<lambda>_. ?R) ?R"
      by (rule ensures_weaken) auto
  qed (auto intro: ensures_return)
  have manifest: "ensures ?R (put_back (vpm_manifest_path root) (attempt @ [''vpm-manifest.commit-old''])
      (rolled_dir attempt @ [''vpm-manifest.new''])) (\<lambda>_. seen (recoverable d0 attempt gs {?M})) ?R"
    by (rule put_back_restores [OF lay mem(1)]) (auto simp: manifest_group_def)
  have packages: "ensures (seen (recoverable d0 attempt gs {?M}))
      (io_each (rollback_one (packages_dir root) attempt) (List.rev ?ms)) (\<lambda>_. seen (recoverable d0 attempt gs ?all)) ?R"
  proof -
    have "ensures (seen (recoverable d0 attempt gs {?M})) (io_each (rollback_one (packages_dir root) attempt) (List.rev ?ms))
        (\<lambda>_. seen (recoverable d0 attempt gs
          (\<Union> ((\<lambda>m. {mutation_group root attempt plan m}) ` set (List.rev ?ms)) \<union> {?M}))) ?R"
    proof (rule each_restores)
      fix m H
      assume "m \<in> set (List.rev ?ms)" and "H \<subseteq> set gs"
      then show "ensures (seen (recoverable d0 attempt gs H)) (rollback_one (packages_dir root) attempt m)
          (\<lambda>_. seen (recoverable d0 attempt gs ({mutation_group root attempt plan m} \<union> H))) ?R"
        using rollback_one_restores [OF lay mem(2)] by simp
    qed (use mem in auto)
    then show ?thesis by simp
  qed
  have legacy: "ensures (seen (recoverable d0 attempt gs ?all)) (restore_legacy G root attempt plan)
      (\<lambda>_. seen (recoverable d0 attempt gs (set gs))) ?R"
  proof (rule ensures_seen [OF restore_legacy_restores [OF lay _ mem(3) verify]])
    show "?all \<subseteq> set gs"
      using mem(1,2) by blast
    fix d
    assume "recoverable d0 attempt gs ((\<Union>x \<in> set (enumerate 0 ?rs). set (removal_groups root attempt x)) \<union> ?all) d"
    moreover have "set gs \<subseteq> (\<Union>x \<in> set (enumerate 0 ?rs). set (removal_groups root attempt x)) \<union> ?all"
      unfolding gs_def subset_iff plan_groups_member by blast
    ultimately show "recoverable d0 attempt gs (set gs) d"
      by (rule recoverable_less)
  qed auto
  show ?thesis
    unfolding rollback_attempt_def Let_def
    by (rule seen_chain [OF rolled seen_chain [OF manifest seen_chain [OF packages seen_chain [OF legacy seen_sync]]]])
      (rule recoverable_less, assumption, simp)
qed

section \<open>Lookups that fail\<close>

text \<open>
  All of this is for runs in which lookups of metadata succeed.  \<open>Path::exists\<close> takes a lookup that
  fails for an absent path; a backup whose metadata cannot be read is passed over as if there was
  nothing to put back, without an error.
\<close>

lemma unreadable_backup_skipped:
  assumes "attempt @ [''backup'', pm_package_id m] \<in> set (unreadable w)" and "pm_kind m \<noteq> InstallPackage"
  shows "rollback_one packages_root attempt m w = (Inr (), w)"
  using assms by (simp add: rollback_one_def put_back_def path_exists_def symlink_metadata_def io_return_def Let_def)

end
