(* ===== verification/TransactionForward.thy ===== *)
theory TransactionForward
  imports TransactionRollback
begin

text \<open>
  The calls that change the project (quarantine of legacy assets, replacement of packages, commit of
  the manifest) keep the invariant of \<open>TransactionRollback\<close>, wherever they fail or the process stops.
\<close>

section \<open>Groups that have not been touched\<close>

definition files_wf :: "files \<Rightarrow> bool" where
  "files_wf d \<longleftrightarrow> (\<forall>p x. entry_at d (p @ [x]) \<noteq> None \<longrightarrow> entry_at d p = Some Directory)"

lemma wf_absent: "files_wf d \<Longrightarrow> entry_at d t = None \<Longrightarrow> tree d t = (\<lambda>_. None)"
proof (rule ext)
  fix r
  assume wf: "files_wf d" and none: "entry_at d t = None"
  show "tree d t r = None"
  proof (induction r rule: rev_induct)
    case (snoc x r)
    then show ?case
      using wf unfolding files_wf_def tree_def
      by (metis append_assoc option.distinct(1))
  qed (simp add: tree_def none)
qed

fun waiting :: "files \<Rightarrow> files \<Rightarrow> group \<Rightarrow> bool" where
  "waiting d0 d (Swapped t b r s) \<longleftrightarrow> tree d t = tree d0 t \<and> entry_at d b = None \<and> entry_at d r = None"
| "waiting d0 d (Fresh t r s) \<longleftrightarrow> tree d t = tree d0 t \<and> solid d s \<and> entry_at d r = None"
| "waiting d0 d (Vaulted t v) \<longleftrightarrow> tree d t = tree d0 t \<and> entry_at d v = None"
| "waiting d0 d (Idle b) \<longleftrightarrow> entry_at d b = None"

fun new_there :: "files \<Rightarrow> group \<Rightarrow> bool" where
  "new_there d (Swapped t b r s) \<longleftrightarrow> solid d s"
| "new_there d _ \<longleftrightarrow> True"

text \<open>The groups of \<open>W\<close> wait to be changed; those of \<open>N\<close> among them have new content.\<close>

definition forward :: "files \<Rightarrow> path \<Rightarrow> group list \<Rightarrow> group set \<Rightarrow> group set \<Rightarrow> files \<Rightarrow> bool" where
  "forward d0 attempt gs N W d \<longleftrightarrow> recoverable d0 attempt gs {} d \<and> W \<subseteq> set gs \<and>
     (\<forall>g \<in> W. waiting d0 d g \<and> (g \<in> N \<longrightarrow> new_there d g))"

lemma forward_recoverable: "forward d0 attempt gs N W d \<Longrightarrow> recoverable d0 attempt gs {} d"
  by (simp add: forward_def)

lemma forward_less: "forward d0 attempt gs N W d \<Longrightarrow> W' \<subseteq> W \<Longrightarrow> forward d0 attempt gs N W' d"
  by (auto simp: forward_def)

lemma waiting_same:
  assumes "waiting d0 d g \<and> (g \<in> N \<longrightarrow> new_there d g)" and "\<forall>p \<in> set (places g). tree d' p = tree d p"
  shows "waiting d0 d' g \<and> (g \<in> N \<longrightarrow> new_there d' g)"
proof -
  have "\<forall>p \<in> set (places g). tree d' p = tree d p \<and> entry_at d' p = entry_at d p \<and> solid d' p = solid d p"
    using assms(2) same_tree by blast
  then have "waiting d0 d' g = waiting d0 d g" "new_there d' g = new_there d g"
    by (cases g; simp)+
  with assms(1) show ?thesis by simp
qed

lemma forward_move:
  assumes lay: "laid_out attempt gs" and g: "g \<in> set gs" "a \<in> set (places g)" "b \<in> set (places g)" "a \<noteq> b"
    and fwd: "forward d0 attempt gs N W d" and ok: "group_ok d0 (move_tree a b d) g"
  shows "forward d0 attempt gs N (W - {g}) (move_tree a b d)"
proof -
  have "recoverable d0 attempt gs ({} - {g}) (move_tree a b d)"
    by (rule move_in_group [OF lay g]) (use fwd ok in \<open>auto simp: forward_def\<close>)
  moreover have "waiting d0 (move_tree a b d) g' \<and> (g' \<in> N \<longrightarrow> new_there (move_tree a b d) g')"
    if g': "g' \<in> W - {g}" for g'
  proof (rule waiting_same)
    show "waiting d0 d g' \<and> (g' \<in> N \<longrightarrow> new_there d g')"
      using fwd g' by (simp add: forward_def)
    show "\<forall>p \<in> set (places g'). tree (move_tree a b d) p = tree d p"
      using tree_move(3) [OF laid_out_apart(2) [OF lay g(1,3,2,4)]] g' fwd
        laid_out_apart(1) [OF lay g(1,2)] laid_out_apart(1) [OF lay g(1,3)]
      by (auto simp: forward_def)
  qed
  ultimately show ?thesis
    using fwd by (auto simp: forward_def)
qed

text \<open>A rename inside one group; on failure everything is as before.\<close>

lemma forward_rename:
  assumes lay: "laid_out attempt gs" and g: "g \<in> set gs" "a \<in> set (places g)" "b \<in> set (places g)" "a \<noteq> b"
    and ok: "\<And>d. forward d0 attempt gs N W d \<Longrightarrow> K d \<Longrightarrow> entry_at d a \<noteq> None \<Longrightarrow>
      group_ok d0 (move_tree a b d) g \<and> K' (move_tree a b d)"
  shows "ensures (seen (\<lambda>d. forward d0 attempt gs N W d \<and> K d)) (fs_rename a b)
    (\<lambda>_. seen (\<lambda>d. forward d0 attempt gs N (W - {g}) d \<and> K' d))
    (seen (\<lambda>d. forward d0 attempt gs N W d \<and> K d))"
  unfolding fs_rename_def
proof (rule seen_call)
  fix d d'
  assume d: "forward d0 attempt gs N W d \<and> K d" and run: "do_rename a b d = Inr d'"
  from do_rename_moves [OF run laid_out_apart(2) [OF lay g(1,3,2,4)]] ok d
  show "forward d0 attempt gs N (W - {g}) d' \<and> K' d'"
    using forward_move [OF lay g] by blast
qed auto

lemma forward_rename_code:
  assumes "laid_out attempt gs" and "g \<in> set gs" "a \<in> set (places g)" "b \<in> set (places g)" "a \<noteq> b"
    and "\<And>d. forward d0 attempt gs N W d \<Longrightarrow> K d \<Longrightarrow> entry_at d a \<noteq> None \<Longrightarrow>
      group_ok d0 (move_tree a b d) g \<and> K' (move_tree a b d)"
  shows "ensures (seen (\<lambda>d. forward d0 attempt gs N W d \<and> K d)) (or_code (fs_rename a b) code)
    (\<lambda>_. seen (\<lambda>d. forward d0 attempt gs N (W - {g}) d \<and> K' d)) (seen (recoverable d0 attempt gs {}))"
  by (rule seen_code, rule ensures_seen [OF forward_rename [where K = K and K' = K', OF assms]])
    (auto intro: forward_recoverable)

lemma forward_publish:
  assumes lay: "laid_out attempt gs" and g: "g \<in> set gs" "a \<in> set (places g)" "b \<in> set (places g)" "a \<noteq> b"
    and ok: "\<And>d. forward d0 attempt gs N W d \<Longrightarrow> K d \<Longrightarrow> entry_at d a \<noteq> None \<Longrightarrow> entry_at d b = None \<Longrightarrow>
      has_parent d b \<Longrightarrow> group_ok d0 (move_tree a b d) g \<and> K' (move_tree a b d)"
  shows "ensures (seen (\<lambda>d. forward d0 attempt gs N W d \<and> K d)) (publish_no_replace a b)
    (\<lambda>_. seen (\<lambda>d. forward d0 attempt gs N (W - {g}) d \<and> K' d)) (seen (recoverable d0 attempt gs {}))"
  unfolding publish_no_replace_def
proof (rule seen_code, rule seen_call)
  fix d d'
  assume d: "forward d0 attempt gs N W d \<and> K d" and run: "do_rename_no_replace a b d = Inr d'"
  from do_rename_no_replace_moves [OF run laid_out_apart(2) [OF lay g(1,3,2,4)]] ok d
  show "forward d0 attempt gs N (W - {g}) d' \<and> K' d'"
    using forward_move [OF lay g] by blast
qed (auto intro: forward_recoverable)

lemma ensures_match_with:
  "ensures P m Q R1 \<Longrightarrow> (\<And>w. R1 w \<Longrightarrow> R w) \<Longrightarrow> (\<And>x. ensures (Q x) (f x) Q' R) \<Longrightarrow>
    (\<And>e. ensures R1 (g e) Q' R) \<Longrightarrow> ensures P (io_match m f g) Q' R"
  by (fastforce simp: ensures_def io_match_def split: prod.splits sum.splits ending.splits)

section \<open>Replacing packages\<close>

lemma ensures_pointwise:
  assumes "\<And>w. P w \<Longrightarrow> \<exists>P' m'. P' w \<and> m w = m' w \<and> ensures P' m' Q R"
  shows "ensures P m Q R"
  using assms by (force simp: ensures_def)

lemma move_aside_install:
  assumes "pm_kind m = InstallPackage"
  shows "ensures (seen (forward d0 attempt gs N W)) (move_aside packages_root backup target m)
    (\<lambda>_. seen (\<lambda>d. forward d0 attempt gs N W d \<and> entry_at d target = None)) (seen (recoverable d0 attempt gs {}))"
  using assms
  by (intro ensuresI)
    (auto simp: move_aside_def seen_def seen_metadata io_raise_def io_return_def forward_recoverable
      split: option.splits)

lemma move_aside_swap:
  fixes P :: "files \<Rightarrow> bool"
  assumes kind: "pm_kind m \<noteq> InstallPackage"
    and aside: "ensures (seen (\<lambda>d. P d \<and> solid d target))
      (io_chain (or_code (fs_rename target (backup @ [pm_package_id m])) RecoveryRequiredE)
        (sync_directories [packages_root, backup]) :: (unit, 's) engine_io) (\<lambda>_. seen Q) (seen R)"
    and R: "\<And>d. P d \<Longrightarrow> R d"
  shows "ensures (seen P) (move_aside packages_root backup target m :: (unit, 's) engine_io) (\<lambda>_. seen Q) (seen R)"
proof (rule ensures_pointwise)
  fix w :: "'s package_world"
  assume w: "seen P w"
  let ?raise = "io_raise (m4_new ProjectChangedDuringApplyE)"
  consider (dir) "entry_at (disk w) target = Some Directory" | (other) "move_aside packages_root backup target m w = ?raise w"
    using w kind
    by (cases "entry_at (disk w) target"; cases "entry_at (disk w) target = Some Directory")
      (simp_all add: move_aside_def seen_def seen_metadata)
  then show "\<exists>P' m'. P' w \<and> move_aside packages_root backup target m w = m' w \<and> ensures P' m' (\<lambda>_. seen Q) (seen R)"
  proof cases
    case dir
    then have "seen (\<lambda>d. P d \<and> solid d target) w"
      using w by (simp add: seen_def solid_def)
    moreover have "move_aside packages_root backup target m w =
        io_chain (or_code (fs_rename target (backup @ [pm_package_id m])) RecoveryRequiredE)
          (sync_directories [packages_root, backup]) w"
      using w kind dir by (simp add: move_aside_def seen_def seen_metadata)
    ultimately show ?thesis
      using aside by blast
  next
    case other
    moreover have "ensures (seen P) ?raise (\<lambda>_. seen Q) (seen R)"
      by (rule ensures_raise) (auto simp: seen_def R)
    ultimately show ?thesis
      using w by blast
  qed
qed

text \<open>The state of a package whose old content is set aside.\<close>

definition set_aside :: "files \<Rightarrow> group set \<Rightarrow> group \<Rightarrow> files \<Rightarrow> bool" where
  "set_aside d0 N g d \<longleftrightarrow> (case g of
     Swapped t b r s \<Rightarrow> tree d t = (\<lambda>_. None) \<and> tree d b = tree d0 t \<and> solid d b \<and> entry_at d r = None \<and>
       (g \<in> N \<longrightarrow> solid d s)
   | _ \<Rightarrow> False)"

lemma swapped_parallel:
  assumes "laid_out attempt gs" and "Swapped t b r s \<in> set gs"
  shows "parallel t b" "parallel b t" "parallel t r" "parallel r t" "parallel b r" "parallel r b"
    "parallel t s" "parallel s t" "parallel b s" "parallel s b" "parallel r s" "parallel s r"
    "t \<noteq> b" "b \<noteq> t" "t \<noteq> s" "s \<noteq> t"
  using assms unfolding laid_out_def by fastforce+

lemma rename_aside:
  assumes lay: "laid_out attempt gs" and g: "g = Swapped t b r s" "g \<in> W" "W \<subseteq> set gs"
  shows "ensures (seen (\<lambda>d. forward d0 attempt gs N W d \<and> solid d t)) (fs_rename t b)
    (\<lambda>_. seen (\<lambda>d. forward d0 attempt gs N (W - {g}) d \<and> set_aside d0 N g d))
    (seen (\<lambda>d. forward d0 attempt gs N W d \<and> solid d t))"
proof (rule forward_rename [OF lay])
  show "g \<in> set gs" "t \<in> set (places g)" "b \<in> set (places g)"
    using g by auto
  note par = swapped_parallel [OF lay \<open>g \<in> set gs\<close> [unfolded g(1)]]
  show "t \<noteq> b"
    by (fact par)
  fix d
  assume d: "forward d0 attempt gs N W d" "solid d t"
  then have "waiting d0 d g" "g \<in> N \<longrightarrow> new_there d g"
    using g(2) by (simp_all add: forward_def)
  with d show "group_ok d0 (move_tree t b d) g \<and> set_aside d0 N g (move_tree t b d)"
    by (simp add: g(1) set_aside_def tree_move par solid_move)
qed

lemma rename_published:
  assumes lay: "laid_out attempt gs" and g: "g = Swapped t b r s" "g \<in> set gs"
  shows "ensures (seen (\<lambda>d. forward d0 attempt gs N W d \<and> set_aside d0 N g d \<and> g \<in> N)) (fs_rename s t)
    (\<lambda>_. seen (forward d0 attempt gs N (W - {g})))
    (seen (\<lambda>d. forward d0 attempt gs N W d \<and> set_aside d0 N g d \<and> g \<in> N))"
proof -
  note par = swapped_parallel [OF lay g(2) [unfolded g(1)]]
  have "ensures (seen (\<lambda>d. forward d0 attempt gs N W d \<and> set_aside d0 N g d \<and> g \<in> N)) (fs_rename s t)
      (\<lambda>_. seen (\<lambda>d. forward d0 attempt gs N (W - {g}) d \<and> True))
      (seen (\<lambda>d. forward d0 attempt gs N W d \<and> set_aside d0 N g d \<and> g \<in> N))"
  proof (rule forward_rename [OF lay g(2)])
    show "s \<in> set (places g)" "t \<in> set (places g)" "s \<noteq> t"
      using par by (simp_all add: g(1))
    fix d
    assume "set_aside d0 N g d \<and> g \<in> N"
    then show "group_ok d0 (move_tree s t d) g \<and> True"
      by (simp add: g(1) set_aside_def tree_move par solid_move)
  qed
  then show ?thesis by simp
qed

lemma replace_one_keeps:
  assumes lay: "laid_out attempt gs"
    and wf: "\<And>t. entry_at d0 (packages_dir root @ [t]) = None \<Longrightarrow> tree d0 (packages_dir root @ [t]) = (\<lambda>_. None)"
    and W: "mutation_group root attempt plan m \<in> W" "W \<subseteq> set gs"
    and m: "\<not> legacy_handled plan m"
    and N: "pm_kind m \<noteq> RemovePackage \<Longrightarrow> mutation_group root attempt plan m \<in> N"
  shows "ensures (seen (forward d0 attempt gs N W))
    (replace_one (packages_dir root) (attempt @ [''staging'']) (attempt @ [''backup'']) plan m)
    (\<lambda>_. seen (forward d0 attempt gs N (W - {mutation_group root attempt plan m})))
    (seen (recoverable d0 attempt gs {}))"
proof -
  let ?t = "packages_dir root @ [pm_package_id m]" and ?s = "attempt @ [''staging'', pm_package_id m]"
    and ?b = "attempt @ [''backup'', pm_package_id m]" and ?r = "rolled_dir attempt @ [pm_package_id m]"
  let ?g = "mutation_group root attempt plan m" and ?R = "seen (recoverable d0 attempt gs {})"
  let ?post = "seen (forward d0 attempt gs N (W - {?g}))"
  have sync1: "ensures ?post (or_code (fs_sync p) c) (\<lambda>_. ?post) ?R" for p c
    by (rule seen_code, rule seen_fs_sync, rule forward_recoverable)
  have sync2: "ensures ?post (sync_directories ps) (\<lambda>_. ?post) ?R" for ps
    by (rule seen_sync, rule forward_recoverable)
  have run: "replace_one (packages_dir root) (attempt @ [''staging'']) (attempt @ [''backup'']) plan m =
      io_chain (move_aside (packages_dir root) (attempt @ [''backup'']) ?t m)
        (io_chain (if pm_kind m = RemovePackage then io_return ()
           else io_chain (or_code (fs_rename ?s ?t) RecoveryRequiredE)
             (sync_directories [packages_dir root, attempt @ [''staging'']]))
          (or_code (fs_sync (packages_dir root)) RecoveryRequiredE))"
    using m by (simp add: replace_one_def Let_def)
  show ?thesis
  proof (cases "pm_kind m = InstallPackage")
    case True
    then have g: "?g = Fresh ?t ?r ?s"
      using m by (simp add: mutation_group_def Let_def)
    have mem: "Fresh ?t ?r ?s \<in> set gs"
      using W g by auto
    have par: "parallel ?t ?r" "parallel ?r ?t" "parallel ?t ?s" "parallel ?s ?t" "parallel ?r ?s" "parallel ?s ?r" "?s \<noteq> ?t"
      using lay mem unfolding laid_out_def by fastforce+
    have "ensures (seen (\<lambda>d. forward d0 attempt gs N W d \<and> entry_at d ?t = None)) (or_code (fs_rename ?s ?t) RecoveryRequiredE)
        (\<lambda>_. seen (\<lambda>d. forward d0 attempt gs N (W - {?g}) d \<and> True)) ?R"
    proof (rule forward_rename_code [OF lay])
      show "?g \<in> set gs" "?s \<in> set (places ?g)" "?t \<in> set (places ?g)" "?s \<noteq> ?t"
        using mem par by (simp_all add: g)
      fix d
      assume d: "forward d0 attempt gs N W d" "entry_at d ?t = None"
      then have w: "waiting d0 d ?g"
        using W(1) by (simp add: forward_def)
      then have "entry_at d0 ?t = None"
        using d(2) by (simp add: g) (metis tree_root)
      then have "tree d0 ?t = (\<lambda>_. None)"
        by (rule wf)
      with w show "group_ok d0 (move_tree ?s ?t d) ?g \<and> True"
        by (simp add: g tree_move par solid_move)
    qed
    then have publish: "ensures (seen (\<lambda>d. forward d0 attempt gs N W d \<and> entry_at d ?t = None))
        (or_code (fs_rename ?s ?t) RecoveryRequiredE) (\<lambda>_. ?post) ?R"
      by simp
    have "ensures (seen (forward d0 attempt gs N W)) (io_chain (move_aside (packages_dir root) (attempt @ [''backup'']) ?t m)
        (io_chain (io_chain (or_code (fs_rename ?s ?t) RecoveryRequiredE)
            (sync_directories [packages_dir root, attempt @ [''staging'']]))
          (or_code (fs_sync (packages_dir root)) RecoveryRequiredE))) (\<lambda>_. ?post) ?R"
      by (rule seen_chain [OF move_aside_install [OF True] seen_chain [OF seen_chain [OF publish sync2] sync1]])
    with True show ?thesis
      by (simp add: run)
  next
    case False
    then have g: "?g = Swapped ?t ?b ?r ?s"
      using m by (simp add: mutation_group_def Let_def)
    have mem: "?g \<in> set gs"
      using W by auto
    let ?aside = "\<lambda>d. forward d0 attempt gs N (W - {?g}) d \<and> set_aside d0 N ?g d"
    have aside_less: "recoverable d0 attempt gs {} d" if "?aside d" for d
      using that forward_recoverable by blast
    have "ensures (seen (\<lambda>d. forward d0 attempt gs N W d \<and> solid d ?t)) (or_code (fs_rename ?t ?b) RecoveryRequiredE)
        (\<lambda>_. seen ?aside) ?R"
      by (rule seen_code, rule ensures_seen [OF rename_aside [OF lay g W]]) (auto intro: forward_recoverable)
    then have aside: "ensures (seen (\<lambda>d. forward d0 attempt gs N W d \<and> solid d ?t))
        (io_chain (or_code (fs_rename ?t ?b) RecoveryRequiredE) (sync_directories [packages_dir root, attempt @ [''backup'']]))
        (\<lambda>_. seen ?aside) ?R"
      by (rule seen_chain [OF _ seen_sync]) (rule aside_less)
    have first: "ensures (seen (forward d0 attempt gs N W)) (move_aside (packages_dir root) (attempt @ [''backup'']) ?t m)
        (\<lambda>_. seen ?aside) ?R"
      by (rule move_aside_swap [OF False _ forward_recoverable]) (use aside in simp_all)
    have publish: "ensures (seen ?aside) (if pm_kind m = RemovePackage then io_return ()
         else io_chain (or_code (fs_rename ?s ?t) RecoveryRequiredE)
           (sync_directories [packages_dir root, attempt @ [''staging'']])) (\<lambda>_. ?post) ?R"
    proof (rule ensures_if)
      show "ensures (seen ?aside) (io_return ()) (\<lambda>_. ?post) ?R"
        by (rule ensures_return) (auto simp: seen_def)
      assume "pm_kind m \<noteq> RemovePackage"
      then have "?g \<in> N" by (rule N)
      then have "ensures (seen ?aside) (or_code (fs_rename ?s ?t) RecoveryRequiredE) (\<lambda>_. ?post) ?R"
        by (intro seen_code ensures_seen [OF rename_published [OF lay g mem, where W = "W - {?g}" and N = N]])
          (auto intro: forward_recoverable forward_less)
      then show "ensures (seen ?aside) (io_chain (or_code (fs_rename ?s ?t) RecoveryRequiredE)
           (sync_directories [packages_dir root, attempt @ [''staging'']])) (\<lambda>_. ?post) ?R"
        by (rule seen_chain [OF _ sync2])
    qed
    show ?thesis
      unfolding run by (rule seen_chain [OF first seen_chain [OF publish sync1]])
  qed
qed

text \<open>All packages of a plan, whose groups differ because the package ids do.\<close>

lemma mutation_group_inject:
  "mutation_group root attempt plan m = mutation_group root attempt plan m' \<Longrightarrow> pm_package_id m = pm_package_id m'"
  by (auto simp: mutation_group_def Let_def split: if_splits)

lemma forward_loop:
  assumes "\<And>x W. x \<in> set xs \<Longrightarrow> h x \<in> W \<Longrightarrow> W \<subseteq> Wall \<Longrightarrow>
      ensures (seen (forward d0 attempt gs N W)) (f x) (\<lambda>_. seen (forward d0 attempt gs N (W - {h x}))) R"
    and "distinct (map h xs)" and "\<And>x. x \<in> set xs \<Longrightarrow> h x \<in> W" and "W \<subseteq> Wall"
  shows "ensures (seen (forward d0 attempt gs N W)) (io_each f xs)
    (\<lambda>_. seen (forward d0 attempt gs N (W - h ` set xs))) R"
  using assms
proof (induction xs arbitrary: W)
  case Nil
  then show ?case by (simp add: ensures_return)
next
  case (Cons x xs)
  have "ensures (seen (forward d0 attempt gs N (W - {h x}))) (io_each f xs)
      (\<lambda>_. seen (forward d0 attempt gs N (W - {h x} - h ` set xs))) R"
  proof (rule Cons.IH)
    show "h y \<in> W - {h x}" if "y \<in> set xs" for y
      using Cons.prems(2,3) that by (metis DiffI distinct.simps(2) image_eqI list.set_intros(2) list.set_map list.simps(9) singletonD)
    show "W - {h x} \<subseteq> Wall"
      using Cons.prems(4) by blast
  qed (use Cons.prems(1,2) in auto)
  moreover have "W - {h x} - h ` set xs = W - h ` set (x # xs)"
    by auto
  ultimately have rest: "ensures (seen (forward d0 attempt gs N (W - {h x}))) (io_each f xs)
      (\<lambda>_. seen (forward d0 attempt gs N (W - h ` set (x # xs)))) R"
    by simp
  show ?case
    unfolding io_each.simps by (rule ensures_then [OF Cons.prems(1) rest]) (use Cons.prems in auto)
qed

lemma replace_packages_keeps:
  assumes lay: "laid_out attempt gs" and wf: "\<And>t. entry_at d0 (packages_dir root @ [t]) = None \<Longrightarrow>
      tree d0 (packages_dir root @ [t]) = (\<lambda>_. None)"
    and ids: "distinct (map pm_package_id (cs_mutations (pl_change_set plan)))"
    and W: "W \<subseteq> set gs" "\<And>m. m \<in> set (cs_mutations (pl_change_set plan)) \<Longrightarrow> mutation_group root attempt plan m \<in> W"
    and N: "\<And>m. m \<in> set (cs_mutations (pl_change_set plan)) \<Longrightarrow> pm_kind m \<noteq> RemovePackage \<Longrightarrow>
      mutation_group root attempt plan m \<in> N"
  shows "ensures (seen (forward d0 attempt gs N W))
    (replace_packages (packages_dir root) (attempt @ [''staging'']) (attempt @ [''backup'']) plan)
    (\<lambda>_. seen (forward d0 attempt gs N (W - mutation_group root attempt plan ` set (cs_mutations (pl_change_set plan)))))
    (seen (recoverable d0 attempt gs {}))"
  unfolding replace_packages_def
proof (rule forward_loop [where Wall = "set gs"])
  fix m W
  assume m: "m \<in> set (cs_mutations (pl_change_set plan))" and
    W: "mutation_group root attempt plan m \<in> W" "W \<subseteq> set gs"
  show "ensures (seen (forward d0 attempt gs N W))
      (replace_one (packages_dir root) (attempt @ [''staging'']) (attempt @ [''backup'']) plan m)
      (\<lambda>_. seen (forward d0 attempt gs N (W - {mutation_group root attempt plan m})))
      (seen (recoverable d0 attempt gs {}))"
  proof (cases "legacy_handled plan m")
    case True
    then show ?thesis
      by (auto simp: replace_one_def Let_def seen_def intro!: ensures_reads intro: forward_recoverable forward_less)
  next
    case False
    then show ?thesis
      using W m by (intro replace_one_keeps [OF lay wf _ W(2) False N]) auto
  qed
next
  show "distinct (map (mutation_group root attempt plan) (cs_mutations (pl_change_set plan)))"
    using ids mutation_group_inject unfolding distinct_map inj_on_def by blast
qed (use W in auto)

section \<open>Committing the manifest\<close>

lemma commit_manifest_keeps:
  assumes lay: "laid_out attempt gs" and g: "manifest_group root attempt \<in> W" "W \<subseteq> set gs"
    "manifest_group root attempt \<in> N" and solid: "solid d0 (vpm_manifest_path root)"
  shows "ensures (seen (forward d0 attempt gs N W)) (commit_manifest (vpm_manifest_path root) attempt)
    (\<lambda>_. seen (forward d0 attempt gs N (W - {manifest_group root attempt}))) (seen (recoverable d0 attempt gs {}))"
proof -
  let ?t = "vpm_manifest_path root" and ?b = "attempt @ [''vpm-manifest.commit-old'']"
    and ?r = "rolled_dir attempt @ [''vpm-manifest.new'']" and ?s = "attempt @ [''vpm-manifest.new'']"
  let ?g = "manifest_group root attempt" and ?R = "seen (recoverable d0 attempt gs {})"
  let ?post = "seen (forward d0 attempt gs N (W - {?g}))"
  let ?aside = "\<lambda>d. forward d0 attempt gs N (W - {?g}) d \<and> set_aside d0 N ?g d \<and> ?g \<in> N"
  have G: "?g = Swapped ?t ?b ?r ?s"
    by (simp add: manifest_group_def)
  have mem: "?g \<in> set gs"
    using g by auto
  note par = swapped_parallel [OF lay mem [unfolded G]]
  have "ensures (seen (\<lambda>d. forward d0 attempt gs N W d \<and> solid d ?t)) (or_code (fs_rename ?t ?b) RecoveryRequiredE)
      (\<lambda>_. seen ?aside) ?R"
    by (rule seen_code, rule ensures_seen [OF rename_aside [OF lay G g(1,2)]])
      (use g(3) in \<open>auto intro: forward_recoverable\<close>)
  then have first: "ensures (seen (forward d0 attempt gs N W)) (or_code (fs_rename ?t ?b) RecoveryRequiredE)
      (\<lambda>_. seen ?aside) ?R"
  proof (rule ensures_seen)
    fix d
    assume d: "forward d0 attempt gs N W d"
    then have "tree d ?t = tree d0 ?t"
      using g(1) by (auto simp: forward_def G)
    with d solid show "forward d0 attempt gs N W d \<and> solid d ?t"
      by (metis same_tree)
  qed auto
  have sync: "ensures ?post (or_code (fs_sync p) c) (\<lambda>_. ?post) ?R" for p c
    by (rule seen_code, rule seen_fs_sync, rule forward_recoverable)
  have undo: "ensures (seen ?aside) (fs_rename ?b ?t) (\<lambda>_. seen (\<lambda>d. forward d0 attempt gs N (W - {?g} - {?g}) d \<and> True)) (seen ?aside)"
    by (rule forward_rename [OF lay mem]) (use par in \<open>auto simp: G set_aside_def tree_move solid_move\<close>)
  have failed: "ensures (seen ?aside) (io_match (fs_rename ?b ?t) (\<lambda>_. io_raise e) (\<lambda>_. io_raise e)) (\<lambda>_. ?post) ?R" for e
    by (rule ensures_match_with [OF undo])
      (auto intro!: ensures_raise simp: seen_def intro: forward_recoverable)
  show ?thesis
    unfolding commit_manifest_def Let_def
  proof (rule seen_chain [OF first])
    show "ensures (seen ?aside) (io_match (fs_rename ?s ?t)
        (\<lambda>_. or_code (fs_sync (butlast ?t)) RecoveryRequiredE)
        (\<lambda>_. io_match (fs_rename ?b ?t) (\<lambda>_. io_raise (m4_new RecoveryRequiredE)) (\<lambda>_. io_raise (m4_new RecoveryRequiredE))))
        (\<lambda>_. ?post) ?R"
    proof (rule ensures_match_with [OF rename_published [OF lay G mem]])
      show "ensures (seen (forward d0 attempt gs N (W - {?g} - {?g}))) (or_code (fs_sync (butlast ?t)) RecoveryRequiredE) (\<lambda>_. ?post) ?R"
        using sync by simp
    qed (use failed in \<open>auto simp: seen_def intro: forward_recoverable\<close>)
  qed
qed

section \<open>Quarantining legacy assets\<close>

lemma vaulted_parallel:
  assumes "laid_out attempt gs" and "Vaulted t v \<in> set gs"
  shows "parallel t v" "parallel v t" "t \<noteq> v" "v \<noteq> t" "\<not> prefix t (butlast v)" "\<not> prefix v (butlast v)"
  using assms unfolding laid_out_def by fastforce+

lemma removal_slot_vault: "butlast (removal_slot attempt i) = legacy_vault attempt"
  by (simp add: removal_slot_def butlast_append)

lemma quarantine_one_keeps:
  assumes lay: "laid_out attempt gs" and W: "\<And>t. removal_target root r = Inr t \<Longrightarrow> Vaulted t (removal_slot attempt i) \<in> W"
    "W \<subseteq> set gs" and verify: "\<And>p r. reads_only (en_verify_removal G p r)"
  shows "ensures (seen (forward d0 attempt gs N W)) (quarantine_one G root attempt (i, r))
    (\<lambda>_. seen (forward d0 attempt gs N (W - set (removal_groups root attempt (i, r))))) (seen (recoverable d0 attempt gs {}))"
proof -
  let ?v = "removal_slot attempt i" and ?R = "seen (recoverable d0 attempt gs {})"
  let ?pre = "seen (forward d0 attempt gs N W)"
  have fr: "recoverable d0 attempt gs {} d" if "forward d0 attempt gs N X d" for X d
    using that by (rule forward_recoverable)
  have steps: "ensures ?pre (quarantine_at G root attempt ?v r t)
      (\<lambda>_. seen (forward d0 attempt gs N (W - {Vaulted t ?v}))) ?R"
    if t: "removal_target root r = Inr t" for t
  proof -
    let ?g = "Vaulted t ?v"
    let ?post = "seen (forward d0 attempt gs N (W - {?g}))"
    have g: "?g \<in> W" "?g \<in> set gs"
      using W t by auto
    note par = vaulted_parallel [OF lay g(2)]
    have move: "ensures (seen (\<lambda>d. forward d0 attempt gs N W d \<and> True)) (publish_no_replace t ?v)
        (\<lambda>_. seen (\<lambda>d. forward d0 attempt gs N (W - {?g}) d \<and> True)) ?R"
    proof (rule forward_publish [OF lay g(2)])
      fix d
      assume d: "forward d0 attempt gs N W d" "entry_at d t \<noteq> None" "has_parent d ?v"
      then have "tree d t = tree d0 t"
        using g(1) by (auto simp: forward_def)
      moreover have "entry_at (move_tree t ?v d) (butlast ?v) = entry_at d (butlast ?v)"
        using par by (simp add: entry_at_move)
      ultimately show "group_ok d0 (move_tree t ?v d) ?g \<and> True"
        using d par by (simp add: tree_move solid_move has_parent_def)
    qed (use par in auto)
    have unmove: "ensures (seen (\<lambda>d. forward d0 attempt gs N (W - {?g}) d \<and> True)) (publish_no_replace ?v t)
        (\<lambda>_. seen (\<lambda>d. forward d0 attempt gs N (W - {?g} - {?g}) d \<and> True)) ?R"
    proof (rule forward_publish [OF lay g(2)])
      fix d
      assume d: "forward d0 attempt gs N (W - {?g}) d" "entry_at d ?v \<noteq> None"
      then have "group_ok d0 d ?g"
        using g(2) by (simp only: forward_def recoverable_def)
      with d show "group_ok d0 (move_tree ?v t d) ?g \<and> True"
        using par by (auto simp: tree_move solid_move)
    qed (use par in auto)
    have undo: "ensures ?post (io_chain (checked_boundary root ?v (Some RecoveryRequiredE))
        (io_chain (checked_boundary root (butlast t) (Some RecoveryRequiredE))
        (io_chain (publish_no_replace ?v t)
        (io_chain (sync_directories [butlast t, legacy_vault attempt]) (stale reason))))) (\<lambda>_. ?post) ?R" for reason
    proof (rule seen_chain [OF seen_boundary seen_chain [OF seen_boundary seen_chain [OF unmove [simplified] seen_chain [OF seen_sync]]]])
      show "ensures ?post (stale reason) (\<lambda>_. ?post) ?R"
        unfolding stale_def by (rule ensures_raise) (auto simp: seen_def intro: fr)
    qed (use fr in blast)+
    have check: "ensures ?post (io_match (en_verify_removal G ?v r) io_return (\<lambda>_.
        io_chain (checked_boundary root ?v (Some RecoveryRequiredE))
        (io_chain (checked_boundary root (butlast t) (Some RecoveryRequiredE))
        (io_chain (publish_no_replace ?v t)
        (io_chain (sync_directories [butlast t, legacy_vault attempt]) (stale reason)))))) (\<lambda>_. ?post) ?R" for reason
      by (rule ensures_match_with [OF seen_reads_only [OF verify] _ _ undo])
        (auto intro!: ensures_return simp: seen_def intro: fr)
    show ?thesis
      unfolding quarantine_at_def Let_def
      by (rule seen_chain [OF seen_boundary seen_chain [OF seen_reads_only [OF verify]
            seen_chain [OF move [simplified] seen_chain [OF seen_sync check]]]]) (use fr in blast)+
  qed
  show ?thesis
    unfolding quarantine_one_def prod.case
  proof (rule ensures_then)
    show "ensures ?pre (io_sum (removal_target root r))
        (\<lambda>t. seen (\<lambda>d. forward d0 attempt gs N W d \<and> removal_target root r = Inr t)) ?R"
      by (rule seen_sum) (use fr in auto)
    show "ensures (seen (\<lambda>d. forward d0 attempt gs N W d \<and> removal_target root r = Inr t))
       (quarantine_at G root attempt ?v r t)
       (\<lambda>_. seen (forward d0 attempt gs N (W - set (removal_groups root attempt (i, r))))) ?R" for t
    proof (cases "removal_target root r = Inr t")
      case True
      then show ?thesis
        by (intro ensures_seen [OF steps [OF True]]) (auto simp: removal_groups_def)
    qed (auto simp: ensures_def seen_def)
  qed
qed

lemma forward_put_entry:
  assumes under: "attempt_under root attempt" and fwd: "forward d0 attempt (plan_groups root attempt plan) N W d"
    and x: "x \<noteq> ''vpm-manifest.commit-old''" "x \<noteq> ''vpm-manifest.new''" "x \<noteq> ''legacy-backup'' \<or> n = Directory"
  shows "forward d0 attempt (plan_groups root attempt plan) N W (put_entry (attempt @ [x]) n d)"
proof -
  have "tree (put_entry (attempt @ [x]) n d) q = tree d q"
    if "g \<in> set (plan_groups root attempt plan)" "q \<in> set (places g)" for g q
  proof (rule ext)
    fix r
    have "q @ r \<noteq> attempt @ [x]"
      using plan_clear [OF under that x(1,2)] by (metis prefixI)
    then show "tree (put_entry (attempt @ [x]) n d) q r = tree d q r"
      by (simp add: tree_def put_entry_def)
  qed
  then show ?thesis
    using fwd put_plan_entry [OF under _ x] waiting_same unfolding forward_def by (meson subsetD)
qed

lemma quarantine_legacy_keeps:
  assumes under: "attempt_under root attempt" and ok: "plan_places_ok root plan"
    and W: "\<And>x. x \<in> set (enumerate 0 (cs_legacy_removals (pl_change_set plan))) \<Longrightarrow>
      set (removal_groups root attempt x) \<subseteq> W" "W \<subseteq> set (plan_groups root attempt plan)"
    and verify: "\<And>p r. reads_only (en_verify_removal G p r)"
  defines "gs \<equiv> plan_groups root attempt plan"
  shows "ensures (seen (forward d0 attempt gs N W)) (quarantine_legacy G root attempt plan)
    (\<lambda>_. seen (forward d0 attempt gs N (W - (\<Union>x \<in> set (enumerate 0 (cs_legacy_removals (pl_change_set plan))).
       set (removal_groups root attempt x))))) (seen (recoverable d0 attempt gs {}))"
proof -
  let ?rs = "cs_legacy_removals (pl_change_set plan)" and ?R = "seen (recoverable d0 attempt gs {})"
  have lay: "laid_out attempt gs"
    unfolding gs_def by (rule plan_laid_out [OF under ok])
  have fr: "recoverable d0 attempt gs {} d" if "forward d0 attempt gs N X d" for X d
    using that by (rule forward_recoverable)
  have loop: "ensures (seen (forward d0 attempt gs N W)) (io_each (quarantine_one G root attempt) xs)
      (\<lambda>_. seen (forward d0 attempt gs N (W - (\<Union>x \<in> set xs. set (removal_groups root attempt x))))) ?R"
    if "\<And>x. x \<in> set xs \<Longrightarrow> set (removal_groups root attempt x) \<subseteq> W" "W \<subseteq> set gs" "distinct (map fst xs)" for xs W
    using that
  proof (induction xs arbitrary: W)
    case Nil
    then show ?case by (simp add: ensures_return)
  next
    case (Cons x xs)
    let ?W = "W - set (removal_groups root attempt x)"
    have first: "ensures (seen (forward d0 attempt gs N W)) (quarantine_one G root attempt x)
        (\<lambda>_. seen (forward d0 attempt gs N ?W)) ?R"
    proof -
      have "Vaulted t (removal_slot attempt (fst x)) \<in> W" if "removal_target root (snd x) = Inr t" for t
        using Cons.prems(1) [of x] that removal_groups_member [of _ root attempt x] by auto
      then have "ensures (seen (forward d0 attempt gs N W)) (quarantine_one G root attempt (fst x, snd x))
          (\<lambda>_. seen (forward d0 attempt gs N (W - set (removal_groups root attempt (fst x, snd x))))) ?R"
        by (intro quarantine_one_keeps [OF lay _ Cons.prems(2) verify]) auto
      then show ?thesis by simp
    qed
    have "ensures (seen (forward d0 attempt gs N ?W)) (io_each (quarantine_one G root attempt) xs)
        (\<lambda>_. seen (forward d0 attempt gs N (?W - (\<Union>x \<in> set xs. set (removal_groups root attempt x))))) ?R"
    proof (rule Cons.IH)
      fix y
      assume y: "y \<in> set xs"
      then have "fst y \<in> fst ` set xs"
        by simp
      then have "fst y \<noteq> fst x"
        using Cons.prems(3) by (metis distinct.simps(2) list.map(2) set_map)
      then have "g \<notin> set (removal_groups root attempt x)" if "g \<in> set (removal_groups root attempt y)" for g
        using that show_nat_inject by (auto simp: removal_groups_member removal_slot_def)
      then show "set (removal_groups root attempt y) \<subseteq> ?W"
        using Cons.prems(1) y by fastforce
    qed (use Cons.prems in auto)
    moreover have "?W - (\<Union>x \<in> set xs. set (removal_groups root attempt x)) =
        W - (\<Union>x \<in> set (x # xs). set (removal_groups root attempt x))"
      by auto
    ultimately show ?case
      unfolding io_each.simps using ensures_then [OF first] by simp
  qed
  have create: "ensures (seen (forward d0 attempt gs N W)) (or_code (fs_create_dir (legacy_vault attempt)) RecoveryRequiredE)
      (\<lambda>_. seen (forward d0 attempt gs N W)) ?R"
    unfolding fs_create_dir_def
  proof (rule seen_code, rule seen_call)
    fix d d'
    assume "forward d0 attempt gs N W d" and "do_create Directory (legacy_vault attempt) d = Inr d'"
    then show "forward d0 attempt gs N W d'"
      using forward_put_entry [OF under, where x = "''legacy-backup''" and n = Directory]
      by (auto simp: gs_def do_create_def legacy_vault_def split: if_splits)
  qed (auto intro: fr)
  show ?thesis
  proof (cases "?rs = []")
    case True
    then show ?thesis
      by (simp add: quarantine_legacy_def Let_def ensures_return)
  next
    case False
    have "ensures (seen (forward d0 attempt gs N W)) (io_chain (checked_boundary root attempt None)
        (io_chain (or_code (fs_create_dir (legacy_vault attempt)) RecoveryRequiredE)
        (io_chain (sync_directories [attempt]) (io_each (quarantine_one G root attempt) (enumerate 0 ?rs)))))
      (\<lambda>_. seen (forward d0 attempt gs N (W - (\<Union>x \<in> set (enumerate 0 ?rs). set (removal_groups root attempt x))))) ?R"
      by (rule seen_chain [OF seen_boundary seen_chain [OF create seen_chain [OF seen_sync loop]]])
        (use W fr in \<open>auto simp: gs_def\<close>)
    with False show ?thesis
      by (simp add: quarantine_legacy_def Let_def)
  qed
qed

end
