(* ===== verification/TransactionMarkers.thy ===== *)
theory TransactionMarkers
  imports TransactionForward
begin

text \<open>
  The markers of an attempt: the latest one by name is the one written last, it is read back as it was
  written, and nothing but \<open>write_marker\<close> touches a marker.
\<close>

section \<open>Names in order\<close>

lemma dec_value_Cons: "dec_value (c # s) = (byte c - 48) * 10 ^ length s + dec_value s"
proof (induction s rule: rev_induct)
  case (snoc x s)
  have "dec_value (c # s @ [x]) = 10 * dec_value (c # s) + (byte x - 48)"
    using dec_value_snoc [of "c # s"] by simp
  then show ?case
    by (simp add: snoc dec_value_snoc algebra_simps)
qed (simp add: dec_value_def)

lemma digits_less:
  "length s = length t \<Longrightarrow> list_all is_ascii_digit s \<Longrightarrow> list_all is_ascii_digit t \<Longrightarrow>
    dec_value s < dec_value t \<Longrightarrow> s < t"
proof (induction s t rule: list_induct2)
  case (Cons c s d t)
  have bounds: "dec_value s < 10 ^ length s" "dec_value t < 10 ^ length s"
    using Cons.prems Cons.hyps dec_value_bound [of s] dec_value_bound [of t] by auto
  have digits: "48 \<le> (byte c :: nat)" "48 \<le> (byte d :: nat)"
    using Cons.prems by (auto simp: is_ascii_digit_def)
  have "\<not> (byte d :: nat) < byte c"
  proof
    assume "(byte d :: nat) < byte c"
    then have "byte d - 48 + 1 \<le> (byte c - 48 :: nat)"
      using digits by simp
    then have "(byte d - 48 + 1) * 10 ^ length s \<le> (byte c - 48 :: nat) * 10 ^ length s"
      by (rule mult_le_mono1)
    with Cons.prems(3) bounds Cons.hyps show False
      by (simp add: dec_value_Cons)
  qed
  then consider "c < d" | "c = d"
    by (auto simp: less_char_def) (metis antisym_conv3 of_char_eq_iff)
  then show ?case
    using Cons by cases (auto simp: dec_value_Cons)
qed simp

lemma show_nat_length: "n < 10 ^ Suc k \<Longrightarrow> length (show_nat n) \<le> Suc k"
proof (induction k arbitrary: n)
  case (Suc k)
  then have "n div 10 < 10 ^ Suc k"
    by (simp add: less_mult_imp_div_less mult.commute)
  with Suc.IH show ?case
    by (subst show_nat.simps) simp
qed (subst show_nat.simps, simp)

lemma dec_value_zeros: "dec_value (replicate n (CHR ''0'') @ s) = dec_value s"
  by (induction n) (simp_all add: dec_value_Cons)

lemma pad20_digits:
  assumes "n < 10 ^ 20"
  shows "length (pad20 n) = 20" and "list_all is_ascii_digit (pad20 n)" and "dec_value (pad20 n) = n"
  using show_nat_length [of n 19] assms show_nat_digits [of n]
  by (auto simp: pad20_def dec_value_zeros list_all_iff is_ascii_digit_def)

lemma less_same_front: "p @ s < p @ t \<longleftrightarrow> s < (t :: string)"
  by (induction p) auto

lemma less_same_length: "length s = length t \<Longrightarrow> s < t \<Longrightarrow> s @ u < t @ (u :: string)"
  by (induction s t rule: list_induct2) auto

lemma unat_decimal: "unat (w :: u64) < 10 ^ 20"
proof -
  have "unat w < 2 ^ 64"
    using unsigned_less [of w] by simp
  also have "(2 :: nat) ^ 64 \<le> 10 ^ 20" by simp
  finally show ?thesis .
qed

lemma marker_name_less: "unat s < unat t \<Longrightarrow> marker_name s < marker_name t"
  unfolding marker_name_def less_same_front
  by (intro less_same_length digits_less) (simp_all add: pad20_digits [OF unat_decimal])

lemma marker_name_is: "is_marker_name (marker_name s)"
  by (auto simp: is_marker_name_def starts_with_def marker_name_def suffix_def)

lemma marker_name_inject: "marker_name s = marker_name t \<longleftrightarrow> s = t"
  by (metis less_irrefl marker_name_less neqE word_unat_eq_iff)

section \<open>The latest marker\<close>

definition marker_in :: "('s, 'c) engine \<Rightarrow> path \<Rightarrow> files \<Rightarrow> attempt_marker option" where
  "marker_in G a d = (case latest (filter is_marker_name (names_in d a)) of
     None \<Rightarrow> None
   | Some n \<Rightarrow> (case entry_at d (a @ [n]) of
       Some (File bytes) \<Rightarrow> if length bytes > 65536 then None
         else (case en_marker_read G bytes of
           Some m \<Rightarrow> if am_version m = 1 then Some m else None
         | None \<Rightarrow> None)
     | _ \<Rightarrow> None))"

lemma names_in_iff: "n \<in> set (names_in d a) \<longleftrightarrow> entry_at d (a @ [n]) \<noteq> None"
  by (force simp: names_in_def map_of_eq_None_iff image_iff)

lemma latest_Max: "latest names = (if names = [] then None else Some (Max (set names)))"
  by (auto simp: latest_def Max.set_eq_fold [symmetric] split: list.split)

lemma latest_in: "latest names = Some n \<Longrightarrow> n \<in> set names"
  unfolding latest_Max by (metis List.finite_set Max_in option.distinct(1) option.inject set_empty)

text \<open>The attempt itself and its markers: what \<open>write_marker\<close> may change and nothing else.\<close>

definition watched :: "path \<Rightarrow> bool" where
  "watched q \<longleftrightarrow> q = [] \<or> (\<exists>n. q = [n] \<and> is_marker_name n)"

definition view :: "path \<Rightarrow> files \<Rightarrow> path \<Rightarrow> node option" where
  "view a d = (\<lambda>q. if watched q then entry_at d (a @ q) else None)"

lemma marker_in_view:
  assumes "view a d = view a d'"
  shows "marker_in G a d = marker_in G a d'"
proof -
  have same: "entry_at d (a @ [n]) = entry_at d' (a @ [n])" if "is_marker_name n" for n
    using fun_cong [OF assms, of "[n]"] that by (simp add: view_def watched_def)
  then have sets: "set (filter is_marker_name (names_in d a)) = set (filter is_marker_name (names_in d' a))"
    by (auto simp: names_in_iff)
  then have latest: "latest (filter is_marker_name (names_in d a)) = latest (filter is_marker_name (names_in d' a))"
    unfolding latest_Max by (metis set_empty)
  show ?thesis
  proof (cases "latest (filter is_marker_name (names_in d' a))")
    case None
    then show ?thesis
      by (simp add: marker_in_def latest)
  next
    case (Some n)
    then have "is_marker_name n"
      using latest_in by fastforce
    with Some same show ?thesis
      by (simp add: marker_in_def latest)
  qed
qed

section \<open>What a computation preserves\<close>

text \<open>Whatever happens, the value of \<open>f\<close> on the files is the same afterwards.\<close>

definition preserves :: "(files \<Rightarrow> 'f) \<Rightarrow> ('a, 'e, 'b world_scheme) io \<Rightarrow> bool" where
  "preserves f m \<longleftrightarrow> (\<forall>w. f (disk (snd (m w))) = f (disk w) \<and> unreadable (snd (m w)) = unreadable w)"

named_theorems keeps \<open>computations that preserve a part of the files\<close>

lemma preserves_seen:
  assumes "preserves f m" and "\<And>d. P d \<Longrightarrow> f d = V"
  shows "ensures (seen P) m (\<lambda>_. seen (\<lambda>d. f d = V)) (seen (\<lambda>d. f d = V))"
proof (rule ensuresI)
  fix w s w'
  assume w: "seen P w" "m w = (Inl s, w')"
  then have "disk (snd (m w)) = disk w'" "unreadable (snd (m w)) = unreadable w'" by simp_all
  with assms w(1) show "seen (\<lambda>d. f d = V) w'"
    unfolding preserves_def seen_def by metis
next
  fix w x w'
  assume w: "seen P w" "m w = (Inr x, w')"
  then have "disk (snd (m w)) = disk w'" "unreadable (snd (m w)) = unreadable w'" by simp_all
  with assms w(1) show "seen (\<lambda>d. f d = V) w'"
    unfolding preserves_def seen_def by metis
qed

lemma reads_only_preserves: "reads_only m \<longleftrightarrow> preserves (\<lambda>d. d) m"
  by (simp add: reads_only_def preserves_def)

lemma preserves_reads_only: "reads_only m \<Longrightarrow> preserves f m"
  by (simp add: reads_only_def preserves_def)

lemma preserves_return [keeps]: "preserves f (io_return x)"
  by (simp add: preserves_def io_return_def)

lemma preserves_raise [keeps]: "preserves f (io_raise e)"
  by (simp add: preserves_def io_raise_def)

lemma preserves_reads [keeps]: "preserves f (io_reads g)"
  by (simp add: preserves_def io_reads_def split: sum.split)

lemma preserves_sum [keeps]: "preserves f (io_sum r)"
  by (simp add: io_sum_def preserves_reads)

lemma preserves_then [keeps]: "preserves f m \<Longrightarrow> (\<And>x. preserves f (n x)) \<Longrightarrow> preserves f (io_then m n)"
  unfolding preserves_def io_then_def by (auto split: prod.split sum.split) (metis snd_conv)+

lemma preserves_match [keeps]:
  "preserves f m \<Longrightarrow> (\<And>x. preserves f (n x)) \<Longrightarrow> (\<And>e. preserves f (h e)) \<Longrightarrow> preserves f (io_match m n h)"
  unfolding preserves_def io_match_def by (auto split: prod.split sum.split ending.split) (metis snd_conv)+

lemma preserves_map_err [keeps]: "preserves f m \<Longrightarrow> preserves f (io_map_err g m)"
  unfolding io_map_err_def by (intro keeps)

lemma preserves_code [keeps]: "preserves f m \<Longrightarrow> preserves f (or_code m c)"
  unfolding or_code_def by (intro keeps)

lemma preserves_chain [keeps]: "preserves f m \<Longrightarrow> preserves f n \<Longrightarrow> preserves f (io_chain m n)"
  unfolding io_chain_def by (intro keeps)

lemma preserves_ensure [keeps]: "preserves f (io_ensure c e)"
  by (simp add: io_ensure_def preserves_return preserves_raise)

lemma preserves_each [keeps]: "(\<And>x. x \<in> set xs \<Longrightarrow> preserves f (m x)) \<Longrightarrow> preserves f (io_each m xs)"
  by (induction xs) (auto intro!: keeps)

lemma preserves_if [keeps]: "(c \<Longrightarrow> preserves f m) \<Longrightarrow> (\<not> c \<Longrightarrow> preserves f n) \<Longrightarrow> preserves f (if c then m else n)"
  by simp

lemma preserves_branch [keeps]:
  "preserves f m \<Longrightarrow> preserves f n \<Longrightarrow> preserves f (\<lambda>w. if c w then m w else n w)"
  by (simp add: preserves_def)

lemma preserves_boundary [keeps]: "preserves f (checked_boundary root p c)"
  unfolding checked_boundary_def by (rule keeps)

lemma preserves_call:
  "(\<And>d d'. g d = Inr d' \<Longrightarrow> f d' = f d) \<Longrightarrow> (\<And>d n. f (part n d) = f d) \<Longrightarrow> preserves f (call_partial part g)"
  by (auto simp: preserves_def call_partial_def next_fate_def split: prod.split sum.split fate.split list.split)

lemma preserves_fs_sync [keeps]: "preserves f (fs_sync p)"
  unfolding fs_sync_def by (rule preserves_call) (auto split: if_splits)

lemma preserves_sync [keeps]: "preserves f (sync_directories ps)"
  unfolding sync_directories_def by (intro keeps)

lemma preserves_read_file [keeps]: "preserves f (read_regular_file p n)"
  unfolding read_regular_file_def by (rule keeps)

lemma preserves_hash_file [keeps]: "preserves f (hash_file G p)"
  unfolding hash_file_def by (intro keeps)

lemma preserves_needs_recovery: "preserves f m \<Longrightarrow> preserves f (needs_recovery m)"
  by (rule keeps)

text \<open>Renaming within the project leaves the markers alone.\<close>

definition unwatched :: "path \<Rightarrow> path \<Rightarrow> bool" where
  "unwatched a p \<longleftrightarrow> (\<forall>q. watched q \<longrightarrow> \<not> prefix p (a @ q))"

lemma preserves_rename [keeps]:
  assumes "parallel x y" and "unwatched a x" and "unwatched a y"
  shows "preserves (view a) (fs_rename x y)" and "preserves (view a) (publish_no_replace x y)"
proof -
  have "view a (move_tree x y d) = view a d" for d
    using assms by (auto simp: view_def unwatched_def entry_at_move fun_eq_iff)
  then show "preserves (view a) (fs_rename x y)" "preserves (view a) (publish_no_replace x y)"
    unfolding fs_rename_def publish_no_replace_def
    using do_rename_moves(1) do_rename_no_replace_moves(1) assms(1)
    by (metis (no_types, lifting) preserves_call preserves_code)+
qed

lemma view_put: "unwatched a p \<Longrightarrow> view a (put_entry p n d) = view a d"
  by (auto simp: view_def put_entry_def unwatched_def fun_eq_iff)

lemma view_drop: "unwatched a p \<Longrightarrow> view a (filter (\<lambda>e. fst e \<notin> S) d) = view a d" if "\<And>q. q \<in> S \<Longrightarrow> prefix p q"
  using that by (auto simp: view_def unwatched_def fun_eq_iff entry_at_filter [where P = "\<lambda>q. q \<notin> S"])

lemma preserves_create_dir [keeps]: "unwatched a p \<Longrightarrow> preserves (view a) (fs_create_dir p)"
  unfolding fs_create_dir_def by (rule preserves_call) (auto simp: do_create_def view_put split: if_splits)

lemma unwatched_parallel: "parallel a p \<Longrightarrow> unwatched a p"
  by (metis parallel_commute parallel_below unwatched_def)

lemma unwatched_inside: "\<not> is_marker_name x \<Longrightarrow> unwatched a (a @ x # q)"
  by (auto simp: unwatched_def watched_def)

section \<open>The operations of a transaction leave the markers alone\<close>

lemma preserves_one_of:
  assumes "\<And>w. \<exists>m' \<in> M. m w = m' w" and "\<And>m'. m' \<in> M \<Longrightarrow> preserves f m'"
  shows "preserves f m"
  using assms unfolding preserves_def by metis

lemma marker_names [simp]:
  "\<not> is_marker_name ''staging''" "\<not> is_marker_name ''backup''" "\<not> is_marker_name ''vpm-manifest.new''"
  "\<not> is_marker_name ''vpm-manifest.old''" "\<not> is_marker_name ''upm-manifest.sha256''"
  "\<not> is_marker_name ''vpm-manifest.commit-old''" "\<not> is_marker_name ''rolled-forward-content''"
  "\<not> is_marker_name ''legacy-backup''"
  by code_simp+

lemma project_apart:
  assumes "attempt_under root a"
  shows "parallel (packages_dir root @ p) (a @ q)" "parallel (a @ q) (packages_dir root @ p)"
    "unwatched a (packages_dir root @ p)"
    "parallel (vpm_manifest_path root) (a @ q)" "parallel (a @ q) (vpm_manifest_path root)"
    "unwatched a (vpm_manifest_path root)"
  using attempt_branch [OF assms] by (auto simp: packages_dir_def vpm_manifest_path_def intro: unwatched_parallel)

lemma removal_apart:
  assumes "removal_target root r = Inr t" and "attempt_under root a"
  shows "parallel t (a @ q)" "parallel (a @ q) t" "unwatched a t"
  using outside_below [OF removal_outside [OF assms]] unwatched_parallel [OF removal_outside [OF assms]] by simp_all

lemma unwatched_vault: "unwatched a (removal_slot a i)" "unwatched a (legacy_vault a)"
  by (simp_all add: removal_slot_def legacy_vault_def unwatched_inside)

lemma move_aside_view:
  assumes "preserves f (fs_rename target (backup @ [pm_package_id m]) :: (unit, io_error, 's package_world) io)"
  shows "preserves f (move_aside packages_root backup target m :: (unit, 's) engine_io)"
proof (rule preserves_one_of)
  let ?M = "{io_chain (or_code (fs_rename target (backup @ [pm_package_id m])) RecoveryRequiredE)
      (sync_directories [packages_root, backup]), io_return (), io_raise (m4_new ProjectChangedDuringApplyE)}
      :: (unit, 's) engine_io set"
  show "\<exists>m' \<in> ?M. move_aside packages_root backup target m w = m' w" for w
    by (auto simp: move_aside_def split: sum.split io_error.split)
  show "preserves f m'" if "m' \<in> ?M" for m'
    using that assms by (auto intro!: keeps)
qed

lemma replace_packages_view:
  assumes "attempt_under root a"
  shows "preserves (view a) (replace_packages (packages_dir root) (a @ [''staging'']) (a @ [''backup'']) plan)"
  unfolding replace_packages_def replace_one_def Let_def append.append_Cons append.append_Nil append_assoc
  by (intro keeps move_aside_view) (simp_all add: project_apart [OF assms] unwatched_inside)

lemma commit_manifest_view:
  assumes "attempt_under root a"
  shows "preserves (view a) (commit_manifest (vpm_manifest_path root) a)"
  unfolding commit_manifest_def Let_def
  by (intro keeps) (simp_all add: project_apart [OF assms] unwatched_inside)

lemma quarantine_legacy_view:
  assumes "attempt_under root a" and verify: "\<And>p r. reads_only (en_verify_removal G p r)"
  shows "preserves (view a) (quarantine_legacy G root a plan)"
proof -
  have "preserves (view a) (quarantine_one G root a x)" for x
  proof (cases "removal_target root (snd x)")
    case (Inl e)
    then show ?thesis
      by (simp add: preserves_def quarantine_one_def split_def io_then_def io_sum_def io_reads_def)
  next
    case (Inr t)
    have slots: "parallel t (removal_slot a i)" "parallel (removal_slot a i) t" for i
      using removal_apart [OF Inr assms(1)] by (simp_all add: removal_slot_def legacy_vault_def)
    have "preserves (view a) (quarantine_at G root a (removal_slot a (fst x)) (snd x) t)"
      unfolding quarantine_at_def stale_def Let_def
      by (intro keeps preserves_reads_only [OF verify])
        (simp_all add: removal_apart [OF Inr assms(1)] unwatched_vault slots)
    then show ?thesis
      by (simp add: preserves_def quarantine_one_def split_def io_then_def io_sum_def io_reads_def Inr)
  qed
  then show ?thesis
    unfolding quarantine_legacy_def Let_def by (intro keeps) (simp_all add: unwatched_vault)
qed

lemma put_back_view:
  assumes "parallel t b" "parallel t r" and "unwatched a t" "unwatched a b" "unwatched a r"
  shows "preserves (view a) (put_back t b r)"
  unfolding put_back_def using assms by (intro keeps) (simp_all add: parallel_commute)

lemma restore_legacy_view:
  assumes "attempt_under root a" and verify: "\<And>p r. reads_only (en_verify_removal G p r)"
  shows "preserves (view a) (restore_legacy G root a plan)"
proof -
  have put: "preserves (view a) (io_then (needs_recovery (io_sum (removal_target root r))) (\<lambda>target.
        io_chain (checked_boundary root (butlast target) (Some RecoveryRequiredE))
        (io_chain (publish_no_replace (removal_slot a i) target)
        (sync_directories [butlast target, legacy_vault a]))))" for i r
  proof (cases "removal_target root r")
    case (Inl e)
    then show ?thesis
      by (simp add: preserves_def io_then_def io_map_err_def io_match_def io_sum_def io_reads_def io_raise_def)
  next
    case (Inr t)
    have "preserves (view a) (io_chain (checked_boundary root (butlast t) (Some RecoveryRequiredE))
        (io_chain (publish_no_replace (removal_slot a i) t) (sync_directories [butlast t, legacy_vault a])))"
      using removal_apart [OF Inr assms(1)]
      by (intro keeps) (simp_all add: unwatched_vault removal_slot_def legacy_vault_def unwatched_inside)
    then show ?thesis
      by (simp add: preserves_def io_then_def io_map_err_def io_match_def io_sum_def io_reads_def io_return_def Inr)
  qed
  have "preserves (view a) (restore_one G root a (i, r))" for i r
    unfolding restore_one_def Let_def prod.case by (intro keeps put preserves_reads_only [OF verify])
  then have "preserves (view a) (restore_one G root a x)" for x
    by (cases x) simp
  then show ?thesis
    unfolding restore_legacy_def Let_def by (intro keeps)
qed

lemma rollback_attempt_view:
  assumes under: "attempt_under root a" and verify: "\<And>p r. reads_only (en_verify_removal G p r)"
  shows "preserves (view a) (rollback_attempt G root a plan)"
proof -
  note facts = project_apart [OF under] unwatched_inside rolled_dir_def
  have "preserves (view a) (rollback_one (packages_dir root) a m)" for m
    unfolding rollback_one_def Let_def by (intro keeps put_back_view) (simp_all add: facts)
  moreover have "preserves (view a) (put_back (vpm_manifest_path root) (a @ [''vpm-manifest.commit-old''])
      (rolled_dir a @ [''vpm-manifest.new'']))"
    by (intro put_back_view) (simp_all add: facts)
  moreover have "preserves (view a) (fs_create_dir (rolled_dir a))"
    by (intro keeps) (simp add: facts)
  ultimately show ?thesis
    unfolding rollback_attempt_def Let_def
    by (intro keeps restore_legacy_view [OF under verify]) (simp add: facts)
qed

section \<open>Removing the vault\<close>

definition ignores :: "(files \<Rightarrow> 'f) \<Rightarrow> path \<Rightarrow> bool" where
  "ignores f p \<longleftrightarrow> (\<forall>S d. (\<forall>q \<in> S. prefix p q) \<longrightarrow> f (filter (\<lambda>e. fst e \<notin> S) d) = f d)"

lemma preserves_remove:
  assumes "ignores f p"
  shows "preserves f (fs_remove_file p)" "preserves f (fs_remove_dir p)" "preserves f (fs_remove_tree p)"
proof -
  have one: "f (drop_entry p d) = f d" for d
    using assms [unfolded ignores_def, rule_format, of "{p}" d] by (simp add: drop_entry_def)
  have "\<forall>q \<in> set (take n (below p d)). prefix p q" for n d
    using set_take_subset [of n "below p d"] by (auto simp: below_def)
  then have some: "f (remove_some n p d) = f d" for n d
    using assms unfolding ignores_def remove_some_def by blast
  show "preserves f (fs_remove_file p)"
    unfolding fs_remove_file_def
    by (rule preserves_call) (auto simp: do_remove_file_def one split: option.splits if_splits)
  show "preserves f (fs_remove_dir p)"
    unfolding fs_remove_dir_def
    by (rule preserves_call) (auto simp: do_remove_dir_def one split: option.splits if_splits)
  show "preserves f (fs_remove_tree p)"
    unfolding fs_remove_tree_def by (rule preserves_call) (auto simp: some)
qed

text \<open>What is outside the attempt.\<close>

definition outside :: "path \<Rightarrow> files \<Rightarrow> path \<Rightarrow> node option" where
  "outside a d = (\<lambda>p. if prefix a p then None else entry_at d p)"

lemma outside_eq: "outside a d = outside a d' \<longleftrightarrow> (\<forall>p. \<not> prefix a p \<longrightarrow> entry_at d p = entry_at d' p)"
  by (auto simp: outside_def fun_eq_iff)

lemma ignores_vault:
  "ignores (view a) (a @ ''legacy-backup'' # q)" "ignores (outside a) (a @ q)"
proof -
  have "a @ q' \<notin> S" if "watched q'" "\<forall>p \<in> S. prefix (a @ ''legacy-backup'' # q) p" for q' S
    using that unwatched_inside [of "''legacy-backup''" a q] by (auto simp: unwatched_def)
  then show "ignores (view a) (a @ ''legacy-backup'' # q)"
    by (auto simp: ignores_def view_def fun_eq_iff entry_at_filter [where P = "\<lambda>q. q \<notin> S" for S])
  have "p \<notin> S" if "\<not> prefix a p" "\<forall>p \<in> S. prefix (a @ q) p" for p S
    using that by (meson prefixI prefix_order.order_trans)
  then show "ignores (outside a) (a @ q)"
    by (auto simp: ignores_def outside_def fun_eq_iff entry_at_filter [where P = "\<lambda>q. q \<notin> S" for S])
qed

lemma cleanup_legacy_preserves:
  assumes identity: "\<And>p. reads_only (en_file_identity G p)"
    and f: "\<And>q. ignores f (a @ ''legacy-backup'' # q)"
  shows "preserves f (cleanup_legacy G root a plan)"
proof -
  have vault: "ignores f (removal_slot a i)" "ignores f (legacy_vault a)" for i
    using f [of "[show_nat i]"] f [of "[]"] by (simp_all add: removal_slot_def legacy_vault_def)
  have "preserves f (cleanup_one G root a (i, r))" for i r
    unfolding cleanup_one_def Let_def prod.case
    by (cases "lr_kind r"; simp only: legacy_removal_kind.case)
      (intro keeps preserves_remove vault preserves_reads_only [OF identity])+
  then have "preserves f (cleanup_one G root a x)" for x
    by (cases x) simp
  then show ?thesis
    unfolding cleanup_legacy_def Let_def by (intro keeps preserves_remove vault)
qed

section \<open>Writing and reading a marker\<close>

text \<open>The markers are named as \<open>write_marker\<close> names them, with steps up to the given one.\<close>

definition markers_upto :: "path \<Rightarrow> u64 \<Rightarrow> files \<Rightarrow> bool" where
  "markers_upto a step d \<longleftrightarrow>
     (\<forall>n. is_marker_name n \<longrightarrow> entry_at d (a @ [n]) \<noteq> None \<longrightarrow> (\<exists>s. n = marker_name s \<and> unat s \<le> unat step))"

lemma markers_upto_view: "view a d = view a d' \<Longrightarrow> markers_upto a step d \<Longrightarrow> markers_upto a step d'"
  unfolding markers_upto_def view_def fun_eq_iff by (metis watched_def)

lemma markers_upto_mono: "markers_upto a s d \<Longrightarrow> unat s \<le> unat t \<Longrightarrow> markers_upto a t d"
  unfolding markers_upto_def by (meson order_trans)

lemma markers_upto_any: "markers_upto a s d \<Longrightarrow> markers_upto a (- 1) d"
  by (rule markers_upto_mono) (simp_all add: word_le_nat_alt [symmetric])

text \<open>The text of a marker is read back, and none of its proper prefixes is a marker.\<close>

definition marker_text_ok :: "('s, 'c) engine \<Rightarrow> attempt_marker \<Rightarrow> bool" where
  "marker_text_ok G m \<longleftrightarrow> am_version m = 1 \<and> en_marker_read G (en_marker_text G m) = Some m \<and>
     length (en_marker_text G m) \<le> 65536 \<and>
     (\<forall>n < length (en_marker_text G m). en_marker_read G (take n (en_marker_text G m)) = None)"

lemma marker_in_put:
  assumes "markers_upto a step d"
  shows "marker_in G a (put_entry (a @ [marker_name step]) (File bytes) d) =
      (if length bytes > 65536 then None
       else case en_marker_read G bytes of Some m \<Rightarrow> if am_version m = 1 then Some m else None | None \<Rightarrow> None)"
proof -
  let ?n = "marker_name step" and ?d = "put_entry (a @ [marker_name step]) (File bytes) d"
  let ?names = "filter is_marker_name (names_in ?d a)"
  have "set ?names = insert ?n {n. is_marker_name n \<and> entry_at d (a @ [n]) \<noteq> None}"
    using marker_name_is by (auto simp: names_in_iff put_entry_def)
  moreover have "n \<le> ?n" if "is_marker_name n" "entry_at d (a @ [n]) \<noteq> None" for n
    using assms that marker_name_less [of _ step] unfolding markers_upto_def
    by (metis le_neq_implies_less order.order_iff_strict word_unat_eq_iff)
  ultimately have "Max (set ?names) = ?n"
    using List.finite_set [of ?names] by (intro Max_eqI) (simp_all only:, auto)
  moreover have "?names \<noteq> []"
    using \<open>set ?names = _\<close> by (metis insert_not_empty set_empty)
  ultimately have "latest ?names = Some ?n"
    by (simp add: latest_Max)
  then show ?thesis
    by (auto simp: marker_in_def put_entry_def split: option.split)
qed

lemma markers_upto_put: "markers_upto a step d \<Longrightarrow> markers_upto a step (put_entry (a @ [marker_name step]) n d)"
  by (auto simp: markers_upto_def put_entry_def)

lemma marker_prefix:
  assumes "marker_text_ok G m" and "markers_upto a step d"
  shows "marker_in G a (put_entry (a @ [marker_name step]) (File (take n (en_marker_text G m))) d) \<in> {None, Some m}"
    and "marker_in G a (put_entry (a @ [marker_name step]) (File (en_marker_text G m)) d) = Some m"
  using assms by (cases "n < length (en_marker_text G m)"; simp add: marker_in_put marker_text_ok_def)+

lemma write_marker_marks:
  assumes fits: "marker_text_ok G m"
    and put: "\<And>d n. P d \<Longrightarrow> P (put_entry (a @ [marker_name step]) n d)"
  shows "ensures (seen (\<lambda>d. P d \<and> markers_upto a step d \<and> marker_in G a d = V)) (write_marker G a m step)
    (\<lambda>_. seen (\<lambda>d. P d \<and> markers_upto a step d \<and> marker_in G a d = Some m))
    (seen (\<lambda>d. P d \<and> markers_upto a step d \<and> marker_in G a d \<in> {V, None, Some m}))"
proof -
  let ?p = "a @ [marker_name step]" and ?text = "en_marker_text G m"
  let ?some = "\<lambda>M d. P d \<and> markers_upto a step d \<and> marker_in G a d \<in> M"
  let ?R = "seen (?some {V, None, Some m})"
  have create: "ensures (seen (\<lambda>d. P d \<and> markers_upto a step d \<and> marker_in G a d = V)) (call_atomic (do_create (File []) ?p))
      (\<lambda>_. seen (?some {None, Some m})) ?R"
    using marker_prefix(1) [OF fits, of a step _ 0]
    by (intro seen_call) (auto simp: do_create_def put markers_upto_put split: if_splits)
  have fill: "ensures (seen (?some {None, Some m})) (fs_write ?p ?text) (\<lambda>_. seen (?some {Some m})) ?R"
    unfolding fs_write_def
    using marker_prefix [OF fits, of a step] by (intro seen_call) (auto simp: put markers_upto_put)
  have sync: "ensures (seen (?some {Some m})) (fs_sync q) (\<lambda>_. seen (?some {Some m})) ?R" for q
    by (rule seen_fs_sync) auto
  have "ensures (seen (\<lambda>d. P d \<and> markers_upto a step d \<and> marker_in G a d = V)) (write_marker G a m step)
      (\<lambda>_. seen (?some {Some m})) ?R"
    unfolding write_marker_def write_new_file_def
    by (rule seen_chain [OF seen_code [OF seen_chain [OF create seen_chain [OF fill sync]]] seen_code [OF sync]])
  then show ?thesis
    by (rule ensures_seen) auto
qed

lemma read_marker_finds:
  "ensures (seen P) (read_marker G a) (\<lambda>m. seen (\<lambda>d. P d \<and> marker_in G a d = Some m)) (seen P)"
proof (rule ensuresI)
  have "preserves (\<lambda>d. d) (read_marker G a)"
    unfolding read_marker_def by (intro keeps)
  then show "seen P w'" if "seen P w" "read_marker G a w = (Inl s, w')" for w s w'
    using that unfolding preserves_def seen_def by (metis snd_conv)
  fix w m w'
  assume w: "seen P w" and run: "read_marker G a w = (Inr m, w')"
  from run w show "seen (\<lambda>d. P d \<and> marker_in G a d = Some m) w'"
    by (auto simp: read_marker_def io_then_def io_chain_def io_reads_def io_sum_def io_ensure_def io_return_def
        io_raise_def read_dir_def read_regular_file_def seen_def seen_metadata marker_in_def result_simps
        split: sum.splits option.splits prod.splits if_splits node.splits io_error.splits)
qed

end
