(* ===== verification/TransactionAttempt.thy ===== *)
theory TransactionAttempt
  imports TransactionMarkers
begin

text \<open>
  One attempt from its directory to its end: at every moment its latest marker tells a later process
  the truth about the project, and an error that does not ask for recovery leaves the project as it was.
\<close>

section \<open>Errors with their codes\<close>

definition ends ::
  "('w \<Rightarrow> bool) \<Rightarrow> ('a, 'e, 'w) io \<Rightarrow> ('a \<Rightarrow> 'w \<Rightarrow> bool) \<Rightarrow> ('e \<Rightarrow> 'w \<Rightarrow> bool) \<Rightarrow> ('w \<Rightarrow> bool) \<Rightarrow> bool" where
  "ends P m Q E S \<longleftrightarrow> (\<forall>w. P w \<longrightarrow> (case m w of
     (Inl (Raised e), w') \<Rightarrow> E e w' | (Inl Stopped, w') \<Rightarrow> S w' | (Inr x, w') \<Rightarrow> Q x w'))"

lemma ends_cases:
  assumes "ends P m Q E S" and "P w"
  shows "m w = (Inr x, w') \<Longrightarrow> Q x w'" and "m w = (Inl (Raised e), w') \<Longrightarrow> E e w'" and "m w = (Inl Stopped, w') \<Longrightarrow> S w'"
  using assms by (fastforce simp: ends_def)+

lemma ends_of_ensures: "ensures P m Q R \<Longrightarrow> (\<And>e w. R w \<Longrightarrow> E e w) \<Longrightarrow> (\<And>w. R w \<Longrightarrow> S w) \<Longrightarrow> ends P m Q E S"
  by (fastforce simp: ends_def ensures_def split: prod.split sum.split ending.split)

lemma ends_weaken:
  "ends P' m Q' E' S' \<Longrightarrow> (\<And>w. P w \<Longrightarrow> P' w) \<Longrightarrow> (\<And>x w. Q' x w \<Longrightarrow> Q x w) \<Longrightarrow> (\<And>e w. E' e w \<Longrightarrow> E e w) \<Longrightarrow>
    (\<And>w. S' w \<Longrightarrow> S w) \<Longrightarrow> ends P m Q E S"
  unfolding ends_def by (fastforce split: prod.splits sum.splits ending.splits)

lemma ends_then: "ends P m Q E S \<Longrightarrow> (\<And>x. ends (Q x) (f x) Q' E S) \<Longrightarrow> ends P (io_then m f) Q' E S"
  by (fastforce simp: ends_def io_then_def split: prod.splits sum.splits ending.splits)

lemma ends_chain: "ends P m (\<lambda>_. Q) E S \<Longrightarrow> ends Q n Q' E S \<Longrightarrow> ends P (io_chain m n) Q' E S"
  unfolding io_chain_def by (rule ends_then)

lemma ends_match:
  "ends P m Q E' S \<Longrightarrow> (\<And>x. ends (Q x) (f x) Q' E S) \<Longrightarrow> (\<And>e. ends (E' e) (g e) Q' E S) \<Longrightarrow>
    ends P (io_match m f g) Q' E S"
  by (fastforce simp: ends_def io_match_def split: prod.splits sum.splits ending.splits)

lemma ends_case_pre: "(\<And>w. P w \<Longrightarrow> ends (\<lambda>v. v = w) m Q E S) \<Longrightarrow> ends P m Q E S"
  by (simp add: ends_def)

text \<open>Computations whose only error asks for recovery.\<close>

definition only_recovery :: "('a, m4_error, 'w) io \<Rightarrow> bool" where
  "only_recovery m \<longleftrightarrow> (\<forall>w e w'. m w = (Inl (Raised e), w') \<longrightarrow> me_code e = RecoveryRequiredE)"

named_theorems recovery_intros \<open>computations whose only error asks for recovery\<close>

lemma ends_only:
  assumes "ensures P m Q R" and "only_recovery m" and "\<And>e w. R w \<Longrightarrow> me_code e = RecoveryRequiredE \<Longrightarrow> E e w"
    and "\<And>w. R w \<Longrightarrow> S w"
  shows "ends P m Q E S"
  using assms unfolding ends_def ensures_def only_recovery_def
  by (fastforce split: prod.splits sum.splits ending.splits)

lemma only_code [recovery_intros]: "only_recovery (or_code m RecoveryRequiredE)"
  by (auto simp: only_recovery_def or_code_def io_map_err_def io_match_def io_raise_def io_return_def m4_new_def
      split: prod.splits sum.splits ending.splits)

lemma only_needs [recovery_intros]: "only_recovery (needs_recovery m)"
  by (auto simp: only_recovery_def io_map_err_def io_match_def io_raise_def io_return_def m4_new_def
      split: prod.splits sum.splits ending.splits)

lemma only_return [recovery_intros]: "only_recovery (io_return x)"
  by (simp add: only_recovery_def io_return_def)

lemma only_raise [recovery_intros]: "only_recovery (io_raise (m4_new RecoveryRequiredE))"
  by (simp add: only_recovery_def io_raise_def m4_new_def)

lemma only_ensure [recovery_intros]: "only_recovery (io_ensure c (m4_new RecoveryRequiredE))"
  by (simp add: io_ensure_def only_return only_raise)

lemma only_then [recovery_intros]:
  "only_recovery m \<Longrightarrow> (\<And>x. only_recovery (f x)) \<Longrightarrow> only_recovery (io_then m f)"
  unfolding only_recovery_def io_then_def by (fastforce split: prod.splits sum.splits)

lemma only_chain [recovery_intros]: "only_recovery m \<Longrightarrow> only_recovery n \<Longrightarrow> only_recovery (io_chain m n)"
  unfolding io_chain_def by (intro recovery_intros)

lemma only_if [recovery_intros]:
  "(c \<Longrightarrow> only_recovery m) \<Longrightarrow> (\<not> c \<Longrightarrow> only_recovery n) \<Longrightarrow> only_recovery (if c then m else n)"
  by simp

lemma only_branch [recovery_intros]:
  "only_recovery m \<Longrightarrow> only_recovery n \<Longrightarrow> only_recovery (\<lambda>w. if c w then m w else n w)"
  by (simp add: only_recovery_def)

lemma only_each [recovery_intros]: "(\<And>x. only_recovery (f x)) \<Longrightarrow> only_recovery (io_each f xs)"
  by (induction xs) (auto intro!: recovery_intros)

lemma only_sync [recovery_intros]: "only_recovery (sync_directories ps)"
  unfolding sync_directories_def by (intro recovery_intros)

lemma only_boundary [recovery_intros]: "only_recovery (checked_boundary root p (Some RecoveryRequiredE))"
  by (auto simp: only_recovery_def checked_boundary_def io_reads_def m4_new_def split: sum.splits if_splits)

lemma only_write_marker [recovery_intros]: "only_recovery (write_marker G a m s)"
  unfolding write_marker_def write_new_file_def by (intro recovery_intros)

lemma only_publish [recovery_intros]: "only_recovery (publish_no_replace x y)"
  unfolding publish_no_replace_def by (intro recovery_intros)

lemma only_enter_phase [recovery_intros]: "only_recovery (enter_phase G plan i key a False ph st ev s)"
  unfolding enter_phase_def by (auto intro!: recovery_intros)

lemma only_cleanup [recovery_intros]: "only_recovery (cleanup_legacy G root a plan)"
proof -
  have "only_recovery (cleanup_one G root a (i, r))" for i r
    unfolding cleanup_one_def Let_def prod.case
    by (cases "lr_kind r"; simp only: legacy_removal_kind.case) (intro recovery_intros)+
  then have "only_recovery (cleanup_one G root a x)" for x
    by (cases x) simp
  then show ?thesis
    unfolding cleanup_legacy_def Let_def by (intro recovery_intros)
qed

lemma only_rollback [recovery_intros]: "only_recovery (rollback_attempt G root a plan)"
proof -
  have "only_recovery (restore_one G root a (i, r))" for i r
    unfolding restore_one_def Let_def prod.case by (intro recovery_intros)
  then have one: "only_recovery (restore_one G root a x)" for x
    by (cases x) simp
  have "only_recovery (restore_legacy G root a plan)"
    unfolding restore_legacy_def Let_def by (intro recovery_intros one)
  then show ?thesis
    unfolding rollback_attempt_def rollback_one_def put_back_def Let_def by (intro recovery_intros)
qed

section \<open>What the engine relies on\<close>

text \<open>
  The store, the clock, the cache and the checks only read the project; extracting packages changes
  the staging directory only and leaves a directory for every package it extracts.
\<close>

definition engine_reads :: "('s, 'c) engine \<Rightarrow> bool" where
  "engine_reads G \<longleftrightarrow>
     (\<forall>p. reads_only (en_resolve_identity G p)) \<and> (\<forall>i. reads_only (en_next_step G i)) \<and>
     (\<forall>j. reads_only (en_append_journal G j)) \<and> (\<forall>i. reads_only (en_cancellation_requested G i)) \<and>
     reads_only (en_time_ms G) \<and> (\<forall>p. reads_only (en_fetch G p)) \<and>
     (\<forall>p q. reads_only (en_verify_extracted_legacy G p q)) \<and> (\<forall>p. reads_only (en_revalidate G p)) \<and>
     (\<forall>p q b. reads_only (en_verify_plan_legacy G p q b)) \<and> (\<forall>p r. reads_only (en_verify_removal G p r)) \<and>
     (\<forall>p. reads_only (en_file_identity G p)) \<and> (\<forall>p i v. reads_only (en_validate_package G p i v)) \<and>
     (\<forall>p q. reads_only (en_inspect G p q))"

definition engine_extracts :: "('s, 'c) engine \<Rightarrow> bool" where
  "engine_extracts G \<longleftrightarrow> (\<forall>stage change archives w r w'. en_extract G stage change archives w = (r, w') \<longrightarrow>
     unreadable w' = unreadable w \<and>
     (\<forall>p. \<not> strict_prefix stage p \<longrightarrow> entry_at (disk w') p = entry_at (disk w) p) \<and>
     (r = Inr () \<longrightarrow> list_all (\<lambda>m. pm_source m \<noteq> None \<longrightarrow>
        entry_at (disk w') (stage @ [pm_package_id m]) = Some Directory) (cs_mutations change)))"

definition engine_ok :: "('s, 'c) engine \<Rightarrow> package_plan \<Rightarrow> bool" where
  "engine_ok G plan \<longleftrightarrow> engine_reads G \<and> engine_extracts G \<and>
     (\<forall>ph st. marker_text_ok G (marker_of (en_uuid G) plan ph st))"

definition plan_ok :: "path \<Rightarrow> package_plan \<Rightarrow> bool" where
  "plan_ok root plan \<longleftrightarrow> plan_places_ok root plan \<and>
     list_all (\<lambda>m. pm_kind m \<noteq> RemovePackage \<longrightarrow> pm_source m \<noteq> None) (cs_mutations (pl_change_set plan))"

section \<open>What a marker promises\<close>

definition framed :: "files \<Rightarrow> path \<Rightarrow> group list \<Rightarrow> files \<Rightarrow> bool" where
  "framed d0 a gs d \<longleftrightarrow> (\<forall>p. \<not> prefix a p \<longrightarrow> (\<forall>g \<in> set gs. \<forall>t. home g = Some t \<longrightarrow> \<not> prefix t p) \<longrightarrow>
     entry_at d p = entry_at d0 p)"

definition changing :: "filesystem_phase \<Rightarrow> bool" where
  "changing ph \<longleftrightarrow> ph \<in> {PackagesReplaced, VpmManifestCommitted}"

text \<open>
  When the latest marker says that packages or the manifest are being changed, the old content can be
  put back; before that and after a rollback nothing outside the attempt differs.
\<close>

definition truthful :: "('s, 'c) engine \<Rightarrow> path \<Rightarrow> package_plan \<Rightarrow> path \<Rightarrow> files \<Rightarrow> files \<Rightarrow> bool" where
  "truthful G root plan a d0 d \<longleftrightarrow>
     framed d0 a (plan_groups root a plan) d \<and> entry_at d a \<noteq> None \<and> markers_upto a (- 1) d \<and>
     (case marker_in G a d of
        None \<Rightarrow> True
      | Some m \<Rightarrow>
          if am_phase m = FilesystemCommitted then True
          else if changing (am_phase m) then recoverable d0 a (plan_groups root a plan) {} d
          else outside a d = outside a d0)"

definition marked :: "('s, 'c) engine \<Rightarrow> path \<Rightarrow> u64 \<Rightarrow> attempt_marker option set \<Rightarrow> files \<Rightarrow> bool" where
  "marked G a step M d \<longleftrightarrow> entry_at d a \<noteq> None \<and> markers_upto a step d \<and> marker_in G a d \<in> M"

lemma marked_view: "view a d = view a d' \<Longrightarrow> marked G a step M d \<Longrightarrow> marked G a step M d'"
  unfolding marked_def
  by (metis append.right_neutral marker_in_view markers_upto_view view_def watched_def)

lemma marked_mono: "marked G a s M d \<Longrightarrow> M \<subseteq> M' \<Longrightarrow> unat s \<le> unat t \<Longrightarrow> marked G a t M' d"
  unfolding marked_def using markers_upto_mono by blast

lemma marked_any: "marked G a s M d \<Longrightarrow> M \<subseteq> M' \<Longrightarrow> marked G a (- 1) M' d"
  unfolding marked_def using markers_upto_any by blast

text \<open>Operations that leave the markers alone.\<close>

lemma seen_marked:
  assumes "ensures (seen P) m (\<lambda>x. seen (Q x)) (seen R)" and "preserves (view a) m"
  shows "ensures (seen (\<lambda>d. P d \<and> marked G a s M d)) m (\<lambda>x. seen (\<lambda>d. Q x d \<and> marked G a s M d))
    (seen (\<lambda>d. R d \<and> marked G a s M d))"
proof (rule ensuresI)
  fix w r w'
  assume w: "seen (\<lambda>d. P d \<and> marked G a s M d) w" and run: "m w = (Inl r, w')"
  then have "seen P w" by (simp add: seen_def)
  then have "seen R w'"
    using ensures_stop [OF assms(1) _ run] by simp
  moreover have "view a (disk w) = view a (disk w')"
    using assms(2) run unfolding preserves_def by (metis snd_conv)
  ultimately show "seen (\<lambda>d. R d \<and> marked G a s M d) w'"
    using w marked_view unfolding seen_def by blast
next
  fix w r w'
  assume w: "seen (\<lambda>d. P d \<and> marked G a s M d) w" and run: "m w = (Inr r, w')"
  then have "seen P w" by (simp add: seen_def)
  then have "seen (Q r) w'"
    using ensures_ok [OF assms(1) _ run] by simp
  moreover have "view a (disk w) = view a (disk w')"
    using assms(2) run unfolding preserves_def by (metis snd_conv)
  ultimately show "seen (\<lambda>d. Q r d \<and> marked G a s M d) w'"
    using w marked_view unfolding seen_def by blast
qed

lemma framed_outside: "outside a d = outside a d' \<Longrightarrow> framed d0 a gs d \<Longrightarrow> framed d0 a gs d'"
  by (simp add: framed_def outside_eq)

lemma framed_same: "outside a d = outside a d0 \<Longrightarrow> framed d0 a gs d"
  by (simp add: framed_def outside_eq)

lemma framed_recoverable: "recoverable d0 a gs H d \<Longrightarrow> framed d0 a gs d"
  by (simp add: framed_def recoverable_def)

lemma truthful_recoverable:
  assumes "recoverable d0 a (plan_groups root a plan) {} d" and "marked G a s M d"
    and "M \<subseteq> insert None (Some ` {m. changing (am_phase m) \<or> am_phase m = FilesystemCommitted})"
  shows "truthful G root plan a d0 d"
  using assms framed_recoverable markers_upto_any
  by (fastforce simp: truthful_def marked_def split: option.split)

lemma truthful_outside:
  assumes "outside a d = outside a d0" and "marked G a s M d"
    and "M \<subseteq> insert None (Some ` {m. \<not> changing (am_phase m)})"
  shows "truthful G root plan a d0 d"
  using assms framed_same markers_upto_any by (fastforce simp: truthful_def marked_def split: option.split)

lemma truthful_both:
  assumes "outside a d = outside a d0" and "recoverable d0 a (plan_groups root a plan) {} d" and "marked G a s M d"
  shows "truthful G root plan a d0 d"
  using assms framed_same markers_upto_any by (fastforce simp: truthful_def marked_def split: option.split)

section \<open>Entering a phase\<close>

text \<open>A fact about the files that reading them and writing markers do not change.\<close>

definition unmarked :: "path \<Rightarrow> (files \<Rightarrow> bool) \<Rightarrow> bool" where
  "unmarked a P \<longleftrightarrow> (\<forall>d s n. P d \<longrightarrow> P (put_entry (a @ [marker_name s]) n d))"

lemma ensures_for_value: "(\<And>V. ensures (\<lambda>w. P w \<and> f w = V) m Q R) \<Longrightarrow> ensures P m Q R"
  by (simp add: ensures_def)

lemma write_marker_enters:
  assumes "marker_text_ok G m" and "unmarked a P"
  shows "ensures (seen (\<lambda>d. P d \<and> marked G a step M d)) (write_marker G a m step)
    (\<lambda>_. seen (\<lambda>d. P d \<and> marked G a step {Some m} d))
    (seen (\<lambda>d. P d \<and> marked G a step (M \<union> {None, Some m}) d))"
proof (rule ensures_for_value)
  fix V
  let ?P = "\<lambda>d. P d \<and> entry_at d a \<noteq> None \<and> V \<in> M"
  have put: "\<And>d n. ?P d \<Longrightarrow> ?P (put_entry (a @ [marker_name step]) n d)"
    using assms(2) by (auto simp: unmarked_def put_entry_def)
  show "ensures (\<lambda>w. seen (\<lambda>d. P d \<and> marked G a step M d) w \<and> marker_in G a (disk w) = V) (write_marker G a m step)
      (\<lambda>_. seen (\<lambda>d. P d \<and> marked G a step {Some m} d))
      (seen (\<lambda>d. P d \<and> marked G a step (M \<union> {None, Some m}) d))"
    by (rule ensures_weaken [OF write_marker_marks [where P = ?P and V = V, OF assms(1) put]])
      (auto simp: seen_def marked_def)
qed

lemma engine_reads_only:
  assumes "engine_ok G plan"
  shows "reads_only (en_append_journal G j)" "reads_only (en_time_ms G)" "reads_only (en_verify_removal G p r)"
    "reads_only (en_verify_plan_legacy G p q' b)" "reads_only (en_file_identity G p)" "reads_only (en_inspect G p q')"
    "reads_only (en_validate_package G p n v)" "reads_only (en_next_step G i)" "reads_only (en_resolve_identity G p)"
    "reads_only (en_cancellation_requested G i)" "reads_only (en_fetch G q')" "reads_only (en_revalidate G q')"
    "reads_only (en_verify_extracted_legacy G p p')"
  using assms by (simp_all add: engine_ok_def engine_reads_def)

lemma append_phase_keeps:
  assumes "engine_ok G plan"
  shows "preserves f (append_phase G plan i key s ph st ev)"
  unfolding append_phase_def by (intro keeps preserves_reads_only engine_reads_only [OF assms])

lemma append_phase_next:
  "append_phase G plan i key s ph st ev w = (Inr s', w') \<Longrightarrow> s' = s + 1 \<and> unat s' = unat s + 1"
  by (auto simp: append_phase_def io_then_def io_chain_def io_sum_def io_reads_def result_simps checked_inc_Some_iff
      split: prod.splits sum.splits)

lemma enter_phase_enters:
  fixes G :: "('s, 'c) engine"
  assumes ok: "engine_ok G plan" and P: "unmarked a P"
  shows "ensures (seen (\<lambda>d. P d \<and> marked G a s M d)) (enter_phase G plan i key a raw ph st ev s)
    (\<lambda>s'. seen (\<lambda>d. P d \<and> marked G a s' {Some (marker_of (en_uuid G) plan ph st)} d))
    (seen (\<lambda>d. P d \<and> marked G a (- 1) (M \<union> {None, Some (marker_of (en_uuid G) plan ph st)}) d))"
proof -
  let ?m = "marker_of (en_uuid G) plan ph st" and ?I = "seen (\<lambda>d. P d \<and> marked G a s M d)"
  let ?R = "seen (\<lambda>d. P d \<and> marked G a (- 1) (M \<union> {None, Some (marker_of (en_uuid G) plan ph st)}) d)"
  let ?append = "append_phase G plan i key s ph st ev :: (u64, 's) engine_io"
  have raw: "ensures ?I ?append (\<lambda>s' w. ?I w \<and> s' = s + 1 \<and> unat s' = unat s + 1) ?R"
  proof (rule ensuresI)
    have keeps: "disk w' = disk w \<and> unreadable w' = unreadable w" if "?append w = (r, w')" for w r w'
      using append_phase_keeps [OF ok, where f = "\<lambda>d. d"] that unfolding preserves_def by (metis snd_conv)
    fix r and w w' :: "'s package_world"
    assume w: "?I w"
    show "?append w = (Inl r, w') \<Longrightarrow> ?R w'"
      using keeps [of w "Inl r" w'] w marked_any unfolding seen_def by (metis Un_upper1)
    fix s'
    assume "?append w = (Inr s', w')"
    then show "?I w' \<and> s' = s + 1 \<and> unat s' = unat s + 1"
      using keeps [of w "Inr s'" w'] w append_phase_next unfolding seen_def by metis
  qed
  have append: "ensures ?I ((if raw then (\<lambda>m. m) else needs_recovery) ?append)
      (\<lambda>s' w. ?I w \<and> s' = s + 1 \<and> unat s' = unat s + 1) ?R"
    using raw by (cases raw) (simp_all only: if_True if_False, rule ensures_map_err)
  have mark: "ensures (\<lambda>w. ?I w \<and> s' = s + 1 \<and> unat s' = unat s + 1) (write_marker G a ?m (s' - 1))
      (\<lambda>_ w. seen (\<lambda>d. P d \<and> marked G a s {Some ?m} d) w \<and> unat s' = unat s + 1) ?R" for s'
  proof (cases "s' = s + 1 \<and> unat s' = unat s + 1")
    case True
    have fits: "marker_text_ok G ?m"
      using ok by (simp add: engine_ok_def)
    have "ensures ?I (write_marker G a ?m s) (\<lambda>_. seen (\<lambda>d. P d \<and> marked G a s {Some ?m} d)) ?R"
      by (rule ensures_weaken [OF write_marker_enters [OF fits P]]) (auto simp: seen_def intro: marked_any)
    then have "ensures ?I (write_marker G a ?m (s' - 1)) (\<lambda>_. seen (\<lambda>d. P d \<and> marked G a s {Some ?m} d)) ?R"
      using True by simp
    then show ?thesis
      by (rule ensures_weaken) (use True in auto)
  qed (auto simp: ensures_def)
  show ?thesis
    unfolding enter_phase_def
  proof (rule ensures_then [OF append], unfold io_chain_def, rule ensures_then [OF mark])
    fix s'
    show "ensures (\<lambda>w. seen (\<lambda>d. P d \<and> marked G a s {Some ?m} d) w \<and> unat s' = unat s + 1) (io_return s')
        (\<lambda>s'. seen (\<lambda>d. P d \<and> marked G a s' {Some ?m} d)) ?R"
      by (rule ensures_return) (auto simp: seen_def intro: marked_mono)
  qed
qed

section \<open>The final state\<close>

definition in_place :: "('s, 'c) engine \<Rightarrow> path \<Rightarrow> package_plan \<Rightarrow> files \<Rightarrow> bool" where
  "in_place G root plan d \<longleftrightarrow>
     (case entry_at d (vpm_manifest_path root) of
        Some (File bytes) \<Rightarrow> en_sha256 G bytes = cs_vpm_manifest_sha256 (pl_change_set plan)
      | _ \<Rightarrow> False) \<and>
     list_all (\<lambda>r. case removal_target root r of Inl _ \<Rightarrow> False | Inr t \<Rightarrow> entry_at d t = None)
       (cs_legacy_removals (pl_change_set plan)) \<and>
     list_all (\<lambda>m. entry_at d (packages_dir root @ [pm_package_id m]) =
         (if pm_kind m = RemovePackage then None else Some Directory)) (cs_mutations (pl_change_set plan))"

text \<open>A computation that only reads, and that succeeds only where \<open>C\<close> holds.\<close>

definition checks :: "('a \<Rightarrow> files \<Rightarrow> bool) \<Rightarrow> ('a, 'e, 'b world_scheme) io \<Rightarrow> bool" where
  "checks C m \<longleftrightarrow> reads_only m \<and>
     (\<forall>w x w'. unreadable w = [] \<longrightarrow> m w = (Inr x, w') \<longrightarrow> C x (disk w))"

lemma checks_seen:
  assumes "checks C m"
  shows "ensures (seen P) m (\<lambda>x. seen (\<lambda>d. P d \<and> C x d)) (seen P)"
proof (rule ensuresI)
  have same: "disk w' = disk w \<and> unreadable w' = unreadable w" if "m w = (r, w')" for w r w'
    using assms that unfolding checks_def reads_only_def by (metis snd_conv)
  show "seen P w'" if "seen P w" "m w = (Inl s, w')" for w s w'
    using same [OF that(2)] that(1) by (simp add: seen_def)
  show "seen (\<lambda>d. P d \<and> C x d) w'" if "seen P w" "m w = (Inr x, w')" for w x w'
    using same [OF that(2)] that assms unfolding checks_def by (simp add: seen_def)
qed

lemma checks_reads: "reads_only m \<Longrightarrow> checks (\<lambda>_ _. True) m"
  by (simp add: checks_def)

lemma checks_weaken: "checks C m \<Longrightarrow> (\<And>x d. C x d \<Longrightarrow> C' x d) \<Longrightarrow> checks C' m"
  by (simp add: checks_def)

lemma checks_io_reads:
  "(\<And>w x. unreadable w = [] \<Longrightarrow> f w = Inr x \<Longrightarrow> C x (disk w)) \<Longrightarrow> checks C (io_reads f)"
  using preserves_reads [of "\<lambda>d. d" f]
  by (auto simp: checks_def reads_only_preserves io_reads_def split: sum.splits)

lemma checks_then:
  assumes "checks C m" and "\<And>x. checks (C' x) (f x)"
  shows "checks (\<lambda>y d. \<exists>x. C x d \<and> C' x y d) (io_then m f)"
proof -
  have "reads_only (io_then m f)"
    using assms unfolding checks_def reads_only_preserves by (intro keeps) auto
  moreover have "\<exists>x. C x (disk w) \<and> C' x y (disk w)"
    if "unreadable w = []" and run: "io_then m f w = (Inr y, w')" for w y w'
  proof -
    obtain x v where v: "m w = (Inr x, v)" "f x v = (Inr y, w')"
      using run by (auto simp: io_then_def split: prod.splits sum.splits)
    then have "disk v = disk w" "unreadable v = unreadable w"
      using assms(1) unfolding checks_def reads_only_def by (metis snd_conv)+
    with v that(1) assms show ?thesis
      unfolding checks_def by metis
  qed
  ultimately show ?thesis
    by (simp add: checks_def)
qed

lemma checks_chain: "checks (\<lambda>_. C) m \<Longrightarrow> checks C' n \<Longrightarrow> checks (\<lambda>y d. C d \<and> C' y d) (io_chain m n)"
  unfolding io_chain_def by (rule checks_weaken [OF checks_then]) auto

lemma checks_ensure: "checks (\<lambda>_ _. c) (io_ensure c e)"
  by (simp add: checks_def reads_only_def io_ensure_def io_return_def io_raise_def)

lemma checks_each: "(\<And>x. checks (\<lambda>_. C x) (f x)) \<Longrightarrow> checks (\<lambda>_ d. list_all (\<lambda>x. C x d) xs) (io_each f xs)"
proof (induction xs)
  case Nil
  then show ?case
    by (simp add: checks_def reads_only_def io_return_def)
next
  case (Cons x xs)
  then show ?case
    unfolding io_each.simps by (intro checks_weaken [OF checks_then]) auto
qed

lemma checks_read_file: "checks (\<lambda>bytes d. entry_at d p = Some (File bytes)) (read_regular_file p n)"
  unfolding read_regular_file_def
  by (rule checks_io_reads) (auto simp: seen_metadata split: option.splits node.splits if_splits)

lemma checks_hash_file:
  "checks (\<lambda>h d. \<exists>bytes. entry_at d p = Some (File bytes) \<and> h = en_sha256 G bytes) (hash_file G p)"
  unfolding hash_file_def
  by (rule checks_weaken [OF checks_then [OF checks_read_file, where C' = "\<lambda>b h d. h = en_sha256 G b"]])
    (auto simp: checks_def reads_only_def io_return_def)

lemma verify_mutation_checks:
  assumes "\<And>p n v. reads_only (en_validate_package G p n v)"
  shows "checks (\<lambda>_ d. entry_at d (packages_root @ [pm_package_id m]) =
    (if pm_kind m = RemovePackage then None else Some Directory)) (verify_mutation G packages_root m)"
proof -
  let ?t = "packages_root @ [pm_package_id m]"
  have "reads_only (needs_recovery (en_validate_package G p n v))" for p n v
    using assms unfolding reads_only_preserves by (intro keeps)
  then have "reads_only (verify_mutation G packages_root m)"
    unfolding verify_mutation_def Let_def reads_only_def
    by (simp add: io_ensure_def io_return_def io_raise_def split: option.split)
  moreover have "entry_at (disk w) ?t = (if pm_kind m = RemovePackage then None else Some Directory)"
    if "unreadable w = []" "verify_mutation G packages_root m w = (Inr x, w')" for w x w'
    using that
    by (auto simp: verify_mutation_def Let_def io_ensure_def io_raise_def seen_metadata is_ok_def
      split: if_splits option.splits)
  ultimately show ?thesis
    by (simp add: checks_def)
qed

lemma verify_final_state_checks:
  assumes "engine_ok G plan"
  shows "checks (\<lambda>_. in_place G root plan) (verify_final_state G root a plan)"
proof -
  have removal: "checks (\<lambda>_ d. case removal_target root r of Inl _ \<Rightarrow> False | Inr t \<Rightarrow> entry_at d t = None)
      (io_then (io_sum (removal_target root r)) (\<lambda>p. io_reads (require_absent p)))" for r
  proof (rule checks_weaken [OF checks_then])
    show "checks (\<lambda>t _. removal_target root r = Inr t) (io_sum (removal_target root r))"
      unfolding io_sum_def by (rule checks_io_reads)
    show "checks (\<lambda>_ d. entry_at d t = None) (io_reads (require_absent t))" for t
      by (rule checks_io_reads) (auto simp: seen_absent [symmetric])
  qed auto
  show ?thesis
    unfolding verify_final_state_def Let_def
    by (rule checks_weaken [OF checks_then [OF checks_hash_file checks_chain [OF checks_ensure
          checks_then [OF checks_read_file checks_then [OF checks_hash_file checks_chain [OF checks_ensure
          checks_chain [OF checks_each [OF removal] checks_each [OF verify_mutation_checks]]]]]]]])
      (auto simp: in_place_def list_all_iff engine_reads_only [OF assms])
qed

section \<open>Staging\<close>

text \<open>Nothing was moved into the attempt yet.\<close>

definition clean :: "path \<Rightarrow> files \<Rightarrow> bool" where
  "clean a d \<longleftrightarrow> (\<forall>q. (q \<noteq> [] \<longrightarrow> entry_at d (a @ ''backup'' # q) = None) \<and>
     entry_at d (a @ ''rolled-forward-content'' # q) = None \<and>
     entry_at d (a @ ''vpm-manifest.commit-old'' # q) = None \<and>
     entry_at d (a @ ''legacy-backup'' # q) = None)"

definition staged :: "path \<Rightarrow> package_plan \<Rightarrow> files \<Rightarrow> bool" where
  "staged a plan d \<longleftrightarrow> list_all (\<lambda>m. pm_source m \<noteq> None \<longrightarrow>
     entry_at d (a @ [''staging'', pm_package_id m]) = Some Directory) (cs_mutations (pl_change_set plan))"

definition new_groups :: "path \<Rightarrow> path \<Rightarrow> package_plan \<Rightarrow> group set" where
  "new_groups root a plan = insert (manifest_group root a)
     (mutation_group root a plan ` {m \<in> set (cs_mutations (pl_change_set plan)). pm_kind m \<noteq> RemovePackage})"

definition ready :: "path \<Rightarrow> package_plan \<Rightarrow> path \<Rightarrow> files \<Rightarrow> files \<Rightarrow> bool" where
  "ready root plan a d0 d \<longleftrightarrow> outside a d = outside a d0 \<and> clean a d \<and> staged a plan d \<and>
     (\<exists>b. entry_at d (vpm_manifest_path root) = Some (File b)) \<and>
     (\<exists>b. entry_at d (a @ [''vpm-manifest.new'']) = Some (File b))"

lemma outside_tree: "outside a d = outside a d0 \<Longrightarrow> parallel a t \<Longrightarrow> tree d t = tree d0 t"
  unfolding outside_eq tree_def by (metis (no_types) parallel_below parallel_commute)

lemma clean_below:
  assumes "clean a d"
  shows "entry_at d (a @ [''backup'', n]) = None" "entry_at d (rolled_dir a @ q) = None"
    "entry_at d (a @ [''vpm-manifest.commit-old'']) = None" "entry_at d (removal_slot a i) = None"
  using assms by (auto simp: clean_def rolled_dir_def removal_slot_def legacy_vault_def)

lemma ready_waiting:
  assumes under: "attempt_under root a" and ok: "plan_ok root plan" and r: "ready root plan a d0 d"
    and g: "g \<in> set (plan_groups root a plan)"
  shows "waiting d0 d g" "g \<in> new_groups root a plan \<Longrightarrow> new_there d g" "group_ok d0 d g"
proof -
  have same: "tree d t = tree d0 t" if "parallel a t" for t
    using r outside_tree [OF _ that] unfolding ready_def by blast
  have homes: "tree d (vpm_manifest_path root) = tree d0 (vpm_manifest_path root)"
    "tree d (packages_dir root @ [n]) = tree d0 (packages_dir root @ [n])" for n
    using same [OF attempt_branch(2) [OF under, of "[''vpm-manifest.json'']"]] same [OF attempt_branch(2) [OF under, of "[n]"]]
    by (simp_all only: packages_dir_def vpm_manifest_path_def append_assoc append.simps)
  have r': "clean a d" "staged a plan d" "\<exists>b. entry_at d (a @ [''vpm-manifest.new'']) = Some (File b)"
    using r by (simp_all add: ready_def)
  note absent = clean_below [OF r'(1)]
  have solid: "solid d (a @ [''staging'', pm_package_id m])"
    if "m \<in> set (cs_mutations (pl_change_set plan))" "pm_kind m \<noteq> RemovePackage" for m
    using r'(2) ok that by (auto simp: staged_def plan_ok_def list_all_iff solid_def)
  have manifest: "solid d (a @ [''vpm-manifest.new''])"
    using r'(3) by (auto simp: solid_def)
  have all: "waiting d0 d g \<and> (g \<in> new_groups root a plan \<longrightarrow> new_there d g) \<and> group_ok d0 d g"
    using g unfolding plan_groups_member
  proof (elim disjE bexE)
    assume G: "g = manifest_group root a"
    then show ?thesis
      using homes absent manifest by (simp add: manifest_group_def)
  next
    fix m
    assume m: "m \<in> set (cs_mutations (pl_change_set plan))" and G: "g = mutation_group root a plan m"
    consider (idle) "legacy_handled plan m" | (fresh) "\<not> legacy_handled plan m" "pm_kind m = InstallPackage"
      | (swap) "\<not> legacy_handled plan m" "pm_kind m \<noteq> InstallPackage" by blast
    then show ?thesis
    proof cases
      case idle
      then show ?thesis
        using absent by (simp add: G mutation_group_def Let_def)
    next
      case fresh
      then show ?thesis
        using absent homes solid [OF m] by (simp add: G mutation_group_def Let_def)
    next
      case swap
      have "solid d (a @ [''staging'', pm_package_id m])" if "g \<in> new_groups root a plan"
        using that unfolding new_groups_def
      proof (elim insertE imageE CollectE conjE)
        assume "g = manifest_group root a"
        then show ?thesis
          using swap by (simp add: G mutation_group_def manifest_group_def)
      next
        fix m'
        assume "g = mutation_group root a plan m'" "m' \<in> set (cs_mutations (pl_change_set plan))" "pm_kind m' \<noteq> RemovePackage"
        then show ?thesis
          using solid [of m'] mutation_group_inject G by metis
      qed
      with swap show ?thesis
        using absent homes by (simp add: G mutation_group_def Let_def)
    qed
  next
    fix x
    assume "g \<in> set (removal_groups root a x)"
    then obtain t where t: "removal_target root (snd x) = Inr t" and G: "g = Vaulted t (removal_slot a (fst x))"
      by (auto simp: removal_groups_member)
    then show ?thesis
      using absent same [OF removal_outside [OF t under]] by simp
  qed
  then show "waiting d0 d g" "g \<in> new_groups root a plan \<Longrightarrow> new_there d g" "group_ok d0 d g"
    by simp_all
qed

lemma ready_forward:
  assumes under: "attempt_under root a" and ok: "plan_ok root plan" and r: "ready root plan a d0 d"
  shows "forward d0 a (plan_groups root a plan) (new_groups root a plan) (set (plan_groups root a plan)) d"
  using ready_waiting [OF assms] r
  by (auto simp: forward_def recoverable_def ready_def outside_eq)

text \<open>While nothing has been changed, an error leaves an attempt that tells the truth.\<close>

definition quiet :: "attempt_marker option set" where
  "quiet = insert None (Some ` {m. \<not> changing (am_phase m)})"

definition safe :: "('s, 'c) engine \<Rightarrow> path \<Rightarrow> package_plan \<Rightarrow> path \<Rightarrow> files \<Rightarrow> files \<Rightarrow> bool" where
  "safe G root plan a d0 d \<longleftrightarrow> truthful G root plan a d0 d \<and> outside a d = outside a d0"

lemma safe_quiet: "outside a d = outside a d0 \<Longrightarrow> marked G a s M d \<Longrightarrow> M \<subseteq> quiet \<Longrightarrow> safe G root plan a d0 d"
  unfolding safe_def quiet_def using truthful_outside by blast

lemma quiet_marker: "\<not> changing ph \<Longrightarrow> Some (marker_of U plan ph st) \<in> quiet"
  by (auto simp: quiet_def marker_of_def)

lemma marked_put:
  "marked G a s M d \<Longrightarrow> unwatched a p \<Longrightarrow> marked G a s M (put_entry p n d)"
  by (rule marked_view) (simp_all add: view_put)

lemma unmarkedI:
  assumes "\<And>d p n. P d \<Longrightarrow> (\<exists>x. is_marker_name x \<and> p = a @ [x]) \<Longrightarrow> P (put_entry p n d)"
  shows "unmarked a P"
  using assms marker_name_is unfolding unmarked_def by blast

lemma put_inside:
  "is_marker_name x \<Longrightarrow> outside a (put_entry (a @ x # q) n d) = outside a d"
  "outside a (put_entry (a @ q) n d) = outside a d"
  by (auto simp: outside_def put_entry_def fun_eq_iff)

lemma put_other:
  "is_marker_name x \<Longrightarrow> \<not> is_marker_name y \<Longrightarrow> entry_at (put_entry (a @ [x]) n d) (a @ y # q) = entry_at d (a @ y # q)"
  by (auto simp: put_entry_def)

lemma unmarked_staging:
  "unmarked a (\<lambda>d. outside a d = outside a d0)" "unmarked a (clean a)" "unmarked a (staged a plan)"
  "attempt_under root a \<Longrightarrow> unmarked a (ready root plan a d0)"
proof -
  show out: "unmarked a (\<lambda>d. outside a d = outside a d0)"
    by (rule unmarkedI) (auto simp: put_inside)
  show clean: "unmarked a (clean a)"
    by (rule unmarkedI) (elim exE conjE, simp add: clean_def put_other del: map_of.simps)
  show staged: "unmarked a (staged a plan)"
    by (rule unmarkedI) (elim exE conjE, simp only: staged_def put_other marker_names not_False_eq_True)
  show "unmarked a (ready root plan a d0)" if under: "attempt_under root a"
  proof -
    have "vpm_manifest_path root \<noteq> a @ q" for q
      using project_apart(4) [OF under, of q] by auto
    then have "unmarked a (\<lambda>d. \<exists>b. entry_at d (vpm_manifest_path root) = Some (File b))"
      by (intro unmarkedI) (auto simp: put_entry_def)
    moreover have "unmarked a (\<lambda>d. \<exists>b. entry_at d (a @ [''vpm-manifest.new'']) = Some (File b))"
      by (intro unmarkedI) (auto simp: put_entry_def)
    ultimately show ?thesis
      using out clean staged unfolding unmarked_def ready_def by blast
  qed
qed

lemma unmarked_conj: "unmarked a P \<Longrightarrow> unmarked a Q \<Longrightarrow> unmarked a (\<lambda>d. P d \<and> Q d)"
  by (simp add: unmarked_def)

lemma extract_stages:
  fixes G :: "('s, 'c) engine" and a :: path and d0 :: files
  assumes ok: "engine_ok G plan"
  defines "Z \<equiv> \<lambda>d. outside a d = outside a d0 \<and> clean a d"
  shows "ensures (seen (\<lambda>d. Z d \<and> marked G a s M d)) (en_extract G (a @ [''staging'']) (pl_change_set plan) archives)
    (\<lambda>_. seen (\<lambda>d. (Z d \<and> staged a plan d) \<and> marked G a s M d)) (seen (\<lambda>d. Z d \<and> marked G a s M d))"
proof -
  let ?x = "en_extract G (a @ [''staging'']) (pl_change_set plan) archives :: (unit, 's) engine_io"
  have main: "seen (\<lambda>d. Z d \<and> marked G a s M d) w' \<and> (r = Inr () \<longrightarrow> staged a plan (disk w'))"
    if w: "seen (\<lambda>d. Z d \<and> marked G a s M d) w" and run: "?x w = (r, w')" for w r w'
  proof -
    have "unreadable w' = unreadable w \<and>
       (\<forall>p. \<not> strict_prefix (a @ [''staging'']) p \<longrightarrow> entry_at (disk w') p = entry_at (disk w) p) \<and>
       (r = Inr () \<longrightarrow> list_all (\<lambda>m. pm_source m \<noteq> None \<longrightarrow>
         entry_at (disk w') ((a @ [''staging'']) @ [pm_package_id m]) = Some Directory) (cs_mutations (pl_change_set plan)))"
      using ok run unfolding engine_ok_def engine_extracts_def by blast
    then have x: "unreadable w' = unreadable w"
      "\<And>p. \<not> strict_prefix (a @ [''staging'']) p \<Longrightarrow> entry_at (disk w') p = entry_at (disk w) p"
      "r = Inr () \<Longrightarrow> staged a plan (disk w')"
      by (simp_all add: staged_def)
    have "outside a (disk w') = outside a (disk w)"
      unfolding outside_eq using x(2) by (meson prefixI prefix_order.order_trans strict_prefix_def)
    moreover have "view a (disk w') = view a (disk w)"
    proof -
      have "entry_at (disk w') (a @ q) = entry_at (disk w) (a @ q)" if "watched q" for q
        using that marker_names by (intro x(2)) (auto simp: watched_def strict_prefix_def)
      then show ?thesis
        by (auto simp: view_def)
    qed
    moreover have "clean a (disk w') = clean a (disk w)"
      unfolding clean_def by (subst (1 2 3 4) x(2)) (auto simp: strict_prefix_def)
    ultimately show ?thesis
      using w x marked_view unfolding seen_def Z_def by metis
  qed
  show ?thesis
  proof (rule ensuresI)
    fix r and w w' :: "'s package_world"
    assume w: "seen (\<lambda>d. Z d \<and> marked G a s M d) w"
    show "?x w = (Inl r, w') \<Longrightarrow> seen (\<lambda>d. Z d \<and> marked G a s M d) w'"
      using main [OF w, of "Inl r" w'] by blast
    show "?x w = (Inr u, w') \<Longrightarrow> seen (\<lambda>d. (Z d \<and> staged a plan d) \<and> marked G a s M d) w'" for u
      using main [OF w, of "Inr ()" w'] by (auto simp: seen_def)
  qed
qed

lemma stage_packages_stages:
  fixes G :: "('s, 'c) engine" and a :: path and d0 :: files
  assumes ok: "engine_ok G plan" and M: "M \<subseteq> quiet"
  defines "Z \<equiv> \<lambda>d. outside a d = outside a d0 \<and> clean a d"
  shows "ensures (seen (\<lambda>d. Z d \<and> marked G a s M d)) (stage_packages G root key i plan a s)
    (\<lambda>s'. seen (\<lambda>d. (Z d \<and> staged a plan d) \<and> marked G a s' quiet d)) (seen (safe G root plan a d0))"
proof -
  let ?R = "seen (safe G root plan a d0)"
  have Z: "unmarked a Z"
    unfolding Z_def by (intro unmarked_conj unmarked_staging)
  have ZS: "unmarked a (\<lambda>d. Z d \<and> staged a plan d)"
    by (intro unmarked_conj Z unmarked_staging)
  have R: "safe G root plan a d0 d" if "Z d" "marked G a s' N d" "N \<subseteq> quiet" for d s' N
    using that safe_quiet unfolding Z_def by blast
  have ph: "quiet \<union> {None, Some (marker_of (en_uuid G) plan ArchiveReady Completed)} \<subseteq> quiet"
    "quiet \<union> {None, Some (marker_of (en_uuid G) plan Extracted Completed)} \<subseteq> quiet"
    using quiet_marker [of ArchiveReady] quiet_marker [of Extracted] by (auto simp: changing_def quiet_def)
  have fetch: "ensures (seen (\<lambda>d. Z d \<and> marked G a s M d)) (en_fetch G plan)
      (\<lambda>_. seen (\<lambda>d. Z d \<and> marked G a s quiet d)) ?R"
    by (rule ensures_seen [OF seen_reads_only [OF engine_reads_only(11) [OF ok]]])
      (use M R marked_mono in \<open>auto dest: marked_mono\<close>)
  have first: "ensures (seen (\<lambda>d. Z d \<and> marked G a s quiet d))
      (enter_phase G plan i key a False ArchiveReady Completed ev s)
      (\<lambda>s'. seen (\<lambda>d. Z d \<and> marked G a s' quiet d)) ?R" for ev
    by (rule ensures_seen [OF enter_phase_enters [OF ok Z]]) (use R ph in \<open>auto intro: marked_mono\<close>)
  have unpack: "ensures (seen (\<lambda>d. Z d \<and> marked G a s' quiet d))
      (en_extract G (a @ [''staging'']) (pl_change_set plan) archives)
      (\<lambda>_. seen (\<lambda>d. (Z d \<and> staged a plan d) \<and> marked G a s' quiet d)) ?R" for s' archives
    by (rule ensures_seen [OF extract_stages [OF ok, where a = a and archives = archives]])
      (use R in \<open>auto simp: Z_def\<close>)
  have legacy: "ensures (seen (\<lambda>d. (Z d \<and> staged a plan d) \<and> marked G a s' quiet d))
      (if cs_format_version (pl_change_set plan) = 3
         then io_each (\<lambda>p. en_verify_extracted_legacy G root (a @ [''staging'', p])) archives else io_return ())
      (\<lambda>_. seen (\<lambda>d. (Z d \<and> staged a plan d) \<and> marked G a s' quiet d)) ?R" for s' archives
  proof (rule seen_reads_only)
    show "reads_only (if cs_format_version (pl_change_set plan) = 3
         then io_each (\<lambda>p. en_verify_extracted_legacy G root (a @ [''staging'', p])) archives else io_return ())"
      unfolding reads_only_preserves by (intro keeps preserves_reads_only engine_reads_only [OF ok])
  qed (use R in blast)
  have second: "ensures (seen (\<lambda>d. (Z d \<and> staged a plan d) \<and> marked G a s' quiet d))
      (enter_phase G plan i key a False Extracted Completed ev s')
      (\<lambda>s'. seen (\<lambda>d. (Z d \<and> staged a plan d) \<and> marked G a s' quiet d)) ?R" for ev s'
    by (rule ensures_seen [OF enter_phase_enters [OF ok ZS]]) (use R ph in \<open>auto intro: marked_mono\<close>)
  show ?thesis
    unfolding stage_packages_def
    by (rule ensures_then [OF fetch ensures_then [OF first seen_chain [OF unpack seen_chain [OF legacy second]]]])
qed

lemma write_new_file_writes:
  assumes "\<And>d n. P d \<Longrightarrow> P (put_entry p n d)"
  shows "ensures (seen P) (write_new_file p bytes)
    (\<lambda>_. seen (\<lambda>d. P d \<and> entry_at d p = Some (File bytes))) (seen P)"
proof -
  have create: "ensures (seen P) (call_atomic (do_create (File []) p)) (\<lambda>_. seen P) (seen P)"
    by (rule seen_call) (auto simp: do_create_def assms split: if_splits)
  have fill: "ensures (seen P) (fs_write p bytes) (\<lambda>_. seen (\<lambda>d. P d \<and> entry_at d p = Some (File bytes))) (seen P)"
    unfolding fs_write_def by (rule seen_call) (auto simp: put_entry_def assms [unfolded put_entry_def])
  show ?thesis
    unfolding write_new_file_def
    by (rule seen_code, rule seen_chain [OF create seen_chain [OF fill seen_fs_sync]]) simp
qed

lemma prepare_manifest_ready:
  fixes G :: "('s, 'c) engine" and a :: path and d0 :: files and plan :: package_plan
  assumes ok: "engine_ok G plan" and under: "attempt_under root a"
  defines "Z \<equiv> \<lambda>d. outside a d = outside a d0 \<and> clean a d \<and> staged a plan d"
  shows "ensures (seen (\<lambda>d. Z d \<and> marked G a s quiet d)) (prepare_manifest G root key i plan a s)
    (\<lambda>s'. seen (\<lambda>d. ready root plan a d0 d \<and> marked G a s' quiet d)) (seen (safe G root plan a d0))"
proof -
  let ?R = "seen (safe G root plan a d0)" and ?man = "vpm_manifest_path root" and ?new = "a @ [''vpm-manifest.new'']"
  let ?I = "\<lambda>d. Z d \<and> marked G a s quiet d"
  let ?J = "\<lambda>d. ?I d \<and> (\<exists>b. entry_at d ?man = Some (File b))"
  let ?K = "\<lambda>d. ?J d \<and> (\<exists>b. entry_at d ?new = Some (File b))"
  have R: "safe G root plan a d0 d" if "?I d" for d
    using that safe_quiet unfolding Z_def by blast
  have apart: "?man \<noteq> a @ q" for q
    using project_apart(4) [OF under, of q] by auto
  have putI: "?I (put_entry (a @ [x]) n d)" if "?I d"
    "x = ''vpm-manifest.new'' \<or> x = ''vpm-manifest.old'' \<or> x = ''upm-manifest.sha256''" for d x n
  proof -
    have "\<not> is_marker_name x"
      using that(2) marker_names by blast
    then have "marked G a s quiet (put_entry (a @ [x]) n d)"
      using that(1) unwatched_inside [of x a "[]"] by (auto intro: marked_put)
    moreover have "clean a (put_entry (a @ [x]) n d)" "staged a plan (put_entry (a @ [x]) n d)"
      using that by (auto simp: Z_def clean_def staged_def put_entry_def list_all_iff)
    ultimately show ?thesis
      using that(1) by (simp add: Z_def put_inside)
  qed
  have putJ: "?J (put_entry (a @ [x]) n d)" if "?J d"
    "x = ''vpm-manifest.new'' \<or> x = ''vpm-manifest.old'' \<or> x = ''upm-manifest.sha256''" for d x n
    using putI [OF _ that(2), of d n] that(1) apart by (auto simp: put_entry_def)
  have upm: "ensures (seen ?I) (hash_file G p) (\<lambda>_. seen ?I) ?R" for p
    by (rule ensures_seen [OF checks_seen [where P = ?I, OF checks_hash_file]]) (use R in auto)
  have manifest: "ensures (seen ?I) (read_regular_file ?man n) (\<lambda>_. seen ?J) ?R" for n
    by (rule ensures_seen [OF checks_seen [where P = ?I, OF checks_read_file]]) (use R in auto)
  have total: "ensures (seen ?J) (io_sum r) (\<lambda>_. seen ?J) ?R" for r
    by (rule seen_sum) (use R in auto)
  have guard: "ensures (seen ?J) (if h then if v then io_raise e else stale reason else io_return ()) (\<lambda>_. seen ?J) ?R" for h v e reason
    unfolding stale_def using R by (auto intro!: ensures_if ensures_raise ensures_return simp: seen_def)
  have new: "ensures (seen ?J) (write_new_file ?new b) (\<lambda>_. seen ?K) ?R" for b
    by (rule ensures_seen [OF write_new_file_writes [where P = ?J]]) (use R putJ in auto)
  have others: "ensures (seen ?K) (write_new_file (a @ [x]) b) (\<lambda>_. seen ?K) ?R"
    if "x = ''vpm-manifest.old'' \<or> x = ''upm-manifest.sha256''" for x b
    by (rule ensures_seen [OF write_new_file_writes [where P = ?K]])
      (use that R putJ in \<open>auto simp: put_entry_def\<close>)
  have enter: "ensures (seen ?K) (enter_phase G plan i key a False Prepared Completed ev s)
      (\<lambda>s'. seen (\<lambda>d. ready root plan a d0 d \<and> marked G a s' quiet d)) ?R" for ev
  proof (rule ensures_seen [OF enter_phase_enters [OF ok unmarked_staging(4) [OF under]]])
    show "ready root plan a d0 d \<and> marked G a s quiet d" if "?K d" for d
      using that by (auto simp: ready_def Z_def)
    have Mk: "Some (marker_of (en_uuid G) plan Prepared Completed) \<in> quiet"
      by (rule quiet_marker) (simp add: changing_def)
    then show "ready root plan a d0 d \<and> marked G a s' quiet d"
      if "ready root plan a d0 d \<and> marked G a s' {Some (marker_of (en_uuid G) plan Prepared Completed)} d" for s' d
      using that by (auto intro: marked_mono)
    show "safe G root plan a d0 d"
      if "ready root plan a d0 d \<and> marked G a (- 1) (quiet \<union> {None, Some (marker_of (en_uuid G) plan Prepared Completed)}) d" for d
      using that Mk by (intro safe_quiet) (auto simp: ready_def quiet_def)
  qed
  show ?thesis
    unfolding prepare_manifest_def
    by (rule ensures_then [OF upm ensures_then [OF manifest ensures_then [OF total seen_chain [OF guard
          seen_chain [OF new seen_chain [OF others seen_chain [OF others enter]]]]]]]) simp_all
qed

end
