(* ===== verification/TransactionRun.thy ===== *)
theory TransactionRun
  imports TransactionAttempt
begin

text \<open>
  The change of the project in an attempt (\<open>change_project\<close>), and the attempt as a whole
  (\<open>run_attempt\<close>): a change that fails is rolled back, and one that succeeds is what was planned.
\<close>

section \<open>Failures\<close>

definition committed_in :: "('s, 'c) engine \<Rightarrow> path \<Rightarrow> files \<Rightarrow> bool" where
  "committed_in G a d \<longleftrightarrow> (case marker_in G a d of None \<Rightarrow> False | Some m \<Rightarrow> am_phase m = FilesystemCommitted)"

text \<open>What may be said of an attempt that returned an error.\<close>

definition failed ::
  "('s, 'c) engine \<Rightarrow> path \<Rightarrow> package_plan \<Rightarrow> path \<Rightarrow> files \<Rightarrow> m4_error \<Rightarrow> files \<Rightarrow> bool" where
  "failed G root plan a d0 e d \<longleftrightarrow> truthful G root plan a d0 d \<and>
     (me_code e = RecoveryRequiredE \<or> outside a d = outside a d0 \<or> committed_in G a d)"

lemma ends_safe:
  assumes "ensures P m Q (seen (safe G root plan a d0))"
  shows "ends P m Q (\<lambda>e. seen (failed G root plan a d0 e)) (seen (truthful G root plan a d0))"
  by (rule ends_of_ensures [OF assms]) (auto simp: seen_def safe_def failed_def)

lemma ends_recovery:
  assumes "ensures P m Q (seen (truthful G root plan a d0))" and "only_recovery m"
  shows "ends P m Q (\<lambda>e. seen (failed G root plan a d0 e)) (seen (truthful G root plan a d0))"
  by (rule ends_only [OF assms]) (auto simp: seen_def failed_def)

lemma or_roll_back_ends:
  fixes G :: "('s, 'c) engine"
  assumes ok: "engine_ok G plan" and under: "attempt_under root a" and plan: "plan_ok root plan"
    and mk: "changing (am_phase mk)"
    and m: "ensures (seen (\<lambda>d. P d \<and> marked G a s {Some mk} d)) m (\<lambda>_. seen (\<lambda>d. Q d \<and> marked G a s {Some mk} d))
      (seen (\<lambda>d. recoverable d0 a (plan_groups root a plan) {} d \<and> marked G a s {Some mk} d))"
  shows "ends (seen (\<lambda>d. P d \<and> marked G a s {Some mk} d)) (or_roll_back G root key i plan a step reported m)
    (\<lambda>_. seen (\<lambda>d. Q d \<and> marked G a s {Some mk} d))
    (\<lambda>e. seen (failed G root plan a d0 e)) (seen (truthful G root plan a d0))"
proof -
  let ?gs = "plan_groups root a plan" and ?E = "\<lambda>e. seen (failed G root plan a d0 e)"
  let ?S = "seen (truthful G root plan a d0)"
  let ?rec = "\<lambda>H d. recoverable d0 a ?gs H d \<and> marked G a s {Some mk} d"
  have truth: "truthful G root plan a d0 d" if "?rec {} d" for d
    using that mk by (intro truthful_recoverable) auto
  have home: "truthful G root plan a d0 d \<and> outside a d = outside a d0" if "?rec (set ?gs) d" for d
  proof -
    have "recoverable d0 a ?gs {} d"
      using that by (rule_tac recoverable_less [of _ _ _ "set ?gs"]) auto
    then have "truthful G root plan a d0 d"
      using that truth by blast
    moreover have "outside a d = outside a d0"
      using that restored unfolding outside_eq by blast
    ultimately show ?thesis ..
  qed
  have verify: "\<And>p r. reads_only (en_verify_removal G p r)"
    using engine_reads_only [OF ok] by blast
  have "ensures (seen (?rec {})) (rollback_attempt G root a plan) (\<lambda>_. seen (?rec (set ?gs))) (seen (?rec {}))"
    by (rule seen_marked [OF rollback_restores [OF under _ verify] rollback_attempt_view [OF under verify]])
      (use plan in \<open>simp add: plan_ok_def\<close>)
  then have "ensures (seen (?rec {})) (rollback_attempt G root a plan) (\<lambda>_. seen (?rec (set ?gs))) ?S"
    by (rule ensures_seen) (use truth in auto)
  then have rollback: "ends (seen (?rec {})) (rollback_attempt G root a plan) (\<lambda>_. seen (?rec (set ?gs))) ?E ?S"
    by (rule ends_recovery [OF _ only_rollback])
  have "reads_only (needs_recovery (append_phase G plan i key step RolledBack Completed no_evidence))"
    unfolding reads_only_preserves by (intro keeps append_phase_keeps [OF ok])
  then have "ensures (seen (?rec (set ?gs)))
      (needs_recovery (append_phase G plan i key step RolledBack Completed no_evidence))
      (\<lambda>_. seen (?rec (set ?gs))) ?S"
    by (rule seen_reads_only) (use home in blast)
  then have append: "ends (seen (?rec (set ?gs)))
      (needs_recovery (append_phase G plan i key step RolledBack Completed no_evidence))
      (\<lambda>_. seen (?rec (set ?gs))) ?E ?S"
    by (rule ends_recovery [OF _ only_needs])
  have raise: "ends (seen (?rec (set ?gs))) (io_raise e) (\<lambda>_. seen (\<lambda>d. Q d \<and> marked G a s {Some mk} d)) ?E ?S" for e
    using home by (auto simp: ends_def io_raise_def seen_def failed_def)
  have m': "ends (seen (\<lambda>d. P d \<and> marked G a s {Some mk} d)) m (\<lambda>_. seen (\<lambda>d. Q d \<and> marked G a s {Some mk} d))
      (\<lambda>_. seen (?rec {})) ?S"
    by (rule ends_of_ensures [OF m]) (use truth in \<open>auto simp: seen_def\<close>)
  show ?thesis
    unfolding or_roll_back_def
    by (rule ends_match [OF m' _ ends_chain [OF rollback ends_then [OF append raise]]])
      (simp add: ends_def io_return_def)
qed

section \<open>The change of the project\<close>

lemma unmarked_recoverable:
  assumes "attempt_under root a"
  shows "unmarked a (recoverable d0 a (plan_groups root a plan) {})"
    and "unmarked a (forward d0 a (plan_groups root a plan) N W)"
proof -
  have "marker_name s \<noteq> ''vpm-manifest.commit-old''" "marker_name s \<noteq> ''vpm-manifest.new''"
    "marker_name s \<noteq> ''legacy-backup''" for s
    using marker_name_is [of s] marker_names by metis+
  then show "unmarked a (recoverable d0 a (plan_groups root a plan) {})"
    "unmarked a (forward d0 a (plan_groups root a plan) N W)"
    using put_plan_entry [OF assms] forward_put_entry [OF assms] unfolding unmarked_def by blast+
qed

lemma in_place_outside:
  assumes under: "attempt_under root a" and same: "outside a d = outside a d'"
  shows "in_place G root plan d = in_place G root plan d'"
proof -
  have entry: "entry_at d p = entry_at d' p" if "parallel a p" for p
    using same that unfolding outside_eq by (simp add: parallel_def)
  have "parallel a (vpm_manifest_path root)" "parallel a (packages_dir root @ [n])" for n
    using attempt_branch(2) [OF under, of "[''vpm-manifest.json'']"] attempt_branch(2) [OF under, of "[n]"]
    by (simp_all only: packages_dir_def vpm_manifest_path_def append_assoc append.simps)
  moreover have "(case removal_target root r of Inl _ \<Rightarrow> False | Inr t \<Rightarrow> entry_at d t = None) =
      (case removal_target root r of Inl _ \<Rightarrow> False | Inr t \<Rightarrow> entry_at d' t = None)" for r
    using removal_outside [OF _ under] entry by (cases "removal_target root r") simp_all
  ultimately show ?thesis
    by (simp only: in_place_def entry)
qed

lemma manifest_not_mutation:
  assumes "plan_places_ok root plan" and "m \<in> set (cs_mutations (pl_change_set plan))"
  shows "manifest_group root a \<noteq> mutation_group root a plan m"
  using assms
  by (auto simp: plan_places_ok_def Let_def manifest_group_def mutation_group_def vpm_manifest_path_def)

lemma replace_ends:
  assumes ok: "engine_ok G plan" and under: "attempt_under root a" and plan: "plan_ok root plan"
    and wf: "\<And>n. entry_at d0 (packages_dir root @ [n]) = None \<Longrightarrow> tree d0 (packages_dir root @ [n]) = (\<lambda>_. None)"
  defines "gs \<equiv> plan_groups root a plan" and "N \<equiv> new_groups root a plan"
  shows "ensures (seen (ready root plan a d0)) (io_chain (quarantine_legacy G root a plan)
      (replace_packages (packages_dir root) (a @ [''staging'']) (a @ [''backup'']) plan))
    (\<lambda>_. seen (forward d0 a gs N {manifest_group root a})) (seen (recoverable d0 a gs {}))"
proof -
  let ?ms = "cs_mutations (pl_change_set plan)" and ?rs = "cs_legacy_removals (pl_change_set plan)"
  let ?V = "\<Union>x \<in> set (enumerate 0 ?rs). set (removal_groups root a x)"
  have places: "plan_places_ok root plan"
    using plan by (simp add: plan_ok_def)
  have lay: "laid_out a gs"
    unfolding gs_def by (rule plan_laid_out [OF under places])
  have vaulted: "\<exists>t v. g = Vaulted t v" if "g \<in> ?V" for g
    using that by (auto simp: removal_groups_member)
  have mutation: "mutation_group root a plan m \<in> set gs - ?V" if "m \<in> set ?ms" for m
  proof -
    have "mutation_group root a plan m \<notin> ?V"
      using vaulted by (auto simp: mutation_group_def Let_def split: if_splits)
    then show ?thesis
      using that by (auto simp: gs_def plan_groups_member)
  qed
  have manifest: "manifest_group root a \<in> set gs - ?V - mutation_group root a plan ` set ?ms"
  proof -
    have "manifest_group root a \<notin> ?V"
      using vaulted by (auto simp: manifest_group_def)
    then show ?thesis
      using manifest_not_mutation [OF places] by (auto simp: gs_def plan_groups_member)
  qed
  have quarantine: "ensures (seen (forward d0 a gs N (set gs))) (quarantine_legacy G root a plan)
      (\<lambda>_. seen (forward d0 a gs N (set gs - ?V))) (seen (recoverable d0 a gs {}))"
    unfolding gs_def
  proof (rule quarantine_legacy_keeps [OF under places])
    show "set (removal_groups root a x) \<subseteq> set (plan_groups root a plan)" if "x \<in> set (enumerate 0 ?rs)" for x
      using that by (auto simp: plan_groups_member)
  qed (use engine_reads_only [OF ok] in auto)
  have replace: "ensures (seen (forward d0 a gs N (set gs - ?V)))
      (replace_packages (packages_dir root) (a @ [''staging'']) (a @ [''backup'']) plan)
      (\<lambda>_. seen (forward d0 a gs N (set gs - ?V - mutation_group root a plan ` set ?ms))) (seen (recoverable d0 a gs {}))"
  proof (rule replace_packages_keeps [OF lay wf])
    show "distinct (map pm_package_id ?ms)"
      using places by (simp add: plan_places_ok_def Let_def)
    show "mutation_group root a plan m \<in> N" if "m \<in> set ?ms" "pm_kind m \<noteq> RemovePackage" for m
      using that by (simp add: N_def new_groups_def)
  qed (use mutation in auto)
  show ?thesis
    by (rule ensures_seen [OF seen_chain [OF quarantine replace]])
      (use ready_forward [OF under plan] manifest in \<open>auto simp: gs_def N_def intro: forward_less\<close>)
qed

lemma commit_ends:
  assumes ok: "engine_ok G plan" and under: "attempt_under root a" and plan: "plan_ok root plan"
    and solid: "solid d0 (vpm_manifest_path root)"
  defines "gs \<equiv> plan_groups root a plan" and "N \<equiv> new_groups root a plan"
  shows "ensures (seen (forward d0 a gs N {manifest_group root a}))
      (io_chain (en_verify_plan_legacy G (packages_dir root) plan True) (commit_manifest (vpm_manifest_path root) a))
    (\<lambda>_. seen (recoverable d0 a gs {})) (seen (recoverable d0 a gs {}))"
proof -
  have lay: "laid_out a gs"
    unfolding gs_def using plan by (intro plan_laid_out [OF under]) (simp add: plan_ok_def)
  have manifest: "manifest_group root a \<in> N" "{manifest_group root a} \<subseteq> set gs"
    by (simp_all add: N_def new_groups_def gs_def plan_groups_def)
  have commit: "ensures (seen (forward d0 a gs N {manifest_group root a})) (commit_manifest (vpm_manifest_path root) a)
      (\<lambda>_. seen (recoverable d0 a gs {})) (seen (recoverable d0 a gs {}))"
    by (rule ensures_seen [OF commit_manifest_keeps [OF lay _ manifest(2,1) solid]])
      (auto intro: forward_recoverable)
  show ?thesis
    by (rule seen_chain [OF seen_reads_only [OF engine_reads_only(4) [OF ok]] commit]) (rule forward_recoverable)
qed

text \<open>The state in which the change is complete.\<close>

definition done_state :: "('s, 'c) engine \<Rightarrow> path \<Rightarrow> package_plan \<Rightarrow> path \<Rightarrow> files \<Rightarrow> files \<Rightarrow> bool" where
  "done_state G root plan a d0 d \<longleftrightarrow>
     truthful G root plan a d0 d \<and> in_place G root plan d \<and> committed_in G a d"

lemma enter_ends:
  assumes ok: "engine_ok G plan" and under: "attempt_under root a" and M: "changing (am_phase mk)"
    and P: "unmarked a P" "\<And>d. P d \<Longrightarrow> recoverable d0 a (plan_groups root a plan) {} d"
    and ph: "changing ph \<or> ph = FilesystemCommitted"
  shows "ends (seen (\<lambda>d. P d \<and> marked G a s {Some mk} d)) (enter_phase G plan i key a False ph st ev s)
    (\<lambda>s'. seen (\<lambda>d. P d \<and> marked G a s' {Some (marker_of (en_uuid G) plan ph st)} d))
    (\<lambda>e. seen (failed G root plan a d0 e)) (seen (truthful G root plan a d0))"
proof (rule ends_recovery [OF _ only_enter_phase], rule ensures_seen [OF enter_phase_enters [OF ok P(1)]])
  fix d
  assume "P d \<and> marked G a (- 1) ({Some mk} \<union> {None, Some (marker_of (en_uuid G) plan ph st)}) d"
  then show "truthful G root plan a d0 d"
    using M P(2) ph by (intro truthful_recoverable) (auto simp: marker_of_def)
qed auto

lemma change_project_ends:
  assumes ok: "engine_ok G plan" and under: "attempt_under root a" and plan: "plan_ok root plan"
    and wf: "\<And>n. entry_at d0 (packages_dir root @ [n]) = None \<Longrightarrow> tree d0 (packages_dir root @ [n]) = (\<lambda>_. None)"
  shows "ends (seen (\<lambda>d. ready root plan a d0 d \<and> marked G a s quiet d)) (change_project G root key i plan a s)
    (\<lambda>_. seen (done_state G root plan a d0)) (\<lambda>e. seen (failed G root plan a d0 e)) (seen (truthful G root plan a d0))"
proof (rule ends_case_pre)
  fix w0 :: "'a package_world"
  assume w0: "seen (\<lambda>d. ready root plan a d0 d \<and> marked G a s quiet d) w0"
  then have "ready root plan a d0 (disk w0)"
    by (simp add: seen_def)
  then obtain b where "entry_at (disk w0) (vpm_manifest_path root) = Some (File b)"
    and same: "outside a (disk w0) = outside a d0"
    by (auto simp: ready_def)
  moreover have "\<not> prefix a (vpm_manifest_path root)"
    using project_apart(5) [OF under, of "[]"] by (auto simp: parallel_def)
  ultimately have solid: "solid d0 (vpm_manifest_path root)"
    by (auto simp: solid_def outside_eq)
  let ?gs = "plan_groups root a plan" and ?N = "new_groups root a plan" and ?M = "manifest_group root a"
  let ?U = "en_uuid G"
  let ?E = "\<lambda>e. seen (failed G root plan a d0 e)" and ?S = "seen (truthful G root plan a d0)"
  let ?C = "forward d0 a ?gs ?N {?M}" and ?D = "recoverable d0 a ?gs {}"
  let ?at = "\<lambda>P ph st s d. P d \<and> marked G a s {Some (marker_of ?U plan ph st)} d"
  note recov = unmarked_recoverable [OF under]
  have verify: "\<And>p r. reads_only (en_verify_removal G p r)" and reads: "\<And>p b. reads_only (en_verify_plan_legacy G p plan b)"
    using engine_reads_only [OF ok] by blast+
  have "ensures (seen (\<lambda>d. ready root plan a d0 d \<and> marked G a s quiet d))
      (enter_phase G plan i key a True PackagesReplaced Intent no_evidence s)
      (\<lambda>s'. seen (?at (ready root plan a d0) PackagesReplaced Intent s')) (seen (safe G root plan a d0))"
  proof (rule ensures_seen [OF enter_phase_enters [OF ok unmarked_staging(4) [OF under]]])
    fix d
    assume "ready root plan a d0 d \<and>
      marked G a (- 1) (quiet \<union> {None, Some (marker_of ?U plan PackagesReplaced Intent)}) d"
    then show "safe G root plan a d0 d"
      using truthful_both [OF _ forward_recoverable [OF ready_forward [OF under plan]]]
      unfolding safe_def ready_def by blast
  qed auto
  then have intent: "ends (\<lambda>w. w = w0) (enter_phase G plan i key a True PackagesReplaced Intent no_evidence s)
      (\<lambda>s'. seen (?at (ready root plan a d0) PackagesReplaced Intent s')) ?E ?S"
    by (rule ends_weaken [OF ends_safe]) (use w0 in auto)
  have "ensures (seen (?at (ready root plan a d0) PackagesReplaced Intent s')) (en_verify_plan_legacy G p plan b)
      (\<lambda>_. seen (?at (ready root plan a d0) PackagesReplaced Intent s')) (seen (safe G root plan a d0))" for p b s'
  proof (rule seen_reads_only [OF reads])
    fix d
    assume "?at (ready root plan a d0) PackagesReplaced Intent s' d"
    then show "safe G root plan a d0 d"
      using truthful_both [OF _ forward_recoverable [OF ready_forward [OF under plan]]]
      unfolding safe_def ready_def by blast
  qed
  then have legacy: "ends (seen (?at (ready root plan a d0) PackagesReplaced Intent s')) (en_verify_plan_legacy G p plan b)
      (\<lambda>_. seen (?at (ready root plan a d0) PackagesReplaced Intent s')) ?E ?S" for p b s'
    by (rule ends_safe)
  have replace: "ends (seen (?at (ready root plan a d0) PackagesReplaced Intent s'))
      (or_roll_back G root key i plan a s' r (io_chain (quarantine_legacy G root a plan)
        (replace_packages (packages_dir root) (a @ [''staging'']) (a @ [''backup'']) plan)))
      (\<lambda>_. seen (?at ?C PackagesReplaced Intent s')) ?E ?S" for s' r
  proof (rule or_roll_back_ends [OF ok under plan])
    show "changing (am_phase (marker_of ?U plan PackagesReplaced Intent))"
      by (simp add: changing_def marker_of_def)
    have view: "preserves (view a) (io_chain (quarantine_legacy G root a plan)
        (replace_packages (packages_dir root) (a @ [''staging'']) (a @ [''backup'']) plan))"
      by (intro keeps quarantine_legacy_view [OF under verify] replace_packages_view [OF under])
    show "ensures (seen (?at (ready root plan a d0) PackagesReplaced Intent s'))
       (io_chain (quarantine_legacy G root a plan)
         (replace_packages (packages_dir root) (a @ [''staging'']) (a @ [''backup'']) plan))
       (\<lambda>_. seen (?at ?C PackagesReplaced Intent s')) (seen (?at ?D PackagesReplaced Intent s'))"
      by (rule seen_marked [OF replace_ends [OF ok under plan wf] view])
  qed
  have replaced: "ends (seen (?at ?C PackagesReplaced Intent s'))
      (enter_phase G plan i key a False PackagesReplaced Completed no_evidence s')
      (\<lambda>s'. seen (?at ?C PackagesReplaced Completed s')) ?E ?S" for s'
    by (rule enter_ends [OF ok under _ recov(2) forward_recoverable]) (auto simp: changing_def marker_of_def)
  have intent2: "ends (seen (?at ?C PackagesReplaced Completed s'))
      (enter_phase G plan i key a False VpmManifestCommitted Intent no_evidence s')
      (\<lambda>s'. seen (?at ?C VpmManifestCommitted Intent s')) ?E ?S" for s'
    by (rule enter_ends [OF ok under _ recov(2) forward_recoverable]) (auto simp: changing_def marker_of_def)
  have commit: "ends (seen (?at ?C VpmManifestCommitted Intent s'))
      (or_roll_back G root key i plan a s' r (io_chain (en_verify_plan_legacy G (packages_dir root) plan True)
        (commit_manifest (vpm_manifest_path root) a)))
      (\<lambda>_. seen (?at ?D VpmManifestCommitted Intent s')) ?E ?S" for s' r
  proof (rule or_roll_back_ends [OF ok under plan])
    show "changing (am_phase (marker_of ?U plan VpmManifestCommitted Intent))"
      by (simp add: changing_def marker_of_def)
    have view: "preserves (view a) (io_chain (en_verify_plan_legacy G (packages_dir root) plan True)
        (commit_manifest (vpm_manifest_path root) a))"
      by (intro keeps preserves_reads_only [OF reads] commit_manifest_view [OF under])
    show "ensures (seen (?at ?C VpmManifestCommitted Intent s'))
       (io_chain (en_verify_plan_legacy G (packages_dir root) plan True) (commit_manifest (vpm_manifest_path root) a))
       (\<lambda>_. seen (?at ?D VpmManifestCommitted Intent s')) (seen (?at ?D VpmManifestCommitted Intent s'))"
      by (rule seen_marked [OF commit_ends [OF ok under plan solid] view])
  qed
  have committed: "ends (seen (?at ?D VpmManifestCommitted Intent s'))
      (enter_phase G plan i key a False VpmManifestCommitted Completed no_evidence s')
      (\<lambda>s'. seen (?at ?D VpmManifestCommitted Completed s')) ?E ?S" for s'
    by (rule enter_ends [OF ok under _ recov(1)]) (auto simp: changing_def marker_of_def)
  let ?F = "\<lambda>d. ?D d \<and> in_place G root plan d"
  have verified: "ends (seen (?at ?D VpmManifestCommitted Completed s'))
      (or_roll_back G root key i plan a s' r (verify_final_state G root a plan))
      (\<lambda>_. seen (?at ?F VpmManifestCommitted Completed s')) ?E ?S" for s' r
  proof (rule or_roll_back_ends [OF ok under plan])
    show "changing (am_phase (marker_of ?U plan VpmManifestCommitted Completed))"
      by (simp add: changing_def marker_of_def)
    have checks: "checks (\<lambda>_. in_place G root plan) (verify_final_state G root a plan)"
      by (rule verify_final_state_checks [OF ok])
    then have view: "preserves (view a) (verify_final_state G root a plan)"
      by (simp add: checks_def preserves_reads_only)
    show "ensures (seen (?at ?D VpmManifestCommitted Completed s')) (verify_final_state G root a plan)
       (\<lambda>_. seen (?at ?F VpmManifestCommitted Completed s')) (seen (?at ?D VpmManifestCommitted Completed s'))"
      by (rule seen_marked [OF checks_seen [OF checks] view])
  qed
  have unmarked_place: "unmarked a (in_place G root plan)"
    unfolding unmarked_def using in_place_outside [OF under put_inside(2)] by blast
  have final: "ends (seen (?at ?F VpmManifestCommitted Completed s'))
      (enter_phase G plan i key a False FilesystemCommitted Completed no_evidence s')
      (\<lambda>s'. seen (?at ?F FilesystemCommitted Completed s')) ?E ?S" for s'
    by (rule enter_ends [OF ok under _ unmarked_conj [OF recov(1) unmarked_place]])
      (auto simp: changing_def marker_of_def)
  have finished: "done_state G root plan a d0 d" if "?at ?F FilesystemCommitted Completed s' d" for s' d
  proof -
    have "truthful G root plan a d0 d"
      using that by (intro truthful_recoverable) (auto simp: marker_of_def)
    then show ?thesis
      using that by (auto simp: done_state_def committed_in_def marked_def marker_of_def)
  qed
  have whole: "ends (\<lambda>w. w = w0) (change_project G root key i plan a s)
      (\<lambda>s'. seen (?at ?F FilesystemCommitted Completed s')) ?E ?S"
    unfolding change_project_def Let_def
    by (rule ends_then [OF intent ends_chain [OF legacy ends_chain [OF replace ends_then [OF replaced
          ends_then [OF intent2 ends_chain [OF commit ends_then [OF committed ends_chain [OF verified final]]]]]]]])
  then show "ends (\<lambda>w. w = w0) (change_project G root key i plan a s)
      (\<lambda>_. seen (done_state G root plan a d0)) ?E ?S"
    by (rule ends_weaken) (use finished in \<open>auto simp: seen_def\<close>)
qed

section \<open>The attempt\<close>

lemma done_state_same:
  assumes "attempt_under root a" and "outside a d = outside a d'" and "view a d = view a d'"
    and d: "done_state G root plan a d0 d"
  shows "done_state G root plan a d0 d'"
proof -
  have marker: "marker_in G a d' = marker_in G a d"
    by (rule marker_in_view [OF assms(3), symmetric])
  have parts: "framed d0 a (plan_groups root a plan) d" "entry_at d a \<noteq> None" "markers_upto a (- 1) d"
    "in_place G root plan d" "committed_in G a d"
    using d by (simp_all add: done_state_def truthful_def)
  have "framed d0 a (plan_groups root a plan) d'"
    by (rule framed_outside [OF assms(2) parts(1)])
  moreover have "in_place G root plan d'"
    using in_place_outside [OF assms(1,2)] parts(4) by blast
  moreover have "markers_upto a (- 1) d'"
    by (rule markers_upto_view [OF assms(3) parts(3)])
  moreover have "entry_at d' a \<noteq> None"
    using parts(2) fun_cong [OF assms(3), of "[]"] by (simp add: view_def watched_def)
  moreover obtain m where "marker_in G a d = Some m" "am_phase m = FilesystemCommitted"
    using parts(5) by (auto simp: committed_in_def split: option.splits)
  ultimately show ?thesis
    by (simp add: done_state_def truthful_def committed_in_def marker)
qed

lemma done_failed: "done_state G root plan a d0 d \<Longrightarrow> failed G root plan a d0 e d \<and> truthful G root plan a d0 d"
  by (simp add: done_state_def failed_def)

lemma done_ends:
  assumes under: "attempt_under root a" and "preserves (outside a) m" and "preserves (view a) m"
  shows "ends (seen (done_state G root plan a d0)) m (\<lambda>_. seen (done_state G root plan a d0))
    (\<lambda>e. seen (failed G root plan a d0 e)) (seen (truthful G root plan a d0))"
proof -
  have kept: "seen (done_state G root plan a d0) w'"
    if "seen (done_state G root plan a d0) w" "m w = (r, w')" for w r w'
  proof -
    have w': "w' = snd (m w)"
      using that(2) by simp
    have out: "outside a (disk w) = outside a (disk w')" and vw: "view a (disk w) = view a (disk w')"
      and un: "unreadable w' = unreadable w"
      using assms(2,3) unfolding preserves_def w' by auto
    have "done_state G root plan a d0 (disk w')"
      by (rule done_state_same [OF under out vw]) (use that(1) in \<open>simp add: seen_def\<close>)
    then show ?thesis
      using that(1) un by (simp add: seen_def)
  qed
  have "ensures (seen (done_state G root plan a d0)) m (\<lambda>_. seen (done_state G root plan a d0))
      (seen (done_state G root plan a d0))"
    by (rule ensuresI; erule kept; assumption)
  then show ?thesis
    by (rule ends_of_ensures) (simp_all add: seen_def done_failed)
qed

lemma cleanup_ends:
  assumes ok: "engine_ok G plan" and under: "attempt_under root a"
  shows "ends (seen (done_state G root plan a d0)) (cleanup_legacy G root a plan)
    (\<lambda>_. seen (done_state G root plan a d0)) (\<lambda>e. seen (failed G root plan a d0 e)) (seen (truthful G root plan a d0))"
  by (rule done_ends [OF under]; rule cleanup_legacy_preserves)
    (simp_all add: engine_reads_only [OF ok] ignores_vault)

lemma inspect_ends:
  assumes ok: "engine_ok G plan" and under: "attempt_under root a"
  shows "ends (seen (done_state G root plan a d0)) (en_inspect G root plan)
    (\<lambda>_. seen (done_state G root plan a d0)) (\<lambda>e. seen (failed G root plan a d0 e)) (seen (truthful G root plan a d0))"
  by (rule done_ends [OF under]; rule preserves_reads_only; rule engine_reads_only [OF ok])

lemma run_attempt_ends:
  assumes ok: "engine_ok G plan" and under: "attempt_under root a" and plan: "plan_ok root plan"
    and wf: "\<And>n. entry_at d0 (packages_dir root @ [n]) = None \<Longrightarrow> tree d0 (packages_dir root @ [n]) = (\<lambda>_. None)"
  shows "ends (seen (\<lambda>d. (outside a d = outside a d0 \<and> clean a d) \<and> marked G a s {None} d))
    (run_attempt G root key i plan a s) (\<lambda>_. seen (done_state G root plan a d0))
    (\<lambda>e. seen (failed G root plan a d0 e)) (seen (truthful G root plan a d0))"
proof -
  let ?E = "\<lambda>e. seen (failed G root plan a d0 e)" and ?S = "seen (truthful G root plan a d0)"
  let ?Z = "\<lambda>d. (outside a d = outside a d0 \<and> clean a d) \<and> staged a plan d"
  let ?done = "seen (done_state G root plan a d0)"
  have stage: "ends (seen (\<lambda>d. (outside a d = outside a d0 \<and> clean a d) \<and> marked G a s {None} d))
      (stage_packages G root key i plan a s) (\<lambda>s'. seen (\<lambda>d. ?Z d \<and> marked G a s' quiet d)) ?E ?S"
    by (rule ends_safe [OF stage_packages_stages [OF ok]]) (simp add: quiet_def)
  have reads: "ends (seen (\<lambda>d. ?Z d \<and> marked G a s' quiet d)) m (\<lambda>_. seen (\<lambda>d. ?Z d \<and> marked G a s' quiet d)) ?E ?S"
    if "reads_only m" for m s'
    by (rule ends_safe, rule seen_reads_only [OF that]) (auto intro: safe_quiet)
  have cancelled: "reads_only (stop_if_cancelled G i)"
    unfolding stop_if_cancelled_def reads_only_preserves
    by (intro keeps preserves_reads_only engine_reads_only [OF ok])
  have "ensures (seen (\<lambda>d. ?Z d \<and> marked G a s' quiet d)) (prepare_manifest G root key i plan a s')
      (\<lambda>s'. seen (\<lambda>d. ready root plan a d0 d \<and> marked G a s' quiet d)) (seen (safe G root plan a d0))" for s'
    by (rule ensures_seen [OF prepare_manifest_ready [OF ok under]]) auto
  then have prepare: "ends (seen (\<lambda>d. ?Z d \<and> marked G a s' quiet d)) (prepare_manifest G root key i plan a s')
      (\<lambda>s'. seen (\<lambda>d. ready root plan a d0 d \<and> marked G a s' quiet d)) ?E ?S" for s'
    by (rule ends_safe)
  have journal: "ends ?done (needs_recovery (append_phase G plan i key s' StateCommitted Intent no_evidence))
      (\<lambda>_. ?done) ?E ?S" for s'
    by (rule done_ends [OF under]) (intro keeps append_phase_keeps [OF ok])+
  show ?thesis
    unfolding run_attempt_def
    by (rule ends_then [OF stage ends_chain [OF reads ends_chain [OF reads ends_chain [OF reads
          ends_then [OF prepare ends_then [OF change_project_ends [OF ok under plan wf]
            ends_chain [OF cleanup_ends [OF ok under] ends_then [OF journal inspect_ends [OF ok under]]]]]]]]])
      (use cancelled engine_reads_only [OF ok] in blast)+
qed

end
