(* ===== verification/TransactionHistory.thy ===== *)
theory TransactionHistory
  imports TransactionRun
begin

text \<open>
  An operation over the restarts of the program: \<open>execute\<close> recovers the attempts it finds and makes a
  new one, ends with a result or an error or is stopped anywhere, and is run again on the files that
  are left.  The invariant: at most one attempt has anything to recover, and its marker is truthful.
\<close>

section \<open>Recovering one attempt\<close>

definition live :: "attempt_marker option \<Rightarrow> bool" where
  "live m = (case m of None \<Rightarrow> False | Some m \<Rightarrow> changing (am_phase m) \<or> am_phase m = FilesystemCommitted)"

text \<open>The two ends of a recovery that returned.\<close>

definition recovered ::
  "('s, 'c) engine \<Rightarrow> path \<Rightarrow> package_plan \<Rightarrow> path \<Rightarrow> files \<Rightarrow> 'c option \<Rightarrow> files \<Rightarrow> bool" where
  "recovered G root plan a d0 r d \<longleftrightarrow>
     (if r = None then truthful G root plan a d0 d \<and> outside a d = outside a d0 \<and> \<not> live (marker_in G a d)
      else done_state G root plan a d0 d)"

lemma ends_ensure_recovery:
  "(\<And>w. P w \<Longrightarrow> S w) \<Longrightarrow> (\<And>e w. P w \<Longrightarrow> me_code e = RecoveryRequiredE \<Longrightarrow> E e w) \<Longrightarrow>
    ends P (io_ensure c (m4_new RecoveryRequiredE)) (\<lambda>_. P) E S"
  by (auto simp: ends_def io_ensure_def io_return_def io_raise_def m4_new_def)

lemma recover_attempt_ends:
  assumes ok: "engine_ok G plan" and under: "attempt_under root a" and plan: "plan_ok root plan"
  shows "ends (seen (truthful G root plan a d0)) (recover_attempt G root plan a)
    (\<lambda>r. seen (recovered G root plan a d0 r)) (\<lambda>e. seen (failed G root plan a d0 e))
    (seen (truthful G root plan a d0))"
proof -
  let ?T = "truthful G root plan a d0" and ?E = "\<lambda>e. seen (failed G root plan a d0 e)"
  let ?S = "seen (truthful G root plan a d0)" and ?gs = "plan_groups root a plan"
  let ?O = "\<lambda>d. outside a d = outside a d0"
  have failed_recovery: "failed G root plan a d0 e d" if "?T d" "me_code e = RecoveryRequiredE" for e d
    using that by (simp add: failed_def)
  have marker: "ends ?S (needs_recovery (read_marker G a)) (\<lambda>m. seen (\<lambda>d. ?T d \<and> marker_in G a d = Some m)) ?E ?S"
    by (rule ends_recovery [OF ensures_map_err [OF read_marker_finds] only_needs])
  have check: "ends (seen (\<lambda>d. ?T d \<and> marker_in G a d = Some m)) (io_ensure c (m4_new RecoveryRequiredE))
      (\<lambda>_. seen (\<lambda>d. ?T d \<and> marker_in G a d = Some m)) ?E ?S" for m c
    by (rule ends_ensure_recovery) (auto simp: seen_def failed_recovery)
  have finish: "ends (seen (\<lambda>d. ?T d \<and> marker_in G a d = Some m))
      (io_chain (verify_final_state G root a plan) (io_chain (cleanup_legacy G root a plan)
        (io_then (en_inspect G root plan) (\<lambda>c. io_return (Some c)))))
      (\<lambda>r. seen (recovered G root plan a d0 r)) ?E ?S" if m: "am_phase m = FilesystemCommitted" for m
  proof -
    have "ensures (seen (\<lambda>d. ?T d \<and> marker_in G a d = Some m)) (verify_final_state G root a plan)
        (\<lambda>_. seen (\<lambda>d. (?T d \<and> marker_in G a d = Some m) \<and> in_place G root plan d))
        (seen (\<lambda>d. ?T d \<and> marker_in G a d = Some m))"
      by (rule checks_seen [OF verify_final_state_checks [OF ok]])
    then have verify: "ends (seen (\<lambda>d. ?T d \<and> marker_in G a d = Some m)) (verify_final_state G root a plan)
        (\<lambda>_. seen (done_state G root plan a d0)) ?E ?S"
      by (rule ends_weaken [OF ends_of_ensures])
        (use m in \<open>auto simp: seen_def failed_def done_state_def committed_in_def\<close>)
    have return: "ends (seen (done_state G root plan a d0)) (io_return (Some c))
        (\<lambda>r. seen (recovered G root plan a d0 r)) ?E ?S" for c
      by (simp add: ends_def io_return_def seen_def recovered_def)
    show ?thesis
      by (rule ends_chain [OF verify ends_chain [OF cleanup_ends [OF ok under]
            ends_then [OF inspect_ends [OF ok under] return]]])
  qed
  have undo: "ends (seen (\<lambda>d. ?T d \<and> marker_in G a d = Some m))
      (io_chain (rollback_attempt G root a plan)
        (io_chain (write_marker G a (marker_of (en_uuid G) plan RolledBack Completed) (- 1)) (io_return None)))
      (\<lambda>r. seen (recovered G root plan a d0 r)) ?E ?S" if m: "changing (am_phase m)" for m
  proof -
    let ?rec = "\<lambda>H d. recoverable d0 a ?gs H d \<and> marked G a (- 1) {Some m} d"
    let ?done = "marker_of (en_uuid G) plan RolledBack Completed"
    have verify: "\<And>p r. reads_only (en_verify_removal G p r)"
      using engine_reads_only [OF ok] by blast
    have truth: "?T d" if "?rec {} d" for d
      using that m by (intro truthful_recoverable) auto
    have "ensures (seen (?rec {})) (rollback_attempt G root a plan) (\<lambda>_. seen (?rec (set ?gs))) (seen (?rec {}))"
      by (rule seen_marked [OF rollback_restores [OF under _ verify] rollback_attempt_view [OF under verify]])
        (use plan in \<open>simp add: plan_ok_def\<close>)
    then have "ensures (seen (\<lambda>d. ?T d \<and> marker_in G a d = Some m)) (rollback_attempt G root a plan)
        (\<lambda>_. seen (\<lambda>d. (?O d \<and> recoverable d0 a ?gs {} d) \<and> marked G a (- 1) {Some m} d)) ?S"
    proof (rule ensures_seen)
      show "?rec {} d" if "?T d \<and> marker_in G a d = Some m" for d
        using that m by (auto simp: truthful_def marked_def changing_def)
      show "(?O d \<and> recoverable d0 a ?gs {} d) \<and> marked G a (- 1) {Some m} d" if "?rec (set ?gs) d" for d
        using that restored recoverable_less [of d0 a ?gs "set ?gs" d "{}"] unfolding outside_eq by blast
    qed (use truth in auto)
    then have rollback: "ends (seen (\<lambda>d. ?T d \<and> marker_in G a d = Some m)) (rollback_attempt G root a plan)
        (\<lambda>_. seen (\<lambda>d. (?O d \<and> recoverable d0 a ?gs {} d) \<and> marked G a (- 1) {Some m} d)) ?E ?S"
      by (rule ends_recovery [OF _ only_rollback])
    have fits: "marker_text_ok G ?done"
      using ok by (simp add: engine_ok_def)
    have unm: "unmarked a (\<lambda>d. ?O d \<and> recoverable d0 a ?gs {} d)"
      by (intro unmarked_conj unmarked_staging(1) unmarked_recoverable(1) [OF under])
    have "ensures (seen (\<lambda>d. (?O d \<and> recoverable d0 a ?gs {} d) \<and> marked G a (- 1) {Some m} d))
        (write_marker G a ?done (- 1)) (\<lambda>_. seen (recovered G root plan a d0 None)) ?S"
    proof (rule ensures_seen [OF write_marker_enters [OF fits unm]])
      show "?T d" if "(?O d \<and> recoverable d0 a ?gs {} d) \<and> marked G a (- 1) ({Some m} \<union> {None, Some ?done}) d" for d
        using that truthful_both by blast
      show "recovered G root plan a d0 None d"
        if d: "(?O d \<and> recoverable d0 a ?gs {} d) \<and> marked G a (- 1) {Some ?done} d" for d
      proof -
        have "?T d"
          using d truthful_both by blast
        then show ?thesis
          using d by (simp add: recovered_def live_def marked_def marker_of_def changing_def)
      qed
    qed auto
    then have mark: "ends (seen (\<lambda>d. (?O d \<and> recoverable d0 a ?gs {} d) \<and> marked G a (- 1) {Some m} d))
        (write_marker G a ?done (- 1)) (\<lambda>_. seen (recovered G root plan a d0 None)) ?E ?S"
      by (rule ends_recovery [OF _ only_write_marker])
    show ?thesis
      by (rule ends_chain [OF rollback ends_chain [OF mark]]) (simp add: ends_def io_return_def)
  qed
  have skip: "ends (seen (\<lambda>d. ?T d \<and> marker_in G a d = Some m)) (io_return None)
      (\<lambda>r. seen (recovered G root plan a d0 r)) ?E ?S"
    if "am_phase m \<noteq> FilesystemCommitted" "\<not> changing (am_phase m)" for m
    using that by (auto simp: ends_def io_return_def seen_def recovered_def truthful_def live_def)
  show ?thesis
    unfolding recover_attempt_def
  proof (rule ends_then [OF marker], rule ends_chain [OF check])
    fix m
    show "ends (seen (\<lambda>d. ?T d \<and> marker_in G a d = Some m))
       (if am_phase m = FilesystemCommitted
        then io_chain (verify_final_state G root a plan)
          (io_chain (cleanup_legacy G root a plan)
          (io_then (en_inspect G root plan) (\<lambda>c. io_return (Some c))))
        else if am_phase m \<in> {PackagesReplaced, VpmManifestCommitted}
        then io_chain (rollback_attempt G root a plan)
          (io_chain (write_marker G a (marker_of (en_uuid G) plan RolledBack Completed) (- 1))
          (io_return None))
        else io_return None) (\<lambda>r. seen (recovered G root plan a d0 r)) ?E ?S"
      using finish [of m] undo [of m] skip [of m] unfolding changing_def by (simp only: split: if_split) blast
  qed
qed

text \<open>An attempt with nothing to recover is passed over.\<close>

lemma read_marker_reads: "reads_only (read_marker G a)"
  unfolding read_marker_def reads_only_preserves by (intro keeps)

lemma recover_inert:
  fixes G :: "('s, 'c) engine"
  assumes "\<And>d. P d \<Longrightarrow> \<not> live (marker_in G a d)"
  shows "ends (seen P) (recover_attempt G root plan a) (\<lambda>r w. r = None \<and> seen P w)
    (\<lambda>e w. me_code e = RecoveryRequiredE \<and> seen P w) (seen P)"
proof -
  let ?E = "\<lambda>e w. me_code e = RecoveryRequiredE \<and> seen P w" and ?Q = "\<lambda>r w. r = None \<and> seen P w"
  have marker: "ends (seen P) (needs_recovery (read_marker G a)) (\<lambda>m. seen (\<lambda>d. P d \<and> marker_in G a d = Some m)) ?E (seen P)"
    by (rule ends_only [OF ensures_map_err [OF read_marker_finds] only_needs]) auto
  have check: "ends (seen (\<lambda>d. P d \<and> marker_in G a d = Some m)) (io_ensure c (m4_new RecoveryRequiredE))
      (\<lambda>_. seen (\<lambda>d. P d \<and> marker_in G a d = Some m)) ?E (seen P)" for m c
    by (rule ends_ensure_recovery) (auto simp: seen_def)
  show ?thesis
    unfolding recover_attempt_def
  proof (rule ends_then [OF marker], rule ends_chain [OF check], rule ends_case_pre)
    fix m and w :: "'s package_world"
    assume w: "seen (\<lambda>d. P d \<and> marker_in G a d = Some m) w"
    then have "\<not> live (Some m)"
      using assms [of "disk w"] by (simp add: seen_def)
    then show "ends (\<lambda>v. v = w)
       (if am_phase m = FilesystemCommitted
        then io_chain (verify_final_state G root a plan)
          (io_chain (cleanup_legacy G root a plan)
          (io_then (en_inspect G root plan) (\<lambda>c. io_return (Some c))))
        else if am_phase m \<in> {PackagesReplaced, VpmManifestCommitted}
        then io_chain (rollback_attempt G root a plan)
          (io_chain (write_marker G a (marker_of (en_uuid G) plan RolledBack Completed) (- 1))
          (io_return None))
        else io_return None) ?Q ?E (seen P)"
      using w by (simp add: live_def changing_def ends_def io_return_def seen_def)
  qed
qed

section \<open>The project between two runs\<close>

definition unchanged :: "path \<Rightarrow> files \<Rightarrow> files \<Rightarrow> bool" where
  "unchanged T d0 d \<longleftrightarrow> (\<forall>p. parallel T p \<longrightarrow> entry_at d p = entry_at d0 p)"

text \<open>Nothing differs outside the transaction directory, and no attempt has anything to recover.\<close>

definition idle :: "('s, 'c) engine \<Rightarrow> path \<Rightarrow> files \<Rightarrow> files \<Rightarrow> bool" where
  "idle G T d0 d \<longleftrightarrow> unchanged T d0 d \<and> (\<forall>n. \<not> live (marker_in G (T @ [n]) d)) \<and>
     (\<forall>n. entry_at d (T @ [n]) = None \<longrightarrow> tree d (T @ [n]) = (\<lambda>_. None))"

definition root_there :: "path \<Rightarrow> path \<Rightarrow> files \<Rightarrow> bool" where
  "root_there root T d \<longleftrightarrow>
     (\<forall>k. length root < k \<longrightarrow> k \<le> length T \<longrightarrow> entry_at d (take k T) = Some Directory)"

text \<open>The attempt \<open>n\<close>, begun when the files were \<open>d1\<close>.\<close>

definition began ::
  "('s, 'c) engine \<Rightarrow> path \<Rightarrow> path \<Rightarrow> files \<Rightarrow> string \<Rightarrow> files \<Rightarrow> bool" where
  "began G root T d0 n d1 \<longleftrightarrow> starts_with ''attempt-'' n \<and> idle G T d0 d1 \<and> root_there root T d1"

definition sound ::
  "('s, 'c) engine \<Rightarrow> path \<Rightarrow> package_plan \<Rightarrow> path \<Rightarrow> files \<Rightarrow> files \<Rightarrow> bool" where
  "sound G root plan T d0 d \<longleftrightarrow> idle G T d0 d \<or>
     (\<exists>n d1. began G root T d0 n d1 \<and> truthful G root plan (T @ [n]) d1 d)"

definition completed ::
  "('s, 'c) engine \<Rightarrow> path \<Rightarrow> package_plan \<Rightarrow> path \<Rightarrow> files \<Rightarrow> files \<Rightarrow> bool" where
  "completed G root plan T d0 d \<longleftrightarrow>
     (\<exists>n d1. began G root T d0 n d1 \<and> done_state G root plan (T @ [n]) d1 d)"

definition reported ::
  "('s, 'c) engine \<Rightarrow> path \<Rightarrow> package_plan \<Rightarrow> path \<Rightarrow> files \<Rightarrow> m4_error \<Rightarrow> files \<Rightarrow> bool" where
  "reported G root plan T d0 e d \<longleftrightarrow> sound G root plan T d0 d \<and>
     (me_code e = RecoveryRequiredE \<or> unchanged T d0 d \<or> (\<exists>n. committed_in G (T @ [n]) d))"

lemma completed_sound: "completed G root plan T d0 d \<Longrightarrow> sound G root plan T d0 d"
  by (auto simp: completed_def sound_def done_state_def)

lemma under_attempt: "attempt_under root T \<Longrightarrow> attempt_under root (T @ q)"
  by (auto simp: attempt_under_def)

lemma outside_unchanged: "outside (T @ q) d = outside (T @ q) d1 \<Longrightarrow> unchanged T d0 d1 \<Longrightarrow> unchanged T d0 d"
  unfolding unchanged_def outside_eq by (metis parallel_prefixes parallel_commute prefixI prefix_order.order_trans)

lemma home_apart:
  assumes under: "attempt_under root T" and g: "g \<in> set (plan_groups root a plan)" "home g = Some t"
  shows "parallel T t"
  using g(1) unfolding plan_groups_member
proof (elim disjE bexE)
  assume "g = manifest_group root a"
  then show ?thesis
    using g(2) project_apart(5) [OF under, of "[]"] by (simp add: manifest_group_def)
next
  fix m
  assume "g = mutation_group root a plan m"
  then show ?thesis
    using g(2) project_apart(2) [OF under, of "[]"] by (auto simp: mutation_group_def Let_def split: if_splits)
next
  fix x
  assume "g \<in> set (removal_groups root a x)"
  then show ?thesis
    using g(2) removal_outside [OF _ under] by (auto simp: removal_groups_member)
qed

text \<open>The transaction directory, but for the attempt itself, is as it was when the attempt began.\<close>

lemma framed_transactions:
  assumes under: "attempt_under root T" and f: "framed d1 (T @ [n]) (plan_groups root (T @ [n]) plan) d"
    and p: "prefix T p \<or> prefix p T" "\<not> prefix (T @ [n]) p"
  shows "entry_at d p = entry_at d1 p"
proof -
  have "\<not> prefix t p" if "g \<in> set (plan_groups root (T @ [n]) plan)" "home g = Some t" for g t
    using home_apart [OF under that] p(1) by (metis parallel_def prefix_same_cases prefix_order.order_trans)
  then show ?thesis
    using f p(2) unfolding framed_def by blast
qed

lemma other_attempts:
  assumes under: "attempt_under root T" and f: "framed d1 (T @ [n]) (plan_groups root (T @ [n]) plan) d" and x: "x \<noteq> n"
  shows "entry_at d (T @ x # q) = entry_at d1 (T @ x # q)" and "marker_in G (T @ [x]) d = marker_in G (T @ [x]) d1"
proof -
  show entry: "entry_at d (T @ x # q) = entry_at d1 (T @ x # q)" for q
    by (rule framed_transactions [OF under f]) (use x in auto)
  have "view (T @ [x]) d = view (T @ [x]) d1"
    using entry by (simp add: view_def fun_eq_iff)
  then show "marker_in G (T @ [x]) d = marker_in G (T @ [x]) d1"
    by (rule marker_in_view)
qed

lemma began_there:
  assumes under: "attempt_under root T" and n: "began G root T d0 n d1"
    and f: "framed d1 (T @ [n]) (plan_groups root (T @ [n]) plan) d"
    and k: "length root < k" "k \<le> length T"
  shows "entry_at d (take k T) = Some Directory"
proof -
  have "\<not> prefix (T @ [n]) (take k T)"
    using k(2) by (auto dest: prefix_length_le)
  then have "entry_at d (take k T) = entry_at d1 (take k T)"
    by (intro framed_transactions [OF under f]) (simp_all add: take_is_prefix)
  then show ?thesis
    using n k by (simp add: began_def root_there_def)
qed

lemma recovered_idle:
  assumes under: "attempt_under root T" and n: "began G root T d0 n d1"
    and r: "recovered G root plan (T @ [n]) d1 None d"
  shows "idle G T d0 d" and "root_there root T d"
proof -
  have t: "framed d1 (T @ [n]) (plan_groups root (T @ [n]) plan) d" "entry_at d (T @ [n]) \<noteq> None"
    "outside (T @ [n]) d = outside (T @ [n]) d1" "\<not> live (marker_in G (T @ [n]) d)"
    using r by (simp_all add: recovered_def truthful_def)
  have d1: "unchanged T d0 d1" "\<And>x. \<not> live (marker_in G (T @ [x]) d1)"
    "\<And>x. entry_at d1 (T @ [x]) = None \<Longrightarrow> tree d1 (T @ [x]) = (\<lambda>_. None)"
    using n by (simp_all add: began_def idle_def)
  have "\<not> live (marker_in G (T @ [x]) d)" for x
    using other_attempts(2) [OF under t(1), of x G] t(4) d1(2) by (cases "x = n") auto
  moreover have "tree d (T @ [x]) = (\<lambda>_. None)" if "entry_at d (T @ [x]) = None" for x
  proof -
    have x: "x \<noteq> n"
      using that t(2) by auto
    then have "tree d (T @ [x]) = tree d1 (T @ [x])"
      using other_attempts(1) [OF under t(1) x] by (simp add: tree_def fun_eq_iff)
    moreover have "entry_at d1 (T @ [x]) = None"
      using other_attempts(1) [OF under t(1) x, of "[]"] that by simp
    ultimately show ?thesis
      using d1(3) by simp
  qed
  ultimately show "idle G T d0 d"
    using outside_unchanged [OF t(3) d1(1)] by (simp add: idle_def)
  show "root_there root T d"
    using began_there [OF under n t(1)] by (simp add: root_there_def)
qed

section \<open>The transaction directory\<close>

definition put_directories :: "path \<Rightarrow> path \<Rightarrow> (files \<Rightarrow> bool) \<Rightarrow> bool" where
  "put_directories root T P \<longleftrightarrow> (\<forall>d k. P d \<longrightarrow> length root < k \<longrightarrow> k \<le> length T \<longrightarrow>
     entry_at d (take k T) = None \<longrightarrow> P (put_entry (take k T) Directory d))"

lemma ensure_directories_puts:
  assumes "put_directories root T P" and "T = cur @ cs" and "length root \<le> length cur"
  shows "ensures (seen P) (ensure_directories cur cs :: (unit, 's) engine_io)
    (\<lambda>_. seen (\<lambda>d. P d \<and> (\<forall>k. length cur < k \<longrightarrow> k \<le> length T \<longrightarrow> entry_at d (take k T) = Some Directory))) (seen P)"
  using assms
proof (induction cs arbitrary: cur P)
  case Nil
  then show ?case
    by (auto intro!: ensures_return simp: seen_def)
next
  case (Cons c cs)
  let ?p = "cur @ [c]" and ?Q = "\<lambda>d. P d \<and> entry_at d (cur @ [c]) = Some Directory"
  have p: "take (Suc (length cur)) T = ?p"
    using Cons.prems(2) by simp
  have put: "P (put_entry ?p Directory d)" if "P d" "entry_at d ?p = None" for d
    using Cons.prems(1) [unfolded put_directories_def, rule_format, of d "Suc (length cur)"] Cons.prems(2,3) that p
    by simp
  have create: "ensures (seen P) (io_chain (or_code (fs_create_dir ?p) RecoveryRequiredE)
      (io_reads (\<lambda>w. if symlink_metadata ?p w = Inr Directory then Inr () else Inl (m4_new RecoveryRequiredE))))
      (\<lambda>_. seen ?Q) (seen P)"
  proof (rule seen_chain)
    show "ensures (seen P) (or_code (fs_create_dir ?p) RecoveryRequiredE) (\<lambda>_. seen P) (seen P)"
      unfolding fs_create_dir_def
      by (rule seen_code, rule seen_call) (auto simp: do_create_def put split: if_splits)
    show "ensures (seen P) (io_reads (\<lambda>w. if symlink_metadata ?p w = Inr Directory then Inr ()
        else Inl (m4_new RecoveryRequiredE))) (\<lambda>_. seen ?Q) (seen P)"
      by (rule ensures_reads) (auto simp: seen_def seen_metadata split: if_splits option.splits)
  qed
  have first: "ensures (seen P) (\<lambda>w. case symlink_metadata ?p w of
               Inr Directory \<Rightarrow> io_return () w
             | Inl NotFound \<Rightarrow> io_chain (or_code (fs_create_dir ?p) RecoveryRequiredE)
                 (io_reads (\<lambda>w. if symlink_metadata ?p w = Inr Directory then Inr ()
                                 else Inl (m4_new RecoveryRequiredE))) w
             | _ \<Rightarrow> io_raise (m4_new RecoveryRequiredE) w) (\<lambda>_. seen ?Q) (seen P)"
    using create unfolding ensures_def
    by (auto simp: seen_def seen_metadata io_return_def io_raise_def
        split: option.split node.split sum.split io_error.split prod.split)
  have "put_directories root T ?Q"
    using Cons.prems(1) unfolding put_directories_def by (auto simp: put_entry_def)
  then have rest: "ensures (seen ?Q) (ensure_directories ?p cs :: (unit, 's) engine_io)
      (\<lambda>_. seen (\<lambda>d. ?Q d \<and> (\<forall>k. length ?p < k \<longrightarrow> k \<le> length T \<longrightarrow> entry_at d (take k T) = Some Directory))) (seen ?Q)"
    by (rule Cons.IH) (use Cons.prems in auto)
  have tail: "ensures (seen ?Q) (ensure_directories ?p cs :: (unit, 's) engine_io)
      (\<lambda>_. seen (\<lambda>d. P d \<and> (\<forall>k. length cur < k \<longrightarrow> k \<le> length T \<longrightarrow> entry_at d (take k T) = Some Directory))) (seen P)"
  proof (rule ensures_seen [OF rest])
    fix x d
    assume d: "?Q d \<and> (\<forall>k. length ?p < k \<longrightarrow> k \<le> length T \<longrightarrow> entry_at d (take k T) = Some Directory)"
    have "entry_at d (take k T) = Some Directory" if "length cur < k" "k \<le> length T" for k
      using d that p by (cases "k = Suc (length cur)") auto
    with d show "P d \<and> (\<forall>k. length cur < k \<longrightarrow> k \<le> length T \<longrightarrow> entry_at d (take k T) = Some Directory)"
      by blast
  qed auto
  show ?case
    unfolding ensure_directories.simps Let_def by (rule seen_chain [OF first tail])
qed

lemma idle_put_directory:
  assumes i: "idle G T d0 d" and p: "prefix p T" "entry_at d p = None"
  shows "idle G T d0 (put_entry p Directory d)"
proof -
  have entry: "entry_at (put_entry p Directory d) (T @ x # q) = entry_at d (T @ x # q)" for x q
  proof -
    have "T @ x # q \<noteq> p"
      using p(1) by (auto simp: prefix_def)
    then show ?thesis by (simp add: put_entry_def)
  qed
  have "unchanged T d0 (put_entry p Directory d)"
    using i p(1) by (auto simp: idle_def unchanged_def put_entry_def)
  moreover have "marker_in G (T @ [n]) (put_entry p Directory d) = marker_in G (T @ [n]) d" for n
    by (rule marker_in_view) (simp add: view_def fun_eq_iff entry)
  moreover have "tree (put_entry p Directory d) (T @ [n]) = tree d (T @ [n])" for n
    by (simp add: tree_def entry)
  ultimately show ?thesis
    using i by (simp add: idle_def entry)
qed

lemma prepare_transaction_root_keeps:
  assumes under: "attempt_under root T" and T: "T = transaction_dir U root i"
  shows "ensures (seen (sound G root plan T d0)) (prepare_transaction_root U root i)
    (\<lambda>t. seen (\<lambda>d. sound G root plan T d0 d \<and> root_there root T d \<and> t = T)) (seen (sound G root plan T d0))"
proof -
  have "put_directories root T (sound G root plan T d0)"
    unfolding put_directories_def
  proof (intro allI impI)
    fix d k
    assume d: "sound G root plan T d0 d" "length root < k" "k \<le> length T" "entry_at d (take k T) = None"
    have "False" if "began G root T d0 n d1" "truthful G root plan (T @ [n]) d1 d" for n d1
      using began_there [OF under that(1) _ d(2,3), of plan d] that(2) d(4) by (simp add: truthful_def)
    then have "idle G T d0 d"
      using d(1) by (auto simp: sound_def)
    then show "sound G root plan T d0 (put_entry (take k T) Directory d)"
      using idle_put_directory [OF _ take_is_prefix d(4)] unfolding sound_def by blast
  qed
  moreover have "T = root @ drop (length root) T"
    by (simp add: T transaction_dir_def)
  ultimately have "ensures (seen (sound G root plan T d0)) (ensure_directories root (drop (length root) T))
      (\<lambda>_. seen (\<lambda>d. sound G root plan T d0 d \<and>
        (\<forall>k. length root < k \<longrightarrow> k \<le> length T \<longrightarrow> entry_at d (take k T) = Some Directory))) (seen (sound G root plan T d0))"
    by (rule ensure_directories_puts) simp
  then show ?thesis
    unfolding prepare_transaction_root_def T [symmetric]
    by (rule ensures_then) (auto intro!: ensures_return simp: seen_def root_there_def)
qed

lemma only_directories [recovery_intros]: "only_recovery (ensure_directories cur cs)"
proof (induction cs arbitrary: cur)
  case (Cons c cs)
  have "only_recovery (\<lambda>w. case symlink_metadata p w of
             Inr Directory \<Rightarrow> io_return () w
           | Inl NotFound \<Rightarrow> io_chain (or_code (fs_create_dir p) RecoveryRequiredE)
               (io_reads (\<lambda>w. if symlink_metadata p w = Inr Directory then Inr ()
                               else Inl (m4_new RecoveryRequiredE))) w
           | _ \<Rightarrow> io_raise (m4_new RecoveryRequiredE) w)" for p
  proof -
    have "only_recovery (io_chain (or_code (fs_create_dir p) RecoveryRequiredE)
        (io_reads (\<lambda>w. if symlink_metadata p w = Inr Directory then Inr () else Inl (m4_new RecoveryRequiredE))))"
      by (intro recovery_intros) (auto simp: only_recovery_def io_reads_def m4_new_def split: sum.splits if_splits)
    then show ?thesis
      unfolding only_recovery_def io_return_def io_raise_def m4_new_def
      by (auto split: sum.splits node.splits io_error.splits)
  qed
  with Cons show ?case
    unfolding ensure_directories.simps Let_def by (intro only_chain)
qed (auto intro: recovery_intros)

lemma only_prepare: "only_recovery (prepare_transaction_root U root i)"
  unfolding prepare_transaction_root_def by (intro recovery_intros)

lemma only_read_dir: "only_recovery (io_reads (read_dir p))"
  by (auto simp: only_recovery_def io_reads_def read_dir_def m4_new_def split: sum.splits if_splits)

section \<open>Recovering all attempts\<close>

definition pending ::
  "('s, 'c) engine \<Rightarrow> path \<Rightarrow> package_plan \<Rightarrow> path \<Rightarrow> files \<Rightarrow> path list \<Rightarrow> files \<Rightarrow> bool" where
  "pending G root plan T d0 xs d \<longleftrightarrow> (idle G T d0 d \<and> root_there root T d) \<or>
     (\<exists>n d1. began G root T d0 n d1 \<and> truthful G root plan (T @ [n]) d1 d \<and> T @ [n] \<in> set xs)"

lemma pending_sound: "pending G root plan T d0 xs d \<Longrightarrow> sound G root plan T d0 d"
  by (auto simp: pending_def sound_def)

definition outcome ::
  "('s, 'c) engine \<Rightarrow> path \<Rightarrow> package_plan \<Rightarrow> path \<Rightarrow> files \<Rightarrow> path list \<Rightarrow> 'c option \<Rightarrow> files \<Rightarrow> bool" where
  "outcome G root plan T d0 xs r d \<longleftrightarrow>
     (if r = None then pending G root plan T d0 xs d else completed G root plan T d0 d)"

lemma recover_pending:
  fixes G :: "('s, 'c) engine"
  assumes ok: "engine_ok G plan" and under: "attempt_under root T" and plan: "plan_ok root plan"
  shows "ends (seen (pending G root plan T d0 ((T @ [x]) # xs))) (recover_attempt G root plan (T @ [x]))
    (\<lambda>r. seen (outcome G root plan T d0 xs r)) (\<lambda>e. seen (reported G root plan T d0 e))
    (seen (sound G root plan T d0))"
proof (rule ends_case_pre)
  fix w :: "'s package_world"
  assume w: "seen (pending G root plan T d0 ((T @ [x]) # xs)) w"
  consider (inert) P where "seen P w" "\<And>d. P d \<Longrightarrow> \<not> live (marker_in G (T @ [x]) d)"
      "\<And>d. P d \<Longrightarrow> pending G root plan T d0 xs d"
    | (mine) d1 where "began G root T d0 x d1" "seen (truthful G root plan (T @ [x]) d1) w"
  proof (cases "idle G T d0 (disk w) \<and> root_there root T (disk w)")
    case True
    show ?thesis
      by (rule that(1) [of "\<lambda>d. idle G T d0 d \<and> root_there root T d"]) (use w True in \<open>auto simp: seen_def idle_def pending_def\<close>)
  next
    case False
    then obtain n d1 where n: "began G root T d0 n d1" "truthful G root plan (T @ [n]) d1 (disk w)"
        "T @ [n] \<in> set ((T @ [x]) # xs)" and un: "unreadable w = []"
      using w by (auto simp: seen_def pending_def)
    show ?thesis
    proof (cases "n = x")
      case True
      with n un show ?thesis
        by (intro that(2)) (auto simp: seen_def)
    next
      case False
      have "\<not> live (marker_in G (T @ [x]) d)" if "truthful G root plan (T @ [n]) d1 d" for d
      proof -
        have "marker_in G (T @ [x]) d = marker_in G (T @ [x]) d1"
          by (rule other_attempts(2) [OF under, where n = n and plan = plan])
            (use that False in \<open>simp_all add: truthful_def\<close>)
        then show ?thesis
          using n(1) by (simp add: began_def idle_def)
      qed
      with n un False show ?thesis
        by (intro that(1) [of "truthful G root plan (T @ [n]) d1"]) (auto simp: seen_def pending_def)
    qed
  qed
  then show "ends (\<lambda>v. v = w) (recover_attempt G root plan (T @ [x])) (\<lambda>r. seen (outcome G root plan T d0 xs r))
      (\<lambda>e. seen (reported G root plan T d0 e)) (seen (sound G root plan T d0))"
  proof cases
    case inert
    have "sound G root plan T d0 d" if "P d" for d
      using inert(3) [OF that] pending_sound by blast
    with inert show ?thesis
      by (intro ends_weaken [OF recover_inert [where P = P, OF inert(2)]])
        (auto simp: seen_def outcome_def reported_def)
  next
    case mine
    have s: "sound G root plan T d0 d" if "truthful G root plan (T @ [x]) d1 d" for d
      using mine(1) that by (auto simp: sound_def)
    have r: "outcome G root plan T d0 xs r d" if "recovered G root plan (T @ [x]) d1 r d" for r d
    proof (cases r)
      case None
      then show ?thesis
        using recovered_idle [OF under mine(1)] that by (simp add: outcome_def pending_def)
    next
      case (Some c)
      then show ?thesis
        using mine(1) that by (auto simp: outcome_def recovered_def completed_def)
    qed
    have e: "reported G root plan T d0 e d" if "failed G root plan (T @ [x]) d1 e d" for e d
    proof -
      have "unchanged T d0 d" if "outside (T @ [x]) d = outside (T @ [x]) d1"
        using that mine(1) outside_unchanged by (auto simp: began_def idle_def)
      then show ?thesis
        using that s by (auto simp: failed_def reported_def)
    qed
    show ?thesis
      by (rule ends_weaken [OF recover_attempt_ends [OF ok under_attempt [OF under] plan]])
        (use mine(2) s r e in \<open>auto simp: seen_def\<close>)
  qed
qed

lemma first_completed_ends:
  fixes G :: "('s, 'c) engine"
  assumes ok: "engine_ok G plan" and under: "attempt_under root T" and plan: "plan_ok root plan"
  shows "ends (seen (pending G root plan T d0 (map (\<lambda>n. T @ [n]) ns)))
    (first_completed (recover_attempt G root plan) (map (\<lambda>n. T @ [n]) ns))
    (\<lambda>r. seen (outcome G root plan T d0 [] r)) (\<lambda>e. seen (reported G root plan T d0 e)) (seen (sound G root plan T d0))"
proof (induction ns)
  case Nil
  show ?case
    by (simp add: ends_def io_return_def seen_def outcome_def)
next
  case (Cons x ns)
  have rest: "ends (seen (outcome G root plan T d0 (map (\<lambda>n. T @ [n]) ns) r))
      (case r of Some c \<Rightarrow> io_return (Some c)
        | None \<Rightarrow> first_completed (recover_attempt G root plan) (map (\<lambda>n. T @ [n]) ns))
      (\<lambda>r. seen (outcome G root plan T d0 [] r)) (\<lambda>e. seen (reported G root plan T d0 e)) (seen (sound G root plan T d0))" for r
  proof (cases r)
    case None
    have "outcome G root plan T d0 (map (\<lambda>n. T @ [n]) ns) r = pending G root plan T d0 (map (\<lambda>n. T @ [n]) ns)"
      by (simp add: outcome_def fun_eq_iff None)
    with Cons.IH None show ?thesis
      by simp
  next
    case (Some c)
    then show ?thesis
      by (simp add: ends_def io_return_def seen_def outcome_def)
  qed
  show ?case
    unfolding list.map first_completed.simps
    by (rule ends_then [OF recover_pending [OF ok under plan] rest])
qed

lemma recover_attempts_ends:
  fixes G :: "('s, 'c) engine"
  assumes ok: "engine_ok G plan" and under: "attempt_under root T" and plan: "plan_ok root plan"
  shows "ends (seen (\<lambda>d. sound G root plan T d0 d \<and> root_there root T d)) (recover_attempts G root plan T)
    (\<lambda>r. seen (if r = None then \<lambda>d. idle G T d0 d \<and> root_there root T d else completed G root plan T d0))
    (\<lambda>e. seen (reported G root plan T d0 e)) (seen (sound G root plan T d0))"
proof -
  let ?found = "\<lambda>names. map (\<lambda>n. T @ [n]) (sort (filter (starts_with ''attempt-'') names))"
  have names: "ends (seen (\<lambda>d. sound G root plan T d0 d \<and> root_there root T d)) (io_reads (read_dir T) :: (string list, 's) engine_io)
      (\<lambda>names. seen (pending G root plan T d0 (?found names)))
      (\<lambda>e. seen (reported G root plan T d0 e)) (seen (sound G root plan T d0))"
  proof (rule ends_only)
    show "ensures (seen (\<lambda>d. sound G root plan T d0 d \<and> root_there root T d)) (io_reads (read_dir T) :: (string list, 's) engine_io)
        (\<lambda>names. seen (pending G root plan T d0 (?found names))) (seen (sound G root plan T d0))"
    proof (rule ensures_reads)
      fix w :: "'s package_world" and names
      assume w: "seen (\<lambda>d. sound G root plan T d0 d \<and> root_there root T d) w" and "read_dir T w = Inr names"
      then have ns: "names = names_in (disk w) T"
        by (auto simp: read_dir_def split: if_splits)
      have "T @ [n] \<in> set (?found names)" if "began G root T d0 n d1" "truthful G root plan (T @ [n]) d1 (disk w)" for n d1
        using that names_in_iff [of n "disk w" T] by (auto simp: ns began_def truthful_def)
      then show "seen (pending G root plan T d0 (?found names)) w"
        using w unfolding seen_def sound_def pending_def by blast
    qed (auto simp: seen_def)
  qed (auto simp: seen_def reported_def only_read_dir)
  have "ends (seen (pending G root plan T d0 (?found names))) (first_completed (recover_attempt G root plan) (?found names))
      (\<lambda>r. seen (if r = None then \<lambda>d. idle G T d0 d \<and> root_there root T d else completed G root plan T d0))
      (\<lambda>e. seen (reported G root plan T d0 e)) (seen (sound G root plan T d0))" for names
    by (rule ends_weaken [OF first_completed_ends [OF ok under plan]])
      (auto simp: seen_def outcome_def pending_def split: if_splits)
  then show ?thesis
    unfolding recover_attempts_def by (rule ends_then [OF names])
qed

section \<open>A new attempt\<close>

lemma make_attempt_ends:
  fixes G :: "('s, 'c) engine"
  assumes under: "attempt_under root T" and n: "began G root T d0 n d1"
  shows "ends (seen (\<lambda>d. d = d1)) (make_attempt T (T @ [n]))
    (\<lambda>_. seen (\<lambda>d. (outside (T @ [n]) d = outside (T @ [n]) d1 \<and> clean (T @ [n]) d) \<and> marked G (T @ [n]) s {None} d))
    (\<lambda>e. seen (reported G root plan T d0 e)) (seen (sound G root plan T d0))"
proof -
  let ?a = "T @ [n]"
  let ?R = "seen (\<lambda>d. sound G root plan T d0 d \<and> unchanged T d0 d)"
  let ?I = "\<lambda>d. (outside ?a d = outside ?a d1 \<and> clean ?a d) \<and> marked G ?a s {None} d"
  have d1: "idle G T d0 d1"
    using n by (simp add: began_def)
  have I: "sound G root plan T d0 d \<and> unchanged T d0 d" if "?I d" for d
  proof -
    have "safe G root plan ?a d1 d"
      using that by (intro safe_quiet) (auto simp: quiet_def)
    then show ?thesis
      using n d1 outside_unchanged by (auto simp: safe_def sound_def idle_def)
  qed
  have first: "ensures (seen (\<lambda>d. d = d1)) (or_code (fs_create_dir ?a) RecoveryRequiredE) (\<lambda>_. seen ?I) ?R"
    unfolding fs_create_dir_def
  proof (rule seen_code, rule seen_call)
    fix d d'
    assume d: "d = d1" and run: "do_create Directory ?a d = Inr d'"
    then have d': "d' = put_entry ?a Directory d1" and free: "entry_at d1 ?a = None"
      by (auto simp: do_create_def split: if_splits)
    then have below: "entry_at d1 (?a @ q) = None" for q
      using d1 by (auto simp: idle_def tree_def fun_eq_iff)
    have none: "entry_at d' (?a @ q) = None" if "q \<noteq> []" for q
      using below [of q] that by (simp add: d' put_entry_def)
    have "clean ?a d'"
      using none by (simp add: clean_def)
    moreover have "outside ?a d' = outside ?a d1"
      using put_inside(2) [of ?a "[]"] by (simp add: d')
    moreover have "marked G ?a s {None} d'"
    proof -
      have "names_in d' ?a = []"
        using none names_in_iff [of _ d' ?a] by (metis all_not_in_conv list.distinct(1) set_empty)
      then show ?thesis
        using none by (simp add: marked_def markers_upto_def marker_in_def latest_def) (simp add: d' put_entry_def)
    qed
    ultimately show "?I d'" by blast
  qed (use d1 in \<open>auto simp: sound_def idle_def\<close>)
  have sub: "ensures (seen ?I) (or_code (fs_create_dir (?a @ [x])) RecoveryRequiredE) (\<lambda>_. seen ?I) ?R"
    if x: "x = ''staging'' \<or> x = ''backup''" for x
    unfolding fs_create_dir_def
  proof (rule seen_code, rule seen_call)
    fix d d'
    assume d: "?I d" and "do_create Directory (?a @ [x]) d = Inr d'"
    then have d': "d' = put_entry (?a @ [x]) Directory d"
      by (auto simp: do_create_def split: if_splits)
    have "\<not> is_marker_name x"
      using x marker_names by blast
    then have "marked G ?a s {None} d'"
      unfolding d' using d unwatched_inside [of x ?a "[]"] by (intro marked_put) simp_all
    moreover have "clean ?a d'"
      using d x by (auto simp: d' clean_def put_entry_def)
    moreover have "outside ?a d' = outside ?a d1"
      using d put_inside(2) [of ?a "[x]"] by (simp add: d')
    ultimately show "?I d'" by blast
  qed (use I in auto)
  have "ensures (seen (\<lambda>d. d = d1)) (make_attempt T ?a) (\<lambda>_. seen ?I) ?R"
    unfolding make_attempt_def
    by (rule seen_chain [OF first seen_chain [OF sub seen_chain [OF sub seen_sync]]]) (use I in auto)
  then show ?thesis
    by (rule ends_of_ensures) (auto simp: seen_def reported_def)
qed

section \<open>Running an operation\<close>

lemma execute_ends:
  fixes G :: "('s, 'c) engine" and i :: operation_id
  assumes ok: "engine_ok G plan" and plan: "plan_ok root plan" and wf: "files_wf d0"
  defines "T \<equiv> transaction_dir (en_uuid G) root i"
  shows "ends (seen (sound G root plan T d0)) (execute G root key i plan)
    (\<lambda>_. seen (completed G root plan T d0)) (\<lambda>e. seen (reported G root plan T d0 e)) (seen (sound G root plan T d0))"
proof -
  let ?S = "seen (sound G root plan T d0)" and ?E = "\<lambda>e. seen (reported G root plan T d0 e)"
  let ?there = "\<lambda>d. sound G root plan T d0 d \<and> root_there root T d"
  have under: "attempt_under root T"
    by (simp add: T_def transaction_dir_def attempt_under_def)
  have recovery: "reported G root plan T d0 e d" if "sound G root plan T d0 d" "me_code e = RecoveryRequiredE" for e d
    using that by (simp add: reported_def)
  have identity: "ends ?S (needs_recovery (en_resolve_identity G root)) (\<lambda>_. ?S) ?E ?S"
    by (rule ends_only [OF ensures_map_err [OF seen_reads_only [OF engine_reads_only(9) [OF ok]]] only_needs])
      (auto simp: seen_def recovery)
  have check: "ends ?S (io_ensure c (m4_new RecoveryRequiredE)) (\<lambda>_. ?S) ?E ?S" for c
    by (rule ends_ensure_recovery) (auto simp: seen_def recovery)
  have prepare: "ends ?S (prepare_transaction_root (en_uuid G) root i)
      (\<lambda>t. seen (\<lambda>d. ?there d \<and> t = T)) ?E ?S"
    by (intro ends_only [OF ensures_weaken [OF prepare_transaction_root_keeps [OF under meta_eq_to_obj_eq [OF T_def]]] only_prepare])
      (auto simp: seen_def recovery)
  have recover: "ends (seen (\<lambda>d. ?there d \<and> t = T)) (recover_attempts G root plan t)
      (\<lambda>r. seen (\<lambda>d. (if r = None then idle G T d0 d \<and> root_there root T d else completed G root plan T d0 d) \<and> t = T))
      ?E ?S" for t
  proof (cases "t = T")
    case True
    show ?thesis
      unfolding True
      by (rule ends_weaken [OF recover_attempts_ends [OF ok under plan]]) (auto simp: seen_def split: if_splits)
  qed (simp add: ends_def seen_def)
  have attempt: "ends (seen (\<lambda>d. (idle G T d0 d \<and> root_there root T d) \<and> t = T))
      (io_chain (make_attempt t (t @ [attempt_name step])) (run_attempt G root key i plan (t @ [attempt_name step]) step))
      (\<lambda>_. seen (completed G root plan T d0)) ?E ?S" for t step
  proof (rule ends_case_pre)
    fix w :: "'s package_world"
    let ?n = "attempt_name step" and ?d1 = "disk w"
    let ?a = "T @ [attempt_name step]"
    assume w: "seen (\<lambda>d. (idle G T d0 d \<and> root_there root T d) \<and> t = T) w"
    have n: "began G root T d0 ?n ?d1"
      using w by (auto simp: began_def seen_def starts_with_def attempt_name_def)
    have un: "unchanged T d0 ?d1"
      using w by (simp add: seen_def idle_def)
    have wf1: "tree ?d1 (packages_dir root @ [p]) = (\<lambda>_. None)" if "entry_at ?d1 (packages_dir root @ [p]) = None" for p
    proof -
      have "parallel T (packages_dir root @ [p] @ q)" for q
        using project_apart(2) [OF under, of "[]" "[p] @ q"] by simp
      then have same: "entry_at ?d1 (packages_dir root @ [p] @ q) = entry_at d0 (packages_dir root @ [p] @ q)" for q
        using un by (simp add: unchanged_def)
      then have "entry_at d0 (packages_dir root @ [p]) = None"
        using that same [of "[]"] by simp
      from wf_absent [OF wf this] same show ?thesis
        by (simp add: tree_def fun_eq_iff)
    qed
    have s: "sound G root plan T d0 d" if "truthful G root plan ?a ?d1 d" for d
      using n that by (auto simp: sound_def)
    have e: "reported G root plan T d0 e d" if "failed G root plan ?a ?d1 e d" for e d
    proof -
      have "unchanged T d0 d" if "outside ?a d = outside ?a ?d1"
        using that un outside_unchanged by blast
      then show ?thesis
        using that s by (auto simp: failed_def reported_def)
    qed
    have "ends (seen (\<lambda>d. (outside ?a d = outside ?a ?d1 \<and> clean ?a d) \<and> marked G ?a step {None} d))
        (run_attempt G root key i plan ?a step) (\<lambda>_. seen (completed G root plan T d0)) ?E ?S"
      by (rule ends_weaken [OF run_attempt_ends [OF ok under_attempt [OF under] plan wf1]])
        (use n s e in \<open>auto simp: seen_def completed_def\<close>)
    then have "ends (seen (\<lambda>d. d = ?d1)) (io_chain (make_attempt T ?a) (run_attempt G root key i plan ?a step))
        (\<lambda>_. seen (completed G root plan T d0)) ?E ?S"
      by (rule ends_chain [OF make_attempt_ends [OF under n]])
    then show "ends (\<lambda>v. v = w)
        (io_chain (make_attempt t (t @ [attempt_name step])) (run_attempt G root key i plan (t @ [attempt_name step]) step))
        (\<lambda>_. seen (completed G root plan T d0)) ?E ?S"
      using w by (simp add: ends_def seen_def)
  qed
  have "ensures (seen (\<lambda>d. (idle G T d0 d \<and> root_there root T d) \<and> t = T)) (en_next_step G i)
      (\<lambda>_. seen (\<lambda>d. (idle G T d0 d \<and> root_there root T d) \<and> t = T))
      (seen (\<lambda>d. (idle G T d0 d \<and> root_there root T d) \<and> t = T))" for t
    by (rule seen_reads_only [OF engine_reads_only(8) [OF ok]])
  then have step: "ends (seen (\<lambda>d. (idle G T d0 d \<and> root_there root T d) \<and> t = T)) (en_next_step G i)
      (\<lambda>_. seen (\<lambda>d. (idle G T d0 d \<and> root_there root T d) \<and> t = T)) ?E ?S" for t
    by (rule ends_of_ensures) (auto simp: seen_def reported_def sound_def idle_def)
  have rest: "ends (seen (\<lambda>d. (if r = None then idle G T d0 d \<and> root_there root T d else completed G root plan T d0 d) \<and> t = T))
      (case r of Some c \<Rightarrow> io_return c
       | None \<Rightarrow> io_then (en_next_step G i) (\<lambda>step. let attempt = t @ [attempt_name step] in
           io_chain (make_attempt t attempt) (run_attempt G root key i plan attempt step)))
      (\<lambda>_. seen (completed G root plan T d0)) ?E ?S" for r t
  proof (cases r)
    case None
    with ends_then [OF step attempt] show ?thesis
      by (simp add: Let_def)
  qed (simp add: ends_def io_return_def seen_def)
  show ?thesis
    unfolding execute_def
    by (rule ends_then [OF identity ends_chain [OF check ends_then [OF prepare ends_then [OF recover rest]]]])
qed

section \<open>Restarts\<close>

text \<open>
  What the process may find on the disk when it starts: the files before the operation, or what a run
  of the operation left behind, however that run ended.
\<close>

inductive restarts ::
  "('s, 'c) engine \<Rightarrow> path \<Rightarrow> string \<Rightarrow> operation_id \<Rightarrow> package_plan \<Rightarrow> files \<Rightarrow> files \<Rightarrow> bool"
  for G :: "('s, 'c) engine" and root key i plan d0 where
  before: "restarts G root key i plan d0 d0"
| again: "restarts G root key i plan d0 d \<Longrightarrow> seen (\<lambda>v. v = d) w \<Longrightarrow>
    execute G root key i plan w = (r, w') \<Longrightarrow> restarts G root key i plan d0 (disk w')"

text \<open>The operation is new: it has no attempts yet.\<close>

definition fresh_project :: "('s, 'c) engine \<Rightarrow> path \<Rightarrow> operation_id \<Rightarrow> files \<Rightarrow> bool" where
  "fresh_project G root i d \<longleftrightarrow> files_wf d \<and>
     (\<forall>n. entry_at d (transaction_dir (en_uuid G) root i @ [n]) = None)"

lemma fresh_idle:
  assumes "fresh_project G root i d0"
  shows "idle G (transaction_dir (en_uuid G) root i) d0 d0"
proof -
  let ?T = "transaction_dir (en_uuid G) root i"
  have none: "tree d0 (?T @ [n]) = (\<lambda>_. None)" for n
    using assms wf_absent unfolding fresh_project_def by blast
  have "entry_at d0 (?T @ n # q) = None" for n q
    using fun_cong [OF none [of n], of q] by (simp add: tree_def)
  then have "names_in d0 (?T @ [n]) = []" for n
    using names_in_iff [of _ d0 "?T @ [n]"] by (metis all_not_in_conv append.assoc append.simps set_empty)
  then show ?thesis
    using none by (simp add: idle_def unchanged_def live_def marker_in_def latest_def)
qed

lemma restarts_sound:
  assumes "restarts G root key i plan d0 d" and "engine_ok G plan" and "plan_ok root plan" and "fresh_project G root i d0"
  shows "sound G root plan (transaction_dir (en_uuid G) root i) d0 d"
  using assms
proof (induction rule: restarts.induct)
  case before
  then show ?case
    using fresh_idle by (auto simp: sound_def)
next
  case (again d w r w')
  let ?T = "transaction_dir (en_uuid G) root i"
  have w: "seen (sound G root plan ?T d0) w"
    using again by (auto simp: seen_def)
  have wf: "files_wf d0"
    using again.prems by (simp add: fresh_project_def)
  note ends = ends_cases [OF execute_ends [OF again.prems(1,2) wf, where i = i and key = key] w]
  show ?case
    using again.hyps(3) ends completed_sound
    by (cases r rule: sum.exhaust; cases "projl r") (fastforce simp: seen_def reported_def)+
qed

end
