(* ===== verification/TransactionDemo.thy ===== *)
theory TransactionDemo
  imports TransactionHistory
begin

text \<open>
  A small project and a plan that replaces a package, installs one and removes a legacy asset,
  with an engine whose parameters are concrete functions: the hypotheses of the properties hold for it.
\<close>

definition tx_uuid :: uuid_ops where
  "tx_uuid = \<lparr>uuid_parse_str = \<lambda>_. None, uuid_to_string = \<lambda>_. ''op'', uuid_as_bytes = \<lambda>_. []\<rparr>"

definition tx_root :: path where
  "tx_root = [''p'']"

definition tx_disk :: files where
  "tx_disk =
     [([], Directory), ([''p''], Directory), ([''p'', ''Library''], Directory),
      ([''p'', ''Assets''], Directory), ([''p'', ''Assets'', ''Old''], File ''legacy''),
      ([''p'', ''Packages''], Directory), ([''p'', ''Packages'', ''manifest.json''], File ''upm''),
      ([''p'', ''Packages'', ''vpm-manifest.json''], File ''old''),
      ([''p'', ''Packages'', ''a''], Directory), ([''p'', ''Packages'', ''a'', ''f''], File ''a1'')]"

definition tx_pin :: package_source_pin where
  "tx_pin = PinUserPackage \<lparr>up_user_package_id = UserPackageId 0, up_source_revision = 0,
     up_source_identity = [], up_manifest_fingerprint = [], up_package_id = [], up_version = [], up_archive_sha256 = []\<rparr>"

definition tx_mutation :: "mutation_kind \<Rightarrow> string \<Rightarrow> package_mutation" where
  "tx_mutation kind n = \<lparr>pm_kind = kind, pm_package_id = n, pm_from_version = None, pm_to_version = Some ''1'',
     pm_source = (if kind = RemovePackage then None else Some tx_pin)\<rparr>"

definition tx_removal :: legacy_removal where
  "tx_removal = \<lparr>lr_path = ''Assets/Old'', lr_kind = LegacyFile, lr_package_id = ''a'', lr_identity = ''id'', lr_fingerprint = []\<rparr>"

definition tx_plan :: package_plan where
  "tx_plan = \<lparr>pl_plan_id = PlanId 0, pl_owner = PrincipalId [], pl_project_id = ProjectId 0, pl_action = PlanUpgrade,
     pl_state = Unapplied, pl_project_revision = Revision 0, pl_project_snapshot_fingerprint = [],
     pl_change_set_fingerprint = ''x'',
     pl_change_set = \<lparr>cs_format_version = 2,
       cs_mutations = [tx_mutation ReplacePackage ''a'', tx_mutation InstallPackage ''b''],
       cs_dependency_edges = [],
       cs_legacy_removals = [tx_removal],
       cs_legacy_packages = [], cs_vpm_manifest_sha256 = ''new''\<rparr>,
     pl_source_set = [], pl_apply_operation_id = None, pl_created_at_ms = 0\<rparr>"

definition tx_phases :: "(char \<times> filesystem_phase) list" where
  "tx_phases =
     [(CHR ''A'', Accepted), (CHR ''B'', PreflightComplete), (CHR ''C'', QuarantineIntent),
      (CHR ''D'', RootQuarantined), (CHR ''E'', RegistryCommitIntent), (CHR ''F'', InventoryReady),
      (CHR ''G'', Archiving), (CHR ''H'', ArchiveReady), (CHR ''I'', PublishIntent),
      (CHR ''J'', ArchivePublished), (CHR ''K'', ArchiveVerified), (CHR ''L'', Extracting),
      (CHR ''M'', Staging), (CHR ''N'', StagingComplete), (CHR ''O'', TargetPublished),
      (CHR ''P'', ProjectRegistryCommitIntent), (CHR ''Q'', Extracted), (CHR ''R'', Prepared),
      (CHR ''S'', PackagesReplaced), (CHR ''T'', VpmManifestCommitted), (CHR ''U'', FilesystemCommitted),
      (CHR ''V'', StateCommitted), (CHR ''W'', Deleting), (CHR ''X'', CleanupComplete),
      (CHR ''Y'', RollingBack), (CHR ''Z'', RolledBack), (CHR ''a'', RecoveryRequired)]"

fun tx_phase_code :: "filesystem_phase \<Rightarrow> char" where
  "tx_phase_code Accepted = CHR ''A''"
| "tx_phase_code PreflightComplete = CHR ''B''"
| "tx_phase_code QuarantineIntent = CHR ''C''"
| "tx_phase_code RootQuarantined = CHR ''D''"
| "tx_phase_code RegistryCommitIntent = CHR ''E''"
| "tx_phase_code InventoryReady = CHR ''F''"
| "tx_phase_code Archiving = CHR ''G''"
| "tx_phase_code ArchiveReady = CHR ''H''"
| "tx_phase_code PublishIntent = CHR ''I''"
| "tx_phase_code ArchivePublished = CHR ''J''"
| "tx_phase_code ArchiveVerified = CHR ''K''"
| "tx_phase_code Extracting = CHR ''L''"
| "tx_phase_code Staging = CHR ''M''"
| "tx_phase_code StagingComplete = CHR ''N''"
| "tx_phase_code TargetPublished = CHR ''O''"
| "tx_phase_code ProjectRegistryCommitIntent = CHR ''P''"
| "tx_phase_code Extracted = CHR ''Q''"
| "tx_phase_code Prepared = CHR ''R''"
| "tx_phase_code PackagesReplaced = CHR ''S''"
| "tx_phase_code VpmManifestCommitted = CHR ''T''"
| "tx_phase_code FilesystemCommitted = CHR ''U''"
| "tx_phase_code StateCommitted = CHR ''V''"
| "tx_phase_code Deleting = CHR ''W''"
| "tx_phase_code CleanupComplete = CHR ''X''"
| "tx_phase_code RollingBack = CHR ''Y''"
| "tx_phase_code RolledBack = CHR ''Z''"
| "tx_phase_code RecoveryRequired = CHR ''a''"

definition tx_marker_text :: "attempt_marker \<Rightarrow> string" where
  "tx_marker_text m = [tx_phase_code (am_phase m), if am_state m = Intent then CHR ''i'' else CHR ''c'']"

definition tx_marker_read :: "string \<Rightarrow> attempt_marker option" where
  "tx_marker_read s = (case s of
     [p, t] \<Rightarrow> map_option (\<lambda>ph. \<lparr>am_version = 1, am_plan_id = ''op'', am_change_set_fingerprint = ''78'',
       am_phase = ph, am_state = (if t = CHR ''i'' then Intent else Completed)\<rparr>) (map_of tx_phases p)
   | _ \<Rightarrow> None)"

definition tx_extract :: "path \<Rightarrow> package_change_set \<Rightarrow> string list \<Rightarrow> (unit, 's) engine_io" where
  "tx_extract stage change archives w = (Inr (), w\<lparr>disk := fold (\<lambda>m d.
     if pm_source m = None then d else put_entry (stage @ [pm_package_id m]) Directory d) (cs_mutations change) (disk w)\<rparr>)"

text \<open>
  Fetching consults the fates, so that a run can stop or fail while packages are downloaded; the check
  of the legacy assets after the change and the final inspection are parameters.
\<close>

definition tx_engine :: "(unit, unit) engine_io \<Rightarrow> (nat, unit) engine_io \<Rightarrow> (unit, nat) engine" where
  "tx_engine late inspect = \<lparr>en_uuid = tx_uuid, en_sha256 = \<lambda>b. b, en_marker_text = tx_marker_text,
     en_marker_read = tx_marker_read, en_resolve_identity = \<lambda>_. io_return ''key'',
     en_next_step = \<lambda>_. io_return 1, en_append_journal = \<lambda>_. io_return (),
     en_cancellation_requested = \<lambda>_. io_return False, en_time_ms = io_return 0,
     en_fetch = \<lambda>_. io_then (or_code (fs_sync tx_root) OfflineCacheMissE) (\<lambda>_. io_return [''a'', ''b'']),
     en_extract = tx_extract, en_verify_extracted_legacy = \<lambda>_ _. io_return (), en_revalidate = \<lambda>_. io_return (),
     en_materialize = \<lambda>_ _. Inr ''new'', en_verify_plan_legacy = \<lambda>_ _ changed. if changed then late else io_return (),
     en_verify_removal = \<lambda>_ _. io_return (), en_file_identity = \<lambda>_. io_return ''id'',
     en_validate_package = \<lambda>_ _ _. io_return (), en_inspect = \<lambda>_ _. inspect\<rparr>"

definition tx_world :: "files \<Rightarrow> fate list \<Rightarrow> unit package_world" where
  "tx_world d fs = \<lparr>disk = d, unreadable = [], fates = fs, store_state = ()\<rparr>"

abbreviation tx_run :: "(unit, unit) engine_io \<Rightarrow> (nat, unit) engine_io \<Rightarrow> files \<Rightarrow> fate list \<Rightarrow> (m4_error ending + nat) \<times> unit package_world" where
  "tx_run late inspect d fs \<equiv> execute (tx_engine late inspect) tx_root ''key'' (OperationId 0) tx_plan (tx_world d fs)"

section \<open>The hypotheses hold\<close>

lemma tx_marker_fits: "marker_text_ok (tx_engine late inspect) (marker_of tx_uuid tx_plan ph st)"
proof -
  have "map_of tx_phases (tx_phase_code ph) = Some ph"
    by (cases ph) (simp_all add: tx_phases_def)
  moreover have "hex_text ''x'' = ''78''"
    by code_simp
  ultimately have "tx_marker_read (tx_marker_text (marker_of tx_uuid tx_plan ph st)) = Some (marker_of tx_uuid tx_plan ph st)"
    by (cases st) (simp_all add: tx_marker_read_def tx_marker_text_def marker_of_def tx_plan_def tx_uuid_def)
  moreover have "tx_marker_read (take n (tx_marker_text m)) = None" if "n < length (tx_marker_text m)" for n m
    using that by (cases n) (auto simp: tx_marker_text_def tx_marker_read_def)
  moreover have "am_version (marker_of tx_uuid tx_plan ph st) = 1" "length (tx_marker_text m) = 2" for m
    by (simp_all add: marker_of_def tx_marker_text_def)
  ultimately show ?thesis
    by (simp add: marker_text_ok_def tx_engine_def)
qed

lemma tx_extracts: "engine_extracts (tx_engine late inspect)"
proof -
  have same: "entry_at (fold (\<lambda>m d. if pm_source m = None then d else put_entry (stage @ [pm_package_id m]) Directory d) ms d) p
      = entry_at d p" if "\<not> strict_prefix stage p" for p ms d stage
  proof -
    have "p \<noteq> stage @ [n]" for n
      using that by (auto simp: strict_prefix_def)
    then show ?thesis
      by (induction ms arbitrary: d) (simp_all add: put_entry_def)
  qed
  have kept: "entry_at (fold (\<lambda>m d. if pm_source m = None then d else put_entry (stage @ [pm_package_id m]) Directory d) ms d)
      (stage @ [n]) = Some Directory" if "entry_at d (stage @ [n]) = Some Directory" for n ms d stage
    using that by (induction ms arbitrary: d) (simp_all add: put_entry_def)
  have there: "list_all (\<lambda>m. pm_source m \<noteq> None \<longrightarrow> entry_at (fold (\<lambda>m d. if pm_source m = None then d
      else put_entry (stage @ [pm_package_id m]) Directory d) ms d) (stage @ [pm_package_id m]) = Some Directory) ms"
    for ms d stage
    by (induction ms arbitrary: d) (auto simp: kept put_entry_def)
  show ?thesis
    using same there unfolding engine_extracts_def tx_engine_def by (auto simp: tx_extract_def)
qed

lemma tx_engine_ok: "reads_only late \<Longrightarrow> reads_only inspect \<Longrightarrow> engine_ok (tx_engine late inspect) tx_plan"
proof -
  assume reads: "reads_only late" "reads_only inspect"
  have "engine_reads (tx_engine late inspect)"
    using reads unfolding engine_reads_def tx_engine_def engine.simps reads_only_preserves
    by (intro conjI allI keeps) simp_all
  then show ?thesis
    using tx_extracts tx_marker_fits by (simp add: engine_ok_def) (simp add: tx_engine_def)
qed

lemma tx_places: "plan_ok tx_root tx_plan"
proof -
  have target: "removal_target tx_root (cs_legacy_removals (pl_change_set tx_plan) ! 0) = Inr [''p'', ''Assets'', ''Old'']"
    by code_simp
  have "plan_places_ok tx_root tx_plan"
    using target
    by (auto simp: plan_places_ok_def Let_def tx_plan_def tx_mutation_def tx_root_def place_defs legacy_handled_def)
  then show ?thesis
    by (simp add: plan_ok_def tx_plan_def tx_mutation_def)
qed

lemma files_wf_check:
  "list_all (\<lambda>e. fst e = [] \<or> entry_at d (butlast (fst e)) = Some Directory) d \<Longrightarrow> files_wf d"
  unfolding files_wf_def list_all_iff by (metis append_is_Nil_conv butlast_snoc fst_conv list.distinct(1) map_of_SomeD not_None_eq)

lemma tx_fresh: "fresh_project (tx_engine late inspect) tx_root (OperationId 0) tx_disk"
proof -
  have "files_wf tx_disk"
    by (rule files_wf_check) code_simp
  then show ?thesis
    by (simp add: fresh_project_def tx_engine_def tx_uuid_def transaction_dir_def operation_id_to_string.simps
        tx_root_def tx_disk_def)
qed

end
