(* ===== verification/TransactionClaims.thy ===== *)
theory TransactionClaims
  imports TransactionDemo
begin

text \<open>
  What a package operation promises over all the restarts of the program, and the ways in which it
  can get stuck, with runs of a small project as witnesses.
\<close>

section \<open>Attempts without a marker\<close>

text \<open>An attempt directory from which no marker can be read, and no attempt to recover.\<close>

definition unmarked_attempt :: "('s, 'c) engine \<Rightarrow> path \<Rightarrow> files \<Rightarrow> bool" where
  "unmarked_attempt G T d \<longleftrightarrow> (\<forall>n. \<not> live (marker_in G (T @ [n]) d)) \<and>
     (\<exists>n. starts_with ''attempt-'' n \<and> entry_at d (T @ [n]) \<noteq> None \<and> marker_in G (T @ [n]) d = None)"

lemma unmarked_put_directory:
  assumes "unmarked_attempt G T d" and "prefix p T"
  shows "unmarked_attempt G T (put_entry p Directory d)"
proof -
  have entry: "entry_at (put_entry p Directory d) (T @ x # q) = entry_at d (T @ x # q)" for x q
  proof -
    have "T @ x # q \<noteq> p"
      using assms(2) by (auto simp: prefix_def)
    then show ?thesis by (simp add: put_entry_def)
  qed
  have "marker_in G (T @ [n]) (put_entry p Directory d) = marker_in G (T @ [n]) d" for n
    by (rule marker_in_view) (simp add: view_def fun_eq_iff entry)
  then show ?thesis
    using assms(1) by (simp add: unmarked_attempt_def entry)
qed

lemma recover_unmarked:
  fixes G :: "('s, 'c) engine"
  assumes "\<And>d. P d \<Longrightarrow> \<not> live (marker_in G (T @ [n]) d)"
  shows "ends (seen P) (recover_attempt G root plan (T @ [n]))
    (\<lambda>r w. r = None \<and> seen (\<lambda>d. P d \<and> marker_in G (T @ [n]) d \<noteq> None) w)
    (\<lambda>e w. me_code e = RecoveryRequiredE \<and> seen P w) (seen P)"
proof (rule ends_case_pre)
  fix w :: "'s package_world"
  assume w: "seen P w"
  let ?a = "T @ [n]" and ?P = "\<lambda>d. P d \<and> d = disk w"
  show "ends (\<lambda>v. v = w) (recover_attempt G root plan ?a)
    (\<lambda>r w. r = None \<and> seen (\<lambda>d. P d \<and> marker_in G (T @ [n]) d \<noteq> None) w)
    (\<lambda>e w. me_code e = RecoveryRequiredE \<and> seen P w) (seen P)"
  proof (cases "marker_in G ?a (disk w)")
    case None
    have "ends (\<lambda>v. v = w) (needs_recovery (read_marker G ?a)) (\<lambda>_ _. False)
        (\<lambda>e w. me_code e = RecoveryRequiredE \<and> seen P w) (seen P)"
    proof (rule ends_only [OF _ only_needs])
      show "ensures (\<lambda>v. v = w) (needs_recovery (read_marker G ?a)) (\<lambda>_ _. False) (seen ?P)"
        by (rule ensures_map_err [OF ensures_weaken [OF read_marker_finds [where P = ?P]]])
          (use w None in \<open>auto simp: seen_def\<close>)
    qed (auto simp: seen_def)
    then show ?thesis
      unfolding recover_attempt_def by (rule ends_then) (simp add: ends_def)
  next
    case (Some m)
    have "ends (seen ?P) (recover_attempt G root plan ?a) (\<lambda>r w. r = None \<and> seen ?P w)
        (\<lambda>e w. me_code e = RecoveryRequiredE \<and> seen ?P w) (seen ?P)"
      by (rule recover_inert) (use assms in auto)
    then show ?thesis
      by (rule ends_weaken) (use w Some in \<open>auto simp: seen_def\<close>)
  qed
qed

lemma first_completed_unmarked:
  fixes G :: "('s, 'c) engine"
  assumes "\<And>d n. P d \<Longrightarrow> \<not> live (marker_in G (T @ [n]) d)"
  shows "ends (seen P) (first_completed (recover_attempt G root plan) (map (\<lambda>n. T @ [n]) ns))
    (\<lambda>r w. r = None \<and> seen (\<lambda>d. P d \<and> list_all (\<lambda>n. marker_in G (T @ [n]) d \<noteq> None) ns) w)
    (\<lambda>e w. me_code e = RecoveryRequiredE \<and> seen P w) (seen P)"
  using assms
proof (induction ns arbitrary: P)
  case Nil
  then show ?case
    by (simp add: ends_def io_return_def seen_def)
next
  case (Cons n ns)
  let ?P = "\<lambda>d. P d \<and> marker_in G (T @ [n]) d \<noteq> None"
  have head: "ends (seen P) (recover_attempt G root plan (T @ [n])) (\<lambda>r w. r = None \<and> seen ?P w)
      (\<lambda>e w. me_code e = RecoveryRequiredE \<and> seen P w) (seen P)"
    by (rule recover_unmarked) (rule Cons.prems)
  have rest: "ends (seen ?P) (first_completed (recover_attempt G root plan) (map (\<lambda>n. T @ [n]) ns))
      (\<lambda>r w. r = None \<and> seen (\<lambda>d. ?P d \<and> list_all (\<lambda>n. marker_in G (T @ [n]) d \<noteq> None) ns) w)
      (\<lambda>e w. me_code e = RecoveryRequiredE \<and> seen ?P w) (seen ?P)"
    by (rule Cons.IH) (use Cons.prems in blast)
  have tail: "ends (\<lambda>w. r = None \<and> seen ?P w)
      (case r of Some c \<Rightarrow> io_return (Some c)
        | None \<Rightarrow> first_completed (recover_attempt G root plan) (map (\<lambda>n. T @ [n]) ns))
      (\<lambda>r w. r = None \<and> seen (\<lambda>d. P d \<and> list_all (\<lambda>n. marker_in G (T @ [n]) d \<noteq> None) (n # ns)) w)
      (\<lambda>e w. me_code e = RecoveryRequiredE \<and> seen P w) (seen P)" for r
  proof (cases r)
    case None
    show ?thesis
      unfolding None by (simp only: option.case, rule ends_weaken [OF rest]) (auto simp: seen_def)
  qed (simp add: ends_def)
  show ?case
    unfolding list.map first_completed.simps by (rule ends_then [OF head tail])
qed

lemma execute_unmarked:
  fixes G :: "('s, 'c) engine" and i :: operation_id and root :: path
  assumes ok: "engine_reads G"
  defines "T \<equiv> transaction_dir (en_uuid G) root i"
  shows "ends (seen (unmarked_attempt G T)) (execute G root key i plan) (\<lambda>_ _. False)
    (\<lambda>e w. me_code e = RecoveryRequiredE \<and> seen (unmarked_attempt G T) w) (seen (unmarked_attempt G T))"
proof -
  let ?U = "seen (unmarked_attempt G T)" and ?E = "\<lambda>e w. me_code e = RecoveryRequiredE \<and> seen (unmarked_attempt G T) w"
  have identity: "ends ?U (needs_recovery (en_resolve_identity G root)) (\<lambda>_. ?U) ?E ?U"
    using ok by (intro ends_only [OF ensures_map_err [OF seen_reads_only] only_needs]) (auto simp: engine_reads_def)
  have check: "ends ?U (io_ensure c (m4_new RecoveryRequiredE)) (\<lambda>_. ?U) ?E ?U" for c
    by (rule ends_ensure_recovery) auto
  have "put_directories root T (unmarked_attempt G T)"
    using unmarked_put_directory take_is_prefix unfolding put_directories_def by blast
  moreover have "T = root @ drop (length root) T"
    by (simp add: T_def transaction_dir_def)
  ultimately have "ensures ?U (ensure_directories root (drop (length root) T)) (\<lambda>_. ?U) ?U"
    by (rule ensures_weaken [OF ensure_directories_puts]) (auto simp: seen_def)
  then have "ensures ?U (prepare_transaction_root (en_uuid G) root i) (\<lambda>t w. ?U w \<and> t = T) ?U"
    unfolding prepare_transaction_root_def T_def [symmetric]
    by (rule ensures_then) (auto intro!: ensures_return)
  then have prepare: "ends ?U (prepare_transaction_root (en_uuid G) root i) (\<lambda>t w. ?U w \<and> t = T) ?E ?U"
    by (rule ends_only [OF _ only_prepare]) auto
  have recover: "ends (\<lambda>w. ?U w \<and> t = T) (recover_attempts G root plan t) (\<lambda>_ _. False) ?E ?U" for t
  proof (cases "t = T")
    case True
    let ?found = "\<lambda>names. sort (filter (starts_with ''attempt-'') names)"
    let ?P = "\<lambda>ns d. unmarked_attempt G T d \<and>
      (\<exists>n. n \<in> set ns \<and> entry_at d (T @ [n]) \<noteq> None \<and> marker_in G (T @ [n]) d = None)"
    have names: "ends ?U (io_reads (read_dir T) :: (string list, 's) engine_io)
        (\<lambda>names. seen (?P (?found names))) ?E ?U"
    proof (rule ends_only [OF _ only_read_dir])
      show "ensures ?U (io_reads (read_dir T) :: (string list, 's) engine_io) (\<lambda>names. seen (?P (?found names))) ?U"
      proof (rule ensures_reads)
        fix w :: "'s package_world" and names
        assume w: "seen (unmarked_attempt G T) w" and "read_dir T w = Inr names"
        then have "names = names_in (disk w) T"
          by (auto simp: read_dir_def split: if_splits)
        then show "seen (?P (?found names)) w"
          using w names_in_iff [of _ "disk w" T] by (auto simp: seen_def unmarked_attempt_def)
      qed
    qed auto
    have all: "ends (seen (?P ns)) (first_completed (recover_attempt G root plan) (map (\<lambda>n. T @ [n]) ns)) (\<lambda>_ _. False) ?E ?U" for ns
    proof -
      have "\<not> live (marker_in G (T @ [n]) d)" if "?P ns d" for d n
        using that by (simp add: unmarked_attempt_def)
      then show ?thesis
        by (intro ends_weaken [OF first_completed_unmarked [where P = "?P ns"]]) (auto simp: seen_def list_all_iff)
    qed
    have "ends ?U (recover_attempts G root plan T) (\<lambda>_ _. False) ?E ?U"
      unfolding recover_attempts_def by (rule ends_then [OF names all])
    then show ?thesis
      using True by simp
  qed (simp add: ends_def)
  have rest: "ends (\<lambda>_. False) m (\<lambda>_ _. False) ?E ?U" for m :: "('c, 's) engine_io"
    by (simp add: ends_def)
  show ?thesis
    unfolding execute_def
    by (rule ends_then [OF identity ends_chain [OF check ends_then [OF prepare ends_then [OF recover rest]]]])
qed

lemma restarts_unmarked:
  assumes "restarts G root key i plan d1 d" and "engine_reads G"
    and "unmarked_attempt G (transaction_dir (en_uuid G) root i) d1"
  shows "unmarked_attempt G (transaction_dir (en_uuid G) root i) d"
  using assms
proof (induction rule: restarts.induct)
  case (again d w r w')
  let ?U = "unmarked_attempt G (transaction_dir (en_uuid G) root i)"
  have w: "seen ?U w"
    using again by (auto simp: seen_def)
  note ends = ends_cases [OF execute_unmarked [OF again.prems(1), where i = i and key = key] w]
  show ?case
    using again.hyps(3) ends by (cases r rule: sum.exhaust; cases "projl r") (fastforce simp: seen_def)+
qed simp

section \<open>Facts of every run\<close>

lemma transactions_under: "attempt_under root (transaction_dir U root i)"
  by (simp add: transaction_dir_def attempt_under_def)

lemma run_sound:
  assumes "engine_ok G plan" and "plan_ok root plan" and "fresh_project G root i d0"
    and "restarts G root key i plan d0 d" and "seen (\<lambda>v. v = d) w"
  shows "seen (sound G root plan (transaction_dir (en_uuid G) root i) d0) w"
  using restarts_sound [OF assms(4,1-3)] assms(5) by (auto simp: seen_def)

lemma run_ends:
  assumes "engine_ok G plan" and "plan_ok root plan" and "fresh_project G root i d0"
    and "restarts G root key i plan d0 d" and "seen (\<lambda>v. v = d) w"
  shows "execute G root key i plan w = (Inr c, w') \<Longrightarrow>
      completed G root plan (transaction_dir (en_uuid G) root i) d0 (disk w')"
    and "execute G root key i plan w = (Inl (Raised e), w') \<Longrightarrow>
      reported G root plan (transaction_dir (en_uuid G) root i) d0 e (disk w')"
proof -
  have "files_wf d0"
    using assms(3) by (simp add: fresh_project_def)
  note ends = ends_cases [OF execute_ends [OF assms(1,2) this] run_sound [OF assms]]
  show "execute G root key i plan w = (Inr c, w') \<Longrightarrow>
      completed G root plan (transaction_dir (en_uuid G) root i) d0 (disk w')"
    and "execute G root key i plan w = (Inl (Raised e), w') \<Longrightarrow>
      reported G root plan (transaction_dir (en_uuid G) root i) d0 e (disk w')"
    using ends by (simp_all add: seen_def)
qed

lemma recover_returns:
  assumes ok: "engine_ok G plan" and plan: "plan_ok root plan" and fresh: "fresh_project G root i d0"
    and "restarts G root key i plan d0 d" and "seen (\<lambda>v. v = d) w"
    and run: "io_then (prepare_transaction_root (en_uuid G) root i) (recover_attempts G root plan) w = (Inr None, w')"
  shows "idle G (transaction_dir (en_uuid G) root i) d0 (disk w')"
proof -
  let ?T = "transaction_dir (en_uuid G) root i" and ?U = "en_uuid G"
  let ?there = "\<lambda>d. sound G root plan (transaction_dir (en_uuid G) root i) d0 d \<and> root_there root (transaction_dir (en_uuid G) root i) d"
  have "ends (seen (sound G root plan ?T d0)) (prepare_transaction_root ?U root i)
      (\<lambda>t. seen (\<lambda>d. ?there d \<and> t = ?T)) (\<lambda>_ _. True) (\<lambda>_. True)"
    by (rule ends_of_ensures [OF ensures_weaken [OF prepare_transaction_root_keeps [OF transactions_under refl]]])
      (auto simp: seen_def)
  moreover have "ends (seen (\<lambda>d. ?there d \<and> t = ?T)) (recover_attempts G root plan t)
      (\<lambda>r. seen (\<lambda>d. r = None \<longrightarrow> idle G ?T d0 d)) (\<lambda>_ _. True) (\<lambda>_. True)" for t
  proof (cases "t = ?T")
    case True
    show ?thesis
      unfolding True
      by (rule ends_weaken [OF recover_attempts_ends [OF ok transactions_under plan]]) (auto simp: seen_def split: if_splits)
  qed (simp add: ends_def seen_def)
  ultimately have "ends (seen (sound G root plan ?T d0))
      (io_then (prepare_transaction_root ?U root i) (recover_attempts G root plan))
      (\<lambda>r. seen (\<lambda>d. r = None \<longrightarrow> idle G ?T d0 d)) (\<lambda>_ _. True) (\<lambda>_. True)"
    by (rule ends_then)
  from ends_cases(1) [OF this run_sound [OF assms(1-5)] run] show ?thesis
    by (simp add: seen_def)
qed

section \<open>Properties\<close>

definition planned :: "path \<Rightarrow> package_plan \<Rightarrow> path \<Rightarrow> bool" where
  "planned root plan p \<longleftrightarrow> prefix (vpm_manifest_path root) p \<or>
     list_ex (\<lambda>m. prefix (packages_dir root @ [pm_package_id m]) p) (cs_mutations (pl_change_set plan)) \<or>
     list_ex (\<lambda>r. case removal_target root r of Inl _ \<Rightarrow> False | Inr t \<Rightarrow> prefix t p)
       (cs_legacy_removals (pl_change_set plan))"

text \<open>
  C2: A recovery after any number of stops and restarts that finds nothing committed leaves the
  project exactly as it was before the operation: every path that is neither inside the directory of
  the operation nor one of its ancestors (which the operation may have created) has its old entry.
  No lookup of metadata fails in these runs (\<open>seen\<close>, \<open>restarts\<close>); calls that change files may.
\<close>
theorem restart_restores_project:
  assumes "engine_ok G plan" and "plan_ok root plan" and "fresh_project G root i d0"
    and "restarts G root key i plan d0 d" and "seen (\<lambda>v. v = d) w"
    and "io_then (prepare_transaction_root (en_uuid G) root i) (recover_attempts G root plan) w = (Inr None, w')"
    and "parallel (transaction_dir (en_uuid G) root i) p"
  shows "entry_at (disk w') p = entry_at d0 p"
  using recover_returns [OF assms(1-6)] assms(7) by (simp add: idle_def unchanged_def)

text \<open>
  C4: An operation that ends with an error other than \<open>RecoveryRequired\<close>, at the first run or after
  restarts, has left the project as it was, unless an attempt was committed before the error.  As in
  C2, no lookup of metadata fails, and the ancestors of the operation's directory are left aside.
\<close>
theorem failed_operation_keeps_project:
  assumes "engine_ok G plan" and "plan_ok root plan" and "fresh_project G root i d0"
    and "restarts G root key i plan d0 d" and "seen (\<lambda>v. v = d) w"
    and "execute G root key i plan w = (Inl (Raised e), w')" and "me_code e \<noteq> RecoveryRequiredE"
    and "\<And>n. \<not> committed_in G (transaction_dir (en_uuid G) root i @ [n]) (disk w')"
    and "parallel (transaction_dir (en_uuid G) root i) p"
  shows "entry_at (disk w') p = entry_at d0 p"
  using run_ends(2) [OF assms(1-6)] assms(7-9) by (auto simp: reported_def unchanged_def)

text \<open>
  C6: An operation that returns a completion has put the planned change in place, whether the run
  made the change itself or found it committed by an earlier run: the manifest has the planned
  content, every installed or replaced package is a directory, and what was to be removed is gone.
  That the directory of a replaced package is the new one is not part of it.  No lookup of metadata
  fails.
\<close>
theorem completed_operation_is_in_place:
  assumes "engine_ok G plan" and "plan_ok root plan" and "fresh_project G root i d0"
    and "restarts G root key i plan d0 d" and "seen (\<lambda>v. v = d) w"
    and "execute G root key i plan w = (Inr c, w')"
  shows "in_place G root plan (disk w')"
  using run_ends(1) [OF assms] by (auto simp: completed_def done_state_def)

text \<open>
  C8: Whatever happens, and however often the program stops and starts, an operation changes nothing
  in the project but its own directory, the ancestors of that directory and the places its plan names.
  No lookup of metadata fails.
\<close>
theorem operation_touches_only_planned_places:
  assumes "engine_ok G plan" and "plan_ok root plan" and "fresh_project G root i d0"
    and "restarts G root key i plan d0 d"
    and "parallel (transaction_dir (en_uuid G) root i) p" and "\<not> planned root plan p"
  shows "entry_at d p = entry_at d0 p"
proof -
  let ?T = "transaction_dir (en_uuid G) root i"
  consider "unchanged ?T d0 d" | n d1 where "unchanged ?T d0 d1" "framed d1 (?T @ [n]) (plan_groups root (?T @ [n]) plan) d"
    using restarts_sound [OF assms(4,1-3)] by (auto simp: sound_def idle_def began_def truthful_def)
  then show ?thesis
  proof cases
    case (2 n d1)
    have "\<not> prefix (?T @ [n]) p"
      using assms(5) by (metis parallel_def prefixI prefix_order.order_trans)
    moreover have "\<not> prefix t p" if "g \<in> set (plan_groups root (?T @ [n]) plan)" "home g = Some t" for g t
      using that assms(6) unfolding plan_groups_member planned_def
      by (auto simp: manifest_group_def mutation_group_def removal_groups_member Let_def list_ex_iff enumerate_eq_zip
          dest!: set_zip_rightD split: if_splits sum.splits)
    ultimately have "entry_at d p = entry_at d1 p"
      using 2(2) unfolding framed_def by blast
    then show ?thesis
      using 2(1) assms(5) by (simp add: unchanged_def)
  qed (use assms(5) in \<open>simp add: unchanged_def\<close>)
qed

text \<open>
  C15: A marker that was written is the marker a later process reads, whatever markers of earlier
  steps are in the attempt.
\<close>
theorem marker_read_back:
  assumes "marker_text_ok G m" and "markers_upto attempt step (disk w)" and "unreadable w = []"
    and "entry_at (disk w) attempt = Some Directory"
    and "write_marker G attempt m step w = (Inr (), w')"
  shows "fst (read_marker G attempt w') = Inr m"
proof -
  have "ensures (seen (\<lambda>d. entry_at d attempt = Some Directory \<and> markers_upto attempt step d \<and>
        marker_in G attempt d = marker_in G attempt (disk w))) (write_marker G attempt m step)
      (\<lambda>_. seen (\<lambda>d. entry_at d attempt = Some Directory \<and> markers_upto attempt step d \<and> marker_in G attempt d = Some m))
      (seen (\<lambda>d. entry_at d attempt = Some Directory \<and> markers_upto attempt step d \<and>
        marker_in G attempt d \<in> {marker_in G attempt (disk w), None, Some m}))"
    by (rule write_marker_marks [OF assms(1)]) (simp add: put_entry_def)
  from ensures_ok [OF this _ assms(5)]
  have "seen (\<lambda>d. entry_at d attempt = Some Directory \<and> marker_in G attempt d = Some m) w'"
    using assms(2-4) by (simp add: seen_def)
  then show ?thesis
    by (auto simp: read_marker_def io_then_def io_chain_def io_reads_def io_sum_def io_ensure_def io_return_def
        io_raise_def read_dir_def read_regular_file_def seen_def seen_metadata marker_in_def result_simps
        split: sum.splits option.splits prod.splits if_splits node.splits io_error.splits)
qed

text \<open>
  C13: An attempt directory without a readable marker, which a stop or an error before the first
  marker leaves behind, ends every later run of the operation with \<open>RecoveryRequired\<close> (or in another
  stop): no restart makes a new attempt.  This is when no other attempt of the operation is one to
  recover; lookups of metadata succeed.
\<close>
theorem unmarked_attempt_blocks:
  assumes "engine_reads G" and "unmarked_attempt G (transaction_dir (en_uuid G) root i) d1"
    and "restarts G root key i plan d1 d" and "seen (\<lambda>v. v = d) w"
    and "execute G root key i plan w = (r, w')"
  shows "case r of Inl (Raised e) \<Rightarrow> me_code e = RecoveryRequiredE | Inl Stopped \<Rightarrow> True | Inr _ \<Rightarrow> False"
proof -
  have w: "seen (unmarked_attempt G (transaction_dir (en_uuid G) root i)) w"
    using restarts_unmarked [OF assms(3,1,2)] assms(4) by (auto simp: seen_def)
  note ends = ends_cases [OF execute_unmarked [OF assms(1), where i = i and key = key and plan = plan] w]
  show ?thesis
    using ends assms(5) by (cases r rule: sum.exhaust; cases "projl r") auto
qed

end
