(* ===== verification/TransactionWitnesses.thy ===== *)
theory TransactionWitnesses
  imports TransactionClaims
begin

text \<open>
  Runs of the small project of \<open>TransactionDemo\<close>, evaluated call by call, and the properties of
  \<open>TransactionClaims\<close> applied to them.
\<close>

section \<open>Names\<close>

text \<open>File names are numbered while a run is evaluated: numbers are compared faster than texts.\<close>

definition tx_names :: "string list" where
  "tx_names =
    [''#'', ''##'', ''p'', ''Library'', ''ALCOMD'', ''transactions'', ''op'',
     ''attempt-00000000000000000001'', ''staging'', ''backup'', ''legacy-backup'',
     ''rolled-forward-content'', ''Packages'', ''Assets'', ''Old'', ''manifest.json'', ''vpm-manifest.json'',
     ''vpm-manifest.new'', ''vpm-manifest.old'', ''vpm-manifest.commit-old'', ''upm-manifest.sha256'', ''a'',
     ''b'', ''f'', ''0'', ''marker-00000000000000000001.json'', ''marker-00000000000000000002.json'',
     ''marker-00000000000000000003.json'', ''marker-00000000000000000004.json'',
     ''marker-00000000000000000005.json'', ''marker-00000000000000000006.json'',
     ''marker-00000000000000000007.json'', ''marker-00000000000000000008.json'',
     ''marker-18446744073709551615.json'']"

definition nm :: "nat \<Rightarrow> string" where
  "nm k = tx_names ! k"

lemma nm_eq: "i < 34 \<Longrightarrow> j < 34 \<Longrightarrow> nm i = nm j \<longleftrightarrow> i = j"
proof -
  have "distinct tx_names" "length tx_names = 34"
    by code_simp+
  then show "i < 34 \<Longrightarrow> j < 34 \<Longrightarrow> nm i = nm j \<longleftrightarrow> i = j"
    by (simp add: nm_def nth_eq_iff_index_eq)
qed

lemma nm_fold:
  "''p'' = nm 2" "''Library'' = nm 3" "''ALCOMD'' = nm 4" "''transactions'' = nm 5"
  "CHR ''o'' # nm 2 = nm 6" "''staging'' = nm 8" "CHR ''b'' # CHR ''a'' # CHR ''c'' # CHR ''k'' # CHR ''u'' # nm 2 = nm 9" "CHR ''l'' # CHR ''e'' # CHR ''g'' # CHR ''a'' # CHR ''c'' # CHR ''y'' # CHR ''-'' # nm 9 = nm 10"
  "''rolled-forward-content'' = nm 11" "''Packages'' = nm 12" "''Assets'' = nm 13" "''Old'' = nm 14"
  "''manifest.json'' = nm 15" "CHR ''v'' # CHR ''p'' # CHR ''m'' # CHR ''-'' # nm 15 = nm 16" "''vpm-manifest.new'' = nm 17" "''vpm-manifest.old'' = nm 18"
  "''vpm-manifest.commit-old'' = nm 19" "''upm-manifest.sha256'' = nm 20" "''a'' = nm 21" "''b'' = nm 22"
  "''f'' = nm 23" "''0'' = nm 24"
  by code_simp+

lemma pad_last: "pad20 18446744073709551615 = ''18446744073709551615''"
  by (simp add: pad20_def show_nat.simps) code_simp

lemma nm_numbered:
  "marker_name 1 = nm 25" "marker_name 2 = nm 26" "marker_name 3 = nm 27" "marker_name 4 = nm 28"
  "marker_name 5 = nm 29" "marker_name 6 = nm 30" "marker_name 7 = nm 31" "marker_name 8 = nm 32"
  "attempt_name 1 = nm 7"
  "show_nat 0 = nm 24"
  by code_simp+

lemma nm_last: "marker_name (- 1) = nm 33"
proof -
  have last: "unat (- 1 :: u64) = 18446744073709551615"
    by (simp add: unsigned_minus_1_eq_mask mask_eq_exp_minus_1)
  show ?thesis
    unfolding marker_name_def last pad_last by code_simp
qed

lemma nm_max:
  assumes "25 \<le> i" and "i < 34" and "25 \<le> j" and "j < 34"
  shows "max (nm i) (nm j) = nm (max i j)"
proof -
  have "sorted (drop 25 tx_names)" "length tx_names = 34"
    by code_simp+
  then have "nm k \<le> nm l" if "25 \<le> k" "k \<le> l" "l < 34" for k l
    using that sorted_nth_mono [of "drop 25 tx_names" "k - 25" "l - 25"] by (simp add: nm_def)
  with assms show ?thesis
    by (cases "i \<le> j") (simp_all add: max_def antisym)
qed

lemma nm_tests:
  "is_marker_name (nm 2) = False" "is_marker_name (nm 3) = False" "is_marker_name (nm 4) = False" "is_marker_name (nm 5) = False"
  "is_marker_name (nm 6) = False" "is_marker_name (nm 7) = False" "is_marker_name (nm 8) = False" "is_marker_name (nm 9) = False"
  "is_marker_name (nm 10) = False" "is_marker_name (nm 11) = False" "is_marker_name (nm 12) = False" "is_marker_name (nm 13) = False"
  "is_marker_name (nm 14) = False" "is_marker_name (nm 15) = False" "is_marker_name (nm 16) = False" "is_marker_name (nm 17) = False"
  "is_marker_name (nm 18) = False" "is_marker_name (nm 19) = False" "is_marker_name (nm 20) = False" "is_marker_name (nm 21) = False"
  "is_marker_name (nm 22) = False" "is_marker_name (nm 23) = False" "is_marker_name (nm 24) = False" "is_marker_name (nm 25) = True"
  "is_marker_name (nm 26) = True" "is_marker_name (nm 27) = True" "is_marker_name (nm 28) = True" "is_marker_name (nm 29) = True"
  "is_marker_name (nm 30) = True" "is_marker_name (nm 31) = True" "is_marker_name (nm 32) = True" "is_marker_name (nm 33) = True"
  "starts_with ''attempt-'' (nm 7)"
  by code_simp+

section \<open>Evaluation\<close>

text \<open>Only the state of a call is rewritten until the call is reached.\<close>

lemma weak_congs:
  "w = w' \<Longrightarrow> io_then m f w = io_then m f w'"
  "w = w' \<Longrightarrow> io_chain m n w = io_chain m n w'"
  "w = w' \<Longrightarrow> io_match m f' g w = io_match m f' g w'"
  "w = w' \<Longrightarrow> io_map_err h m w = io_map_err h m w'"
  "w = w' \<Longrightarrow> or_code k c w = or_code k c w'"
  "xs = xs' \<Longrightarrow> w = w' \<Longrightarrow> io_each q xs w = io_each q xs' w'"
  "w = w' \<Longrightarrow> or_roll_back G root key i plan a s rep m w = or_roll_back G root key i plan a s rep m w'"
  by simp_all

lemma chain_run: "io_chain m n w = (case m w of (Inl s, w') \<Rightarrow> (Inl s, w') | (Inr x, w') \<Rightarrow> n w')"
  by (simp add: io_chain_def io_then_def)
lemma map_err_run: "io_map_err g m w = (case m w of
        (Inl Stopped, w') \<Rightarrow> (Inl Stopped, w')
      | (Inl (Raised e), w') \<Rightarrow> (Inl (Raised (g e)), w')
      | (Inr x, w') \<Rightarrow> (Inr x, w'))"
  by (auto simp: io_map_err_def io_match_def io_return_def io_raise_def split: prod.split sum.split ending.split)
lemma code_run: "or_code m c w = (case m w of
        (Inl Stopped, w') \<Rightarrow> (Inl Stopped, w')
      | (Inl (Raised e), w') \<Rightarrow> (Inl (Raised (m4_new c)), w')
      | (Inr x, w') \<Rightarrow> (Inr x, w'))"
  by (simp add: or_code_def map_err_run)
lemma reads_run: "io_reads f w = (case f w of Inl e \<Rightarrow> (Inl (Raised e), w) | Inr x \<Rightarrow> (Inr x, w))"
  by (simp add: io_reads_def)
lemma ensure_eq_run: "io_ensure c e w = (if c then (Inr (), w) else (Inl (Raised e), w))"
  by (simp add: io_ensure_def io_return_def io_raise_def)
lemma sum_run: "io_sum r w = (case r of Inl e \<Rightarrow> (Inl (Raised e), w) | Inr x \<Rightarrow> (Inr x, w))"
  by (simp add: io_sum_def io_reads_def)
lemma each_run:
  "io_each f [] w = (Inr (), w)"
  "io_each f (x # xs) w = (case f x w of (Inl s, w') \<Rightarrow> (Inl s, w') | (Inr y, w') \<Rightarrow> io_each f xs w')"
  by (simp_all add: io_return_def io_then_def)
lemma dirs_run:
  "ensure_directories cur [] w = (Inr (), w)"
  "ensure_directories cur (c # cs) w = io_chain
        (\<lambda>w. case symlink_metadata (cur @ [c]) w of
               Inr Directory \<Rightarrow> io_return () w
             | Inl NotFound \<Rightarrow> io_chain (or_code (fs_create_dir (cur @ [c])) RecoveryRequiredE)
                 (io_reads (\<lambda>w. if symlink_metadata (cur @ [c]) w = Inr Directory then Inr ()
                                 else Inl (m4_new RecoveryRequiredE))) w
             | _ \<Rightarrow> io_raise (m4_new RecoveryRequiredE) w)
        (ensure_directories (cur @ [c]) cs) w"
  by (simp_all add: Let_def io_return_def)
lemma first_run:
  "first_completed f [] w = (Inr None, w)"
  "first_completed f (a # as) w =
     (case f a w of (Inl s, w') \<Rightarrow> (Inl s, w') | (Inr r, w') \<Rightarrow> (case r of Some c \<Rightarrow> (Inr (Some c), w') | None \<Rightarrow> first_completed f as w'))"
  by (auto simp: io_return_def io_then_def split: prod.split sum.split option.split)

lemma call_run: "call_partial part f w =
     (case fates w of [] \<Rightarrow> (case f (disk w) of Inl e \<Rightarrow> (Inl (Raised e), w) | Inr d \<Rightarrow> (Inr (), w\<lparr>disk := d\<rparr>))
     | x # xs \<Rightarrow> (case x of
        Proceeds \<Rightarrow>
          (case f (disk w) of
             Inl e \<Rightarrow> (Inl (Raised e), w\<lparr>fates := xs\<rparr>)
           | Inr d \<Rightarrow> (Inr (), w\<lparr>disk := d, fates := xs\<rparr>))
      | Refused n \<Rightarrow> (Inl (Raised OtherIo), w\<lparr>disk := part n (disk w), fates := xs\<rparr>)
      | Stops n \<Rightarrow> (Inl Stopped, w\<lparr>disk := part n (disk w), fates := xs\<rparr>)))"
  by (auto simp add: call_partial_def next_fate_def split: list.split fate.split sum.split)

lemmas runs = io_then_def io_match_def io_return_def io_raise_def chain_run map_err_run code_run reads_run
  ensure_eq_run sum_run each_run dirs_run first_run call_run
  fs_create_dir_def [THEN fun_cong] fs_sync_def [THEN fun_cong] fs_rename_def [THEN fun_cong] fs_write_def [THEN fun_cong]
  fs_remove_file_def [THEN fun_cong] fs_remove_dir_def [THEN fun_cong] fs_remove_tree_def [THEN fun_cong]
  sync_directories_def [THEN fun_cong]
lemmas ops =
  execute_def [THEN fun_cong, unfolded Let_def] prepare_transaction_root_def [THEN fun_cong] recover_attempts_def [THEN fun_cong]
  make_attempt_def [THEN fun_cong] run_attempt_def [THEN fun_cong] stage_packages_def [THEN fun_cong] enter_phase_def [THEN fun_cong]
  append_phase_def [THEN fun_cong] write_marker_def [THEN fun_cong] write_new_file_def [THEN fun_cong]
  stop_if_cancelled_def [THEN fun_cong] prepare_manifest_def [THEN fun_cong] change_project_def [THEN fun_cong, unfolded Let_def]
  or_roll_back_def [THEN fun_cong] hash_file_def [THEN fun_cong] read_regular_file_def [THEN fun_cong]
  quarantine_legacy_def [THEN fun_cong, unfolded Let_def] quarantine_one_def [THEN fun_cong] quarantine_at_def [THEN fun_cong, unfolded Let_def]
  checked_boundary_def [THEN fun_cong] publish_no_replace_def [THEN fun_cong] replace_packages_def [THEN fun_cong]
  replace_one_def [THEN fun_cong, unfolded Let_def] move_aside_def commit_manifest_def [THEN fun_cong, unfolded Let_def]
  verify_final_state_def [THEN fun_cong, unfolded Let_def] verify_mutation_def [unfolded Let_def] cleanup_legacy_def [unfolded Let_def]
  cleanup_one_def [THEN fun_cong, unfolded Let_def] rollback_attempt_def [THEN fun_cong, unfolded Let_def]
  rollback_one_def [unfolded Let_def] put_back_def restore_legacy_def [unfolded Let_def] restore_one_def [THEN fun_cong, unfolded Let_def]
  recover_attempt_def [THEN fun_cong] read_marker_def [THEN fun_cong] stale_def [THEN fun_cong]

lemma tx_target: "removal_target root tx_removal = Inr (root @ [''Assets'', ''Old''])"
proof -
  have "removal_path (lr_path tx_removal) = Inr ''Assets/Old''" "split_on (CHR ''/'') ''Assets/Old'' = [''Assets'', ''Old'']"
    by code_simp+
  then show ?thesis
    by (simp add: removal_target_def)
qed

lemma tx_engine_parts:
  "en_uuid (tx_engine late inspect) = tx_uuid" "en_sha256 (tx_engine late inspect) bytes = bytes"
  "en_marker_text (tx_engine late inspect) = tx_marker_text" "en_marker_read (tx_engine late inspect) = tx_marker_read"
  "en_resolve_identity (tx_engine late inspect) p w = (Inr ''key'', w)" "en_next_step (tx_engine late inspect) i w = (Inr 1, w)"
  "en_append_journal (tx_engine late inspect) j w = (Inr (), w)"
  "en_cancellation_requested (tx_engine late inspect) i w = (Inr False, w)" "en_time_ms (tx_engine late inspect) w = (Inr 0, w)"
  "en_fetch (tx_engine late inspect) plan = io_then (or_code (fs_sync tx_root) OfflineCacheMissE) (\<lambda>_. io_return [''a'', ''b''])"
  "en_extract (tx_engine late inspect) = tx_extract" "en_revalidate (tx_engine late inspect) plan w = (Inr (), w)"
  "en_materialize (tx_engine late inspect) bytes plan = Inr ''new''"
  "en_verify_plan_legacy (tx_engine late inspect) p plan changed = (if changed then late else io_return ())"
  "en_verify_removal (tx_engine late inspect) p r w = (Inr (), w)" "en_file_identity (tx_engine late inspect) p w = (Inr ''id'', w)"
  "en_validate_package (tx_engine late inspect) p n v w = (Inr (), w)" "en_inspect (tx_engine late inspect) p plan = inspect"
  by (simp_all add: tx_engine_def io_return_def)

lemma tx_plan_parts:
  "pl_change_set_fingerprint tx_plan = ''x''" "pl_plan_id tx_plan = PlanId 0" "cs_format_version (pl_change_set tx_plan) = 2"
  "cs_mutations (pl_change_set tx_plan) = [tx_mutation ReplacePackage ''a'', tx_mutation InstallPackage ''b'']"
  "cs_legacy_removals (pl_change_set tx_plan) = [tx_removal]" "cs_legacy_packages (pl_change_set tx_plan) = []"
  "cs_vpm_manifest_sha256 (pl_change_set tx_plan) = ''new''"
  "pm_kind (tx_mutation kind n) = kind" "pm_package_id (tx_mutation kind n) = n" "pm_to_version (tx_mutation kind n) = Some ''1''"
  "pm_source (tx_mutation ReplacePackage n) = Some tx_pin" "pm_source (tx_mutation InstallPackage n) = Some tx_pin"
  by (simp_all add: tx_plan_def tx_mutation_def)

lemmas pures = tx_world_def tx_engine_parts tx_plan_parts tx_root_def tx_uuid_def transaction_dir_def legacy_vault_def packages_dir_def vpm_manifest_path_def
  removal_slot_def rolled_dir_def symlink_metadata_def path_exists_def do_create_def do_rename_def do_rename_no_replace_def move_tree_def
  has_parent_def no_children_def put_entry_def drop_entry_def do_remove_file_def do_remove_dir_def remove_some_def below_def names_in_def
  read_dir_def require_absent_def tx_extract_def tx_marker_text_def tx_marker_read_def
  tx_phases_def marker_of_def checked_inc_def project_manifest_limit_def legacy_handled_def m4_new_def m4_with_subreason_def no_evidence_def
  result_simps

lemma texts: "hex_text ''x'' = ''78''" "hex_text ''upm'' = ''75706d''" "lr_kind tx_removal = LegacyFile" "lr_identity tx_removal = ''id''"
  by code_simp+

lemmas calls = runs ops pures texts tx_target nm_eq nm_fold nm_numbered nm_last nm_max nm_tests latest_def

section \<open>Runs\<close>

abbreviation tx_in :: "path \<Rightarrow> path" where
  "tx_in p \<equiv> nm 2 # nm 3 # nm 4 # nm 5 # nm 6 # nm 7 # p"

text \<open>The process stops after forty calls, in the middle of replacing the packages.\<close>

definition tx_stopped :: files where
  "tx_stopped =
    [(tx_in [nm 10], Directory), (tx_in [nm 28], File ''Si''), (tx_in [nm 28], File []),
     (tx_in [nm 27], File ''Rc''), (tx_in [nm 27], File []), (tx_in [nm 20], File ''75706d''),
     (tx_in [nm 20], File []), (tx_in [nm 18], File ''old''), (tx_in [nm 18], File []),
     (tx_in [nm 17], File ''new''), (tx_in [nm 17], File []), (tx_in [nm 26], File ''Qc''),
     (tx_in [nm 26], File []), (tx_in [nm 8, nm 22], Directory), (tx_in [nm 8, nm 21], Directory),
     (tx_in [nm 25], File ''Hc''), (tx_in [nm 25], File []), (tx_in [nm 9], Directory),
     (tx_in [nm 8], Directory), (tx_in [], Directory), ([nm 2, nm 3, nm 4, nm 5, nm 6], Directory),
     ([nm 2, nm 3, nm 4, nm 5], Directory), ([nm 2, nm 3, nm 4], Directory), ([], Directory),
     ([nm 2], Directory), ([nm 2, nm 3], Directory), ([nm 2, nm 13], Directory),
     (tx_in [nm 10, nm 24], File ''legacy''), ([nm 2, nm 12], Directory),
     ([nm 2, nm 12, nm 15], File ''upm''), ([nm 2, nm 12, nm 16], File ''old''),
     (tx_in [nm 9, nm 21], Directory), (tx_in [nm 9, nm 21, nm 23], File ''a1'')]"

text \<open>The process stops while the packages are fetched.\<close>

definition tx_early :: files where
  "tx_early =
    [(tx_in [nm 9], Directory), (tx_in [nm 8], Directory), (tx_in [], Directory),
     ([nm 2, nm 3, nm 4, nm 5, nm 6], Directory), ([nm 2, nm 3, nm 4, nm 5], Directory),
     ([nm 2, nm 3, nm 4], Directory), ([], Directory), ([nm 2], Directory), ([nm 2, nm 3], Directory),
     ([nm 2, nm 13], Directory), ([nm 2, nm 13, nm 14], File ''legacy''), ([nm 2, nm 12], Directory),
     ([nm 2, nm 12, nm 15], File ''upm''), ([nm 2, nm 12, nm 16], File ''old''),
     ([nm 2, nm 12, nm 21], Directory), ([nm 2, nm 12, nm 21, nm 23], File ''a1'')]"

text \<open>The change is complete.\<close>

definition tx_done :: files where
  "tx_done =
    [(tx_in [nm 32], File ''Uc''), (tx_in [nm 32], File []), (tx_in [nm 31], File ''Tc''),
     (tx_in [nm 31], File []), (tx_in [nm 30], File ''Ti''), (tx_in [nm 30], File []),
     (tx_in [nm 29], File ''Sc''), (tx_in [nm 29], File []), (tx_in [nm 28], File ''Si''),
     (tx_in [nm 28], File []), (tx_in [nm 27], File ''Rc''), (tx_in [nm 27], File []),
     (tx_in [nm 20], File ''75706d''), (tx_in [nm 20], File []), (tx_in [nm 18], File ''old''),
     (tx_in [nm 18], File []), ([nm 2, nm 12, nm 16], File ''new''), ([nm 2, nm 12, nm 16], File []),
     (tx_in [nm 26], File ''Qc''), (tx_in [nm 26], File []), ([nm 2, nm 12, nm 22], Directory),
     ([nm 2, nm 12, nm 21], Directory), (tx_in [nm 25], File ''Hc''), (tx_in [nm 25], File []),
     (tx_in [nm 9], Directory), (tx_in [nm 8], Directory), (tx_in [], Directory),
     ([nm 2, nm 3, nm 4, nm 5, nm 6], Directory), ([nm 2, nm 3, nm 4, nm 5], Directory),
     ([nm 2, nm 3, nm 4], Directory), ([], Directory), ([nm 2], Directory), ([nm 2, nm 3], Directory),
     ([nm 2, nm 13], Directory), ([nm 2, nm 12], Directory), ([nm 2, nm 12, nm 15], File ''upm''),
     (tx_in [nm 19], File ''old''), (tx_in [nm 9, nm 21], Directory),
     (tx_in [nm 9, nm 21, nm 23], File ''a1'')]"

lemma tx_run_early:
  "tx_run late inspect tx_disk [Proceeds, Proceeds, Proceeds, Proceeds, Proceeds, Proceeds, Proceeds, Proceeds, Stops 0] =
    (Inl Stopped, tx_world tx_early [])"
  by (simp add: calls tx_disk_def tx_early_def del: io_each.simps ensure_directories.simps first_completed.simps cong: weak_congs)

lemma tx_run_again: "fst (tx_run late inspect tx_early []) = Inl (Raised (m4_new RecoveryRequiredE))"
  by (simp add: calls tx_early_def del: io_each.simps ensure_directories.simps first_completed.simps cong: weak_congs)

lemma tx_run_stopped:
  "tx_run late inspect tx_disk
      [Proceeds, Proceeds, Proceeds, Proceeds, Proceeds, Proceeds, Proceeds, Proceeds, Proceeds, Proceeds,
       Proceeds, Proceeds, Proceeds, Proceeds, Proceeds, Proceeds, Proceeds, Proceeds, Proceeds, Proceeds,
       Proceeds, Proceeds, Proceeds, Proceeds, Proceeds, Proceeds, Proceeds, Proceeds, Proceeds, Proceeds,
       Proceeds, Proceeds, Proceeds, Proceeds, Proceeds, Proceeds, Proceeds, Proceeds, Proceeds, Proceeds, Stops 0] =
    (Inl Stopped, tx_world tx_stopped [])"
  by (simp add: calls tx_disk_def tx_stopped_def del: io_each.simps ensure_directories.simps first_completed.simps cong: weak_congs)

lemma tx_recovers: "\<exists>d. io_then (prepare_transaction_root tx_uuid tx_root (OperationId 0))
    (recover_attempts (tx_engine late inspect) tx_root tx_plan) (tx_world tx_stopped []) = (Inr None, tx_world d [])"
  by (simp add: calls tx_stopped_def del: io_each.simps ensure_directories.simps first_completed.simps cong: weak_congs)

lemma tx_run_done: "tx_run (io_return ()) inspect tx_disk [] = inspect (tx_world tx_done [])"
  by (simp add: calls tx_disk_def tx_done_def del: io_each.simps ensure_directories.simps first_completed.simps cong: weak_congs)

lemma tx_error_after_commit:
  "tx_run (io_return ()) (io_raise e) tx_disk [] = (Inl (Raised e), tx_world tx_done [])"
  by (simp add: tx_run_done io_raise_def)

text \<open>A check fails after the packages were replaced, and the change is rolled back.\<close>

definition markers_only :: "(string \<Rightarrow> attempt_marker option) \<Rightarrow> (attempt_marker \<Rightarrow> bool) \<Rightarrow> files \<Rightarrow> bool" where
  "markers_only marker_read ok d \<longleftrightarrow> list_all (\<lambda>e. case snd e of
     File bytes \<Rightarrow> (case marker_read bytes of None \<Rightarrow> True | Some m \<Rightarrow> ok m) | _ \<Rightarrow> True) d"

lemma tx_run_late: "\<exists>d. tx_run (io_raise (m4_new ProjectChangedDuringApplyE)) inspect tx_disk [] =
    (Inl (Raised (m4_new ProjectChangedDuringApplyE)), tx_world d []) \<and>
    markers_only tx_marker_read (\<lambda>m. am_phase m \<noteq> FilesystemCommitted) d"
  by (simp add: calls tx_disk_def markers_only_def del: io_each.simps ensure_directories.simps first_completed.simps cong: weak_congs)

lemma markers_only_in:
  assumes "markers_only (en_marker_read G) ok d" and "marker_in G a d = Some m"
  shows "ok m"
proof -
  obtain n bytes where "entry_at d (a @ [n]) = Some (File bytes)" "en_marker_read G bytes = Some m"
    using assms(2) by (auto simp: marker_in_def split: option.splits node.splits if_splits)
  then have "\<exists>e \<in> set d. snd e = File bytes"
    by (metis map_of_SomeD snd_conv)
  then show ?thesis
    using assms(1) \<open>en_marker_read G bytes = Some m\<close> by (fastforce simp: markers_only_def list_all_iff)
qed

lemma tx_dir: "transaction_dir tx_uuid tx_root (OperationId 0) = [''p'', ''Library'', ''ALCOMD'', ''transactions'', ''op'']"
  by (simp add: transaction_dir_def tx_root_def tx_uuid_def operation_id_to_string.simps)

abbreviation tx_quiet :: "(unit, nat) engine" where
  "tx_quiet \<equiv> tx_engine (io_return ()) (io_return 7)"

lemma tx_quiet_ok: "engine_ok tx_quiet tx_plan"
  by (intro tx_engine_ok) (simp_all add: reads_only_preserves keeps)

lemma tx_seen: "seen (\<lambda>v. v = d) (tx_world d fs)"
  by (simp add: seen_def tx_world_def)

lemma tx_stops:
  "restarts (tx_engine late inspect) tx_root ''key'' (OperationId 0) tx_plan tx_disk tx_stopped"
  "restarts (tx_engine late inspect) tx_root ''key'' (OperationId 0) tx_plan tx_disk tx_early"
  using restarts.again [OF restarts.before tx_seen tx_run_stopped] restarts.again [OF restarts.before tx_seen tx_run_early]
  by (simp_all add: tx_world_def)

section \<open>Witnesses\<close>

theorem restart_restores_project_witness:
  "\<exists>d. io_then (prepare_transaction_root tx_uuid tx_root (OperationId 0)) (recover_attempts tx_quiet tx_root tx_plan)
      (tx_world tx_stopped []) = (Inr None, tx_world d []) \<and>
    entry_at tx_stopped [''p'', ''Packages'', ''a'', ''f''] = None \<and>
    entry_at d [''p'', ''Packages'', ''a'', ''f''] = Some (File ''a1'')"
proof -
  obtain d where run: "io_then (prepare_transaction_root tx_uuid tx_root (OperationId 0))
      (recover_attempts tx_quiet tx_root tx_plan) (tx_world tx_stopped []) = (Inr None, tx_world d [])"
    using tx_recovers by blast
  have "entry_at (disk (tx_world d [])) [''p'', ''Packages'', ''a'', ''f''] = entry_at tx_disk [''p'', ''Packages'', ''a'', ''f'']"
    by (rule restart_restores_project [OF tx_quiet_ok tx_places tx_fresh tx_stops(1) tx_seen])
      (use run in \<open>simp_all add: tx_engine_parts tx_dir parallel_def\<close>)
  then show ?thesis
    using run by (intro exI [of _ d]) (simp add: tx_world_def tx_disk_def tx_stopped_def nm_fold nm_eq)
qed

theorem failed_operation_keeps_project_witness:
  "\<exists>d. tx_run (io_raise (m4_new ProjectChangedDuringApplyE)) (io_return 7) tx_disk [] =
      (Inl (Raised (m4_new ProjectChangedDuringApplyE)), tx_world d []) \<and>
    entry_at d [''p'', ''Packages'', ''a'', ''f''] = Some (File ''a1'')"
proof -
  let ?G = "tx_engine (io_raise (m4_new ProjectChangedDuringApplyE)) (io_return 7)"
  obtain d where run: "tx_run (io_raise (m4_new ProjectChangedDuringApplyE)) (io_return 7) tx_disk [] =
      (Inl (Raised (m4_new ProjectChangedDuringApplyE)), tx_world d [])"
    and d: "markers_only tx_marker_read (\<lambda>m. am_phase m \<noteq> FilesystemCommitted) d"
    using tx_run_late by blast
  have ok: "engine_ok ?G tx_plan"
    by (intro tx_engine_ok) (simp_all add: reads_only_preserves keeps)
  have "\<not> committed_in ?G a d" for a
    using markers_only_in [of ?G "\<lambda>m. am_phase m \<noteq> FilesystemCommitted" d a] d
    by (auto simp: committed_in_def tx_engine_parts split: option.splits)
  then have "entry_at (disk (tx_world d [])) [''p'', ''Packages'', ''a'', ''f''] = entry_at tx_disk [''p'', ''Packages'', ''a'', ''f'']"
    by (intro failed_operation_keeps_project [OF ok tx_places tx_fresh restarts.before tx_seen run])
      (simp_all add: tx_engine_parts tx_dir parallel_def m4_new_def, simp add: tx_world_def)
  then show ?thesis
    using run by (intro exI [of _ d]) (simp add: tx_world_def tx_disk_def)
qed

theorem completed_operation_is_in_place_witness:
  "tx_run (io_return ()) (io_return 7) tx_disk [] = (Inr 7, tx_world tx_done []) \<and> in_place tx_quiet tx_root tx_plan tx_done"
proof -
  have run: "tx_run (io_return ()) (io_return 7) tx_disk [] = (Inr 7, tx_world tx_done [])"
    by (simp add: tx_run_done io_return_def)
  from completed_operation_is_in_place [OF tx_quiet_ok tx_places tx_fresh restarts.before tx_seen run] run
  show ?thesis
    by (simp add: tx_world_def)
qed

theorem operation_touches_only_planned_places_witness:
  "entry_at tx_stopped [''p'', ''Packages'', ''manifest.json''] = entry_at tx_disk [''p'', ''Packages'', ''manifest.json'']"
  by (rule operation_touches_only_planned_places [OF tx_quiet_ok tx_places tx_fresh tx_stops(1)])
    (simp_all add: tx_engine_parts tx_dir [unfolded tx_root_def] parallel_def planned_def tx_plan_parts tx_target tx_root_def
      packages_dir_def vpm_manifest_path_def)

theorem marker_read_back_witness:
  "\<exists>w'. write_marker tx_quiet (tx_in []) (marker_of tx_uuid tx_plan Extracted Completed) 2
      (tx_world (put_entry (tx_in [marker_name 1]) (File ''Hc'') tx_early) []) = (Inr (), w') \<and>
    fst (read_marker tx_quiet (tx_in []) w') = Inr (marker_of tx_uuid tx_plan Extracted Completed)"
proof -
  let ?w = "tx_world (put_entry (tx_in [marker_name 1]) (File ''Hc'') tx_early) []"
  obtain w' where run: "write_marker tx_quiet (tx_in []) (marker_of tx_uuid tx_plan Extracted Completed) 2 ?w = (Inr (), w')"
    by (simp add: calls tx_early_def del: io_each.simps ensure_directories.simps first_completed.simps cong: weak_congs)
  have "markers_upto (tx_in []) 1 tx_early"
    by (auto simp: markers_upto_def tx_early_def nm_eq nm_tests split: if_splits)
  then have "markers_upto (tx_in []) 2 (disk ?w)"
    using markers_upto_mono [OF markers_upto_put [of "tx_in []" 1 tx_early "File ''Hc''"], of 2] by (simp add: tx_world_def)
  then have "fst (read_marker tx_quiet (tx_in []) w') = Inr (marker_of tx_uuid tx_plan Extracted Completed)"
    by (rule marker_read_back [OF tx_marker_fits _ _ _ run])
      (simp_all add: tx_world_def put_entry_def tx_early_def nm_eq nm_numbered)
  with run show ?thesis
    by blast
qed

theorem unmarked_attempt_blocks_witness:
  "restarts tx_quiet tx_root ''key'' (OperationId 0) tx_plan tx_disk tx_early \<and>
   unmarked_attempt tx_quiet (transaction_dir tx_uuid tx_root (OperationId 0)) tx_early \<and>
   (case fst (tx_run (io_return ()) (io_return 7) tx_early []) of
      Inl (Raised e) \<Rightarrow> me_code e = RecoveryRequiredE | Inl Stopped \<Rightarrow> True | Inr _ \<Rightarrow> False)"
proof -
  let ?quiet = "\<lambda>m. \<not> live (Some m)"
  have "markers_only (en_marker_read tx_quiet) ?quiet tx_early"
    by (simp add: markers_only_def tx_early_def tx_engine_parts tx_marker_read_def tx_phases_def live_def changing_def)
  then have quiet: "\<not> live (marker_in tx_quiet a tx_early)" for a
    using markers_only_in [of tx_quiet ?quiet tx_early a] by (cases "marker_in tx_quiet a tx_early") (auto simp: live_def)
  have none: "marker_in tx_quiet (transaction_dir tx_uuid tx_root (OperationId 0) @ [nm 7]) tx_early = None"
    by (simp add: marker_in_def names_in_def tx_dir tx_early_def nm_fold nm_eq nm_tests latest_def)
  have attempt: "starts_with ''attempt-'' (nm 7) \<and> entry_at tx_early (transaction_dir tx_uuid tx_root (OperationId 0) @ [nm 7]) \<noteq> None"
    by (simp add: nm_tests tx_dir tx_early_def nm_fold nm_eq)
  have unmarked: "unmarked_attempt tx_quiet (transaction_dir (en_uuid tx_quiet) tx_root (OperationId 0)) tx_early"
    unfolding unmarked_attempt_def tx_engine_parts using quiet none attempt by blast
  obtain r w' where run: "tx_run (io_return ()) (io_return 7) tx_early [] = (r, w')"
    by (cases "tx_run (io_return ()) (io_return 7) tx_early []")
  have reads: "engine_reads tx_quiet"
    using tx_quiet_ok by (simp add: engine_ok_def)
  from unmarked_attempt_blocks [OF reads unmarked restarts.before tx_seen run]
  show ?thesis
    using tx_stops(2) unmarked by (simp add: run tx_engine_parts)
qed

end
