(* ===== verification/Spec2Isabelle.thy ===== *)
theory Spec2Isabelle
  imports Access Locks ProjectChange ResolverOrder Candidates OperationRecovery OperationColumns
    WorkerRuns TransactionWitnesses
begin

text \<open>
  A verification library for ALCOMD, a manager of VRChat projects and packages written in Rust.  The
  program is a daemon: \<open>crates/alcomd-domain\<close> holds the values, \<open>crates/alcomd-application\<close> the use
  cases with access control and resource locks, \<open>crates/alcomd-vpm\<close> the package resolver and the
  evidence behind the candidate lists, \<open>crates/alcomd-store\<close> the SQLite database with its operation
  ledger, events and logs.  A request of a client passes the access check, takes its locks, and
  either reads the database or creates a durable operation that a worker carries out and that is
  recovered after a restart.

  The theories, in the order of their dependencies:
  \<^item> \<open>Prelude\<close>: results as sums with the operators of \<open>Result\<close>, Rust's \<open>Ordering\<close>, comparators as the
    locale \<open>cmp_preorder\<close>, stable sorting, and the \<open>yields\<close> rules for what a computation guarantees.
  \<^item> \<open>BTree\<close>: \<open>BTreeMap\<close> as a sorted association list.  \<open>RustStrings\<close>: the string functions in use.
  \<^item> \<open>Domain\<close> (\<open>alcomd-domain/src/lib.rs\<close>): identifiers, the operation lifecycle, revisions,
    principals, idempotency keys, permissions and the canonical bytes of resource keys.
  \<^item> \<open>Access\<close> (\<open>alcomd-application/src/lib.rs\<close>): what a caller may do, and the error categories.
  \<^item> \<open>Locks\<close> (\<open>ResourceCoordinator\<close>): the table of weak locks and the acquisition of several locks by
    concurrent tasks, as interleaved actions; mutual exclusion and freedom from deadlock.
  \<^item> \<open>Semver\<close>, \<open>Range\<close>, \<open>RangeCanonical\<close> (\<open>alcomd-vpm/src/range.rs\<close>), \<open>Unity\<close>
    (\<open>unity_version.rs\<close>): version ranges, their canonical text, Unity versions.
  \<^item> \<open>Resolver\<close>, \<open>Catalog\<close>, \<open>ResolverSound\<close>, \<open>ProjectChange\<close>, \<open>ResolverOrder\<close>
    (\<open>resolver.rs\<close>): the backtracking search, the reading of the catalog, soundness of solutions,
    the rules of project changes, and independence of the catalog order.
  \<^item> \<open>Candidates\<close> (\<open>candidates.rs\<close>, \<open>m7_candidates_types.rs\<close>): the evidence shown for a package.
  \<^item> \<open>OperationLogs\<close> (\<open>operation_logs.rs\<close> of the application and of the store), \<open>OperationStore\<close>
    (\<open>alcomd-store/src/sqlite.rs\<close>): the log table and the tables \<open>operations\<close>, \<open>operation_journal\<close>,
    \<open>events\<close> and \<open>idempotency_records\<close> as lists of rows, with every function of the store worker on
    them.  A transaction is a function to a result; an error is a rollback.
  \<^item> \<open>OperationLedger\<close>: the invariant of the tables and the effect of each function.
    \<open>OperationProperties\<close>: the ledger as a state machine and the abstract operation table it refines.
    \<open>OperationClaims\<close>, \<open>OperationRecovery\<close>, \<open>OperationColumns\<close>: its properties.
    \<open>Pages\<close>, \<open>OperationPages\<close>: the contract of a paged query as the locale \<open>pager\<close>, interpreted by
    \<open>list_operations\<close> and \<open>list_events\<close>.
  \<^item> \<open>Worker\<close>, \<open>WorkerRuns\<close> (\<open>alcomd-application/src/lib.rs\<close>): the port \<open>StateStore\<close> as a record of
    functions, the use cases over it, the worker of a state check as one step per store call, and what
    the worker relies on as the locale \<open>state_store\<close>, interpreted by the ledger.  Among other commands
    a worker that returns has ended its operation; undisturbed, it returns, with the cancellation or
    the findings of the checks recorded, unless the store refuses a call (\<open>settles\<close>).

  \<^item> \<open>ProjectFiles\<close>, \<open>PackageTransaction\<close>, \<open>PackageAttempts\<close> (\<open>alcomd-vpm/src/engine.rs\<close>, with \<open>removal_path\<close> of
    \<open>legacy.rs\<close> and \<open>validate_segment\<close> of \<open>archive.rs\<close>): a file tree with the calls of \<open>std::fs\<close> the
    engine makes; staging, replacing packages, committing the manifest, moving legacy assets, the final
    verification and the rollback; the markers of an attempt, \<open>execute\<close> and \<open>recover_attempts\<close>.
    \<open>TransactionRollback\<close>, \<open>TransactionForward\<close>: the old content of every place of the plan is in one
    known place at any moment, and rolling back puts it there.  \<open>TransactionMarkers\<close>: the latest
    marker, and which calls leave it alone.  \<open>TransactionAttempt\<close>, \<open>TransactionRun\<close>,
    \<open>TransactionHistory\<close>: the latest marker is truthful in every run, over any number of restarts
    (\<open>restarts\<close>).  \<open>TransactionClaims\<close>, \<open>TransactionDemo\<close>, \<open>TransactionWitnesses\<close>: the properties, a
    small project with its plan, and runs on it.

  Errors are values of the source's error enumerations, in \<open>Inl\<close>.  Integers that can overflow are
  words; texts are lists of bytes.  Code outside the repository is a parameter with its documented
  behaviour as hypotheses: the \<open>uuid\<close> crate (\<open>uuid_laws\<close>: printing and parsing are inverse), the
  \<open>semver\<close> crate (\<open>semver_laws\<close>), \<open>serde_json\<close>, \<open>url\<close>, SHA-256, \<open>std::path\<close> and lower-casing of
  Unicode text.  Random ids are drawn from a supply.  Recursions are structural or come with a
  termination proof; \<open>follow_pages\<close> has fuel, and more fuel than there are rows is enough.

  A run of a package operation is given a list of fates, one for each call that changes or synchronises
  files: the call proceeds, is refused, or the process stops there; a refused or stopped write or
  recursive removal may have been made in part.  A computation ends with a value, with an error that
  was raised, or stopped.  The parts of the crate that an operation calls but that are not modelled
  are the fields of the record \<open>engine\<close>, and \<open>engine_ok\<close> states what is relied on: all of them leave the
  project alone except extraction, which fills the staging directory only and leaves a directory for
  each package; the text of a marker is read back and none of its proper prefixes is a marker.
  \<open>plan_ok\<close> asks that the mutations and removals of a plan name different places, not one inside
  another and not the names the rollback uses itself.  \<open>fresh_project\<close> asks that the operation has no
  attempts yet and that every file has a parent directory.  Between two runs nobody else changes the
  files.  A stop loses nothing that a call has already done: updates of a directory that were not
  synchronised are not taken back.  The lookups of metadata succeed (\<open>unreadable = []\<close>, in \<open>seen\<close> and
  \<open>restarts\<close>); when one fails, \<open>Path::exists\<close> reports an absent path and a rollback passes over a
  backup (\<open>unreadable_backup_skipped\<close>).  What is said to stay as it was leaves aside the ancestors of
  the directory of the operation, which the operation creates where they are missing.

  Not modelled: SQL text and \<open>CHECK\<close> constraints beyond keys (lengths and JSON validity), opening and
  migrating the database, the tables of the other store modules (what the ledger reads of them is a
  parameter), making a plan, downloads and caches, archives, the engines of backups, copies, project
  creation and migration, HTTP, the socket protocol, the desktop shell, the command line and the
  extension host.
\<close>

end
